(* ===== verification/Prelude.thy ===== *)
theory Prelude
  imports Main "HOL-Library.Word" "HOL-Library.Multiset"
begin

text \<open>
  What every component shares: the machine types (\<open>u8\<close>, \<open>u32\<close>, \<open>u64\<close>, \<open>i64\<close>, which is a 64-bit word read
  with \<open>sint\<close>, and the 128-bit item id), Rust's saturating arithmetic, the list operations behind \<open>Vec::iter_mut().find\<close>,
  \<open>retain\<close> and \<open>drain\<close>, positional numerals (used for byte order, decimal printing and the
  recovery kit), and the interface of a bounded append-only log.
\<close>

named_theorems model_defs \<open>definitions a component proof usually unfolds\<close>
named_theorems wf_intros \<open>preservation of a well-formedness invariant by one operation\<close>

type_synonym u8 = "8 word"
type_synonym u32 = "32 word"
type_synonym u64 = "64 word"
type_synonym i64 = "64 word"
type_synonym uuid = "128 word"
type_synonym bytes = string

section \<open>Saturating arithmetic on unsigned words\<close>

definition sat_sub :: "'a::len word \<Rightarrow> 'a word \<Rightarrow> 'a word" where
  "sat_sub a b = (if a < b then 0 else a - b)"

definition sat_add :: "'a::len word \<Rightarrow> 'a word \<Rightarrow> 'a word" where
  "sat_add a b = (if unat a + unat b < 2 ^ LENGTH('a) then a + b else - 1)"

lemma unat_sat_sub: "unat (sat_sub a b) = unat a - unat b"
proof (cases "a < b")
  case True
  then have "unat a < unat b" by (simp add: word_less_nat_alt)
  with True show ?thesis by (simp add: sat_sub_def)
next
  case False
  then show ?thesis by (simp add: sat_sub_def unat_sub)
qed

lemma unat_max_word: "unat (- 1 :: 'a::len word) = 2 ^ LENGTH('a) - 1"
  by (simp add: unsigned_minus_1_eq_mask mask_eq_exp_minus_1)

lemma unat_sat_add:
  "unat (sat_add a b) = min (unat a + unat b) (2 ^ LENGTH('a) - 1)" for a b :: "'a::len word"
proof (cases "unat a + unat b < 2 ^ LENGTH('a)")
  case True
  then have "unat (a + b) = unat a + unat b" by (simp add: unat_add_lem)
  with True show ?thesis by (simp add: sat_add_def)
next
  case False
  then show ?thesis by (simp add: sat_add_def unat_max_word)
qed

lemma sat_add_ge: "a \<le> sat_add a b" for a b :: "'a::len word"
proof -
  have "unat a < 2 ^ LENGTH('a)" by simp
  then have "unat a \<le> 2 ^ LENGTH('a) - 1" by linarith
  then show ?thesis by (simp add: word_le_nat_alt unat_sat_add)
qed

lemma sat_sub_le: "sat_sub a b \<le> a"
  by (simp add: word_le_nat_alt unat_sat_sub)

section \<open>Lists: the first element that satisfies a predicate\<close>

fun update_first :: "('a \<Rightarrow> bool) \<Rightarrow> ('a \<Rightarrow> 'a) \<Rightarrow> 'a list \<Rightarrow> 'a list" where
  "update_first P f [] = []"
| "update_first P f (x # xs) = (if P x then f x # xs else x # update_first P f xs)"

fun remove_first :: "('a \<Rightarrow> bool) \<Rightarrow> 'a list \<Rightarrow> 'a list" where
  "remove_first P [] = []"
| "remove_first P (x # xs) = (if P x then xs else x # remove_first P xs)"

lemma length_update_first [simp]: "length (update_first P f xs) = length xs"
  by (induction xs) auto

lemma update_first_none: "\<not> (\<exists>x \<in> set xs. P x) \<Longrightarrow> update_first P f xs = xs"
  by (induction xs) auto

lemma remove_first_none: "\<not> (\<exists>x \<in> set xs. P x) \<Longrightarrow> remove_first P xs = xs"
  by (induction xs) auto

lemma map_update_first:
  "(\<And>x. P x \<Longrightarrow> g (f x) = g x) \<Longrightarrow> map g (update_first P f xs) = map g xs"
  by (induction xs) auto

lemma find_update_first:
  "find P xs = Some x \<Longrightarrow> P (f x) \<Longrightarrow> find P (update_first P f xs) = Some (f x)"
  by (induction xs) (auto split: if_splits)

lemma find_update_first_other:
  "(\<And>x. P x \<Longrightarrow> \<not> Q x \<and> \<not> Q (f x)) \<Longrightarrow> find Q (update_first P f xs) = find Q xs"
  by (induction xs) auto

lemma set_update_first_subset: "set (update_first P f xs) \<subseteq> set xs \<union> f ` {x \<in> set xs. P x}"
  by (induction xs) auto

lemma set_remove_first_subset: "set (remove_first P xs) \<subseteq> set xs"
  by (induction xs) auto

lemma find_remove_first_other:
  "(\<And>x. P x \<Longrightarrow> \<not> Q x) \<Longrightarrow> find Q (remove_first P xs) = find Q xs"
  by (induction xs) auto

lemma distinct_map_remove_first: "distinct (map g xs) \<Longrightarrow> distinct (map g (remove_first P xs))"
proof (induction xs)
  case (Cons x xs)
  have "g ` set (remove_first P xs) \<subseteq> g ` set xs"
    by (rule image_mono) (rule set_remove_first_subset)
  with Cons show ?case by auto
qed simp

lemma mset_remove_first: "find P xs = Some x \<Longrightarrow> mset xs = add_mset x (mset (remove_first P xs))"
  by (induction xs) (auto split: if_splits)

lemma length_remove_first: "find P xs = Some x \<Longrightarrow> Suc (length (remove_first P xs)) = length xs"
  by (induction xs) (auto split: if_splits)

lemma find_None_filter: "find P xs = None \<longleftrightarrow> filter P xs = []"
  by (auto simp: find_None_iff filter_empty_conv)

lemma find_Some_set: "find P xs = Some x \<Longrightarrow> x \<in> set xs \<and> P x"
  by (metis find_Some_iff nth_mem)

lemma find_append: "find P (xs @ ys) = (case find P xs of None \<Rightarrow> find P ys | Some x \<Rightarrow> Some x)"
  by (induction xs) auto

lemma find_key_iff:
  "distinct (map key xs) \<Longrightarrow> find (\<lambda>x. key x = k) xs = Some x \<longleftrightarrow> x \<in> set xs \<and> key x = k"
  by (induction xs) (auto simp: image_iff)

lemma find_key_None: "find (\<lambda>x. key x = k) xs = None \<longleftrightarrow> k \<notin> key ` set xs"
  by (auto simp: find_None_iff)

lemma key_notin_remove_first:
  "distinct (map key xs) \<Longrightarrow> k \<notin> key ` set (remove_first (\<lambda>x. key x = k) xs)"
  by (induction xs) auto

lemma remove_first_filter:
  "distinct (map key xs) \<Longrightarrow> remove_first (\<lambda>x. key x = k) xs = filter (\<lambda>x. key x \<noteq> k) xs"
proof (induction xs)
  case (Cons x xs)
  have "filter (\<lambda>y. key y \<noteq> k) xs = xs" if "key x = k"
    using Cons.prems that by (intro filter_True) (metis distinct.simps(2) image_eqI list.map(2) list.set_map)
  with Cons show ?case by simp
qed simp

lemma find_filter_key: "k \<noteq> j \<Longrightarrow> find (\<lambda>x. key x = k) (filter (\<lambda>x. key x \<noteq> j) xs) = find (\<lambda>x. key x = k) xs"
  by (induction xs) auto

lemma distinct_map_filter_key: "distinct (map key xs) \<Longrightarrow> distinct (map key (filter P xs))"
  by (rule distinct_map_filter)

section \<open>Positional numerals\<close>

text \<open>
  \<open>lsd_digits b k n\<close> is what \<open>k\<close> rounds of "push \<open>n % b\<close>, then \<open>n /= b\<close>" produce;
  \<open>msd_digits\<close> is the same after the final \<open>reverse\<close>, and \<open>msd_value\<close> the accumulation
  \<open>v * b + d\<close> that reads such a numeral back.
\<close>

fun lsd_digits :: "nat \<Rightarrow> nat \<Rightarrow> nat \<Rightarrow> nat list" where
  "lsd_digits b 0 n = []"
| "lsd_digits b (Suc k) n = (n mod b) # lsd_digits b k (n div b)"

definition msd_digits :: "nat \<Rightarrow> nat \<Rightarrow> nat \<Rightarrow> nat list" where
  "msd_digits b k n = rev (lsd_digits b k n)"

definition msd_value :: "nat \<Rightarrow> nat list \<Rightarrow> nat" where
  "msd_value b ds = foldl (\<lambda>v d. v * b + d) 0 ds"

lemma msd_value_Nil [simp]: "msd_value b [] = 0"
  by (simp add: msd_value_def)

lemma msd_value_snoc [simp]: "msd_value b (ds @ [d]) = msd_value b ds * b + d"
  by (simp add: msd_value_def)

lemma length_lsd_digits [simp]: "length (lsd_digits b k n) = k"
  by (induction k arbitrary: n) auto

lemma length_msd_digits [simp]: "length (msd_digits b k n) = k"
  by (simp add: msd_digits_def)

lemma msd_digits_Suc: "msd_digits b (Suc k) n = msd_digits b k (n div b) @ [n mod b]"
  by (simp add: msd_digits_def)

lemma msd_digits_0 [simp]: "msd_digits b 0 n = []"
  by (simp add: msd_digits_def)

lemma msd_digits_less: "0 < b \<Longrightarrow> d \<in> set (msd_digits b k n) \<Longrightarrow> d < b"
  by (induction k arbitrary: n) (auto simp: msd_digits_Suc)

lemma msd_value_digits: "0 < b \<Longrightarrow> msd_value b (msd_digits b k n) = n mod b ^ k"
proof (induction k arbitrary: n)
  case 0
  then show ?case by simp
next
  case (Suc k)
  have "msd_value b (msd_digits b (Suc k) n) = (n div b) mod b ^ k * b + n mod b"
    using Suc by (simp add: msd_digits_Suc)
  also have "\<dots> = n mod b ^ Suc k"
    by (simp add: mod_mult2_eq mult.commute)
  finally show ?case .
qed

lemma msd_value_less: "0 < b \<Longrightarrow> \<forall>d \<in> set ds. d < b \<Longrightarrow> msd_value b ds < b ^ length ds"
proof (induction ds rule: rev_induct)
  case Nil
  then show ?case by simp
next
  case (snoc d ds)
  then have "Suc (msd_value b ds) \<le> b ^ length ds" and d: "d < b" by auto
  from this(1) have "Suc (msd_value b ds) * b \<le> b ^ length ds * b" by (rule mult_le_mono1)
  with d show ?case by (simp add: mult.commute)
qed

lemma msd_value_Cons: "msd_value b (d # ds) = d * b ^ length ds + msd_value b ds"
proof (induction ds rule: rev_induct)
  case Nil
  then show ?case by (simp add: msd_value_def)
next
  case (snoc x ds)
  have "msd_value b (d # ds @ [x]) = msd_value b (d # ds) * b + x"
    using msd_value_snoc [of b "d # ds" x] by simp
  with snoc show ?case by (simp add: algebra_simps)
qed

lemma msd_digits_value: "0 < b \<Longrightarrow> \<forall>d \<in> set ds. d < b \<Longrightarrow> msd_digits b (length ds) (msd_value b ds) = ds"
  by (induction ds rule: rev_induct) (auto simp: msd_digits_Suc)

lemma msd_value_inj:
  "0 < b \<Longrightarrow> \<forall>d \<in> set ds. d < b \<Longrightarrow> \<forall>d \<in> set es. d < b \<Longrightarrow> length ds = length es \<Longrightarrow>
    msd_value b ds = msd_value b es \<Longrightarrow> ds = es"
  by (metis msd_digits_value)

section \<open>Bytes: big-endian integers\<close>

abbreviation code :: "char \<Rightarrow> nat" where
  "code c \<equiv> of_char c"

lemma code_less [simp]: "code c < 256"
  by simp

lemma char_of_code [simp]: "char_of (code c) = c"
  by simp

lemma code_char_of: "n < 256 \<Longrightarrow> code (char_of n) = n"
  by simp

lemma code_inject: "code c = code d \<longleftrightarrow> c = d"
  by (metis char_of_code)

definition be_nat :: "bytes \<Rightarrow> nat" where
  "be_nat bs = msd_value 256 (map code bs)"

definition nat_be :: "nat \<Rightarrow> nat \<Rightarrow> bytes" where
  "nat_be k n = map char_of (msd_digits 256 k n)"

lemma length_nat_be [simp]: "length (nat_be k n) = k"
  by (simp add: nat_be_def)

lemma be_nat_nat_be: "be_nat (nat_be k n) = n mod 256 ^ k"
proof -
  have "map (code \<circ> char_of) (msd_digits 256 k n) = msd_digits 256 k n"
    by (rule map_idI) (simp add: code_char_of msd_digits_less)
  then show ?thesis by (simp add: be_nat_def nat_be_def msd_value_digits)
qed

lemma nat_be_be_nat: "nat_be (length bs) (be_nat bs) = bs"
  using msd_digits_value [of 256 "map code bs"] by (simp add: nat_be_def be_nat_def comp_def)

lemma be_nat_less: "be_nat bs < 256 ^ length bs"
  using msd_value_less [of 256 "map code bs"] by (simp add: be_nat_def)

definition uuid_bytes :: "uuid \<Rightarrow> bytes" where
  "uuid_bytes u = nat_be 16 (unat u)"

lemma uuid_bytes_inj: "uuid_bytes u = uuid_bytes v \<longleftrightarrow> u = v"
proof
  assume "uuid_bytes u = uuid_bytes v"
  then have "be_nat (uuid_bytes u) = be_nat (uuid_bytes v)" by simp
  moreover have "unat w mod 256 ^ 16 = unat w" for w :: uuid
  proof -
    have "unat w < 2 ^ LENGTH(128)" by (rule unsigned_less)
    then show ?thesis by simp
  qed
  ultimately have "unat u = unat v"
    by (simp add: uuid_bytes_def be_nat_nat_be)
  then show "u = v" by (rule word_unat_eq_iff [THEN iffD2])
qed simp

section \<open>Bounded append-only logs\<close>

text \<open>
  \<open>push\<close> then, past the capacity, \<open>drain(..excess)\<close>: the vault's audit records and the
  broker's audit log are both this. The contract is one equation; what clients rely on
  follows from it once.
\<close>

definition keep_last :: "nat \<Rightarrow> 'e list \<Rightarrow> 'e list" where
  "keep_last cap xs = (if length xs > cap then drop (length xs - cap) xs else xs)"

lemma keep_last_drop: "keep_last cap xs = drop (length xs - cap) xs"
  by (simp add: keep_last_def)

lemma length_keep_last: "length (keep_last cap xs) = min (length xs) cap"
  by (simp add: keep_last_drop)

lemma set_keep_last: "set (keep_last cap xs) \<subseteq> set xs"
  by (simp add: keep_last_drop set_drop_subset)

lemma keep_last_id: "length xs \<le> cap \<Longrightarrow> keep_last cap xs = xs"
  by (simp add: keep_last_def)

lemma keep_last_append: "keep_last cap (keep_last cap xs @ ys) = keep_last cap (xs @ ys)"
proof (cases "length xs \<le> cap")
  case True
  then show ?thesis by (simp add: keep_last_id)
next
  case False
  then have "length xs + length ys - cap = (length xs - cap) + length ys" by simp
  with False show ?thesis by (simp add: keep_last_drop add.commute)
qed

locale bounded_log =
  fixes push :: "'e \<Rightarrow> 'l \<Rightarrow> 'l"
    and entries :: "'l \<Rightarrow> 'e list"
    and cap :: nat
  assumes entries_push: "entries (push e l) = keep_last cap (entries l @ [e])"
begin

lemma push_bounded: "length (entries (push e l)) \<le> cap"
  by (simp add: entries_push length_keep_last)

lemma push_newest: "0 < cap \<Longrightarrow> last (entries (push e l)) = e"
  by (simp add: entries_push keep_last_drop last_drop)

lemma push_never_rewrites: "\<exists>dropped. entries l @ [e] = dropped @ entries (push e l)"
  unfolding entries_push keep_last_drop by (metis append_take_drop_id)

lemma entries_fold_push:
  "length (entries l) \<le> cap \<Longrightarrow> entries (fold push es l) = keep_last cap (entries l @ es)"
proof (induction es arbitrary: l)
  case Nil
  then show ?case by (simp add: keep_last_id)
next
  case (Cons e es)
  have "entries (fold push es (push e l)) = keep_last cap (entries (push e l) @ es)"
    by (rule Cons.IH) (rule push_bounded)
  then show ?case by (simp add: entries_push keep_last_append)
qed

end

end
