(* ===== verification/Rust_Text.thy ===== *)
theory Rust_Text
  imports Prelude
begin

text \<open>
  Rust's \<open>str\<close>: a \<open>string\<close> of this development is its UTF-8 bytes, so \<open>length\<close> is
  \<open>str::len\<close> and the ASCII operations work byte by byte as they do in Rust. \<open>chars\<close>
  splits the bytes into scalar values (each as its own encoding), which is what
  \<open>trim\<close> and \<open>chars().count()\<close> look at. \<open>to_lowercase\<close> of the full Unicode tables is not
  modelled here; definitions that need it take it as an argument.
\<close>

section \<open>ASCII classes and case\<close>

definition is_ascii_lowercase :: "char \<Rightarrow> bool" where
  "is_ascii_lowercase c \<longleftrightarrow> 97 \<le> code c \<and> code c \<le> 122"

definition is_ascii_uppercase :: "char \<Rightarrow> bool" where
  "is_ascii_uppercase c \<longleftrightarrow> 65 \<le> code c \<and> code c \<le> 90"

definition is_ascii_digit :: "char \<Rightarrow> bool" where
  "is_ascii_digit c \<longleftrightarrow> 48 \<le> code c \<and> code c \<le> 57"

definition is_ascii_alphanumeric :: "char \<Rightarrow> bool" where
  "is_ascii_alphanumeric c \<longleftrightarrow> is_ascii_lowercase c \<or> is_ascii_uppercase c \<or> is_ascii_digit c"

definition is_ascii :: "char \<Rightarrow> bool" where
  "is_ascii c \<longleftrightarrow> code c < 128"

definition ascii_lower :: "char \<Rightarrow> char" where
  "ascii_lower c = (if is_ascii_uppercase c then char_of (code c + 32) else c)"

definition ascii_upper :: "char \<Rightarrow> char" where
  "ascii_upper c = (if is_ascii_lowercase c then char_of (code c - 32) else c)"

definition to_ascii_lowercase :: "string \<Rightarrow> string" where
  "to_ascii_lowercase s = map ascii_lower s"

definition to_ascii_uppercase :: "string \<Rightarrow> string" where
  "to_ascii_uppercase s = map ascii_upper s"

definition eq_ignore_ascii_case :: "string \<Rightarrow> string \<Rightarrow> bool" where
  "eq_ignore_ascii_case a b \<longleftrightarrow> to_ascii_lowercase a = to_ascii_lowercase b"

lemma code_ascii_lower: "code (ascii_lower c) = (if 65 \<le> code c \<and> code c \<le> 90 then code c + 32 else code c)"
  by (simp add: ascii_lower_def is_ascii_uppercase_def)

lemma code_ascii_upper: "code (ascii_upper c) = (if 97 \<le> code c \<and> code c \<le> 122 then code c - 32 else code c)"
  using code_less [of c] by (simp add: ascii_upper_def is_ascii_lowercase_def del: code_less)

lemma ascii_lower_idem [simp]: "ascii_lower (ascii_lower c) = ascii_lower c"
  by (rule code_inject [THEN iffD1]) (simp add: code_ascii_lower)

lemma ascii_lower_upper [simp]: "ascii_lower (ascii_upper c) = ascii_lower c"
  by (rule code_inject [THEN iffD1]) (auto simp: code_ascii_lower code_ascii_upper)

lemma to_ascii_lowercase_idem [simp]: "to_ascii_lowercase (to_ascii_lowercase s) = to_ascii_lowercase s"
  by (simp add: to_ascii_lowercase_def)

lemma eq_ignore_ascii_case_refl [simp]: "eq_ignore_ascii_case a a"
  by (simp add: eq_ignore_ascii_case_def)

lemma eq_ignore_ascii_case_sym: "eq_ignore_ascii_case a b \<Longrightarrow> eq_ignore_ascii_case b a"
  by (simp add: eq_ignore_ascii_case_def)

section \<open>Scalar values\<close>

text \<open>The width of the scalar a lead byte announces; a continuation byte never leads in valid UTF-8.\<close>

definition utf8_width :: "char \<Rightarrow> nat" where
  "utf8_width b = (if code b < 192 then 1 else if code b < 224 then 2 else if code b < 240 then 3 else 4)"

fun chars :: "string \<Rightarrow> string list" where
  "chars [] = []"
| "chars (b # bs) = (b # take (utf8_width b - 1) bs) # chars (drop (utf8_width b - 1) bs)"

lemma concat_chars [simp]: "concat (chars s) = s"
  by (induction s rule: chars.induct) auto

lemma chars_nonempty: "c \<in> set (chars s) \<Longrightarrow> c \<noteq> []"
  by (induction s rule: chars.induct) auto

lemma utf8_width_ascii: "is_ascii b \<Longrightarrow> utf8_width b = 1"
  by (simp add: utf8_width_def is_ascii_def)

lemma chars_ascii_Cons: "is_ascii b \<Longrightarrow> chars (b # bs) = [b] # chars bs"
  by (simp add: utf8_width_ascii)

lemma chars_ascii: "\<forall>c \<in> set s. is_ascii c \<Longrightarrow> chars s = map (\<lambda>c. [c]) s"
  by (induction s) (auto simp: utf8_width_ascii)

lemma chars_eq_Nil [simp]: "chars s = [] \<longleftrightarrow> s = []"
  by (cases s) auto

definition chars_count :: "string \<Rightarrow> nat" where
  "chars_count s = length (chars s)"

text \<open>The scalar value (code point) of one encoded character, and the cast \<open>c as u8\<close>, which keeps its low byte.\<close>

fun scalar :: "string \<Rightarrow> nat" where
  "scalar [a] = code a"
| "scalar [a, b] = (code a mod 32) * 64 + code b mod 64"
| "scalar [a, b, c] = (code a mod 16) * 4096 + (code b mod 64) * 64 + code c mod 64"
| "scalar [a, b, c, d] =
     (code a mod 8) * 262144 + (code b mod 64) * 4096 + (code c mod 64) * 64 + code d mod 64"
| "scalar _ = 65533"

definition as_u8 :: "nat \<Rightarrow> char" where
  "as_u8 n = char_of (n mod 256)"

lemma as_u8_scalar_byte [simp]: "as_u8 (code c) = c"
  by (simp add: as_u8_def)

text \<open>Unicode's White_Space property, each scalar as its UTF-8 encoding.\<close>

definition b3 :: "nat \<Rightarrow> nat \<Rightarrow> nat \<Rightarrow> string" where
  "b3 x y z = [char_of x, char_of y, char_of z]"

definition whitespace_chars :: "string list" where
  "whitespace_chars =
     map (\<lambda>n. [char_of n]) [9, 10, 11, 12, 13, 32 :: nat]
     @ [[char_of (194::nat), char_of (133::nat)], [char_of (194::nat), char_of (160::nat)], b3 225 154 128]
     @ map (b3 226 128) [128 ..< 139] @ [b3 226 128 168, b3 226 128 169, b3 226 128 175, b3 226 129 159, b3 227 128 128]"

definition is_whitespace :: "string \<Rightarrow> bool" where
  "is_whitespace c \<longleftrightarrow> c \<in> set whitespace_chars"

lemma is_whitespace_ascii:
  "is_whitespace [c] \<longleftrightarrow> code c \<in> {9, 10, 11, 12, 13, 32}"
proof -
  have "is_whitespace [c] \<longleftrightarrow> c \<in> char_of ` {9, 10, 11, 12, 13, 32 :: nat}"
    by (auto simp: is_whitespace_def whitespace_chars_def b3_def)
  also have "\<dots> \<longleftrightarrow> code c \<in> {9, 10, 11, 12, 13, 32}"
    by (auto simp: char_of_eq_iff) (metis char_of_code)+
  finally show ?thesis .
qed

definition trim_start :: "string \<Rightarrow> string" where
  "trim_start s = concat (dropWhile is_whitespace (chars s))"

definition trim_chars :: "string list \<Rightarrow> string list" where
  "trim_chars cs = rev (dropWhile is_whitespace (rev (dropWhile is_whitespace cs)))"

definition trim :: "string \<Rightarrow> string" where
  "trim s = concat (trim_chars (chars s))"

lemma trim_Nil [simp]: "trim [] = []"
  by (simp add: trim_def trim_chars_def)

lemma trim_chars_id:
  "cs = [] \<or> (\<not> is_whitespace (hd cs) \<and> \<not> is_whitespace (last cs)) \<Longrightarrow> trim_chars cs = cs"
proof (elim disjE)
  assume *: "\<not> is_whitespace (hd cs) \<and> \<not> is_whitespace (last cs)"
  show ?thesis
  proof (cases "cs = []")
    case False
    then have "dropWhile is_whitespace cs = cs"
      using * by (cases cs) auto
    moreover have "dropWhile is_whitespace (rev cs) = rev cs"
      using * False by (cases "rev cs") (auto simp: hd_rev [symmetric])
    ultimately show ?thesis by (simp add: trim_chars_def)
  qed (simp add: trim_chars_def)
qed (simp add: trim_chars_def)

lemma trim_no_whitespace: "\<forall>c \<in> set (chars s). \<not> is_whitespace c \<Longrightarrow> trim s = s"
  by (cases "chars s = []") (auto simp: trim_def trim_chars_id)

text \<open>\<open>trim\<close> is empty exactly when every scalar is white space.\<close>

lemma trim_empty_iff: "trim s = [] \<longleftrightarrow> (\<forall>c \<in> set (chars s). is_whitespace c)"
proof -
  have "trim_chars cs = [] \<longleftrightarrow> (\<forall>c \<in> set cs. is_whitespace c)" for cs
    by (auto simp: trim_chars_def dropWhile_eq_Nil_conv dest: set_dropWhileD)
      (metis dropWhile_eq_Nil_conv hd_dropWhile hd_in_set)+
  moreover have "c \<in> set (trim_chars cs) \<Longrightarrow> c \<in> set cs" for c cs
    by (auto simp: trim_chars_def dest!: set_dropWhileD)
  ultimately show ?thesis
    using chars_nonempty [of _ s] by (auto simp: trim_def)
qed

section \<open>Searching and splitting\<close>

definition starts_with :: "string \<Rightarrow> string \<Rightarrow> bool" where
  "starts_with s p \<longleftrightarrow> take (length p) s = p"

definition ends_with :: "string \<Rightarrow> string \<Rightarrow> bool" where
  "ends_with s p \<longleftrightarrow> length p \<le> length s \<and> drop (length s - length p) s = p"

definition strip_prefix :: "string \<Rightarrow> string \<Rightarrow> string option" where
  "strip_prefix p s = (if starts_with s p then Some (drop (length p) s) else None)"

fun str_contains :: "string \<Rightarrow> string \<Rightarrow> bool" where
  "str_contains [] p = (p = [])"
| "str_contains (c # cs) p = (starts_with (c # cs) p \<or> str_contains cs p)"

lemma starts_with_iff: "starts_with s p \<longleftrightarrow> (\<exists>r. s = p @ r)"
  by (metis append_eq_conv_conj append_take_drop_id starts_with_def)

lemma starts_with_append [simp]: "starts_with (p @ r) p"
  by (simp add: starts_with_def)

lemma strip_prefix_Some: "strip_prefix p s = Some r \<longleftrightarrow> s = p @ r"
  by (auto simp: strip_prefix_def starts_with_iff)

lemma str_contains_iff: "str_contains s p \<longleftrightarrow> (\<exists>a b. s = a @ p @ b)"
proof (induction s)
  case Nil
  then show ?case by simp
next
  case (Cons c cs)
  have "(\<exists>a b. c # cs = a @ p @ b) \<longleftrightarrow> (\<exists>b. c # cs = p @ b) \<or> (\<exists>a b. cs = a @ p @ b)"
    by (metis append_Cons append_Nil list.exhaust list.inject)
  with Cons.IH show ?case by (simp add: starts_with_iff)
qed

lemma str_contains_Nil [simp]: "str_contains s []"
  by (cases s) (simp_all add: starts_with_def)

text \<open>\<open>str::replace\<close> of a non-empty pattern: non-overlapping matches, left to right.\<close>

function str_replace :: "string \<Rightarrow> string \<Rightarrow> string \<Rightarrow> string" where
  "str_replace pat rep s =
     (if pat = [] \<or> s = [] then s
      else if starts_with s pat then rep @ str_replace pat rep (drop (length pat) s)
      else hd s # str_replace pat rep (tl s))"
  by pat_completeness auto
termination
  by (relation "measure (\<lambda>(pat, rep, s). length s)") auto

declare str_replace.simps [simp del]

text \<open>\<open>split(c)\<close>, and the pieces around the first and the last occurrence.\<close>

fun split_char :: "char \<Rightarrow> string \<Rightarrow> string list" where
  "split_char c [] = [[]]"
| "split_char c (x # xs) =
     (if x = c then [] # split_char c xs
      else (case split_char c xs of [] \<Rightarrow> [[x]] | y # ys \<Rightarrow> (x # y) # ys))"

lemma split_char_nonempty [simp]: "split_char c s \<noteq> []"
  by (induction s) (auto split: list.splits)

definition split_once :: "char \<Rightarrow> string \<Rightarrow> (string \<times> string) option" where
  "split_once c s = (if c \<in> set s then Some (takeWhile (\<lambda>x. x \<noteq> c) s, tl (dropWhile (\<lambda>x. x \<noteq> c) s)) else None)"

definition rsplit_once :: "char \<Rightarrow> string \<Rightarrow> (string \<times> string) option" where
  "rsplit_once c s = (case split_once c (rev s) of None \<Rightarrow> None | Some (a, b) \<Rightarrow> Some (rev b, rev a))"

text \<open>\<open>rsplit([..]).next()\<close>: what follows the last of the separators.\<close>

definition after_last :: "char set \<Rightarrow> string \<Rightarrow> string" where
  "after_last C s = rev (takeWhile (\<lambda>x. x \<notin> C) (rev s))"

lemma split_once_Some:
  "split_once c s = Some (a, b) \<longleftrightarrow> s = a @ c # b \<and> c \<notin> set a"
proof
  assume h: "split_once c s = Some (a, b)"
  then have "c \<in> set s" and a: "a = takeWhile (\<lambda>x. x \<noteq> c) s"
    and b: "b = tl (dropWhile (\<lambda>x. x \<noteq> c) s)"
    by (auto simp: split_once_def split: if_splits)
  then have ne: "dropWhile (\<lambda>x. x \<noteq> c) s \<noteq> []" by (auto simp: dropWhile_eq_Nil_conv)
  then have "hd (dropWhile (\<lambda>x. x \<noteq> c) s) = c" using hd_dropWhile by blast
  with ne b have "dropWhile (\<lambda>x. x \<noteq> c) s = c # b" by (cases "dropWhile (\<lambda>x. x \<noteq> c) s") auto
  moreover have "c \<notin> set a" using a by (auto dest: set_takeWhileD)
  ultimately show "s = a @ c # b \<and> c \<notin> set a"
    using a takeWhile_dropWhile_id [of "\<lambda>x. x \<noteq> c" s] by simp
next
  assume h: "s = a @ c # b \<and> c \<notin> set a"
  then have "\<forall>x \<in> set a. x \<noteq> c" by auto
  with h show "split_once c s = Some (a, b)"
    by (simp add: split_once_def takeWhile_tail)
qed

lemma split_once_None: "split_once c s = None \<longleftrightarrow> c \<notin> set s"
  by (simp add: split_once_def)

lemma rsplit_once_last: "c \<notin> set b \<Longrightarrow> rsplit_once c (a @ c # b) = Some (a, b)"
proof -
  assume "c \<notin> set b"
  then have "split_once c (rev b @ c # rev a) = Some (rev b, rev a)" by (simp add: split_once_Some)
  then show ?thesis by (simp add: rsplit_once_def)
qed

lemma rsplit_once_none: "c \<notin> set s \<Longrightarrow> rsplit_once c s = None"
  by (simp add: rsplit_once_def split_once_def)

lemma split_char_elem: "x \<in> set s \<Longrightarrow> x \<noteq> c \<Longrightarrow> \<exists>l \<in> set (split_char c s). x \<in> set l"
proof (induction s)
  case (Cons y s)
  obtain l ls where l: "split_char c s = l # ls" by (cases "split_char c s") auto
  show ?case
  proof (cases "x = y")
    case True
    with Cons.prems(2) l show ?thesis by simp
  next
    case False
    with Cons l show ?thesis by auto
  qed
qed simp

lemma split_char_snoc: "split_char c (s @ [c]) = split_char c s @ [[]]"
  by (induction s) (auto split: list.split)

section \<open>Decimal numbers\<close>

definition digit_char :: "nat \<Rightarrow> char" where
  "digit_char d = char_of (48 + d)"

definition digit_val :: "char \<Rightarrow> nat" where
  "digit_val c = code c - 48"

lemma code_digit_char: "d < 10 \<Longrightarrow> code (digit_char d) = 48 + d"
  by (simp add: digit_char_def)

lemma digit_val_char [simp]: "d < 10 \<Longrightarrow> digit_val (digit_char d) = d"
  by (simp add: digit_val_def code_digit_char)

lemma is_digit_char [simp]: "d < 10 \<Longrightarrow> is_ascii_digit (digit_char d)"
  by (simp add: is_ascii_digit_def code_digit_char)

lemma digit_char_numerals:
  "digit_char 0 = CHR ''0''" "digit_char 1 = CHR ''1''" "digit_char (Suc 0) = CHR ''1''"
  "digit_char 2 = CHR ''2''" "digit_char 3 = CHR ''3''" "digit_char 4 = CHR ''4''"
  "digit_char 5 = CHR ''5''" "digit_char 6 = CHR ''6''" "digit_char 7 = CHR ''7''"
  "digit_char 8 = CHR ''8''" "digit_char 9 = CHR ''9''"
  by code_simp+

lemma digit_char_val: "is_ascii_digit c \<Longrightarrow> digit_char (digit_val c) = c"
  by (auto simp: is_ascii_digit_def digit_val_def digit_char_def)

lemma digit_val_less: "is_ascii_digit c \<Longrightarrow> digit_val c < 10"
  by (auto simp: is_ascii_digit_def digit_val_def)

fun show_nat :: "nat \<Rightarrow> string" where
  "show_nat n = (if n < 10 then [digit_char n] else show_nat (n div 10) @ [digit_char (n mod 10)])"

declare show_nat.simps [simp del]

definition show_int :: "int \<Rightarrow> string" where
  "show_int n = (if n < 0 then ''-'' @ show_nat (nat (- n)) else show_nat (nat n))"

text \<open>\<open>format!("{:0width$}")\<close>.\<close>

definition pad_zero :: "nat \<Rightarrow> nat \<Rightarrow> string" where
  "pad_zero w n = (let s = show_nat n in replicate (w - length s) (digit_char 0) @ s)"

text \<open>\<open>str::parse\<close> for an unsigned integer of the given width: an optional \<open>+\<close>, at least one digit, no overflow.\<close>

definition all_digits :: "string \<Rightarrow> bool" where
  "all_digits s \<longleftrightarrow> s \<noteq> [] \<and> list_all is_ascii_digit s"

definition drop_plus :: "string \<Rightarrow> string" where
  "drop_plus s = (if s \<noteq> [] \<and> hd s = CHR ''+'' then tl s else s)"

definition parse_uint :: "nat \<Rightarrow> string \<Rightarrow> nat option" where
  "parse_uint w s =
     (let ds = drop_plus s; n = msd_value 10 (map digit_val ds)
      in if all_digits ds \<and> n < 2 ^ w then Some n else None)"

text \<open>\<open>str::parse\<close> for \<open>i64\<close>: the same with \<open>-\<close> allowed, within \<open>-2^63 .. 2^63 - 1\<close>.\<close>

definition parse_i64 :: "string \<Rightarrow> int option" where
  "parse_i64 s =
     (if s \<noteq> [] \<and> hd s = CHR ''-'' then
        (let ds = tl s; n = msd_value 10 (map digit_val ds)
         in if all_digits ds \<and> n \<le> 2 ^ 63 then Some (- int n) else None)
      else map_option int (parse_uint 63 s))"

lemma show_nat_digits: "show_nat n \<noteq> [] \<and> (\<forall>c \<in> set (show_nat n). is_ascii_digit c)"
proof (induction n rule: show_nat.induct)
  case (1 n)
  then show ?case by (subst (1 2) show_nat.simps) (auto split: if_splits)
qed

lemma all_digits_show [simp]: "all_digits (show_nat n)"
  using show_nat_digits [of n] by (simp add: all_digits_def list_all_iff)

lemma value_show_nat: "msd_value 10 (map digit_val (show_nat n)) = n"
proof (induction n rule: show_nat.induct)
  case (1 n)
  show ?case
  proof (cases "n < 10")
    case True
    then show ?thesis by (subst show_nat.simps) (simp add: msd_value_def)
  next
    case False
    with 1 show ?thesis by (subst show_nat.simps) (simp)
  qed
qed

lemma drop_plus_digits: "all_digits s \<Longrightarrow> drop_plus s = s"
  by (cases s) (auto simp: all_digits_def drop_plus_def is_ascii_digit_def)

lemma parse_show_nat: "n < 2 ^ w \<Longrightarrow> parse_uint w (show_nat n) = Some n"
  by (simp add: parse_uint_def drop_plus_digits value_show_nat Let_def)

lemma parse_uint_bound: "parse_uint w s = Some n \<Longrightarrow> n < 2 ^ w"
  by (auto simp: parse_uint_def Let_def split: if_splits)

lemma show_nat_inj: "show_nat a = show_nat b \<Longrightarrow> a = b"
  by (metis value_show_nat)

lemma length_show_nat: "n < 10 ^ Suc w \<Longrightarrow> length (show_nat n) \<le> Suc w"
proof (induction w arbitrary: n)
  case 0
  then show ?case by (subst show_nat.simps) simp
next
  case (Suc w)
  then have "n div 10 < 10 ^ Suc w" by simp
  then have "length (show_nat (n div 10)) \<le> Suc w" by (rule Suc.IH)
  then show ?case by (subst show_nat.simps) auto
qed

lemma msd_value_zeros: "msd_value b (replicate k 0 @ ds) = msd_value b ds"
  by (induction k) (simp_all add: msd_value_def)

lemma pad_zero_value: "msd_value 10 (map digit_val (pad_zero w n)) = n"
  by (simp add: pad_zero_def Let_def msd_value_zeros value_show_nat)

lemma pad_zero_digits: "c \<in> set (pad_zero w n) \<Longrightarrow> is_ascii_digit c"
  using show_nat_digits [of n] by (auto simp: pad_zero_def Let_def)

lemma length_pad_zero: "0 < w \<Longrightarrow> n < 10 ^ w \<Longrightarrow> length (pad_zero w n) = w"
  using length_show_nat [of n "w - 1"] by (simp add: pad_zero_def Let_def)

section \<open>Chunks, joining and positions\<close>

function chunks :: "nat \<Rightarrow> 'a list \<Rightarrow> 'a list list" where
  "chunks n xs = (if n = 0 \<or> xs = [] then [] else take n xs # chunks n (drop n xs))"
  by pat_completeness auto
termination
  by (relation "measure (\<lambda>(n, xs). length xs)") auto

declare chunks.simps [simp del]

fun join :: "string \<Rightarrow> string list \<Rightarrow> string" where
  "join sep [] = []"
| "join sep [s] = s"
| "join sep (s # t # ts) = s @ sep @ join sep (t # ts)"

fun position :: "('a \<Rightarrow> bool) \<Rightarrow> 'a list \<Rightarrow> nat option" where
  "position P [] = None"
| "position P (x # xs) = (if P x then Some 0 else map_option Suc (position P xs))"

lemma concat_chunks: "0 < n \<Longrightarrow> concat (chunks n xs) = xs"
proof (induction n xs rule: chunks.induct)
  case (1 n xs)
  then show ?case by (subst chunks.simps) auto
qed

lemma filter_join: "filter P (join sep ss) = (if list_all (\<lambda>c. \<not> P c) sep then filter P (concat ss)
    else filter P (join sep ss))"
  by (induction sep ss rule: join.induct) (auto simp: list_all_iff filter_empty_conv)

lemma set_join: "set (join sep ss) \<subseteq> set sep \<union> set (concat ss)"
  by (induction sep ss rule: join.induct) auto

lemma split_char_plain: "c \<notin> set s \<Longrightarrow> split_char c s = [s]"
  by (induction s) auto

lemma split_char_at: "c \<notin> set s \<Longrightarrow> split_char c (s @ c # t) = s # split_char c t"
  by (induction s) auto

lemma split_char_join: "ss \<noteq> [] \<Longrightarrow> \<forall>s \<in> set ss. c \<notin> set s \<Longrightarrow> split_char c (join [c] ss) = ss"
  by (induction ss rule: induct_list012) (simp_all add: split_char_plain split_char_at)

lemma position_nth:
  "distinct xs \<Longrightarrow> i < length xs \<Longrightarrow> position (\<lambda>x. x = xs ! i) xs = Some i"
proof (induction xs arbitrary: i)
  case (Cons x xs)
  then show ?case by (cases i) auto
qed simp

lemma position_Some: "position P xs = Some i \<Longrightarrow> i < length xs \<and> P (xs ! i)"
  by (induction xs arbitrary: i) (auto split: if_splits)

lemma position_None: "position P xs = None \<longleftrightarrow> (\<forall>x \<in> set xs. \<not> P x)"
  by (induction xs) auto

end
