(* ===== verification/Errors.thy ===== *)
theory Errors
  imports Rust_Text
begin

text \<open>
  The core's error type (\<open>crates/yara-core/src/error.rs\<close>) and Rust's \<open>Result\<close> as a sum:
  \<open>Inl\<close> is the error. \<open>and_then\<close> is the \<open>?\<close> operator.
\<close>

datatype error =
    Kdf string
  | Encrypt
  | Decrypt
  | UnsupportedFormat u32
  | UnsupportedKdf string
  | Malformed string
  | DamagedFile string
  | InvalidRecipe string
  | InvalidFolder string
  | InvalidRecoveryKit
  | InvalidBase32
  | InvalidOtpUri string
  | ImageDecode
  | NoQrCode
  | QrNotOtpauth
  | UnsupportedOtpAlgorithm string
  | InvalidDigits u32
  | InvalidPeriod
  | InvalidSkew u64 u64
  | ItemNotFound uuid
  | Serde
  | ClockBeforeEpoch

type_synonym 'a result = "error + 'a"

definition and_then :: "'e + 'a \<Rightarrow> ('a \<Rightarrow> 'e + 'b) \<Rightarrow> 'e + 'b" where
  "and_then m f = (case m of Inl e \<Rightarrow> Inl e | Inr x \<Rightarrow> f x)"

lemma and_then_simps [simp]:
  "and_then (Inl e) f = Inl e"
  "and_then (Inr x) f = f x"
  by (simp_all add: and_then_def)

lemma and_then_Inr: "and_then m f = Inr y \<longleftrightarrow> (\<exists>x. m = Inr x \<and> f x = Inr y)"
  by (cases m) auto

lemma and_then_Inl: "and_then m f = Inl e \<longleftrightarrow> m = Inl e \<or> (\<exists>x. m = Inr x \<and> f x = Inl e)"
  by (cases m) auto

lemma and_then_InrE:
  assumes "and_then m f = Inr y"
  obtains x where "m = Inr x" and "f x = Inr y"
  using assms by (auto simp: and_then_Inr)

text \<open>\<open>map_err\<close> and \<open>ok_or\<close>.\<close>

definition ok_or :: "'e \<Rightarrow> 'a option \<Rightarrow> 'e + 'a" where
  "ok_or e m = (case m of None \<Rightarrow> Inl e | Some x \<Rightarrow> Inr x)"

lemma ok_or_simps [simp]:
  "ok_or e None = Inl e"
  "ok_or e (Some x) = Inr x"
  by (simp_all add: ok_or_def)

lemma ok_or_Inr: "ok_or e m = Inr y \<longleftrightarrow> m = Some y"
  by (cases m) auto

definition is_ok :: "'e + 'a \<Rightarrow> bool" where
  "is_ok r = (case r of Inl e \<Rightarrow> False | Inr x \<Rightarrow> True)"

lemma is_ok_simps [simp]: "\<not> is_ok (Inl e)" "is_ok (Inr x)"
  by (simp_all add: is_ok_def)

text \<open>
  Steps over a state: the next one runs in the state the last one left, unless that one failed, which
  ends the sequence there.
\<close>

definition and_do :: "'s \<times> ('e + 'a) \<Rightarrow> ('a \<Rightarrow> 's \<Rightarrow> 's \<times> ('e + 'b)) \<Rightarrow> 's \<times> ('e + 'b)" where
  "and_do r f = (case r of (s, Inl e) \<Rightarrow> (s, Inl e) | (s, Inr x) \<Rightarrow> f x s)"

lemma and_do_simps [simp]:
  "and_do (s, Inl e) f = (s, Inl e)"
  "and_do (s, Inr x) f = f x s"
  by (simp_all add: and_do_def)

lemma and_do_cases:
  assumes "and_do p f = (s', r)"
  obtains (failed) e where "p = (s', Inl e)" "r = Inl e" | (went_on) x s1 where "p = (s1, Inr x)" "f x s1 = (s', r)"
  using assms by (auto simp: and_do_def split: prod.splits sum.splits)

end
