(* ===== verification/Crypto.thy ===== *)
theory Crypto
  imports Errors
begin

text \<open>
  \<open>crates/yara-core/src/crypto.rs\<close> and \<open>secret.rs\<close>: keys, the bounds on the Argon2id
  parameters, and sealing with associated data.

  Argon2id, XChaCha20-Poly1305, HKDF, HMAC, SHA-256, base32, base64 and the JSON text
  syntax come from other crates. They are the fields of \<open>prims\<close>, an argument of every
  definition that uses one. The predicates after it state the documented behaviour that
  properties rely on, one fact each. Randomness (nonces, salts, fresh keys) is an argument.
\<close>

section \<open>Secret strings\<close>

datatype secret_string = SecretString (expose: string)

text \<open>
  The comparison of \<open>PartialEq\<close>: lengths first, then every byte, with the differences
  accumulated so that the loop does not stop early.
\<close>

definition ct_diff :: "string \<Rightarrow> string \<Rightarrow> u8" where
  "ct_diff a b = foldl (\<lambda>acc (x, y). or acc (xor (of_char x) (of_char y))) 0 (zip a b)"

definition secret_eq :: "secret_string \<Rightarrow> secret_string \<Rightarrow> bool" where
  "secret_eq s t =
     (if length (expose s) \<noteq> length (expose t) then False
      else ct_diff (expose s) (expose t) = 0)"

definition secret_is_empty :: "secret_string \<Rightarrow> bool" where
  "secret_is_empty s \<longleftrightarrow> expose s = []"

definition secret_len :: "secret_string \<Rightarrow> nat" where
  "secret_len s = length (expose s)"

section \<open>Keys and cost parameters\<close>

abbreviation KEY_LEN :: nat where "KEY_LEN \<equiv> 32"
abbreviation SALT_LEN :: nat where "SALT_LEN \<equiv> 32"
abbreviation NONCE_LEN :: nat where "NONCE_LEN \<equiv> 24"

datatype key = Key (key_expose: bytes)

definition key_from_slice :: "bytes \<Rightarrow> key result" where
  "key_from_slice bs =
     (if length bs = KEY_LEN then Inr (Key bs) else Inl (Malformed ''key is not 32 bytes''))"

record kdf_params =
  memory_kib :: u32
  iterations :: u32
  parallelism :: u32

definition kdf_default :: kdf_params where
  "kdf_default = \<lparr>memory_kib = 65536, iterations = 3, parallelism = 4\<rparr>"

definition MIN_MEMORY_KIB :: u32 where "MIN_MEMORY_KIB = 8192"
definition MAX_MEMORY_KIB :: u32 where "MAX_MEMORY_KIB = 1048576"
definition MAX_ITERATIONS :: u32 where "MAX_ITERATIONS = 16"
definition MAX_PARALLELISM :: u32 where "MAX_PARALLELISM = 16"

lemmas kdf_bounds [model_defs] =
  MIN_MEMORY_KIB_def MAX_MEMORY_KIB_def MAX_ITERATIONS_def MAX_PARALLELISM_def

definition kdf_validate :: "kdf_params \<Rightarrow> unit result" where
  "kdf_validate p =
     (if \<not> (MIN_MEMORY_KIB \<le> memory_kib p \<and> memory_kib p \<le> MAX_MEMORY_KIB)
      then Inl (DamagedFile ''key derivation memory is out of range'')
      else if \<not> (1 \<le> iterations p \<and> iterations p \<le> MAX_ITERATIONS)
      then Inl (DamagedFile ''key derivation iterations are out of range'')
      else if \<not> (1 \<le> parallelism p \<and> parallelism p \<le> MAX_PARALLELISM)
      then Inl (DamagedFile ''key derivation parallelism is out of range'')
      else Inr ())"

definition at_least_as_strong_as :: "kdf_params \<Rightarrow> kdf_params \<Rightarrow> bool" where
  "at_least_as_strong_as p q \<longleftrightarrow>
     memory_kib p \<ge> memory_kib q \<and> iterations p \<ge> iterations q \<and> parallelism p \<ge> parallelism q"

section \<open>The primitives of other crates\<close>

text \<open>JSON values: what \<open>serde_json\<close> prints and parses. Every number of the vault format is an integer.\<close>

datatype json =
    JNull
  | JBool bool
  | JNum int
  | JStr string
  | JArr "json list"
  | JObj "(string \<times> json) list"

record prims =
  p_argon2 :: "bytes \<Rightarrow> bytes \<Rightarrow> kdf_params \<Rightarrow> string + bytes"
  p_enc :: "bytes \<Rightarrow> bytes \<Rightarrow> bytes \<Rightarrow> bytes \<Rightarrow> bytes option"
  p_dec :: "bytes \<Rightarrow> bytes \<Rightarrow> bytes \<Rightarrow> bytes \<Rightarrow> bytes option"
  p_hkdf :: "bytes \<Rightarrow> bytes \<Rightarrow> bytes \<Rightarrow> bytes option"
  p_json_print :: "json \<Rightarrow> bytes"
  p_json_pretty :: "json \<Rightarrow> bytes"
  p_json_parse :: "bytes \<Rightarrow> json option"
  p_b64_encode :: "bytes \<Rightarrow> string"
  p_b64_decode :: "string \<Rightarrow> bytes option"
  p_sha256 :: "bytes \<Rightarrow> bytes"
  p_uuid_print :: "uuid \<Rightarrow> string"
  p_uuid_parse :: "string \<Rightarrow> uuid option"

text \<open>
  The cipher: \<open>p_enc P key nonce aad plaintext\<close>. Decrypting with the same key, nonce and
  associated data gives the plaintext back; a ciphertext authenticates under no other key,
  nonce or associated data (the idealised reading of an AEAD).
\<close>

definition aead_correct :: "prims \<Rightarrow> bool" where
  "aead_correct P \<longleftrightarrow> (\<forall>k n a p c. length k = KEY_LEN \<longrightarrow> length n = NONCE_LEN \<longrightarrow>
     p_enc P k n a p = Some c \<longrightarrow> p_dec P k n a c = Some p)"

definition aead_total :: "prims \<Rightarrow> bool" where
  "aead_total P \<longleftrightarrow> (\<forall>k n a p. length k = KEY_LEN \<longrightarrow> length n = NONCE_LEN \<longrightarrow> p_enc P k n a p \<noteq> None)"

definition aead_binding :: "prims \<Rightarrow> bool" where
  "aead_binding P \<longleftrightarrow> (\<forall>k n a p c k' n' a' p'.
     length k = KEY_LEN \<longrightarrow> length n = NONCE_LEN \<longrightarrow> length k' = KEY_LEN \<longrightarrow> length n' = NONCE_LEN \<longrightarrow>
     p_enc P k n a p = Some c \<longrightarrow> p_dec P k' n' a' c = Some p' \<longrightarrow> k' = k \<and> n' = n \<and> a' = a)"

definition argon2_len :: "prims \<Rightarrow> bool" where
  "argon2_len P \<longleftrightarrow> (\<forall>pw salt ps out. p_argon2 P pw salt ps = Inr out \<longrightarrow> length out = KEY_LEN)"

definition hkdf_len :: "prims \<Rightarrow> bool" where
  "hkdf_len P \<longleftrightarrow> (\<forall>salt ikm info out. p_hkdf P salt ikm info = Some out \<longrightarrow> length out = KEY_LEN)"

text \<open>Printing the value \<open>j\<close> and parsing the text gives \<open>j\<close> back.\<close>

definition json_faithful :: "prims \<Rightarrow> json \<Rightarrow> bool" where
  "json_faithful P j \<longleftrightarrow> p_json_parse P (p_json_print P j) = Some j"

definition b64_faithful :: "prims \<Rightarrow> bool" where
  "b64_faithful P \<longleftrightarrow> (\<forall>bs. p_b64_decode P (p_b64_encode P bs) = Some bs)"

text \<open>The textual form of a UUID reads back as the UUID.\<close>

definition uuid_faithful :: "prims \<Rightarrow> bool" where
  "uuid_faithful P \<longleftrightarrow> (\<forall>u. p_uuid_parse P (p_uuid_print P u) = Some u)"

section \<open>Deriving a key, sealing and opening\<close>

definition derive_key :: "prims \<Rightarrow> bytes \<Rightarrow> bytes \<Rightarrow> kdf_params \<Rightarrow> key result" where
  "derive_key P password salt params =
     (if length salt < 8 then Inl (Kdf ''salt must be at least 8 bytes'')
      else case p_argon2 P password salt params of
        Inl e \<Rightarrow> Inl (Kdf e)
      | Inr out \<Rightarrow> Inr (Key out))"

record sealed =
  sealed_nonce :: bytes
  sealed_ciphertext :: bytes

definition seal :: "prims \<Rightarrow> bytes \<Rightarrow> key \<Rightarrow> bytes \<Rightarrow> bytes \<Rightarrow> sealed result" where
  "seal P nonce k plaintext aad =
     (case p_enc P (key_expose k) nonce aad plaintext of
        None \<Rightarrow> Inl Encrypt
      | Some c \<Rightarrow> Inr \<lparr>sealed_nonce = nonce, sealed_ciphertext = c\<rparr>)"

definition open_sealed :: "prims \<Rightarrow> key \<Rightarrow> sealed \<Rightarrow> bytes \<Rightarrow> bytes result" where
  "open_sealed P k s aad =
     (if length (sealed_nonce s) \<noteq> NONCE_LEN then Inl (Malformed ''nonce is not 24 bytes'')
      else case p_dec P (key_expose k) (sealed_nonce s) aad (sealed_ciphertext s) of
        None \<Rightarrow> Inl Decrypt
      | Some p \<Rightarrow> Inr p)"

section \<open>What the pieces guarantee\<close>

lemma kdf_validate_ok:
  "kdf_validate p = Inr () \<longleftrightarrow>
     MIN_MEMORY_KIB \<le> memory_kib p \<and> memory_kib p \<le> MAX_MEMORY_KIB \<and>
     1 \<le> iterations p \<and> iterations p \<le> MAX_ITERATIONS \<and>
     1 \<le> parallelism p \<and> parallelism p \<le> MAX_PARALLELISM"
  by (auto simp: kdf_validate_def)

lemma kdf_validate_damaged: "kdf_validate p = Inl e \<Longrightarrow> \<exists>m. e = DamagedFile m"
  by (auto simp: kdf_validate_def split: if_splits)

lemma kdf_default_valid: "kdf_validate kdf_default = Inr ()"
  by (simp add: kdf_validate_ok kdf_default_def kdf_bounds)

lemma at_least_as_strong_refl [simp]: "at_least_as_strong_as p p"
  by (simp add: at_least_as_strong_as_def)

lemma at_least_as_strong_trans:
  "at_least_as_strong_as p q \<Longrightarrow> at_least_as_strong_as q r \<Longrightarrow> at_least_as_strong_as p r"
  by (auto simp: at_least_as_strong_as_def)

lemma at_least_as_strong_antisym:
  "at_least_as_strong_as p q \<Longrightarrow> at_least_as_strong_as q p \<Longrightarrow> p = q"
  by (rule kdf_params.equality) (auto simp: at_least_as_strong_as_def intro: antisym)

lemma derive_key_len:
  "argon2_len P \<Longrightarrow> derive_key P pw salt ps = Inr k \<Longrightarrow> length (key_expose k) = KEY_LEN"
  by (auto simp: derive_key_def argon2_len_def split: if_splits sum.splits)

lemma key_from_slice_Inr: "key_from_slice bs = Inr k \<longleftrightarrow> length bs = KEY_LEN \<and> k = Key bs"
  by (auto simp: key_from_slice_def)

lemma seal_nonce: "seal P n k p a = Inr s \<Longrightarrow> sealed_nonce s = n"
  by (auto simp: seal_def split: option.splits)

lemma seal_total:
  "aead_total P \<Longrightarrow> length (key_expose k) = KEY_LEN \<Longrightarrow> length n = NONCE_LEN \<Longrightarrow>
    \<exists>s. seal P n k p a = Inr s"
  by (auto simp: seal_def aead_total_def split: option.splits)

lemma open_seal:
  assumes "aead_correct P" and "length (key_expose k) = KEY_LEN" and "length n = NONCE_LEN"
    and "seal P n k p a = Inr s"
  shows "open_sealed P k s a = Inr p"
  using assms by (auto simp: seal_def open_sealed_def aead_correct_def split: option.splits)

lemma open_seal_other:
  assumes "aead_binding P" and "length (key_expose k) = KEY_LEN" and "length n = NONCE_LEN"
    and "length (key_expose k') = KEY_LEN"
    and "seal P n k p a = Inr s" and "k' \<noteq> k \<or> a' \<noteq> a"
  shows "open_sealed P k' s a' = Inl Decrypt"
proof -
  obtain c where c: "p_enc P (key_expose k) n a p = Some c" and s: "s = \<lparr>sealed_nonce = n, sealed_ciphertext = c\<rparr>"
    using assms(5) by (auto simp: seal_def split: option.splits)
  have "p_dec P (key_expose k') n a' c = None"
  proof (rule ccontr)
    assume "p_dec P (key_expose k') n a' c \<noteq> None"
    then obtain p' where "p_dec P (key_expose k') n a' c = Some p'" by blast
    then have "key_expose k' = key_expose k \<and> a' = a"
      using assms(1-4) c unfolding aead_binding_def by metis
    with assms(6) show False by (auto dest: key.expand)
  qed
  with assms(3) s show ?thesis by (simp add: open_sealed_def)
qed

text \<open>Constant-time equality is equality.\<close>

lemma of_char_word_inject: "(of_char x :: u8) = of_char y \<longleftrightarrow> x = y"
proof
  assume *: "(of_char x :: u8) = of_char y"
  have "unat (of_char z :: u8) = code z" for z
  proof -
    have "(of_char z :: u8) = word_of_nat (code z)" by (rule of_nat_of_char [symmetric])
    then have "unat (of_char z :: u8) = code z mod 2 ^ LENGTH(8)" by (metis unat_of_nat)
    also have "\<dots> = code z" by (rule mod_less) simp
    finally show ?thesis .
  qed
  with * have "code x = code y" by metis
  then show "x = y" by (simp add: code_inject)
qed simp

lemma xor_eq_0_iff: "xor a b = (0 :: 'a::len word) \<longleftrightarrow> a = b"
  by (metis xor.assoc xor_self_eq xor.left_neutral xor.right_neutral)

lemma ct_fold:
  "foldl (\<lambda>acc (x, y). or acc (xor (of_char x) (of_char y))) acc ps = (0 :: u8) \<longleftrightarrow>
     acc = 0 \<and> (\<forall>(x, y) \<in> set ps. x = y)"
proof (induction ps arbitrary: acc)
  case Nil
  show ?case by simp
next
  case (Cons p ps)
  obtain x y where p: "p = (x, y)" by (cases p)
  show ?case
    by (simp add: p Cons.IH or_eq_0_iff xor_eq_0_iff of_char_word_inject conj_assoc)
qed

text \<open>The constant-time comparison of two secrets decides exactly their equality.\<close>

theorem secret_eq_iff: "secret_eq s t \<longleftrightarrow> s = t"
proof -
  have "(\<forall>(x, y) \<in> set (zip a b). x = y) \<longleftrightarrow> a = b" if "length a = length b" for a b :: string
    using that by (induction a b rule: list_induct2) auto
  then show ?thesis
    unfolding secret_eq_def ct_diff_def ct_fold by (auto dest: secret_string.expand)
qed

end
