(* ===== verification/Recovery_Kit.thy ===== *)
theory Recovery_Kit
  imports Crypto
begin

text \<open>
  \<open>crates/yara-core/src/account.rs\<close>: the 128-bit secret key, its printed form (the recovery
  kit), and the account keys derived from the password and the kit.
\<close>

section \<open>The secret key and its printed form\<close>

abbreviation SECRET_KEY_LEN :: nat where "SECRET_KEY_LEN \<equiv> 16"

definition KIT_ALPHABET :: string where
  "KIT_ALPHABET = ''abcdefghjkmnpqrstuvwxyz23456789''"

definition ENC_INFO :: bytes where
  "ENC_INFO = ''yara.enc.v1''"

datatype secret_key = SecretKey (secret_bytes: bytes)

definition kit_groups :: "secret_key \<Rightarrow> string list" where
  "kit_groups k =
     (let value = be_nat (secret_bytes k);
          cs = map (\<lambda>d. KIT_ALPHABET ! d) (lsd_digits (length KIT_ALPHABET) 26 value)
      in chunks 5 (rev cs))"

definition to_kit :: "secret_key \<Rightarrow> string" where
  "to_kit k = join ''-'' (kit_groups k)"

text \<open>
  Reading a kit: white space and hyphens are dropped, every remaining character is
  lowercased (ASCII only) and cast to a byte, which truncates a wider scalar value.
\<close>

definition lower_scalar :: "nat \<Rightarrow> nat" where
  "lower_scalar n = (if 65 \<le> n \<and> n \<le> 90 then n + 32 else n)"

definition kit_cleaned :: "string \<Rightarrow> bytes" where
  "kit_cleaned kit =
     map (\<lambda>c. as_u8 (lower_scalar (scalar c)))
       (filter (\<lambda>c. \<not> is_whitespace c \<and> c \<noteq> ''-'') (chars kit))"

definition checked_u128 :: "nat \<Rightarrow> nat option" where
  "checked_u128 n = (if n < 2 ^ 128 then Some n else None)"

fun kit_accumulate :: "bytes \<Rightarrow> nat \<Rightarrow> nat result" where
  "kit_accumulate [] value = Inr value"
| "kit_accumulate (b # bs) value =
     (case position (\<lambda>c. c = b) KIT_ALPHABET of
        None \<Rightarrow> Inl InvalidRecoveryKit
      | Some digit \<Rightarrow>
          (case Option.bind (checked_u128 (value * length KIT_ALPHABET))
                  (\<lambda>v. checked_u128 (v + digit)) of
             None \<Rightarrow> Inl InvalidRecoveryKit
           | Some v \<Rightarrow> kit_accumulate bs v))"

definition from_kit :: "string \<Rightarrow> secret_key result" where
  "from_kit kit =
     (let cleaned = kit_cleaned kit
      in if length cleaned \<noteq> 26 then Inl InvalidRecoveryKit
         else and_then (kit_accumulate cleaned 0) (\<lambda>v. Inr (SecretKey (nat_be 16 v))))"

section \<open>Keys of an account\<close>

datatype account_keys = AccountKeys (enc_key: key)

definition account_derive ::
    "prims \<Rightarrow> string \<Rightarrow> secret_key \<Rightarrow> bytes \<Rightarrow> kdf_params \<Rightarrow> account_keys result" where
  "account_derive P password secret salt params =
     and_then (kdf_validate params) (\<lambda>_.
     and_then (derive_key P (password @ secret_bytes secret) salt params) (\<lambda>master.
     (case p_hkdf P salt (key_expose master) ENC_INFO of
        None \<Rightarrow> Inl (Kdf ''HKDF expand failed'')
      | Some enc \<Rightarrow> Inr (AccountKeys (Key enc)))))"

definition wrap :: "prims \<Rightarrow> bytes \<Rightarrow> account_keys \<Rightarrow> bytes \<Rightarrow> sealed result" where
  "wrap P nonce ks plaintext = seal P nonce (enc_key ks) plaintext ENC_INFO"

definition unwrap :: "prims \<Rightarrow> account_keys \<Rightarrow> sealed \<Rightarrow> bytes result" where
  "unwrap P ks s = open_sealed P (enc_key ks) s ENC_INFO"

definition keypair_from_seed :: "bytes \<Rightarrow> bytes result" where
  "keypair_from_seed seed =
     (if length seed = 32 then Inr seed else Inl (Malformed ''account key seed is not 32 bytes''))"

section \<open>The alphabet\<close>

lemma length_alphabet [simp]: "length KIT_ALPHABET = 31"
  by (simp add: KIT_ALPHABET_def)

lemma distinct_alphabet: "distinct KIT_ALPHABET"
  by (simp add: KIT_ALPHABET_def)

definition kit_plain :: "char \<Rightarrow> bool" where
  "kit_plain c \<longleftrightarrow> is_ascii c \<and> \<not> is_whitespace [c] \<and> c \<noteq> CHR ''-'' \<and> ascii_lower c = c"

lemma alphabet_plain: "\<forall>c \<in> set KIT_ALPHABET. kit_plain c"
  by (simp add: KIT_ALPHABET_def kit_plain_def is_ascii_def is_whitespace_ascii ascii_lower_def
      is_ascii_uppercase_def)

section \<open>Reading back what was printed\<close>

lemma as_u8_lower_ascii: "is_ascii c \<Longrightarrow> as_u8 (lower_scalar (code c)) = ascii_lower c"
  by (simp add: as_u8_def lower_scalar_def ascii_lower_def is_ascii_uppercase_def is_ascii_def)

lemma kit_cleaned_ascii:
  "\<forall>c \<in> set s. is_ascii c \<Longrightarrow>
    kit_cleaned s = map ascii_lower (filter (\<lambda>c. \<not> is_whitespace [c] \<and> c \<noteq> CHR ''-'') s)"
  by (simp add: kit_cleaned_def chars_ascii filter_map comp_def as_u8_lower_ascii cong: map_cong)

lemma kit_accumulate_digits:
  assumes "\<forall>d \<in> set ds. d < 31" and "v * 31 ^ length ds + msd_value 31 ds < 2 ^ 128"
  shows "kit_accumulate (map (\<lambda>d. KIT_ALPHABET ! d) ds) v = Inr (v * 31 ^ length ds + msd_value 31 ds)"
  using assms
proof (induction ds arbitrary: v)
  case Nil
  then show ?case by simp
next
  case (Cons d ds)
  have split: "msd_value 31 (d # ds) = d * 31 ^ length ds + msd_value 31 ds"
    by (rule msd_value_Cons)
  have shift: "v * 31 ^ length (d # ds) + msd_value 31 (d # ds) =
      (v * 31 + d) * 31 ^ length ds + msd_value 31 ds"
    by (simp add: split algebra_simps)
  have "v * 31 + d \<le> (v * 31 + d) * 31 ^ length ds" by simp
  with Cons.prems(2) shift have small: "v * 31 + d < 2 ^ 128" by linarith
  from Cons.prems have d: "d < 31" by simp
  then have pos: "position (\<lambda>c. c = KIT_ALPHABET ! d) KIT_ALPHABET = Some d"
    by (intro position_nth distinct_alphabet) simp
  have "kit_accumulate (map (\<lambda>d. KIT_ALPHABET ! d) ds) (v * 31 + d) =
      Inr ((v * 31 + d) * 31 ^ length ds + msd_value 31 ds)"
    using Cons.prems shift by (intro Cons.IH) auto
  with pos small show ?case
    by (simp add: checked_u128_def split algebra_simps)
qed

lemma kit_accumulate_Inr:
  assumes "kit_accumulate bs v = Inr w" and "v < 2 ^ 128"
  shows "\<exists>ds. (\<forall>d \<in> set ds. d < 31) \<and> bs = map (\<lambda>d. KIT_ALPHABET ! d) ds \<and>
    w = v * 31 ^ length ds + msd_value 31 ds \<and> w < 2 ^ 128"
  using assms
proof (induction bs arbitrary: v)
  case Nil
  then show ?case by (intro exI [of _ "[]"]) simp
next
  case (Cons b bs)
  then obtain d where pos: "position (\<lambda>c. c = b) KIT_ALPHABET = Some d"
    and small: "v * 31 + d < 2 ^ 128" and rest: "kit_accumulate bs (v * 31 + d) = Inr w"
    by (auto simp: checked_u128_def split: option.splits if_splits)
  from Cons.IH [OF rest small] obtain ds where ds: "\<forall>d \<in> set ds. d < 31"
    "bs = map (\<lambda>d. KIT_ALPHABET ! d) ds"
    "w = (v * 31 + d) * 31 ^ length ds + msd_value 31 ds" "w < 2 ^ 128" by blast
  from position_Some [OF pos] have "d < 31" "KIT_ALPHABET ! d = b" by auto
  moreover have "w = v * 31 ^ length (d # ds) + msd_value 31 (d # ds)"
    using ds(3) by (simp add: msd_value_Cons algebra_simps)
  ultimately show ?case
    using ds by (intro exI [of _ "d # ds"]) auto
qed

text \<open>The 26 characters of a printed kit, before they are grouped.\<close>

definition kit_letters :: "secret_key \<Rightarrow> string" where
  "kit_letters k = map (\<lambda>d. KIT_ALPHABET ! d) (msd_digits 31 26 (be_nat (secret_bytes k)))"

lemma kit_groups_letters: "kit_groups k = chunks 5 (kit_letters k)"
  by (simp add: kit_groups_def kit_letters_def msd_digits_def rev_map)

lemma length_kit_letters [simp]: "length (kit_letters k) = 26"
  by (simp add: kit_letters_def)

lemma kit_letters_alphabet: "set (kit_letters k) \<subseteq> set KIT_ALPHABET"
proof -
  have "d \<in> set (msd_digits 31 26 n) \<Longrightarrow> KIT_ALPHABET ! d \<in> set KIT_ALPHABET" for d n
    using msd_digits_less [of 31 d] by (intro nth_mem) simp
  then show ?thesis by (auto simp: kit_letters_def)
qed

lemma kit_filter_join:
  "filter (\<lambda>c. \<not> is_whitespace [c] \<and> c \<noteq> CHR ''-'') (join ''-'' (chunks 5 s)) =
   filter (\<lambda>c. \<not> is_whitespace [c] \<and> c \<noteq> CHR ''-'') s"
  by (simp add: filter_join concat_chunks)

lemma cleaned_plain:
  assumes "\<forall>c \<in> set s. kit_plain c"
  shows "map ascii_lower (filter (\<lambda>c. \<not> is_whitespace [c] \<and> c \<noteq> CHR ''-'') s) = s"
proof -
  have "filter (\<lambda>c. \<not> is_whitespace [c] \<and> c \<noteq> CHR ''-'') s = s"
    using assms by (auto simp: kit_plain_def)
  moreover have "map ascii_lower s = s"
    using assms by (intro map_idI) (auto simp: kit_plain_def)
  ultimately show ?thesis by simp
qed

lemma kit_letters_plain: "\<forall>c \<in> set (kit_letters k). kit_plain c"
  using kit_letters_alphabet alphabet_plain by blast

lemma to_kit_ascii: "\<forall>c \<in> set (to_kit k). is_ascii c"
proof -
  have "set (to_kit k) \<subseteq> insert CHR ''-'' (set (kit_letters k))"
    using set_join [of "''-''" "chunks 5 (kit_letters k)"]
    by (simp add: to_kit_def kit_groups_letters concat_chunks del: set_concat)
  moreover have "is_ascii CHR ''-''" by (simp add: is_ascii_def)
  ultimately show ?thesis
    using kit_letters_plain by (auto simp: kit_plain_def)
qed

lemma kit_cleaned_to_kit: "kit_cleaned (to_kit k) = kit_letters k"
  by (simp add: kit_cleaned_ascii to_kit_ascii)
    (simp add: to_kit_def kit_groups_letters kit_filter_join cleaned_plain kit_letters_plain)

lemma be_nat_secret: "length (secret_bytes k) = 16 \<Longrightarrow> be_nat (secret_bytes k) < 2 ^ 128"
  using be_nat_less [of "secret_bytes k"] by simp

lemma accumulate_kit_letters:
  assumes "length (secret_bytes k) = 16"
  shows "kit_accumulate (kit_letters k) 0 = Inr (be_nat (secret_bytes k))"
proof -
  have "msd_value 31 (msd_digits 31 26 (be_nat (secret_bytes k))) = be_nat (secret_bytes k)"
    using be_nat_secret [OF assms] by (simp add: msd_value_digits)
  then show ?thesis
    using be_nat_secret [OF assms] unfolding kit_letters_def
    by (subst kit_accumulate_digits) (auto intro: msd_digits_less)
qed

lemma from_kit_cleaned:
  assumes "length (secret_bytes k) = 16" and "kit_cleaned s = kit_letters k"
  shows "from_kit s = Inr k"
  using assms nat_be_be_nat [of "secret_bytes k"]
  by (cases k) (simp add: from_kit_def accumulate_kit_letters)

lemma kit_letters_filter: "filter (\<lambda>c. c \<noteq> CHR ''-'') (to_kit k) = kit_letters k"
proof -
  have "filter (\<lambda>c. c \<noteq> CHR ''-'') (to_kit k) = filter (\<lambda>c. c \<noteq> CHR ''-'') (kit_letters k)"
    by (simp add: to_kit_def kit_groups_letters filter_join concat_chunks)
  also have "\<dots> = kit_letters k"
    using kit_letters_plain by (auto simp: kit_plain_def)
  finally show ?thesis .
qed

lemma from_kit_InrD:
  assumes "from_kit s = Inr k"
  shows "length (secret_bytes k) = 16 \<and> kit_cleaned s = kit_letters k"
proof -
  from assms obtain v where len: "length (kit_cleaned s) = 26"
    and acc: "kit_accumulate (kit_cleaned s) 0 = Inr v" and k: "k = SecretKey (nat_be 16 v)"
    by (auto simp: from_kit_def Let_def and_then_Inr split: if_splits)
  from kit_accumulate_Inr [OF acc] obtain ds where ds: "\<forall>d \<in> set ds. d < 31"
    "kit_cleaned s = map (\<lambda>d. KIT_ALPHABET ! d) ds" "v = msd_value 31 ds" "v < 2 ^ 128" by auto
  then have "length ds = 26" using len by simp
  then have "msd_digits 31 26 v = ds" using msd_digits_value [of 31 ds] ds(1,3) by simp
  moreover have "be_nat (nat_be 16 v) = v" using ds(4) by (simp add: be_nat_nat_be)
  ultimately show ?thesis using ds(2) k by (simp add: kit_letters_def)
qed

text \<open>A printed recovery kit reads back as the secret key it was printed from.\<close>

theorem from_kit_to_kit:
  assumes "length (secret_bytes k) = SECRET_KEY_LEN"
  shows "from_kit (to_kit k) = Inr k"
  using assms by (rule from_kit_cleaned) (rule kit_cleaned_to_kit)

theorem from_kit_to_kit_witness:
  "from_kit (to_kit (SecretKey (replicate 16 (CHR ''A'')))) = Inr (SecretKey (replicate 16 (CHR ''A'')))"
  by (rule from_kit_to_kit) simp

text \<open>
  \<open>from_kit\<close> accepts a typing exactly when, with hyphens, white space and case set aside, it
  is the printed kit of a 16-byte key; that key is what it returns. So no two keys share a typing.
\<close>

theorem from_kit_exact:
  "from_kit s = Inr k \<longleftrightarrow>
     length (secret_bytes k) = SECRET_KEY_LEN \<and> kit_cleaned s = filter (\<lambda>c. c \<noteq> CHR ''-'') (to_kit k)"
  unfolding kit_letters_filter using from_kit_InrD from_kit_cleaned by blast

text \<open>
  The cast \<open>as u8\<close> keeps the low byte of a scalar value, so a character outside ASCII can stand
  for a letter: U+0161 (bytes C5 A1) is read as the letter a.
\<close>

theorem from_kit_accepts_wide_character:
  "from_kit (concat (replicate 26 [char_of (197 :: nat), char_of (161 :: nat)])) =
   Inr (SecretKey (replicate 16 (CHR 0x00)))"
proof (rule from_kit_cleaned)
  let ?w = "[char_of (197 :: nat), char_of (161 :: nat)]"
  have "chars (concat (replicate n ?w)) = replicate n ?w" for n
    by (induction n) (simp_all add: utf8_width_def)
  moreover have "\<not> is_whitespace ?w"
    by (simp add: is_whitespace_def whitespace_chars_def b3_def)
  moreover have "as_u8 (lower_scalar (scalar ?w)) = CHR ''a''"
    by code_simp
  ultimately have "kit_cleaned (concat (replicate 26 ?w)) = replicate 26 (CHR ''a'')"
    by (simp add: kit_cleaned_def)
  moreover have "lsd_digits 31 n 0 = replicate n 0" for n
    by (induction n) simp_all
  moreover have "be_nat (replicate n (CHR 0x00)) = 0" for n
    using msd_value_zeros [of 256 n "[]"] by (simp add: be_nat_def)
  ultimately show "kit_cleaned (concat (replicate 26 ?w)) =
      kit_letters (SecretKey (replicate 16 (CHR 0x00)))"
    by (simp add: kit_letters_def msd_digits_def KIT_ALPHABET_def)
qed simp

text \<open>A printed kit has six groups: five of five characters and a last one of one.\<close>

lemma chunks_lengths: "length s = 26 \<Longrightarrow> map length (chunks 5 s) = [5, 5, 5, 5, 5, 1]"
  by (auto simp: chunks.simps)

theorem kit_groups_six: "map length (kit_groups k) = [5, 5, 5, 5, 5, 1]"
  by (simp add: kit_groups_letters chunks_lengths)

section \<open>Deriving and using the account keys\<close>

lemma account_derive_len:
  "hkdf_len P \<Longrightarrow> account_derive P pw sk salt ps = Inr ks \<Longrightarrow> length (key_expose (enc_key ks)) = KEY_LEN"
  by (auto simp: account_derive_def and_then_Inr hkdf_len_def split: option.splits)

text \<open>The secret key has a fixed length, so the concatenation has one reading.\<close>

lemma account_material_inj:
  "length (secret_bytes a) = 16 \<Longrightarrow> length (secret_bytes b) = 16 \<Longrightarrow>
    p @ secret_bytes a = q @ secret_bytes b \<longleftrightarrow> p = q \<and> a = b"
  by (auto dest: secret_key.expand)

text \<open>
  Parameters outside the accepted bounds are refused as a damaged file before Argon2 runs: the
  answer is the same whatever the key derivation would have done.
\<close>

theorem account_derive_refuses_unbounded_cost:
  "is_ok (kdf_validate ps) \<or> (\<exists>m. \<forall>P. account_derive P pw sk salt ps = Inl (DamagedFile m))"
proof (cases "kdf_validate ps")
  case (Inl e)
  then obtain m where "e = DamagedFile m" using kdf_validate_damaged by blast
  with Inl show ?thesis by (auto simp: account_derive_def)
qed (simp add: is_ok_def)

lemma unwrap_wrap:
  "aead_correct P \<Longrightarrow> length (key_expose (enc_key ks)) = KEY_LEN \<Longrightarrow> length n = NONCE_LEN \<Longrightarrow>
    wrap P n ks b = Inr s \<Longrightarrow> unwrap P ks s = Inr b"
  unfolding wrap_def unwrap_def by (rule open_seal)

lemma unwrap_other_account:
  "aead_binding P \<Longrightarrow> length (key_expose (enc_key ks)) = KEY_LEN \<Longrightarrow>
    length (key_expose (enc_key other)) = KEY_LEN \<Longrightarrow> length n = NONCE_LEN \<Longrightarrow>
    wrap P n ks b = Inr s \<Longrightarrow> other \<noteq> ks \<Longrightarrow> unwrap P other s = Inl Decrypt"
  unfolding wrap_def unwrap_def by (erule open_seal_other) (auto dest: account_keys.expand)

end
