(* ===== verification/Item_Store.thy ===== *)
theory Item_Store
  imports Prelude
begin

text \<open>
  The interface sync and the importers use of a vault: an item is found by id, replaced or
  inserted wholesale, and removed. Its laws say that the store behaves as a finite map as long as
  its invariant holds, which every operation keeps.
\<close>

locale item_store =
  fixes ok :: "'s \<Rightarrow> bool"
    and key :: "'i \<Rightarrow> 'k"
    and get :: "'s \<Rightarrow> 'k \<Rightarrow> 'i option"
    and put :: "'i \<Rightarrow> 's \<Rightarrow> 's"
    and del :: "'k \<Rightarrow> 's \<Rightarrow> 's"
  assumes ok_put: "ok s \<Longrightarrow> ok (put i s)"
    and ok_del: "ok s \<Longrightarrow> ok (del k s)"
    and get_put: "ok s \<Longrightarrow> get (put i s) = (get s)(key i \<mapsto> i)"
    and get_del: "ok s \<Longrightarrow> get (del k s) = (get s)(k := None)"
begin

lemma ok_fold_put: "ok s \<Longrightarrow> ok (fold put is s)"
  by (induction "is" arbitrary: s) (simp_all add: ok_put)

lemma get_fold_put:
  "ok s \<Longrightarrow> get (fold put is s) = get s ++ map_of (rev (map (\<lambda>i. (key i, i)) is))"
proof (induction "is" arbitrary: s)
  case Nil
  then show ?case by simp
next
  case (Cons i "is")
  then show ?case by (simp add: ok_put get_put map_add_def fun_eq_iff split: option.splits)
qed

lemma put_twice: "ok s \<Longrightarrow> key i = key j \<Longrightarrow> get (put j (put i s)) = get (put j s)"
  by (simp add: get_put ok_put)

lemma put_commute: "ok s \<Longrightarrow> key i \<noteq> key j \<Longrightarrow> get (put j (put i s)) = get (put i (put j s))"
  by (simp add: get_put ok_put fun_upd_twist)

lemma del_put: "ok s \<Longrightarrow> get (del (key i) (put i s)) = (get s)(key i := None)"
  by (simp add: get_put get_del ok_put)

lemma ok_fold_del: "ok s \<Longrightarrow> ok (fold del ks s)"
  by (induction ks arbitrary: s) (simp_all add: ok_del)

lemma get_fold_del: "ok s \<Longrightarrow> get (fold del ks s) = (get s) |` (- set ks)"
proof (induction ks arbitrary: s)
  case Nil
  then show ?case by simp
next
  case (Cons k ks)
  then show ?case by (auto simp: ok_del get_del restrict_map_def fun_eq_iff)
qed

end

end
