(* ===== verification/Totp.thy ===== *)
theory Totp
  imports Crypto
begin

text \<open>
  \<open>crates/yara-core/src/totp.rs\<close>: HOTP and TOTP codes, their verification over a window of
  counters, and reading an \<open>otpauth\<close> URI. HMAC, base32, URL parsing and percent encoding are
  other crates' and are the fields of \<open>otp_prims\<close>; the clock is an argument.
\<close>

section \<open>Configuration\<close>

datatype totp_algorithm = Sha1 | Sha256 | Sha512

definition algorithm_as_str :: "totp_algorithm \<Rightarrow> string" where
  "algorithm_as_str a = (case a of Sha1 \<Rightarrow> ''SHA1'' | Sha256 \<Rightarrow> ''SHA256'' | Sha512 \<Rightarrow> ''SHA512'')"

definition algorithm_parse :: "string \<Rightarrow> totp_algorithm result" where
  "algorithm_parse value =
     (let up = to_ascii_uppercase value in
      if up = ''SHA1'' then Inr Sha1
      else if up = ''SHA256'' then Inr Sha256
      else if up = ''SHA512'' then Inr Sha512
      else Inl (UnsupportedOtpAlgorithm up))"

record parsed_url =
  url_scheme :: string
  url_host :: "string option"
  url_path :: string
  url_query :: "(string \<times> string) list"

record otp_prims =
  o_base32 :: "bytes \<Rightarrow> bytes option"
  o_hmac :: "totp_algorithm \<Rightarrow> bytes \<Rightarrow> bytes \<Rightarrow> bytes"
  o_url_parse :: "string \<Rightarrow> parsed_url option"
  o_percent_decode :: "string \<Rightarrow> string"
  o_percent_encode :: "string \<Rightarrow> string"

text \<open>The output of HMAC is the hash's: 20, 32 or 64 bytes.\<close>

definition hmac_len :: "otp_prims \<Rightarrow> bool" where
  "hmac_len H \<longleftrightarrow> (\<forall>k m. length (o_hmac H Sha1 k m) = 20 \<and> length (o_hmac H Sha256 k m) = 32 \<and>
     length (o_hmac H Sha512 k m) = 64)"

definition DEFAULT_DIGITS :: u32 where "DEFAULT_DIGITS = 6"
definition DEFAULT_PERIOD :: u64 where "DEFAULT_PERIOD = 30"
definition MAX_SKEW :: u64 where "MAX_SKEW = 10"

record totp_config =
  otp_secret :: secret_string
  otp_algorithm :: totp_algorithm
  otp_digits :: u32
  otp_period :: u64
  otp_issuer :: "string option"
  otp_account :: "string option"

definition totp_new :: "secret_string \<Rightarrow> totp_config" where
  "totp_new secret =
     \<lparr>otp_secret = secret, otp_algorithm = Sha1, otp_digits = DEFAULT_DIGITS,
      otp_period = DEFAULT_PERIOD, otp_issuer = None, otp_account = None\<rparr>"

definition normalize_secret :: "string \<Rightarrow> bytes" where
  "normalize_secret s =
     concat (map to_ascii_uppercase
       (filter (\<lambda>c. \<not> is_whitespace c \<and> c \<noteq> ''-'' \<and> c \<noteq> ''='') (chars s)))"

definition decode_secret :: "otp_prims \<Rightarrow> totp_config \<Rightarrow> bytes result" where
  "decode_secret H cfg =
     (let normalized = normalize_secret (expose (otp_secret cfg)) in
      if normalized = [] then Inl InvalidBase32
      else ok_or InvalidBase32 (o_base32 H normalized))"

definition digits_allowed :: "u32 \<Rightarrow> bool" where
  "digits_allowed d \<longleftrightarrow> 6 \<le> d \<and> d \<le> 10"

definition totp_validate :: "otp_prims \<Rightarrow> totp_config \<Rightarrow> unit result" where
  "totp_validate H cfg =
     (if \<not> digits_allowed (otp_digits cfg) then Inl (InvalidDigits (otp_digits cfg))
      else if otp_period cfg = 0 then Inl InvalidPeriod
      else and_then (decode_secret H cfg) (\<lambda>_. Inr ()))"

section \<open>Codes\<close>

text \<open>Dynamic truncation: the low nibble of the last byte selects four bytes; the top bit is masked.\<close>

definition truncate_digest :: "bytes \<Rightarrow> nat" where
  "truncate_digest digest =
     (let offset = code (digest ! (length digest - 1)) mod 16
      in (code (digest ! offset) mod 128) * 2 ^ 24 + code (digest ! (offset + 1)) * 2 ^ 16
         + code (digest ! (offset + 2)) * 2 ^ 8 + code (digest ! (offset + 3)))"

definition hotp :: "otp_prims \<Rightarrow> bytes \<Rightarrow> u64 \<Rightarrow> u32 \<Rightarrow> totp_algorithm \<Rightarrow> string" where
  "hotp H k counter digits algorithm =
     (let message = nat_be 8 (unat counter);
          digest = o_hmac H algorithm k message
      in pad_zero (unat digits) (truncate_digest digest mod 10 ^ unat digits))"

definition generate_at :: "otp_prims \<Rightarrow> totp_config \<Rightarrow> u64 \<Rightarrow> string result" where
  "generate_at H cfg unix_seconds =
     (if \<not> digits_allowed (otp_digits cfg) then Inl (InvalidDigits (otp_digits cfg))
      else if otp_period cfg = 0 then Inl InvalidPeriod
      else and_then (decode_secret H cfg) (\<lambda>k.
        Inr (hotp H k (unix_seconds div otp_period cfg) (otp_digits cfg) (otp_algorithm cfg))))"

definition seconds_remaining_at :: "totp_config \<Rightarrow> u64 \<Rightarrow> u64" where
  "seconds_remaining_at cfg unix_seconds =
     (if otp_period cfg = 0 then 0 else otp_period cfg - (unix_seconds mod otp_period cfg))"

text \<open>The inclusive range \<open>lo..=hi\<close> and the loop over it, which goes on after a match.\<close>

definition range_inclusive :: "u64 \<Rightarrow> u64 \<Rightarrow> u64 list" where
  "range_inclusive lo hi = map of_nat [unat lo ..< Suc (unat hi)]"

definition verify_at :: "otp_prims \<Rightarrow> totp_config \<Rightarrow> string \<Rightarrow> u64 \<Rightarrow> u64 \<Rightarrow> bool result" where
  "verify_at H cfg candidate_code unix_seconds skew =
     and_then (totp_validate H cfg) (\<lambda>_.
     if skew > MAX_SKEW then Inl (InvalidSkew skew MAX_SKEW)
     else and_then (decode_secret H cfg) (\<lambda>k.
       let candidate = trim candidate_code;
           current = unix_seconds div otp_period cfg
       in Inr (foldl (\<lambda>matched counter.
                 matched \<or> hotp H k counter (otp_digits cfg) (otp_algorithm cfg) = candidate)
               False (range_inclusive (sat_sub current skew) (sat_add current skew)))))"

section \<open>\<open>otpauth\<close> URIs\<close>

definition query_step :: "(totp_config \<times> bool) result \<Rightarrow> string \<times> string \<Rightarrow> (totp_config \<times> bool) result" where
  "query_step acc kv = and_then acc (\<lambda>(cfg, has_secret).
     (case kv of (k, value) \<Rightarrow>
       if k = ''secret'' then Inr (cfg\<lparr>otp_secret := SecretString value\<rparr>, True)
       else if k = ''algorithm'' then
         and_then (algorithm_parse value) (\<lambda>a. Inr (cfg\<lparr>otp_algorithm := a\<rparr>, has_secret))
       else if k = ''digits'' then
         and_then (ok_or (InvalidOtpUri ''digits is not a number'') (parse_uint 32 value))
           (\<lambda>n. Inr (cfg\<lparr>otp_digits := of_nat n\<rparr>, has_secret))
       else if k = ''period'' then
         and_then (ok_or (InvalidOtpUri ''period is not a number'') (parse_uint 64 value))
           (\<lambda>n. Inr (cfg\<lparr>otp_period := of_nat n\<rparr>, has_secret))
       else if k = ''issuer'' then Inr (cfg\<lparr>otp_issuer := Some value\<rparr>, has_secret)
       else Inr (cfg, has_secret)))"

definition apply_label :: "string \<Rightarrow> totp_config \<Rightarrow> totp_config" where
  "apply_label label cfg =
     (if label = [] then cfg
      else case split_once (CHR '':'') label of
        Some (issuer, account) \<Rightarrow>
          (let cfg' = (if otp_issuer cfg = None \<and> issuer \<noteq> []
                       then cfg\<lparr>otp_issuer := Some (trim issuer)\<rparr> else cfg)
           in cfg'\<lparr>otp_account := Some (trim account)\<rparr>)
      | None \<Rightarrow> cfg\<lparr>otp_account := Some label\<rparr>)"

definition from_uri :: "otp_prims \<Rightarrow> string \<Rightarrow> totp_config result" where
  "from_uri H uri =
     (case o_url_parse H uri of
        None \<Rightarrow> Inl (InvalidOtpUri ''not a valid URI'')
      | Some url \<Rightarrow>
          if url_scheme url \<noteq> ''otpauth'' then Inl (InvalidOtpUri ''scheme must be otpauth'')
          else if map_option to_ascii_lowercase (url_host url) \<noteq> Some ''totp''
          then Inl (InvalidOtpUri ''only totp is supported'')
          else and_then (foldl query_step (Inr (totp_new (SecretString []), False)) (url_query url))
            (\<lambda>(cfg, has_secret).
              if \<not> has_secret then Inl (InvalidOtpUri ''missing secret parameter'')
              else
                let label = o_percent_decode H (dropWhile (\<lambda>c. c = CHR ''/'') (url_path url));
                    cfg' = apply_label label cfg
                in and_then (totp_validate H cfg') (\<lambda>_. Inr cfg')))"

definition to_uri :: "otp_prims \<Rightarrow> totp_config \<Rightarrow> string" where
  "to_uri H cfg =
     (let account = case_option [] id (otp_account cfg);
          label = (case otp_issuer cfg of Some issuer \<Rightarrow> issuer @ '':'' @ account | None \<Rightarrow> account)
      in ''otpauth://totp/'' @ o_percent_encode H label @ ''?secret='' @ expose (otp_secret cfg)
         @ (case otp_issuer cfg of Some issuer \<Rightarrow> ''&issuer='' @ o_percent_encode H issuer | None \<Rightarrow> [])
         @ ''&algorithm='' @ algorithm_as_str (otp_algorithm cfg)
         @ ''&digits='' @ show_nat (unat (otp_digits cfg))
         @ ''&period='' @ show_nat (unat (otp_period cfg)))"

section \<open>Truncation and the shape of a code\<close>

lemma four_bytes_less: "a < 128 \<Longrightarrow> b < 256 \<Longrightarrow> c < 256 \<Longrightarrow> d < 256 \<Longrightarrow>
    a * 2 ^ 24 + b * 2 ^ 16 + c * 2 ^ 8 + d < (2 ^ 31 :: nat)"
  by simp

lemma three_bytes_less: "b < 256 \<Longrightarrow> c < 256 \<Longrightarrow> d < 256 \<Longrightarrow>
    b * 2 ^ 16 + c * 2 ^ 8 + d < (2 ^ 24 :: nat)"
  by simp

lemma truncate_digest_less: "truncate_digest digest < 2 ^ 31"
  unfolding truncate_digest_def Let_def by (rule four_bytes_less) simp_all

lemma take4: "i + 4 \<le> length xs \<Longrightarrow> take 4 (drop i xs) = [xs ! i, xs ! (i + 1), xs ! (i + 2), xs ! (i + 3)]"
  by (rule nth_equalityI) (auto simp: less_Suc_eq numeral_eq_Suc)

text \<open>
  The truncation is RFC 4226's: the four bytes at the offset, read as one big-endian number,
  with the sign bit cleared, modulo the power of ten.
\<close>

theorem hotp_truncation:
  assumes "hmac_len H"
  shows "\<exists>offset < 16. offset = code (last (o_hmac H a k (nat_be 8 (unat c)))) mod 16 \<and>
    msd_value 10 (map digit_val (hotp H k c d a)) =
    be_nat (take 4 (drop offset (o_hmac H a k (nat_be 8 (unat c))))) mod 2 ^ 31 mod 10 ^ unat d"
proof -
  define dg where "dg = o_hmac H a k (nat_be 8 (unat c))"
  define off where "off = code (last dg) mod 16"
  have len: "20 \<le> length dg" using assms by (cases a) (auto simp: dg_def hmac_len_def)
  have off: "off < 16" by (simp add: off_def)
  have last: "dg ! (length dg - 1) = last dg" using len by (subst last_conv_nth) auto
  have "be_nat (take 4 (drop off dg)) =
      code (dg ! off) * 2 ^ 24 + (code (dg ! (off + 1)) * 2 ^ 16 + code (dg ! (off + 2)) * 2 ^ 8 + code (dg ! (off + 3)))"
    using len off by (subst take4) (auto simp: be_nat_def msd_value_def)
  moreover have "(x * 2 ^ 24 + r) mod 2 ^ 31 = (x mod 128) * 2 ^ 24 + r" if "r < 2 ^ 24" for x r :: nat
  proof -
    have "x * 2 ^ 24 + r = (x div 128) * 2 ^ 31 + ((x mod 128) * 2 ^ 24 + r)"
    proof -
      have "x * 16777216 = (x div 128) * 2147483648 + (x mod 128) * 16777216"
        using div_mult_mod_eq [of x 128] by linarith
      then show ?thesis by simp
    qed
    moreover have "(x mod 128) * 2 ^ 24 + r < 2 ^ 31"
      using that mod_less_divisor [of 128 x] by simp
    ultimately show ?thesis by (metis mod_less mod_mult_self3)
  qed
  moreover have "code (dg ! (off + 1)) * 2 ^ 16 + code (dg ! (off + 2)) * 2 ^ 8 + code (dg ! (off + 3)) < 2 ^ 24"
    by (rule three_bytes_less) simp_all
  ultimately have "truncate_digest dg = be_nat (take 4 (drop off dg)) mod 2 ^ 31"
    unfolding truncate_digest_def Let_def last off_def [symmetric] by simp
  then show ?thesis
    using off by (intro exI [of _ off]) (simp add: hotp_def pad_zero_value flip: dg_def off_def)
qed

text \<open>A reading of the primitives on which the hypotheses hold: digests of the right length.\<close>

definition sample_otp :: otp_prims where
  "sample_otp =
     \<lparr>o_base32 = (\<lambda>s. Some s),
      o_hmac = (\<lambda>a k m. replicate (case a of Sha1 \<Rightarrow> 20 | Sha256 \<Rightarrow> 32 | Sha512 \<Rightarrow> 64) (CHR ''A'')),
      o_url_parse = (\<lambda>u. Some \<lparr>url_scheme = ''otpauth'', url_host = Some ''totp'', url_path = ''/b'',
         url_query = [(''secret'', u)]\<rparr>),
      o_percent_decode = id, o_percent_encode = id\<rparr>"

lemma sample_hmac_len: "hmac_len sample_otp"
  by (simp add: hmac_len_def sample_otp_def)

theorem hotp_truncation_witness:
  "\<exists>offset < 16. offset = code (last (o_hmac sample_otp Sha1 ''k'' (nat_be 8 (unat (7 :: u64))))) mod 16 \<and>
    msd_value 10 (map digit_val (hotp sample_otp ''k'' 7 6 Sha1)) =
    be_nat (take 4 (drop offset (o_hmac sample_otp Sha1 ''k'' (nat_be 8 (unat (7 :: u64)))))) mod 2 ^ 31 mod 10 ^ unat (6 :: u32)"
  by (rule hotp_truncation) (rule sample_hmac_len)

lemma sample_hotp: "hotp sample_otp k c 6 Sha1 = ''795585''"
proof -
  have "truncate_digest (replicate 20 (CHR ''A'')) = 1094795585"
    by (simp add: truncate_digest_def)
  moreover have "pad_zero 6 795585 = ''795585''"
    by (simp add: pad_zero_def show_nat.simps digit_char_numerals)
  ultimately show ?thesis by (simp add: hotp_def sample_otp_def)
qed

lemma digits_allowed_unat: "digits_allowed d \<Longrightarrow> 6 \<le> unat d \<and> unat d \<le> 10"
  by (auto simp: digits_allowed_def word_le_nat_alt)

lemma hotp_digits: "c \<in> set (hotp H k n d a) \<Longrightarrow> is_ascii_digit c"
  by (auto simp: hotp_def Let_def dest: pad_zero_digits)

lemma length_hotp: "digits_allowed d \<Longrightarrow> length (hotp H k n d a) = unat d"
  using digits_allowed_unat [of d] by (simp add: hotp_def Let_def length_pad_zero)

lemma generate_at_Inr:
  "generate_at H cfg t = Inr otp \<longleftrightarrow>
     digits_allowed (otp_digits cfg) \<and> otp_period cfg \<noteq> 0 \<and>
     (\<exists>k. decode_secret H cfg = Inr k \<and>
        otp = hotp H k (t div otp_period cfg) (otp_digits cfg) (otp_algorithm cfg))"
  by (auto simp: generate_at_def and_then_Inr)

lemma totp_validate_Inr:
  "totp_validate H cfg = Inr () \<longleftrightarrow>
     digits_allowed (otp_digits cfg) \<and> otp_period cfg \<noteq> 0 \<and> (\<exists>k. decode_secret H cfg = Inr k)"
  by (auto simp: totp_validate_def and_then_Inr)

text \<open>
  A configuration that validates produces a code at every moment, and the code is exactly the
  configured number of decimal digits.
\<close>

theorem generate_at_shape:
  assumes "totp_validate H cfg = Inr ()"
  shows "\<exists>otp. generate_at H cfg t = Inr otp \<and> length otp = unat (otp_digits cfg) \<and> list_all is_ascii_digit otp"
  using assms by (auto simp: totp_validate_Inr generate_at_Inr length_hotp list_all_iff dest: hotp_digits)

lemma sample_secret: "decode_secret sample_otp (totp_new (SecretString ''ABC'')) = Inr ''ABC''"
proof -
  have "normalize_secret ''ABC'' = ''ABC''" by code_simp
  then show ?thesis by (simp add: decode_secret_def totp_new_def sample_otp_def)
qed

lemma sample_valid: "totp_validate sample_otp (totp_new (SecretString ''ABC'')) = Inr ()"
  by (simp add: totp_validate_Inr sample_secret) (simp add: totp_new_def digits_allowed_def DEFAULT_DIGITS_def
      DEFAULT_PERIOD_def)

theorem generate_at_shape_witness:
  "\<exists>otp. generate_at sample_otp (totp_new (SecretString ''ABC'')) 59 = Inr otp \<and>
     length otp = unat (otp_digits (totp_new (SecretString ''ABC''))) \<and> list_all is_ascii_digit otp"
  by (rule generate_at_shape) (rule sample_valid)

section \<open>Verification\<close>

lemma foldl_or: "foldl (\<lambda>m c. m \<or> P c) b cs \<longleftrightarrow> b \<or> (\<exists>c \<in> set cs. P c)"
  by (induction cs arbitrary: b) auto

lemma set_range_inclusive: "c \<in> set (range_inclusive lo hi) \<longleftrightarrow> lo \<le> c \<and> c \<le> hi"
proof
  assume "c \<in> set (range_inclusive lo hi)"
  then obtain n where n: "unat lo \<le> n" "n \<le> unat hi" "c = of_nat n"
    by (auto simp: range_inclusive_def)
  have "unat hi < 2 ^ 64" using unsigned_less [of hi] by simp
  with n have "unat c = n" by (simp add: unat_of_nat)
  with n show "lo \<le> c \<and> c \<le> hi" by (simp add: word_le_nat_alt)
next
  assume "lo \<le> c \<and> c \<le> hi"
  then have "unat c \<in> set [unat lo ..< Suc (unat hi)]" by (auto simp: word_le_nat_alt)
  then show "c \<in> set (range_inclusive lo hi)"
    unfolding range_inclusive_def set_map by (intro image_eqI [of _ _ "unat c"]) simp_all
qed

lemma verify_at_Inr:
  "verify_at H cfg s t skew = Inr b \<longleftrightarrow>
     totp_validate H cfg = Inr () \<and> skew \<le> MAX_SKEW \<and>
     (\<exists>k. decode_secret H cfg = Inr k \<and>
       b = (\<exists>c. sat_sub (t div otp_period cfg) skew \<le> c \<and> c \<le> sat_add (t div otp_period cfg) skew \<and>
              hotp H k c (otp_digits cfg) (otp_algorithm cfg) = trim s))"
proof -
  have "(\<exists>c \<in> set (range_inclusive lo hi). P c) \<longleftrightarrow> (\<exists>c. lo \<le> c \<and> c \<le> hi \<and> P c)" for lo hi P
    by (auto simp: set_range_inclusive)
  then show ?thesis
    by (cases "totp_validate H cfg"; cases "decode_secret H cfg")
      (auto simp: verify_at_def Let_def foldl_or)
qed

lemma trim_digits:
  assumes "list_all is_ascii_digit s"
  shows "trim s = s"
proof (rule trim_no_whitespace)
  have "chars s = map (\<lambda>c. [c]) s"
    using assms by (intro chars_ascii) (auto simp: list_all_iff is_ascii_digit_def is_ascii_def)
  then show "\<forall>c \<in> set (chars s). \<not> is_whitespace c"
    using assms by (auto simp: list_all_iff is_ascii_digit_def is_whitespace_ascii)
qed

lemma within_skew:
  fixes a b skew :: u64
  assumes "unat a \<le> unat b + unat skew" and "unat b \<le> unat a + unat skew"
  shows "sat_sub b skew \<le> a \<and> a \<le> sat_add b skew"
proof -
  have "unat a < 2 ^ 64" using unsigned_less [of a] by simp
  with assms show ?thesis by (simp add: word_le_nat_alt unat_sat_sub unat_sat_add)
qed

text \<open>
  The code shown at one moment is accepted at another as long as the two moments are at most
  \<open>skew\<close> steps apart, spaces typed around it included.
\<close>

theorem verify_at_accepts_generated:
  assumes "generate_at H cfg t = Inr otp" and "skew \<le> MAX_SKEW"
    and "unat (t div otp_period cfg) \<le> unat (now div otp_period cfg) + unat skew"
    and "unat (now div otp_period cfg) \<le> unat (t div otp_period cfg) + unat skew"
    and "trim typed = otp"
  shows "verify_at H cfg typed now skew = Inr True"
proof -
  from assms(1) obtain k where k: "decode_secret H cfg = Inr k"
    and otp: "otp = hotp H k (t div otp_period cfg) (otp_digits cfg) (otp_algorithm cfg)"
    and valid: "totp_validate H cfg = Inr ()"
    unfolding generate_at_Inr totp_validate_Inr by blast
  show ?thesis
    unfolding verify_at_Inr
    by (intro conjI valid assms(2) exI [of _ k] k)
      (use within_skew [OF assms(3,4)] otp assms(5) in auto)
qed

theorem verify_at_accepts_generated_witness:
  "verify_at sample_otp (totp_new (SecretString ''ABC'')) ''795585'' 85 1 = Inr True"
proof (rule verify_at_accepts_generated [where t = 59])
  show "generate_at sample_otp (totp_new (SecretString ''ABC'')) 59 = Inr ''795585''"
    using sample_valid by (auto simp: generate_at_Inr totp_validate_Inr totp_new_def DEFAULT_DIGITS_def sample_hotp)
  show "trim ''795585'' = ''795585''"
    by (rule trim_digits) (simp add: is_ascii_digit_def)
  have "otp_period (totp_new (SecretString ''ABC'')) = 30"
    by (simp add: totp_new_def DEFAULT_PERIOD_def)
  then show "unat (59 div otp_period (totp_new (SecretString ''ABC''))) \<le>
      unat (85 div otp_period (totp_new (SecretString ''ABC''))) + unat (1 :: u64)"
    "unat (85 div otp_period (totp_new (SecretString ''ABC''))) \<le>
      unat (59 div otp_period (totp_new (SecretString ''ABC''))) + unat (1 :: u64)"
    by (simp_all add: unat_div)
qed (simp add: MAX_SKEW_def)

text \<open>
  A code is accepted only if it is the code of some counter within \<open>skew\<close> steps of now; the
  ends of the window saturate at the ends of the 64-bit range instead of wrapping.
\<close>

theorem verify_at_window:
  assumes "verify_at H cfg typed now skew = Inr True"
  shows "\<exists>k c. decode_secret H cfg = Inr k \<and>
    unat (now div otp_period cfg) \<le> unat c + unat skew \<and>
    unat c \<le> unat (now div otp_period cfg) + unat skew \<and> unat skew \<le> 10 \<and>
    trim typed = hotp H k c (otp_digits cfg) (otp_algorithm cfg)"
proof -
  from assms obtain k c where k: "decode_secret H cfg = Inr k" and s: "skew \<le> MAX_SKEW"
    and c: "sat_sub (now div otp_period cfg) skew \<le> c" "c \<le> sat_add (now div otp_period cfg) skew"
    and e: "trim typed = hotp H k c (otp_digits cfg) (otp_algorithm cfg)"
    by (auto simp: verify_at_Inr)
  have "unat (now div otp_period cfg) \<le> unat c + unat skew"
    using c(1) by (simp add: word_le_nat_alt unat_sat_sub)
  moreover have "unat c \<le> unat (now div otp_period cfg) + unat skew"
    using c(2) by (simp add: word_le_nat_alt unat_sat_add)
  moreover have "unat skew \<le> 10" using s by (simp add: word_le_nat_alt MAX_SKEW_def)
  ultimately show ?thesis using k e by blast
qed

theorem verify_at_window_witness:
  "\<exists>k c. decode_secret sample_otp (totp_new (SecretString ''ABC'')) = Inr k \<and>
    unat ((91 :: u64) div otp_period (totp_new (SecretString ''ABC''))) \<le> unat c + unat (1 :: u64) \<and>
    unat c \<le> unat ((91 :: u64) div otp_period (totp_new (SecretString ''ABC''))) + unat (1 :: u64) \<and>
    unat (1 :: u64) \<le> 10 \<and>
    trim ''795585'' = hotp sample_otp k c (otp_digits (totp_new (SecretString ''ABC'')))
      (otp_algorithm (totp_new (SecretString ''ABC'')))"
proof (rule verify_at_window)
  have "trim ''795585'' = ''795585''"
    by (rule trim_digits) (simp add: is_ascii_digit_def)
  moreover have "\<exists>c. sat_sub a b \<le> c \<and> c \<le> sat_add a b" for a b :: u64
    by (intro exI [of _ a]) (simp add: sat_sub_le sat_add_ge)
  ultimately show "verify_at sample_otp (totp_new (SecretString ''ABC'')) ''795585'' 91 1 = Inr True"
    by (simp add: verify_at_Inr sample_valid sample_secret MAX_SKEW_def)
      (simp add: totp_new_def DEFAULT_DIGITS_def sample_hotp)
qed

lemma complete_step: "0 < p \<Longrightarrow> t + (p - t mod p) = Suc (t div p) * p" for t p :: nat
proof -
  assume "0 < p"
  then have "t mod p \<le> p" by (simp add: less_imp_le)
  moreover have "t = t div p * p + t mod p" by simp
  ultimately have "t + (p - t mod p) = t div p * p + p" by linarith
  then show ?thesis by simp
qed

text \<open>
  The countdown is at least one second and at most a period, and when it has run out the counter
  has advanced by exactly one.
\<close>

theorem seconds_remaining_next_step:
  assumes "otp_period cfg \<noteq> 0"
  shows "0 < seconds_remaining_at cfg t \<and> seconds_remaining_at cfg t \<le> otp_period cfg \<and>
    (unat t + unat (seconds_remaining_at cfg t)) div unat (otp_period cfg) =
      Suc (unat (t div otp_period cfg))"
proof -
  let ?p = "unat (otp_period cfg)"
  have p: "0 < ?p" using assms by (simp add: unat_gt_0)
  have m: "unat t mod ?p < ?p" using p by simp
  have r: "unat (seconds_remaining_at cfg t) = ?p - unat t mod ?p"
    using assms m by (simp add: seconds_remaining_at_def unat_sub_if' unat_mod)
  have "unat t + (?p - unat t mod ?p) = (Suc (unat t div ?p)) * ?p"
    by (rule complete_step) (rule p)
  then have "(unat t + unat (seconds_remaining_at cfg t)) div ?p = Suc (unat t div ?p)"
    using p r by simp
  moreover have "0 < unat (seconds_remaining_at cfg t)" "unat (seconds_remaining_at cfg t) \<le> ?p"
    using r m by auto
  ultimately show ?thesis by (simp add: word_less_nat_alt word_le_nat_alt unat_div)
qed

theorem seconds_remaining_next_step_witness:
  "0 < seconds_remaining_at (totp_new (SecretString [])) 59 \<and>
   seconds_remaining_at (totp_new (SecretString [])) 59 \<le> otp_period (totp_new (SecretString [])) \<and>
    (unat (59 :: u64) + unat (seconds_remaining_at (totp_new (SecretString [])) 59)) div
      unat (otp_period (totp_new (SecretString []))) =
      Suc (unat ((59 :: u64) div otp_period (totp_new (SecretString []))))"
  by (rule seconds_remaining_next_step) (simp add: totp_new_def DEFAULT_PERIOD_def)

section \<open>Reading a URI\<close>

lemma foldl_query_Inl [simp]: "foldl query_step (Inl e) kvs = Inl e"
  by (induction kvs) (simp_all add: query_step_def)

lemma query_step_secret:
  "query_step (Inr (cfg, b)) (k, v) = Inr (cfg', b') \<Longrightarrow>
    (k = ''secret'' \<longrightarrow> b' \<and> otp_secret cfg' = SecretString v) \<and>
    (k \<noteq> ''secret'' \<longrightarrow> b' = b \<and> otp_secret cfg' = otp_secret cfg)"
  by (auto simp: query_step_def and_then_Inr ok_or_Inr split: if_splits)

lemma foldl_query_secret:
  "foldl query_step (Inr (cfg, b)) kvs = Inr (cfg', b') \<Longrightarrow>
    (b' \<longleftrightarrow> b \<or> ''secret'' \<in> fst ` set kvs)"
proof (induction kvs arbitrary: cfg b)
  case Nil
  then show ?case by simp
next
  case (Cons kv kvs)
  obtain k v where kv: "kv = (k, v)" by (cases kv)
  show ?case
  proof (cases "query_step (Inr (cfg, b)) kv")
    case (Inl e)
    with Cons.prems show ?thesis by simp
  next
    case (Inr r)
    obtain c1 b1 where r: "r = (c1, b1)" by (cases r)
    have "foldl query_step (Inr (c1, b1)) kvs = Inr (cfg', b')" using Cons.prems Inr r by simp
    then have "b' \<longleftrightarrow> b1 \<or> ''secret'' \<in> fst ` set kvs" by (rule Cons.IH)
    with query_step_secret [of cfg b k v c1 b1] Inr r kv show ?thesis by auto
  qed
qed

text \<open>
  A URI that is accepted has the \<open>otpauth\<close> scheme, the \<open>totp\<close> type and a secret, and the
  configuration it yields validates: codes can be generated from it at every moment.
\<close>

theorem from_uri_usable:
  assumes "from_uri H uri = Inr cfg"
  shows "totp_validate H cfg = Inr () \<and> (\<exists>otp. generate_at H cfg t = Inr otp) \<and>
    (\<exists>url. o_url_parse H uri = Some url \<and> url_scheme url = ''otpauth'' \<and>
       ''secret'' \<in> fst ` set (url_query url))"
proof -
  from assms obtain url c where u: "o_url_parse H uri = Some url" "url_scheme url = ''otpauth''"
    and f: "foldl query_step (Inr (totp_new (SecretString []), False)) (url_query url) = Inr (c, True)"
    and v: "totp_validate H cfg = Inr ()"
    by (auto simp: from_uri_def and_then_Inr Let_def split: option.splits if_splits)
  from v have "\<exists>otp. generate_at H cfg t = Inr otp"
    by (auto simp: totp_validate_Inr generate_at_Inr)
  with u v foldl_query_secret [OF f] show ?thesis by blast
qed

lemma totp_validate_label [simp]:
  "totp_validate H (c\<lparr>otp_account := a\<rparr>) = totp_validate H c"
  by (simp add: totp_validate_def decode_secret_def)

lemma lower_totp: "to_ascii_lowercase ''totp'' = ''totp''"
  by code_simp

lemma sample_url:
  "o_url_parse sample_otp u = Some \<lparr>url_scheme = ''otpauth'', url_host = Some ''totp'', url_path = ''/b'',
     url_query = [(''secret'', u)]\<rparr>"
  "o_percent_decode sample_otp s = s"
  by (simp_all add: sample_otp_def)

theorem from_uri_usable_witness:
  "\<exists>cfg. totp_validate sample_otp cfg = Inr () \<and> (\<exists>otp. generate_at sample_otp cfg 59 = Inr otp) \<and>
    (\<exists>url. o_url_parse sample_otp ''ABC'' = Some url \<and> url_scheme url = ''otpauth'' \<and>
       ''secret'' \<in> fst ` set (url_query url))"
proof -
  let ?c = "totp_new (SecretString ''ABC'')"
  have sample_new: "(totp_new s)\<lparr>otp_secret := t\<rparr> = totp_new t" for s t
    by (simp add: totp_new_def)
  have "apply_label ''b'' ?c = ?c\<lparr>otp_account := Some ''b''\<rparr>"
    by (simp add: apply_label_def split_once_def)
  then have "from_uri sample_otp ''ABC'' = Inr (?c\<lparr>otp_account := Some ''b''\<rparr>)"
    using sample_valid
    by (simp add: from_uri_def sample_url query_step_def lower_totp Let_def sample_new)
  from from_uri_usable [OF this] show ?thesis by blast
qed

end
