(* ===== verification/Vault_Data.thy ===== *)
theory Vault_Data
  imports Item_Store Totp
begin

text \<open>
  The decrypted contents of a vault (\<open>crates/yara-core/src/vault.rs\<close>): items, folders, audit
  records and tombstones, and every method of \<open>UnlockedVault\<close> that reads or changes them. The
  methods here touch only the field \<open>data\<close>, so they are functions of \<open>vault_data\<close>; the keys
  around it are in \<open>Vault_File\<close>. The clock is the argument \<open>now\<close>.
\<close>

section \<open>Items\<close>

datatype item_kind = Login | Card | Note

definition item_kind_as_str :: "item_kind \<Rightarrow> string" where
  "item_kind_as_str k = (case k of Login \<Rightarrow> ''login'' | Card \<Rightarrow> ''card'' | Note \<Rightarrow> ''note'')"

record field =
  field_label :: string
  field_value :: secret_string
  field_secret :: bool

definition field_new :: "string \<Rightarrow> secret_string \<Rightarrow> field" where
  "field_new l v = \<lparr>field_label = l, field_value = v, field_secret = False\<rparr>"

datatype cadence = Monthly | Yearly | Usage

definition cadence_as_str :: "cadence \<Rightarrow> string" where
  "cadence_as_str c = (case c of Monthly \<Rightarrow> ''monthly'' | Yearly \<Rightarrow> ''yearly'' | Usage \<Rightarrow> ''usage'')"

record subscription =
  sub_plan :: "string option"
  sub_amount_minor :: i64
  sub_currency :: string
  sub_cadence :: cadence
  sub_next_charge :: "u64 option"
  sub_paid_with :: "uuid option"

text \<open>Rust's \<open>/\<close> on \<open>i64\<close> truncates towards zero.\<close>

definition i64_div :: "i64 \<Rightarrow> int \<Rightarrow> i64" where
  "i64_div a b = word_of_int (sgn (sint a) * sgn b * (\<bar>sint a\<bar> div \<bar>b\<bar>))"

definition monthly_minor :: "subscription \<Rightarrow> i64 option" where
  "monthly_minor s =
     (case sub_cadence s of
        Monthly \<Rightarrow> Some (sub_amount_minor s)
      | Yearly \<Rightarrow> Some (i64_div (sub_amount_minor s) 12)
      | Usage \<Rightarrow> None)"

record item =
  item_id :: uuid
  item_name :: string
  item_kind :: item_kind
  item_username :: "string option"
  item_password :: "secret_string option"
  item_url :: "string option"
  item_notes :: "secret_string option"
  item_totp :: "totp_config option"
  item_fields :: "field list"
  item_folder :: "string option"
  item_tags :: "string list"
  item_subscription :: "subscription option"
  item_created_at :: u64
  item_updated_at :: u64

definition item_new :: "uuid \<Rightarrow> u64 \<Rightarrow> string \<Rightarrow> item" where
  "item_new fresh now name =
     \<lparr>item_id = fresh, item_name = name, item_kind = Login, item_username = None,
      item_password = None, item_url = None, item_notes = None, item_totp = None,
      item_fields = [], item_folder = None, item_tags = [], item_subscription = None,
      item_created_at = now, item_updated_at = now\<rparr>"

text \<open>Search. \<open>lc\<close> is \<open>str::to_lowercase\<close>.\<close>

definition opt_contains :: "(string \<Rightarrow> string) \<Rightarrow> string \<Rightarrow> string option \<Rightarrow> bool" where
  "opt_contains lc q m = (case m of None \<Rightarrow> False | Some s \<Rightarrow> str_contains (lc s) q)"

definition item_matches :: "(string \<Rightarrow> string) \<Rightarrow> item \<Rightarrow> string \<Rightarrow> bool" where
  "item_matches lc i query =
     (let q = lc (trim query) in
      if q = [] then True
      else opt_contains lc q (Some (item_name i))
        \<or> opt_contains lc q (item_username i)
        \<or> opt_contains lc q (item_url i)
        \<or> list_ex (\<lambda>tag. str_contains (lc tag) q) (item_tags i)
        \<or> list_ex (\<lambda>f. str_contains (lc (field_label f)) q
              \<or> (\<not> field_secret f \<and> str_contains (lc (expose (field_value f))) q)) (item_fields i))"

section \<open>The contents of a vault\<close>

definition AUDIT_CAPACITY :: nat where "AUDIT_CAPACITY = 500"
definition TOMBSTONE_RETENTION :: u64 where "TOMBSTONE_RETENTION = 90 * 24 * 60 * 60"
definition TOMBSTONE_CAPACITY :: nat where "TOMBSTONE_CAPACITY = 5000"
definition DEFAULT_AUTO_LOCK :: u64 where "DEFAULT_AUTO_LOCK = 15 * 60"

record tombstone =
  t_id :: uuid
  t_deleted_at :: u64

record sync_state =
  ss_base_url :: string
  ss_account_id :: string
  ss_device_id :: string
  ss_device_seed :: string
  ss_last_revision :: i64
  ss_last_synced_at :: u64

record vault_data =
  vd_items :: "item list"
  vd_audit :: "string list"
  vd_sync :: "sync_state option"
  vd_auto_lock :: "u64 option option"
  vd_icons_enabled :: "bool option"
  vd_folders :: "string list"
  vd_tombstones :: "tombstone list"

definition vault_data_default :: vault_data where
  "vault_data_default =
     \<lparr>vd_items = [], vd_audit = [], vd_sync = None, vd_auto_lock = None, vd_icons_enabled = None,
      vd_folders = [], vd_tombstones = []\<rparr>"

text \<open>Opening an old vault: the first tag becomes the folder, tags are cleared, folders collected in item order.\<close>

definition migrate_item :: "item \<Rightarrow> item" where
  "migrate_item i =
     (let i' = (if item_folder i = None
                then i\<lparr>item_folder := (case item_tags i of [] \<Rightarrow> None | t # _ \<Rightarrow> Some t)\<rparr> else i)
      in i'\<lparr>item_tags := []\<rparr>)"

definition collect_folder :: "item \<Rightarrow> string list \<Rightarrow> string list" where
  "collect_folder i fs =
     (case item_folder i of
        None \<Rightarrow> fs
      | Some f \<Rightarrow> if f \<in> set fs then fs else fs @ [f])"

definition migrate_tags_into_folders :: "vault_data \<Rightarrow> vault_data" where
  "migrate_tags_into_folders d =
     (let items = map migrate_item (vd_items d)
      in d\<lparr>vd_items := items, vd_folders := fold collect_folder items (vd_folders d)\<rparr>)"

section \<open>Reading\<close>

record vault_counts =
  c_total :: nat
  c_logins :: nat
  c_cards :: nat
  c_notes :: nat
  c_authenticator :: nat

definition count_if :: "('a \<Rightarrow> bool) \<Rightarrow> 'a list \<Rightarrow> nat" where
  "count_if P xs = length (filter P xs)"

definition counts :: "vault_data \<Rightarrow> vault_counts" where
  "counts d =
     (let items = vd_items d in
      \<lparr>c_total = length items,
       c_logins = count_if (\<lambda>i. item_kind i = Login \<and> item_password i \<noteq> None) items,
       c_cards = count_if (\<lambda>i. item_kind i = Card) items,
       c_notes = count_if (\<lambda>i. item_kind i = Note) items,
       c_authenticator = count_if (\<lambda>i. item_totp i \<noteq> None) items\<rparr>)"

definition recent :: "nat \<Rightarrow> vault_data \<Rightarrow> item list" where
  "recent limit d = take limit (sort_key (\<lambda>i. - uint (item_updated_at i)) (vd_items d))"

definition vget :: "vault_data \<Rightarrow> uuid \<Rightarrow> item option" where
  "vget d k = find (\<lambda>i. item_id i = k) (vd_items d)"

definition search :: "(string \<Rightarrow> string) \<Rightarrow> vault_data \<Rightarrow> string \<Rightarrow> item list" where
  "search lc d query = filter (\<lambda>i. item_matches lc i query) (vd_items d)"

definition find_tombstone :: "vault_data \<Rightarrow> uuid \<Rightarrow> tombstone option" where
  "find_tombstone d k = find (\<lambda>t. t_id t = k) (vd_tombstones d)"

section \<open>Settings and the audit records\<close>

definition record_audit :: "string \<Rightarrow> vault_data \<Rightarrow> vault_data" where
  "record_audit payload d =
     (let log = vd_audit d @ [payload]
      in d\<lparr>vd_audit := (if length log > AUDIT_CAPACITY then drop (length log - AUDIT_CAPACITY) log else log)\<rparr>)"

definition auto_lock_seconds :: "vault_data \<Rightarrow> u64 option" where
  "auto_lock_seconds d = (case vd_auto_lock d of None \<Rightarrow> Some DEFAULT_AUTO_LOCK | Some s \<Rightarrow> s)"

definition set_auto_lock_seconds :: "u64 option \<Rightarrow> vault_data \<Rightarrow> vault_data" where
  "set_auto_lock_seconds s d = d\<lparr>vd_auto_lock := Some s\<rparr>"

definition icons_enabled :: "vault_data \<Rightarrow> bool" where
  "icons_enabled d = (case vd_icons_enabled d of None \<Rightarrow> True | Some b \<Rightarrow> b)"

definition set_icons_enabled :: "bool \<Rightarrow> vault_data \<Rightarrow> vault_data" where
  "set_icons_enabled b d = d\<lparr>vd_icons_enabled := Some b\<rparr>"

definition set_sync_state :: "sync_state option \<Rightarrow> vault_data \<Rightarrow> vault_data" where
  "set_sync_state s d = d\<lparr>vd_sync := s\<rparr>"

section \<open>Changing items\<close>

definition forget_tombstone :: "uuid \<Rightarrow> vault_data \<Rightarrow> vault_data" where
  "forget_tombstone k d = d\<lparr>vd_tombstones := filter (\<lambda>t. t_id t \<noteq> k) (vd_tombstones d)\<rparr>"

definition upsert :: "item \<Rightarrow> vault_data \<Rightarrow> vault_data" where
  "upsert i d =
     (let d' = forget_tombstone (item_id i) d
      in case find (\<lambda>held. item_id held = item_id i) (vd_items d') of
           Some _ \<Rightarrow> d'\<lparr>vd_items := update_first (\<lambda>held. item_id held = item_id i) (\<lambda>_. i) (vd_items d')\<rparr>
         | None \<Rightarrow> d'\<lparr>vd_items := vd_items d' @ [i]\<rparr>)"

definition add_item :: "item \<Rightarrow> vault_data \<Rightarrow> vault_data \<times> uuid" where
  "add_item i d =
     (let d' = forget_tombstone (item_id i) d
      in (d'\<lparr>vd_items := vd_items d' @ [i]\<rparr>, item_id i))"

definition update_item :: "u64 \<Rightarrow> uuid \<Rightarrow> (item \<Rightarrow> item) \<Rightarrow> vault_data \<Rightarrow> vault_data result" where
  "update_item now k edit d =
     (case find (\<lambda>i. item_id i = k) (vd_items d) of
        None \<Rightarrow> Inl (ItemNotFound k)
      | Some _ \<Rightarrow> Inr (d\<lparr>vd_items :=
          update_first (\<lambda>i. item_id i = k) (\<lambda>i. (edit i)\<lparr>item_updated_at := now\<rparr>) (vd_items d)\<rparr>))"

definition prune_tombstones :: "u64 \<Rightarrow> vault_data \<Rightarrow> vault_data" where
  "prune_tombstones now d =
     (let kept = filter (\<lambda>t. sat_sub now (t_deleted_at t) \<le> TOMBSTONE_RETENTION) (vd_tombstones d)
      in d\<lparr>vd_tombstones :=
           (if length kept > TOMBSTONE_CAPACITY then drop (length kept - TOMBSTONE_CAPACITY) kept else kept)\<rparr>)"

definition record_tombstone :: "uuid \<Rightarrow> u64 \<Rightarrow> vault_data \<Rightarrow> vault_data" where
  "record_tombstone k at d =
     (let d' = forget_tombstone k d
      in prune_tombstones at
           (d'\<lparr>vd_tombstones := vd_tombstones d' @ [\<lparr>t_id = k, t_deleted_at = at\<rparr>]\<rparr>))"

definition remove_item :: "u64 \<Rightarrow> uuid \<Rightarrow> vault_data \<Rightarrow> (vault_data \<times> item) result" where
  "remove_item now k d =
     (case find (\<lambda>i. item_id i = k) (vd_items d) of
        None \<Rightarrow> Inl (ItemNotFound k)
      | Some i \<Rightarrow>
          Inr (record_tombstone k now (d\<lparr>vd_items := remove_first (\<lambda>i. item_id i = k) (vd_items d)\<rparr>), i))"

fun pull_ids :: "uuid list \<Rightarrow> item list \<Rightarrow> item list \<times> item list" where
  "pull_ids [] items = ([], items)"
| "pull_ids (k # ks) items =
     (case find (\<lambda>i. item_id i = k) items of
        None \<Rightarrow> pull_ids ks items
      | Some i \<Rightarrow>
          (case pull_ids ks (remove_first (\<lambda>i. item_id i = k) items) of
             (ordered, rest) \<Rightarrow> (i # ordered, rest)))"

definition reorder_items :: "uuid list \<Rightarrow> vault_data \<Rightarrow> vault_data" where
  "reorder_items ks d =
     (case pull_ids ks (vd_items d) of (ordered, rest) \<Rightarrow> d\<lparr>vd_items := ordered @ rest\<rparr>)"

section \<open>Folders\<close>

definition create_folder :: "string \<Rightarrow> vault_data \<Rightarrow> vault_data \<times> bool" where
  "create_folder name d =
     (if trim name = [] \<or> name \<in> set (vd_folders d) then (d, False)
      else (d\<lparr>vd_folders := vd_folders d @ [name]\<rparr>, True))"

definition refile :: "u64 \<Rightarrow> string \<Rightarrow> string option \<Rightarrow> item \<Rightarrow> item" where
  "refile now from to i =
     (if item_folder i = Some from then i\<lparr>item_folder := to, item_updated_at := now\<rparr> else i)"

definition rename_folder :: "u64 \<Rightarrow> string \<Rightarrow> string \<Rightarrow> vault_data \<Rightarrow> vault_data result" where
  "rename_folder now from to d =
     (if trim to = [] then Inl (InvalidFolder ''a folder needs a name'')
      else if to \<in> set (vd_folders d) then Inl (InvalidFolder (to @ '' already exists''))
      else if from \<notin> set (vd_folders d) then Inl (InvalidFolder (''no folder called '' @ from))
      else Inr (d\<lparr>vd_folders := update_first (\<lambda>f. f = from) (\<lambda>_. to) (vd_folders d),
                  vd_items := map (refile now from (Some to)) (vd_items d)\<rparr>))"

definition delete_folder :: "u64 \<Rightarrow> string \<Rightarrow> vault_data \<Rightarrow> vault_data \<times> nat" where
  "delete_folder now name d =
     (d\<lparr>vd_folders := filter (\<lambda>f. f \<noteq> name) (vd_folders d),
        vd_items := map (refile now name None) (vd_items d)\<rparr>,
      count_if (\<lambda>i. item_folder i = Some name) (vd_items d))"

definition reorder_folders :: "string list \<Rightarrow> vault_data \<Rightarrow> vault_data" where
  "reorder_folders names d =
     d\<lparr>vd_folders :=
        fold (\<lambda>f ordered. if f \<in> set ordered then ordered else ordered @ [f]) (vd_folders d)
          (filter (\<lambda>n. n \<in> set (vd_folders d)) names)\<rparr>"

definition set_folder :: "u64 \<Rightarrow> uuid \<Rightarrow> string option \<Rightarrow> vault_data \<Rightarrow> vault_data result" where
  "set_folder now k folder d =
     (case folder of
        Some name \<Rightarrow>
          if name \<notin> set (vd_folders d) then Inl (InvalidFolder (''no folder called '' @ name))
          else update_item now k (\<lambda>i. i\<lparr>item_folder := folder\<rparr>) d
      | None \<Rightarrow> update_item now k (\<lambda>i. i\<lparr>item_folder := folder\<rparr>) d)"

section \<open>The invariant\<close>

text \<open>
  Ids are unique, no item is also recorded as deleted, and the two growing lists stay within their
  capacities. \<open>add\<close> trusts its caller with the id, so a step may only add an id that is not present.
\<close>

definition vault_wf :: "vault_data \<Rightarrow> bool" where
  "vault_wf d \<longleftrightarrow>
     distinct (map item_id (vd_items d)) \<and>
     distinct (map t_id (vd_tombstones d)) \<and>
     item_id ` set (vd_items d) \<inter> t_id ` set (vd_tombstones d) = {} \<and>
     length (vd_tombstones d) \<le> TOMBSTONE_CAPACITY \<and>
     length (vd_audit d) \<le> AUDIT_CAPACITY"

inductive vault_step :: "vault_data \<Rightarrow> vault_data \<Rightarrow> bool" where
  step_add: "item_id i \<notin> item_id ` set (vd_items d) \<Longrightarrow> vault_step d (fst (add_item i d))"
| step_upsert: "vault_step d (upsert i d)"
| step_update: "(\<And>i. item_id (edit i) = item_id i) \<Longrightarrow> update_item now k edit d = Inr d' \<Longrightarrow> vault_step d d'"
| step_remove: "remove_item now k d = Inr (d', i) \<Longrightarrow> vault_step d d'"
| step_reorder_items: "vault_step d (reorder_items ks d)"
| step_create_folder: "vault_step d (fst (create_folder name d))"
| step_rename_folder: "rename_folder now from to d = Inr d' \<Longrightarrow> vault_step d d'"
| step_delete_folder: "vault_step d (fst (delete_folder now name d))"
| step_reorder_folders: "vault_step d (reorder_folders names d)"
| step_set_folder: "set_folder now k folder d = Inr d' \<Longrightarrow> vault_step d d'"
| step_prune: "vault_step d (prune_tombstones now d)"
| step_migrate: "vault_step d (migrate_tags_into_folders d)"
| step_audit: "vault_step d (record_audit payload d)"
| step_auto_lock: "vault_step d (set_auto_lock_seconds secs d)"
| step_icons: "vault_step d (set_icons_enabled b d)"
| step_sync: "vault_step d (set_sync_state st d)"

inductive vault_reachable :: "vault_data \<Rightarrow> bool" where
  reach_new: "vault_reachable vault_data_default"
| reach_step: "vault_reachable d \<Longrightarrow> vault_step d d' \<Longrightarrow> vault_reachable d'"

lemma wf_default [wf_intros]: "vault_wf vault_data_default"
  by (simp add: vault_wf_def vault_data_default_def)

text \<open>The operations that leave ids, tombstones and audit records alone.\<close>

lemma wf_same_ids:
  "vault_wf d \<Longrightarrow> map item_id (vd_items d') = map item_id (vd_items d) \<Longrightarrow>
    vd_tombstones d' = vd_tombstones d \<Longrightarrow> vd_audit d' = vd_audit d \<Longrightarrow> vault_wf d'"
  unfolding vault_wf_def by (metis list.set_map)

lemma wf_forget [wf_intros]: "vault_wf d \<Longrightarrow> vault_wf (forget_tombstone k d)"
  by (auto simp: vault_wf_def forget_tombstone_def distinct_map_filter_key
      intro: le_trans [OF length_filter_le])

lemma forget_simps [simp]:
  "vd_items (forget_tombstone k d) = vd_items d"
  "vd_audit (forget_tombstone k d) = vd_audit d"
  "vd_folders (forget_tombstone k d) = vd_folders d"
  "k \<notin> t_id ` set (vd_tombstones (forget_tombstone k d))"
  by (auto simp: forget_tombstone_def)

lemma prune_simps [simp]:
  "vd_items (prune_tombstones now d) = vd_items d"
  "vd_audit (prune_tombstones now d) = vd_audit d"
  by (simp_all add: prune_tombstones_def Let_def)

lemma wf_prune [wf_intros]: "vault_wf d \<Longrightarrow> vault_wf (prune_tombstones now d)"
proof -
  assume wf: "vault_wf d"
  define kept where "kept = filter (\<lambda>t. sat_sub now (t_deleted_at t) \<le> TOMBSTONE_RETENTION) (vd_tombstones d)"
  have t: "vd_tombstones (prune_tombstones now d) = keep_last TOMBSTONE_CAPACITY kept"
    by (simp add: prune_tombstones_def kept_def keep_last_def Let_def)
  have "distinct (map t_id kept)"
    using wf by (simp add: kept_def vault_wf_def distinct_map_filter_key)
  then have "distinct (map t_id (keep_last TOMBSTONE_CAPACITY kept))"
    by (simp add: keep_last_drop drop_map [symmetric])
  moreover have "set (keep_last TOMBSTONE_CAPACITY kept) \<subseteq> set (vd_tombstones d)"
    using set_keep_last [of TOMBSTONE_CAPACITY kept] by (auto simp: kept_def)
  ultimately show ?thesis
    using wf by (auto simp: vault_wf_def t length_keep_last prune_simps)
qed

lemma wf_add [wf_intros]:
  "vault_wf d \<Longrightarrow> item_id i \<notin> item_id ` set (vd_items d) \<Longrightarrow> vault_wf (fst (add_item i d))"
  using wf_forget [of d "item_id i"] forget_simps(4) [of "item_id i" d]
  by (auto simp: add_item_def vault_wf_def Let_def)

lemma wf_upsert [wf_intros]: "vault_wf d \<Longrightarrow> vault_wf (upsert i d)"
proof (cases "find (\<lambda>held. item_id held = item_id i) (vd_items d)")
  case None
  assume wf: "vault_wf d"
  from None have "item_id i \<notin> item_id ` set (vd_items d)" by (simp add: find_key_None)
  with wf have "vault_wf (fst (add_item i d))" by (rule wf_add)
  with None show ?thesis by (simp add: upsert_def add_item_def Let_def)
next
  case (Some held)
  assume wf: "vault_wf d"
  let ?d = "forget_tombstone (item_id i) d"
  have "map item_id (update_first (\<lambda>held. item_id held = item_id i) (\<lambda>_. i) (vd_items d)) = map item_id (vd_items d)"
    by (rule map_update_first) simp
  with Some wf_forget [OF wf, of "item_id i"] show ?thesis
    by (auto simp: upsert_def Let_def intro!: wf_same_ids [of ?d])
qed

lemma wf_update [wf_intros]:
  assumes "vault_wf d" and "\<And>i. item_id (edit i) = item_id i" and "update_item now k edit d = Inr d'"
  shows "vault_wf d'"
proof (rule wf_same_ids [OF assms(1)])
  show "map item_id (vd_items d') = map item_id (vd_items d)"
    using assms(2,3) by (auto simp: update_item_def intro!: map_update_first split: option.splits)
qed (use assms(3) in \<open>auto simp: update_item_def split: option.splits\<close>)

lemma record_tombstone_simps [simp]:
  "vd_items (record_tombstone k at d) = vd_items d"
  "vd_audit (record_tombstone k at d) = vd_audit d"
  "vd_folders (record_tombstone k at d) = vd_folders d"
  by (simp_all add: record_tombstone_def prune_tombstones_def Let_def)

text \<open>The list may stand one above the capacity between the push and the pruning.\<close>

lemma record_tombstone_tombstones:
  "vd_tombstones (record_tombstone k at d) =
     keep_last TOMBSTONE_CAPACITY
       (filter (\<lambda>t. sat_sub at (t_deleted_at t) \<le> TOMBSTONE_RETENTION)
          (filter (\<lambda>t. t_id t \<noteq> k) (vd_tombstones d)) @ [\<lparr>t_id = k, t_deleted_at = at\<rparr>])"
proof -
  have "sat_sub at at \<le> TOMBSTONE_RETENTION" by (simp add: sat_sub_def)
  then show ?thesis
    by (simp add: record_tombstone_def prune_tombstones_def forget_tombstone_def keep_last_def Let_def)
qed

lemma wf_record_tombstone:
  assumes "vault_wf d" and "k \<notin> item_id ` set (vd_items d)"
  shows "vault_wf (record_tombstone k at d)"
proof -
  let ?old = "filter (\<lambda>t. sat_sub at (t_deleted_at t) \<le> TOMBSTONE_RETENTION)
    (filter (\<lambda>t. t_id t \<noteq> k) (vd_tombstones d))"
  have "distinct (map t_id (?old @ [\<lparr>t_id = k, t_deleted_at = at\<rparr>]))"
    using assms(1) by (auto simp: vault_wf_def distinct_map_filter_key)
  then have "distinct (map t_id (vd_tombstones (record_tombstone k at d)))"
    unfolding record_tombstone_tombstones keep_last_drop drop_map [symmetric] by (rule distinct_drop)
  moreover have "set (vd_tombstones (record_tombstone k at d)) \<subseteq>
      insert \<lparr>t_id = k, t_deleted_at = at\<rparr> (set (vd_tombstones d))"
    unfolding record_tombstone_tombstones
    by (rule subset_trans [OF set_keep_last]) auto
  ultimately show ?thesis
    using assms by (fastforce simp: vault_wf_def record_tombstone_tombstones length_keep_last)
qed

lemma remove_item_Inr:
  "remove_item now k d = Inr (d', i) \<longleftrightarrow> vget d k = Some i \<and>
     d' = record_tombstone k now (d\<lparr>vd_items := remove_first (\<lambda>i. item_id i = k) (vd_items d)\<rparr>)"
  by (auto simp: remove_item_def vget_def split: option.splits)

lemma wf_remove_first:
  assumes "vault_wf d"
  shows "vault_wf (d\<lparr>vd_items := remove_first (\<lambda>i. item_id i = k) (vd_items d)\<rparr>)"
  using assms set_remove_first_subset [of "\<lambda>i. item_id i = k" "vd_items d"]
  by (auto simp: vault_wf_def distinct_map_remove_first)

lemma wf_remove [wf_intros]: "vault_wf d \<Longrightarrow> remove_item now k d = Inr (d', i) \<Longrightarrow> vault_wf d'"
  unfolding remove_item_Inr
  by (elim conjE, hypsubst) (rule wf_record_tombstone [OF wf_remove_first],
    auto simp: vault_wf_def dest: key_notin_remove_first)

lemma mset_pull_ids: "pull_ids ks items = (a, b) \<Longrightarrow> mset a + mset b = mset items"
proof (induction ks items arbitrary: a b rule: pull_ids.induct)
  case (1 items)
  then show ?case by simp
next
  case (2 k ks items)
  show ?case
  proof (cases "find (\<lambda>i. item_id i = k) items")
    case None
    with 2 show ?thesis by simp
  next
    case (Some i)
    with "2.prems" obtain o' where "pull_ids ks (remove_first (\<lambda>i. item_id i = k) items) = (o', b)"
      and "a = i # o'" by (auto split: prod.splits)
    with "2.IH"(2) [OF Some] mset_remove_first [OF Some] show ?thesis by simp
  qed
qed

lemma mset_reorder_items: "mset (vd_items (reorder_items ks d)) = mset (vd_items d)"
  by (auto simp: reorder_items_def dest: mset_pull_ids split: prod.splits)

lemma wf_reorder_items [wf_intros]: "vault_wf d \<Longrightarrow> vault_wf (reorder_items ks d)"
proof -
  have "mset (map item_id (vd_items (reorder_items ks d))) = mset (map item_id (vd_items d))"
    by (simp add: mset_reorder_items)
  then have "distinct (map item_id (vd_items (reorder_items ks d))) = distinct (map item_id (vd_items d))"
    and "item_id ` set (vd_items (reorder_items ks d)) = item_id ` set (vd_items d)"
    by (metis mset_eq_imp_distinct_iff, metis list.set_map mset_eq_setD)
  then show "vault_wf d \<Longrightarrow> ?thesis"
    by (simp add: vault_wf_def) (simp add: reorder_items_def split: prod.splits)
qed

lemma refile_id [simp]: "item_id (refile now from to i) = item_id i"
  by (simp add: refile_def)

lemma wf_folders [wf_intros]:
  "vault_wf d \<Longrightarrow> vault_wf (fst (create_folder name d))"
  "vault_wf d \<Longrightarrow> rename_folder now from to d = Inr d' \<Longrightarrow> vault_wf d'"
  "vault_wf d \<Longrightarrow> vault_wf (fst (delete_folder now name d))"
  "vault_wf d \<Longrightarrow> vault_wf (reorder_folders names d)"
  "vault_wf d \<Longrightarrow> vault_wf (migrate_tags_into_folders d)"
  by (erule wf_same_ids; auto simp: create_folder_def rename_folder_def delete_folder_def
      reorder_folders_def migrate_tags_into_folders_def migrate_item_def Let_def split: if_splits)+

lemma set_folder_Inr:
  "set_folder now k folder d = Inr d' \<longleftrightarrow>
     (\<forall>name. folder = Some name \<longrightarrow> name \<in> set (vd_folders d)) \<and>
     update_item now k (\<lambda>i. i\<lparr>item_folder := folder\<rparr>) d = Inr d'"
  by (auto simp: set_folder_def split: option.splits)

lemma wf_set_folder [wf_intros]: "vault_wf d \<Longrightarrow> set_folder now k folder d = Inr d' \<Longrightarrow> vault_wf d'"
  unfolding set_folder_Inr by (rule wf_update [where edit = "\<lambda>i. i\<lparr>item_folder := folder\<rparr>"]) auto

lemma vd_audit_record: "vd_audit (record_audit e d) = keep_last AUDIT_CAPACITY (vd_audit d @ [e])"
  by (simp add: record_audit_def keep_last_def Let_def)

lemma wf_settings [wf_intros]:
  "vault_wf d \<Longrightarrow> vault_wf (record_audit e d)"
  "vault_wf d \<Longrightarrow> vault_wf (set_auto_lock_seconds secs d)"
  "vault_wf d \<Longrightarrow> vault_wf (set_icons_enabled b d)"
  "vault_wf d \<Longrightarrow> vault_wf (set_sync_state st d)"
  by (auto simp: vault_wf_def record_audit_def set_auto_lock_seconds_def set_icons_enabled_def
      set_sync_state_def Let_def)

lemma wf_step: "vault_step d d' \<Longrightarrow> vault_wf d \<Longrightarrow> vault_wf d'"
  by (induction rule: vault_step.induct) (auto intro: wf_intros)

text \<open>
  C6: in every vault reachable from an empty one by the operations of the program, ids are unique,
  nothing is both present and recorded as deleted, and the tombstones and the audit records stay
  within their capacities.
\<close>

theorem vault_reachable_wf: "vault_reachable d \<Longrightarrow> vault_wf d"
  by (induction rule: vault_reachable.induct) (auto intro: wf_default wf_step)

theorem vault_reachable_wf_witness:
  "vault_wf (upsert (item_new 7 1 ''a'') vault_data_default)"
  by (rule vault_reachable_wf) (intro reach_step [OF reach_new] step_upsert)

section \<open>The vault as a map from ids to items\<close>

lemma vget_iff: "vault_wf d \<Longrightarrow> vget d k = Some i \<longleftrightarrow> i \<in> set (vd_items d) \<and> item_id i = k"
  by (simp add: vget_def vault_wf_def find_key_iff)

lemma vget_upsert: "vget (upsert i d) = (vget d)(item_id i \<mapsto> i)"
proof
  fix k
  show "vget (upsert i d) k = ((vget d)(item_id i \<mapsto> i)) k"
    by (cases "find (\<lambda>held. item_id held = item_id i) (vd_items d)"; cases "k = item_id i")
      (auto simp: upsert_def vget_def Let_def find_append find_update_first find_update_first_other
        split: option.splits)
qed

lemma upsert_tombstones:
  "vd_tombstones (upsert i d) = filter (\<lambda>t. t_id t \<noteq> item_id i) (vd_tombstones d)"
  by (simp add: upsert_def forget_tombstone_def Let_def split: option.splits)

text \<open>Removing an id that may be absent.\<close>

definition discard :: "u64 \<Rightarrow> uuid \<Rightarrow> vault_data \<Rightarrow> vault_data" where
  "discard now k d = (case remove_item now k d of Inl _ \<Rightarrow> d | Inr (d', _) \<Rightarrow> d')"

lemma remove_item_cases:
  "(vget d k = None \<and> remove_item now k d = Inl (ItemNotFound k)) \<or>
   (\<exists>i d'. vget d k = Some i \<and> remove_item now k d = Inr (d', i))"
  by (cases "vget d k") (auto simp: remove_item_def vget_def)

lemma vget_remove:
  assumes "vault_wf d" and "remove_item now k d = Inr (d', i)"
  shows "vget d' = (vget d)(k := None)"
proof
  fix j
  have items: "vd_items d' = remove_first (\<lambda>i. item_id i = k) (vd_items d)"
    using assms(2) by (simp add: remove_item_Inr)
  show "vget d' j = ((vget d)(k := None)) j"
  proof (cases "j = k")
    case True
    then show ?thesis
      using assms(1) key_notin_remove_first [of item_id "vd_items d" k]
      by (simp add: vget_def items find_key_None vault_wf_def)
  next
    case False
    then show ?thesis by (simp add: vget_def items find_remove_first_other)
  qed
qed

interpretation vault_store: item_store vault_wf item_id vget upsert "discard now" for now
proof
  fix s k
  assume wf: "vault_wf s"
  from remove_item_cases [of s k now] wf show "vault_wf (discard now k s)"
    by (auto simp: discard_def intro: wf_intros)
  from remove_item_cases [of s k now] show "vget (discard now k s) = (vget s)(k := None)"
    by (auto simp: discard_def vget_remove [OF wf])
qed (simp_all add: wf_upsert vget_upsert)

lemma find_tombstone_record:
  "find_tombstone (record_tombstone k at d) k = Some \<lparr>t_id = k, t_deleted_at = at\<rparr>"
proof -
  let ?old = "filter (\<lambda>t. sat_sub at (t_deleted_at t) \<le> TOMBSTONE_RETENTION)
    (filter (\<lambda>t. t_id t \<noteq> k) (vd_tombstones d))"
  have "keep_last TOMBSTONE_CAPACITY (?old @ [x]) = drop (Suc (length ?old) - TOMBSTONE_CAPACITY) ?old @ [x]" for x
    by (simp add: keep_last_drop TOMBSTONE_CAPACITY_def)
  moreover have "find (\<lambda>t. t_id t = k) (drop n ?old) = None" for n
    by (auto simp: find_None_iff dest: in_set_dropD)
  ultimately show ?thesis
    unfolding find_tombstone_def record_tombstone_tombstones by (simp add: find_append)
qed

text \<open>
  C14: removing an item returns the item that was stored, leaves exactly the other items readable, and
  records the deletion under its id with the time of the removal; putting an item with that id back
  makes it readable again and erases the record.
\<close>

theorem remove_then_restore:
  assumes "vault_wf d" and "remove_item now k d = Inr (d', i)"
  shows "vget d k = Some i \<and> vget d' = (vget d)(k := None) \<and>
    find_tombstone d' k = Some \<lparr>t_id = k, t_deleted_at = now\<rparr> \<and>
    vget (upsert i d') = vget d \<and> find_tombstone (upsert i d') k = None"
proof -
  have k: "vget d k = Some i" using assms(2) by (simp add: remove_item_Inr)
  then have id: "item_id i = k" using vget_iff [OF assms(1)] by simp
  have "find_tombstone (upsert i d') k = None"
    by (simp add: find_tombstone_def upsert_tombstones id find_None_iff)
  moreover have "find_tombstone d' k = Some \<lparr>t_id = k, t_deleted_at = now\<rparr>"
    using assms(2) by (auto simp: remove_item_Inr find_tombstone_record)
  ultimately show ?thesis
    using k id vget_remove [OF assms] by (simp add: vget_upsert fun_upd_idem)
qed

definition sample_item :: item where
  "sample_item = (item_new 7 1 ''mail'')\<lparr>item_password := Some (SecretString ''hunter2'')\<rparr>"

definition sample_data :: vault_data where
  "sample_data = vault_data_default\<lparr>vd_items := [sample_item, (item_new 8 2 ''bank'')\<lparr>item_folder := Some ''a''\<rparr>],
     vd_folders := [''a'', ''b'']\<rparr>"

lemma sample_wf: "vault_wf sample_data"
  by (simp add: vault_wf_def sample_data_def vault_data_default_def sample_item_def item_new_def)

theorem remove_then_restore_witness:
  "\<exists>d'. vget sample_data 7 = Some sample_item \<and> vget d' = (vget sample_data)(7 := None) \<and>
    find_tombstone d' 7 = Some \<lparr>t_id = 7, t_deleted_at = 99\<rparr> \<and>
    vget (upsert sample_item d') = vget sample_data \<and> find_tombstone (upsert sample_item d') 7 = None"
proof -
  have "vget sample_data 7 = Some sample_item"
    by (simp add: vget_def sample_data_def vault_data_default_def sample_item_def item_new_def)
  then obtain d' where "remove_item 99 7 sample_data = Inr (d', sample_item)"
    using remove_item_cases [of sample_data 7 99] by auto
  from remove_then_restore [OF sample_wf this] show ?thesis by blast
qed

text \<open>Tombstones are kept for the whole window; a record stamped in the future is kept too.\<close>

lemma prune_keeps_recent:
  "length (vd_tombstones d) \<le> TOMBSTONE_CAPACITY \<Longrightarrow>
    set (vd_tombstones (prune_tombstones now d)) =
      {t \<in> set (vd_tombstones d). unat now \<le> unat (t_deleted_at t) + unat TOMBSTONE_RETENTION}"
  by (auto simp: prune_tombstones_def Let_def word_le_nat_alt unat_sat_sub
      dest: in_set_dropD leD [OF le_trans [OF length_filter_le]])

lemma pull_ids_ids:
  assumes "distinct (map item_id items)" and "distinct ks" and "pull_ids ks items = (a, b)"
  shows "map item_id a = filter (\<lambda>k. k \<in> item_id ` set items) ks \<and> b = filter (\<lambda>i. item_id i \<notin> set ks) items"
  using assms
proof (induction ks items arbitrary: a b rule: pull_ids.induct)
  case (1 items)
  then show ?case by (simp add: filter_id_conv)
next
  case (2 k ks items)
  show ?case
  proof (cases "find (\<lambda>i. item_id i = k) items")
    case None
    then have k: "k \<notin> item_id ` set items" by (simp add: find_key_None)
    then have "filter (\<lambda>i. item_id i \<notin> set (k # ks)) items = filter (\<lambda>i. item_id i \<notin> set ks) items"
      by (intro filter_cong) auto
    with 2 None k show ?thesis by auto
  next
    case (Some i)
    let ?rest = "remove_first (\<lambda>i. item_id i = k) items"
    have rest: "?rest = filter (\<lambda>i. item_id i \<noteq> k) items"
      using "2.prems"(1) by (rule remove_first_filter)
    from Some "2.prems"(3) obtain o' where p: "pull_ids ks ?rest = (o', b)" and a: "a = i # o'"
      by (auto split: prod.splits)
    have ih: "map item_id o' = filter (\<lambda>k. k \<in> item_id ` set ?rest) ks \<and> b = filter (\<lambda>i. item_id i \<notin> set ks) ?rest"
      using "2.prems" p by (intro "2.IH"(2) [OF Some]) (auto simp: distinct_map_remove_first)
    have "filter (\<lambda>j. j \<in> item_id ` set ?rest) ks = filter (\<lambda>j. j \<in> item_id ` set items) ks"
      using "2.prems"(2) by (intro filter_cong) (auto simp: rest)
    moreover have "filter (\<lambda>i. item_id i \<notin> set ks) ?rest = filter (\<lambda>i. item_id i \<notin> set (k # ks)) items"
      by (simp add: rest)
    ultimately show ?thesis
      using ih find_Some_set [OF Some] by (auto simp: a)
  qed
qed

text \<open>
  A reorder moves the named items to the front in the order named and leaves the others behind
  them in their old order; ids that are not in the vault are ignored, no item is lost or duplicated,
  and every lookup answers as before.
\<close>

theorem reorder_items_order:
  assumes "vault_wf d" and "distinct ks"
  shows "mset (vd_items (reorder_items ks d)) = mset (vd_items d) \<and>
    map item_id (vd_items (reorder_items ks d)) =
      filter (\<lambda>k. vget d k \<noteq> None) ks @ map item_id (filter (\<lambda>i. item_id i \<notin> set ks) (vd_items d)) \<and>
    vget (reorder_items ks d) = vget d"
proof -
  obtain a b where p: "pull_ids ks (vd_items d) = (a, b)" by (cases "pull_ids ks (vd_items d)")
  have dist: "distinct (map item_id (vd_items d))" using assms(1) by (simp add: vault_wf_def)
  have "(vget d k \<noteq> None) = (k \<in> item_id ` set (vd_items d))" for k
    using find_key_None [of item_id k "vd_items d"] by (simp add: vget_def)
  with pull_ids_ids [OF dist assms(2) p] have ids: "map item_id (vd_items (reorder_items ks d)) =
      filter (\<lambda>k. vget d k \<noteq> None) ks @ map item_id (filter (\<lambda>i. item_id i \<notin> set ks) (vd_items d))"
    by (simp add: reorder_items_def p)
  have "vget (reorder_items ks d) k = vget d k" for k
    using vget_iff [OF assms(1), of k] vget_iff [OF wf_reorder_items [OF assms(1)], of ks k]
      mset_eq_setD [OF mset_reorder_items [of ks d]] by (metis not_None_eq)
  with ids show ?thesis by (auto simp: mset_reorder_items)
qed

theorem reorder_items_order_witness:
  "mset (vd_items (reorder_items [8, 9, 7] sample_data)) = mset (vd_items sample_data) \<and>
    map item_id (vd_items (reorder_items [8, 9, 7] sample_data)) =
      filter (\<lambda>k. vget sample_data k \<noteq> None) [8, 9, 7] @
      map item_id (filter (\<lambda>i. item_id i \<notin> set [8, 9, 7]) (vd_items sample_data)) \<and>
    vget (reorder_items [8, 9, 7] sample_data) = vget sample_data"
  by (rule reorder_items_order) (simp_all add: sample_wf)

section \<open>Folders\<close>

text \<open>
  Renaming a folder changes its name where it stands and moves every item filed in it, and
  nothing else: no item is left under the old name, and no other field or item changes.
\<close>

theorem rename_folder_complete:
  assumes "rename_folder now from to d = Inr d'" and "distinct (vd_folders d)"
  shows "vd_folders d' = map (\<lambda>f. if f = from then to else f) (vd_folders d) \<and>
    length (vd_items d') = length (vd_items d) \<and>
    (\<forall>n < length (vd_items d). vd_items d' ! n =
       (if item_folder (vd_items d ! n) = Some from
        then (vd_items d ! n)\<lparr>item_folder := Some to, item_updated_at := now\<rparr> else vd_items d ! n)) \<and>
    (\<forall>i \<in> set (vd_items d'). item_folder i \<noteq> Some from) \<and> distinct (vd_folders d')"
proof -
  from assms(1) have to: "to \<notin> set (vd_folders d)" and ft: "from \<in> set (vd_folders d)"
    and d': "vd_folders d' = update_first (\<lambda>f. f = from) (\<lambda>_. to) (vd_folders d)"
      "vd_items d' = map (refile now from (Some to)) (vd_items d)"
    by (auto simp: rename_folder_def split: if_splits)
  have upd: "update_first (\<lambda>f. f = from) (\<lambda>_. to) fs = map (\<lambda>f. if f = from then to else f) fs"
    if "distinct fs" for fs
    using that
  proof (induction fs)
    case (Cons f fs)
    then have "map (\<lambda>g. if g = f then to else g) fs = fs" by (intro map_idI) auto
    with Cons show ?case by auto
  qed simp
  have ne: "from \<noteq> to" using to ft by auto
  have "distinct (vd_folders d')"
    using assms(2) to unfolding d'(1) upd [OF assms(2)] by (auto simp: distinct_map inj_on_def)
  moreover have "\<forall>i \<in> set (vd_items d'). item_folder i \<noteq> Some from"
    using ne by (auto simp: d' refile_def)
  moreover have "vd_items d' ! n = (if item_folder (vd_items d ! n) = Some from
        then (vd_items d ! n)\<lparr>item_folder := Some to, item_updated_at := now\<rparr> else vd_items d ! n)"
    if "n < length (vd_items d)" for n
    using that by (simp add: d'(2) refile_def)
  ultimately show ?thesis
    using upd [OF assms(2)] unfolding d' length_map by blast
qed

theorem rename_folder_complete_witness:
  "\<exists>d'. rename_folder 9 ''a'' ''c'' sample_data = Inr d' \<and>
    vd_folders d' = map (\<lambda>f. if f = ''a'' then ''c'' else f) (vd_folders sample_data) \<and>
    (\<forall>i \<in> set (vd_items d'). item_folder i \<noteq> Some ''a'') \<and> distinct (vd_folders d')"
proof -
  have "trim ''c'' \<noteq> []" by (simp add: trim_empty_iff utf8_width_def is_whitespace_ascii)
  then have "is_ok (rename_folder 9 ''a'' ''c'' sample_data)"
    by (simp add: rename_folder_def sample_data_def)
  then obtain d' where d': "rename_folder 9 ''a'' ''c'' sample_data = Inr d'"
    by (auto simp: is_ok_def split: sum.splits)
  have "distinct (vd_folders sample_data)" by (simp add: sample_data_def)
  from d' rename_folder_complete [OF d' this] show ?thesis by blast
qed

text \<open>
  Deleting a folder deletes no item: every item stays in its place with its contents, those filed
  there lose the folder and nothing else, and the number returned is the number so freed.
\<close>

theorem delete_folder_keeps_items:
  assumes "delete_folder now name d = (d', freed)"
  shows "map (\<lambda>i. i\<lparr>item_folder := None, item_updated_at := 0\<rparr>) (vd_items d') =
      map (\<lambda>i. i\<lparr>item_folder := None, item_updated_at := 0\<rparr>) (vd_items d) \<and>
    filter (\<lambda>i. item_folder i \<noteq> None) (vd_items d') =
      filter (\<lambda>i. item_folder i \<noteq> None \<and> item_folder i \<noteq> Some name) (vd_items d) \<and>
    freed = length (filter (\<lambda>i. item_folder i = Some name) (vd_items d)) \<and>
    vd_folders d' = filter (\<lambda>f. f \<noteq> name) (vd_folders d) \<and> vd_tombstones d' = vd_tombstones d"
proof -
  have "filter (\<lambda>i. item_folder i \<noteq> None) (map (refile now name None) is) =
      filter (\<lambda>i. item_folder i \<noteq> None \<and> item_folder i \<noteq> Some name) is" for "is"
    by (induction "is") (auto simp: refile_def)
  with assms show ?thesis
    by (auto simp: delete_folder_def count_if_def refile_def)
qed

theorem delete_folder_keeps_items_witness:
  "map (\<lambda>i. i\<lparr>item_folder := None, item_updated_at := 0\<rparr>) (vd_items (fst (delete_folder 9 ''a'' sample_data))) =
      map (\<lambda>i. i\<lparr>item_folder := None, item_updated_at := 0\<rparr>) (vd_items sample_data) \<and>
    snd (delete_folder 9 ''a'' sample_data) = length (filter (\<lambda>i. item_folder i = Some ''a'') (vd_items sample_data))"
  using delete_folder_keeps_items [of 9 "''a''" sample_data] by (cases "delete_folder 9 ''a'' sample_data") auto

lemma fold_collect: "set (fold (\<lambda>f ordered. if f \<in> set ordered then ordered else ordered @ [f]) fs acc) = set acc \<union> set fs"
  by (induction fs arbitrary: acc) auto

lemma fold_collect_distinct:
  "distinct acc \<Longrightarrow> distinct (fold (\<lambda>f ordered. if f \<in> set ordered then ordered else ordered @ [f]) fs acc)"
  by (induction fs arbitrary: acc) auto

text \<open>
  Reordering folders neither loses nor invents one, whatever list the client sends; and as long
  as that list names no folder twice the result names none twice either.
\<close>

theorem reorder_folders_same_set:
  "set (vd_folders (reorder_folders names d)) = set (vd_folders d) \<and>
    (distinct names \<longrightarrow> distinct (vd_folders (reorder_folders names d)))"
  by (auto simp: reorder_folders_def fold_collect intro: fold_collect_distinct)

theorem reorder_folders_same_set_witness:
  "distinct (vd_folders (reorder_folders [''b'', ''z''] sample_data))"
  using reorder_folders_same_set [of "[''b'', ''z'']" sample_data] by simp

text \<open>A client that sends a name twice makes the folder appear twice.\<close>

theorem reorder_folders_duplicates:
  "vd_folders (reorder_folders [''a'', ''a''] sample_data) = [''a'', ''a'', ''b'']"
  by (simp add: reorder_folders_def sample_data_def)

section \<open>Old vaults\<close>

lemma migrate_item_idem [simp]: "migrate_item (migrate_item i) = migrate_item i"
  by (cases "item_folder i"; cases "item_tags i") (simp_all add: migrate_item_def)

lemma collect_set: "set (fold collect_folder is fs) = set fs \<union> {f. \<exists>i \<in> set is. item_folder i = Some f}"
  by (induction "is" arbitrary: fs) (auto simp: collect_folder_def split: option.splits)

lemma collect_noop:
  "\<forall>i \<in> set is. \<forall>f. item_folder i = Some f \<longrightarrow> f \<in> set fs \<Longrightarrow> fold collect_folder is fs = fs"
  by (induction "is" arbitrary: fs) (auto simp: collect_folder_def split: option.splits)

lemma collect_extends: "\<exists>new. fold collect_folder is fs = fs @ new"
proof (induction "is" arbitrary: fs)
  case (Cons i "is")
  have "\<exists>one. collect_folder i fs = fs @ one"
    by (auto simp: collect_folder_def split: option.splits)
  then obtain one where "collect_folder i fs = fs @ one" ..
  then show ?case using Cons [of "collect_folder i fs"] by auto
qed simp

text \<open>
  Opening an old vault migrates it once: afterwards no item has tags, every item that had a folder
  keeps it, every folder in use is listed and the listed order is only extended, and migrating again
  changes nothing.
\<close>

theorem migrate_once:
  "migrate_tags_into_folders (migrate_tags_into_folders d) = migrate_tags_into_folders d \<and>
   (\<forall>i \<in> set (vd_items (migrate_tags_into_folders d)). item_tags i = [] \<and>
      (case item_folder i of None \<Rightarrow> True | Some f \<Rightarrow> f \<in> set (vd_folders (migrate_tags_into_folders d)))) \<and>
   (\<exists>new. vd_folders (migrate_tags_into_folders d) = vd_folders d @ new)"
proof -
  let ?m = "migrate_tags_into_folders d"
  have listed: "\<forall>i \<in> set (vd_items ?m). \<forall>f. item_folder i = Some f \<longrightarrow> f \<in> set (vd_folders ?m)"
    by (auto simp: migrate_tags_into_folders_def Let_def collect_set)
  have items: "map migrate_item (vd_items ?m) = vd_items ?m"
    by (simp add: migrate_tags_into_folders_def Let_def)
  have "migrate_tags_into_folders ?m = ?m"
    unfolding migrate_tags_into_folders_def [of ?m] Let_def items collect_noop [OF listed] by simp
  moreover have "\<forall>i \<in> set (vd_items ?m). item_tags i = []"
    by (auto simp: migrate_tags_into_folders_def migrate_item_def Let_def)
  moreover have "\<exists>new. vd_folders ?m = vd_folders d @ new"
    using collect_extends by (simp add: migrate_tags_into_folders_def Let_def)
  ultimately show ?thesis using listed by (auto split: option.splits)
qed

theorem migrate_once_witness:
  "\<exists>new. vd_folders (migrate_tags_into_folders sample_data) = vd_folders sample_data @ new"
  using migrate_once [of sample_data] by blast

section \<open>Search sees no secret\<close>

definition hide_secrets :: "item \<Rightarrow> item" where
  "hide_secrets i =
     i\<lparr>item_password := None, item_notes := None, item_totp := None,
       item_fields := map (\<lambda>f. if field_secret f then f\<lparr>field_value := SecretString []\<rparr> else f) (item_fields i)\<rparr>"

lemma matches_hide: "item_matches lc (hide_secrets i) query = item_matches lc i query"
proof -
  have "list_ex (\<lambda>f. str_contains (lc (field_label f)) q
        \<or> (\<not> field_secret f \<and> str_contains (lc (expose (field_value f))) q))
      (map (\<lambda>f. if field_secret f then f\<lparr>field_value := SecretString []\<rparr> else f) fs) =
    list_ex (\<lambda>f. str_contains (lc (field_label f)) q
        \<or> (\<not> field_secret f \<and> str_contains (lc (expose (field_value f))) q)) fs" for q and fs :: "field list"
    by (induction fs) auto
  then show ?thesis by (simp add: item_matches_def hide_secrets_def Let_def)
qed

text \<open>
  The answer to a search does not depend on any secret: two vaults that differ only in passwords,
  notes, authenticator seeds and the values of secret fields answer every query with the same items.
\<close>

theorem search_ignores_secrets:
  assumes "map hide_secrets (vd_items d) = map hide_secrets (vd_items d')"
  shows "map item_id (search lc d query) = map item_id (search lc d' query)"
proof -
  have "map item_id (filter (\<lambda>i. item_matches lc i query) is) =
      map item_id (filter (\<lambda>i. item_matches lc i query) (map hide_secrets is))" for "is"
  proof (induction "is")
    case (Cons i "is")
    then show ?case by (simp add: matches_hide) (simp add: hide_secrets_def)
  qed simp
  with assms show ?thesis by (metis search_def)
qed

theorem search_ignores_secrets_witness:
  "map item_id (search id sample_data ''x'') =
   map item_id (search id (sample_data\<lparr>vd_items := map hide_secrets (vd_items sample_data)\<rparr>) ''x'')"
proof (rule search_ignores_secrets)
  have "hide_secrets (hide_secrets i) = hide_secrets i" for i
    by (simp add: hide_secrets_def)
  then show "map hide_secrets (vd_items sample_data) =
      map hide_secrets (vd_items (sample_data\<lparr>vd_items := map hide_secrets (vd_items sample_data)\<rparr>))"
    by simp
qed

section \<open>Recent items and the audit records\<close>

lemma recent_order:
  "sorted (map (\<lambda>i. - uint (item_updated_at i)) (recent limit d)) \<and>
   length (recent limit d) = min limit (length (vd_items d))"
  by (simp add: recent_def take_map [symmetric] sorted_wrt_take)

text \<open>Whatever \<open>recent\<close> leaves out is no newer than anything it returns.\<close>

lemma recent_newest:
  assumes "i \<in> set (recent limit d)" and "j \<in> set (drop limit (sort_key (\<lambda>i. - uint (item_updated_at i)) (vd_items d)))"
  shows "item_updated_at j \<le> item_updated_at i"
proof -
  let ?s = "sort_key (\<lambda>i. - uint (item_updated_at i)) (vd_items d)"
  have "sorted (map (\<lambda>i. - uint (item_updated_at i)) (take limit ?s @ drop limit ?s))" by simp
  then have "- uint (item_updated_at i) \<le> - uint (item_updated_at j)"
    using assms unfolding recent_def map_append sorted_append by auto
  then show ?thesis by (simp add: word_le_def)
qed

interpretation vault_log: bounded_log record_audit vd_audit AUDIT_CAPACITY
  by unfold_locales (rule vd_audit_record)

text \<open>
  After any run of recordings the vault holds the newest five hundred records, in order and
  unedited.
\<close>

theorem audit_keeps_newest:
  assumes "vault_wf d"
  shows "vd_audit (fold record_audit es d) =
    drop (length (vd_audit d) + length es - 500) (vd_audit d @ es)"
  using assms vault_log.entries_fold_push [of d es]
  by (simp add: vault_wf_def keep_last_drop AUDIT_CAPACITY_def)

theorem audit_keeps_newest_witness:
  "vd_audit (fold record_audit [''x'', ''y''] sample_data) =
    drop (length (vd_audit sample_data) + length [''x'', ''y''] - 500) (vd_audit sample_data @ [''x'', ''y''])"
  by (rule audit_keeps_newest) (rule sample_wf)

end
