(* ===== verification/Sample_Prims.thy ===== *)
theory Sample_Prims
  imports Crypto "HOL-Library.Countable"
begin

text \<open>
  A concrete instance of the primitives of other crates, on which every hypothesis stated about them
  holds: it shows that the hypotheses can hold together. It is not a cipher. The JSON printer of the
  instance tells two chosen trees apart, which is what a witness needs.
\<close>

definition sample_header :: "bytes \<Rightarrow> bytes \<Rightarrow> bytes \<Rightarrow> bytes" where
  "sample_header k n a = k @ n @ replicate (length a) (CHR ''1'') @ ''0'' @ a"

definition sample_prims :: "json \<Rightarrow> json \<Rightarrow> prims" where
  "sample_prims j1 j2 =
     \<lparr>p_argon2 = (\<lambda>pw salt ps. Inr (take 32 (pw @ salt @ replicate 32 (CHR ''x'')))),
      p_enc = (\<lambda>k n a p. Some (sample_header k n a @ p)),
      p_dec = (\<lambda>k n a c. strip_prefix (sample_header k n a) c),
      p_hkdf = (\<lambda>salt ikm info. Some (take 32 (ikm @ replicate 32 (CHR ''x'')))),
      p_json_print = (\<lambda>j. if j = j1 then ''1'' else ''2''),
      p_json_pretty = (\<lambda>j. if j = j1 then ''1'' else ''2''),
      p_json_parse = (\<lambda>s. Some (if s = ''1'' then j1 else j2)),
      p_b64_encode = id,
      p_b64_decode = Some,
      p_sha256 = id,
      p_uuid_print = uuid_bytes,
      p_uuid_parse = (\<lambda>s. Some (word_of_nat (be_nat s)))\<rparr>"

lemma replicate_split:
  "replicate m x @ y # a = replicate m' x @ y # a' \<Longrightarrow> x \<noteq> y \<Longrightarrow> m = m' \<and> a = a'"
proof (induction m arbitrary: m')
  case 0
  then show ?case by (cases m') auto
next
  case (Suc m)
  then show ?case by (cases m') auto
qed

lemma sample_binding: "aead_binding (sample_prims j1 j2)"
proof (unfold aead_binding_def, intro allI impI)
  fix k n a p c k' n' a' p' :: bytes
  assume len: "length k = KEY_LEN" "length n = NONCE_LEN" "length k' = KEY_LEN" "length n' = NONCE_LEN"
    and "p_enc (sample_prims j1 j2) k n a p = Some c" "p_dec (sample_prims j1 j2) k' n' a' c = Some p'"
  then have eq: "sample_header k n a @ p = sample_header k' n' a' @ p'"
    by (auto simp: sample_prims_def strip_prefix_Some)
  then have "k = k'" "n = n'"
    and tails: "replicate (length a) (CHR ''1'') @ CHR ''0'' # (a @ p) = replicate (length a') (CHR ''1'') @ CHR ''0'' # (a' @ p')"
    using len by (simp_all add: sample_header_def)
  moreover from replicate_split [OF tails] have "a = a'" by auto
  ultimately show "k' = k \<and> n' = n \<and> a' = a" by simp
qed

lemma sample_prims_ok:
  "aead_correct (sample_prims j1 j2)" "aead_total (sample_prims j1 j2)"
  "argon2_len (sample_prims j1 j2)" "hkdf_len (sample_prims j1 j2)"
  "b64_faithful (sample_prims j1 j2)" "uuid_faithful (sample_prims j1 j2)"
  "json_faithful (sample_prims j1 j2) j1" "json_faithful (sample_prims j1 j2) j2"
proof -
  have "word_of_nat (be_nat (uuid_bytes u)) = u" for u :: uuid
  proof -
    have "unat u < 2 ^ LENGTH(128)" by (rule unsigned_less)
    then have "be_nat (uuid_bytes u) = unat u" by (simp add: uuid_bytes_def be_nat_nat_be)
    then show ?thesis by simp
  qed
  then show "uuid_faithful (sample_prims j1 j2)"
    by (simp add: uuid_faithful_def sample_prims_def)
qed (auto simp: aead_correct_def aead_total_def argon2_len_def hkdf_len_def b64_faithful_def
    json_faithful_def sample_prims_def strip_prefix_Some)

text \<open>An instance whose printer tells all trees apart: a tree is a number, printed in strokes.\<close>

instance json :: countable
  by countable_datatype

definition total_prims :: prims where
  "total_prims = (sample_prims JNull JNull)\<lparr>p_json_print := (\<lambda>j. replicate (Suc (to_nat j)) (CHR ''j'')),
     p_json_parse := (\<lambda>s. Some (from_nat (length s - 1)))\<rparr>"

lemma total_json: "json_faithful total_prims j"
  by (simp add: json_faithful_def total_prims_def)

end
