(* ===== verification/Vault_Json.thy ===== *)
theory Vault_Json
  imports Vault_Data Sample_Prims
begin

text \<open>
  What the \<open>Serialize\<close> and \<open>Deserialize\<close> derivations of the vault's types say, attribute by
  attribute: the field names, \<open>skip_serializing_if\<close>, \<open>default\<close>, \<open>rename\<close> and the base64 fields.
  A value becomes a JSON tree; the text syntax of the tree is \<open>serde_json\<close>'s and a parameter.
\<close>

section \<open>Fields of an object\<close>

fun vals :: "string \<Rightarrow> (string \<times> json) list \<Rightarrow> json list" where
  "vals k [] = []"
| "vals k (p # r) = (if fst p = k then snd p # vals k r else vals k r)"

lemma vals_append [simp]: "vals k (a @ b) = vals k a @ vals k b"
  by (induction a) auto

text \<open>A field that is skipped when it is \<open>None\<close> or empty.\<close>

definition skip_none :: "string \<Rightarrow> ('a \<Rightarrow> json) \<Rightarrow> 'a option \<Rightarrow> (string \<times> json) list" where
  "skip_none k f m = (case m of None \<Rightarrow> [] | Some x \<Rightarrow> [(k, f x)])"

definition skip_empty :: "string \<Rightarrow> ('a \<Rightarrow> json) \<Rightarrow> 'a list \<Rightarrow> (string \<times> json) list" where
  "skip_empty k f xs = (if xs = [] then [] else [(k, JArr (map f xs))])"

definition nullable :: "('a \<Rightarrow> json) \<Rightarrow> 'a option \<Rightarrow> json" where
  "nullable f m = (case m of None \<Rightarrow> JNull | Some x \<Rightarrow> f x)"

text \<open>
  \<open>serde_json::Value\<close>: an object is a map, in which a repeated key keeps its last value.
\<close>

definition held :: "string \<Rightarrow> (string \<times> json) list \<Rightarrow> json list" where
  "held k kvs = (case vals k kvs of [] \<Rightarrow> [] | vs \<Rightarrow> [last vs])"

definition json_get :: "string \<Rightarrow> json \<Rightarrow> json option" where
  "json_get k v = (case v of JObj kvs \<Rightarrow> (case held k kvs of [] \<Rightarrow> None | x # _ \<Rightarrow> Some x) | _ \<Rightarrow> None)"

definition as_str :: "json \<Rightarrow> string option" where
  "as_str v = (case v of JStr s \<Rightarrow> Some s | _ \<Rightarrow> None)"

text \<open>
  Reading a field: a repeated field is an error; a required one must be there; an absent \<open>Option\<close>
  is \<open>None\<close>, as is \<open>null\<close>; \<open>default\<close> fills in an absent value only.
\<close>

definition req :: "(json \<Rightarrow> 'a result) \<Rightarrow> json list \<Rightarrow> 'a result" where
  "req f vs = (case vs of [v] \<Rightarrow> f v | _ \<Rightarrow> Inl Serde)"

definition dflt :: "'a \<Rightarrow> (json \<Rightarrow> 'a result) \<Rightarrow> json list \<Rightarrow> 'a result" where
  "dflt d f vs = (case vs of [] \<Rightarrow> Inr d | [v] \<Rightarrow> f v | _ \<Rightarrow> Inl Serde)"

definition of_nullable :: "(json \<Rightarrow> 'a result) \<Rightarrow> json \<Rightarrow> 'a option result" where
  "of_nullable f v = (if v = JNull then Inr None else and_then (f v) (\<lambda>x. Inr (Some x)))"

fun map_result :: "('a \<Rightarrow> 'b result) \<Rightarrow> 'a list \<Rightarrow> 'b list result" where
  "map_result f [] = Inr []"
| "map_result f (x # xs) = and_then (f x) (\<lambda>y. and_then (map_result f xs) (\<lambda>ys. Inr (y # ys)))"

fun of_arr :: "(json \<Rightarrow> 'a result) \<Rightarrow> json \<Rightarrow> 'a list result" where
  "of_arr f (JArr vs) = map_result f vs"
| "of_arr f _ = Inl Serde"

fun of_obj :: "json \<Rightarrow> (string \<times> json) list result" where
  "of_obj (JObj kvs) = Inr kvs"
| "of_obj _ = Inl Serde"

fun of_str :: "json \<Rightarrow> string result" where
  "of_str (JStr s) = Inr s"
| "of_str _ = Inl Serde"

fun of_bool :: "json \<Rightarrow> bool result" where
  "of_bool (JBool b) = Inr b"
| "of_bool _ = Inl Serde"

definition of_secret :: "json \<Rightarrow> secret_string result" where
  "of_secret v = and_then (of_str v) (\<lambda>s. Inr (SecretString s))"

definition secret_json :: "secret_string \<Rightarrow> json" where
  "secret_json s = JStr (expose s)"

definition u_json :: "'w::len word \<Rightarrow> json" where
  "u_json w = JNum (uint w)"

fun of_u :: "json \<Rightarrow> ('w::len word) result" where
  "of_u (JNum n) = (if 0 \<le> n \<and> n < 2 ^ LENGTH('w) then Inr (word_of_int n) else Inl Serde)"
| "of_u _ = Inl Serde"

definition i_json :: "i64 \<Rightarrow> json" where
  "i_json w = JNum (sint w)"

fun of_i :: "json \<Rightarrow> i64 result" where
  "of_i (JNum n) = (if - (2 ^ 63) \<le> n \<and> n < 2 ^ 63 then Inr (word_of_int n) else Inl Serde)"
| "of_i _ = Inl Serde"

definition uuid_json :: "prims \<Rightarrow> uuid \<Rightarrow> json" where
  "uuid_json P u = JStr (p_uuid_print P u)"

definition of_uuid :: "prims \<Rightarrow> json \<Rightarrow> uuid result" where
  "of_uuid P v = and_then (of_str v) (\<lambda>s. ok_or Serde (p_uuid_parse P s))"

definition b64_json :: "prims \<Rightarrow> bytes \<Rightarrow> json" where
  "b64_json P bs = JStr (p_b64_encode P bs)"

definition of_b64 :: "prims \<Rightarrow> json \<Rightarrow> bytes result" where
  "of_b64 P v = and_then (of_str v) (\<lambda>s. ok_or Serde (p_b64_decode P s))"

text \<open>A fieldless enum is the string of its (renamed) variant.\<close>

definition of_enum :: "(string \<times> 'a) list \<Rightarrow> json \<Rightarrow> 'a result" where
  "of_enum tbl v = and_then (of_str v) (\<lambda>s. ok_or Serde (map_of tbl s))"

section \<open>The types of the vault\<close>

definition of_kind :: "json \<Rightarrow> item_kind result" where
  "of_kind = of_enum [(''login'', Login), (''card'', Card), (''note'', Note)]"

definition of_cadence :: "json \<Rightarrow> cadence result" where
  "of_cadence = of_enum [(''monthly'', Monthly), (''yearly'', Yearly), (''usage'', Usage)]"

definition of_algorithm :: "json \<Rightarrow> totp_algorithm result" where
  "of_algorithm = of_enum [(''SHA1'', Sha1), (''SHA256'', Sha256), (''SHA512'', Sha512)]"

definition field_json :: "field \<Rightarrow> json" where
  "field_json f = JObj [(''label'', JStr (field_label f)), (''value'', secret_json (field_value f)),
     (''secret'', JBool (field_secret f))]"

definition of_field :: "json \<Rightarrow> field result" where
  "of_field v = and_then (of_obj v) (\<lambda>kvs.
     and_then (req of_str (vals ''label'' kvs)) (\<lambda>l.
     and_then (req of_secret (vals ''value'' kvs)) (\<lambda>val.
     and_then (dflt False of_bool (vals ''secret'' kvs)) (\<lambda>s.
       Inr \<lparr>field_label = l, field_value = val, field_secret = s\<rparr>))))"

definition totp_json :: "totp_config \<Rightarrow> json" where
  "totp_json c = JObj
     ([(''secret'', secret_json (otp_secret c)), (''algorithm'', JStr (algorithm_as_str (otp_algorithm c))),
       (''digits'', u_json (otp_digits c)), (''period'', u_json (otp_period c))]
      @ skip_none ''issuer'' JStr (otp_issuer c) @ skip_none ''account'' JStr (otp_account c))"

definition of_totp :: "json \<Rightarrow> totp_config result" where
  "of_totp v = and_then (of_obj v) (\<lambda>kvs.
     and_then (req of_secret (vals ''secret'' kvs)) (\<lambda>s.
     and_then (dflt Sha1 of_algorithm (vals ''algorithm'' kvs)) (\<lambda>a.
     and_then (dflt DEFAULT_DIGITS of_u (vals ''digits'' kvs)) (\<lambda>d.
     and_then (dflt DEFAULT_PERIOD of_u (vals ''period'' kvs)) (\<lambda>p.
     and_then (dflt None (of_nullable of_str) (vals ''issuer'' kvs)) (\<lambda>iss.
     and_then (dflt None (of_nullable of_str) (vals ''account'' kvs)) (\<lambda>acc.
       Inr \<lparr>otp_secret = s, otp_algorithm = a, otp_digits = d, otp_period = p,
            otp_issuer = iss, otp_account = acc\<rparr>)))))))"

definition subscription_json :: "prims \<Rightarrow> subscription \<Rightarrow> json" where
  "subscription_json P s = JObj
     (skip_none ''plan'' JStr (sub_plan s)
      @ [(''amount_minor'', i_json (sub_amount_minor s)), (''currency'', JStr (sub_currency s)),
         (''cadence'', JStr (cadence_as_str (sub_cadence s)))]
      @ skip_none ''next_charge'' u_json (sub_next_charge s)
      @ skip_none ''paid_with'' (uuid_json P) (sub_paid_with s))"

definition of_subscription :: "prims \<Rightarrow> json \<Rightarrow> subscription result" where
  "of_subscription P v = and_then (of_obj v) (\<lambda>kvs.
     and_then (dflt None (of_nullable of_str) (vals ''plan'' kvs)) (\<lambda>pl.
     and_then (req of_i (vals ''amount_minor'' kvs)) (\<lambda>am.
     and_then (req of_str (vals ''currency'' kvs)) (\<lambda>cur.
     and_then (req of_cadence (vals ''cadence'' kvs)) (\<lambda>cad.
     and_then (dflt None (of_nullable of_u) (vals ''next_charge'' kvs)) (\<lambda>nx.
     and_then (dflt None (of_nullable (of_uuid P)) (vals ''paid_with'' kvs)) (\<lambda>pw.
       Inr \<lparr>sub_plan = pl, sub_amount_minor = am, sub_currency = cur, sub_cadence = cad,
            sub_next_charge = nx, sub_paid_with = pw\<rparr>)))))))"

definition item_json :: "prims \<Rightarrow> item \<Rightarrow> json" where
  "item_json P i = JObj
     ([(''id'', uuid_json P (item_id i)), (''name'', JStr (item_name i)),
       (''kind'', JStr (item_kind_as_str (item_kind i)))]
      @ skip_none ''username'' JStr (item_username i)
      @ skip_none ''password'' secret_json (item_password i)
      @ skip_none ''url'' JStr (item_url i)
      @ skip_none ''notes'' secret_json (item_notes i)
      @ skip_none ''totp'' totp_json (item_totp i)
      @ skip_empty ''fields'' field_json (item_fields i)
      @ skip_none ''folder'' JStr (item_folder i)
      @ skip_empty ''tags'' JStr (item_tags i)
      @ skip_none ''subscription'' (subscription_json P) (item_subscription i)
      @ [(''created_at'', u_json (item_created_at i)), (''updated_at'', u_json (item_updated_at i))])"

definition of_item :: "prims \<Rightarrow> json \<Rightarrow> item result" where
  "of_item P v = and_then (of_obj v) (\<lambda>kvs.
     and_then (req (of_uuid P) (vals ''id'' kvs)) (\<lambda>idn.
     and_then (req of_str (vals ''name'' kvs)) (\<lambda>nam.
     and_then (dflt Login of_kind (vals ''kind'' kvs)) (\<lambda>kind.
     and_then (dflt None (of_nullable of_str) (vals ''username'' kvs)) (\<lambda>user.
     and_then (dflt None (of_nullable of_secret) (vals ''password'' kvs)) (\<lambda>pw.
     and_then (dflt None (of_nullable of_str) (vals ''url'' kvs)) (\<lambda>url.
     and_then (dflt None (of_nullable of_secret) (vals ''notes'' kvs)) (\<lambda>notes.
     and_then (dflt None (of_nullable of_totp) (vals ''totp'' kvs)) (\<lambda>totp.
     and_then (dflt [] (of_arr of_field) (vals ''fields'' kvs)) (\<lambda>fields.
     and_then (dflt None (of_nullable of_str) (vals ''folder'' kvs)) (\<lambda>folder.
     and_then (dflt [] (of_arr of_str) (vals ''tags'' kvs)) (\<lambda>tags.
     and_then (dflt None (of_nullable (of_subscription P)) (vals ''subscription'' kvs)) (\<lambda>sub.
     and_then (req of_u (vals ''created_at'' kvs)) (\<lambda>cr.
     and_then (req of_u (vals ''updated_at'' kvs)) (\<lambda>up.
       Inr \<lparr>item_id = idn, item_name = nam, item_kind = kind, item_username = user,
            item_password = pw, item_url = url, item_notes = notes, item_totp = totp,
            item_fields = fields, item_folder = folder, item_tags = tags,
            item_subscription = sub, item_created_at = cr, item_updated_at = up\<rparr>)))))))))))))))"

definition tombstone_json :: "prims \<Rightarrow> tombstone \<Rightarrow> json" where
  "tombstone_json P t = JObj [(''id'', uuid_json P (t_id t)), (''deleted_at'', u_json (t_deleted_at t))]"

definition of_tombstone :: "prims \<Rightarrow> json \<Rightarrow> tombstone result" where
  "of_tombstone P v = and_then (of_obj v) (\<lambda>kvs.
     and_then (req (of_uuid P) (vals ''id'' kvs)) (\<lambda>k.
     and_then (req of_u (vals ''deleted_at'' kvs)) (\<lambda>at.
       Inr \<lparr>t_id = k, t_deleted_at = at\<rparr>)))"

definition sync_state_json :: "sync_state \<Rightarrow> json" where
  "sync_state_json s = JObj [(''base_url'', JStr (ss_base_url s)), (''account_id'', JStr (ss_account_id s)),
     (''device_id'', JStr (ss_device_id s)), (''device_seed'', JStr (ss_device_seed s)),
     (''last_revision'', i_json (ss_last_revision s)), (''last_synced_at'', u_json (ss_last_synced_at s))]"

definition of_sync_state :: "json \<Rightarrow> sync_state result" where
  "of_sync_state v = and_then (of_obj v) (\<lambda>kvs.
     and_then (req of_str (vals ''base_url'' kvs)) (\<lambda>b.
     and_then (req of_str (vals ''account_id'' kvs)) (\<lambda>a.
     and_then (req of_str (vals ''device_id'' kvs)) (\<lambda>d.
     and_then (req of_str (vals ''device_seed'' kvs)) (\<lambda>s.
     and_then (dflt 0 of_i (vals ''last_revision'' kvs)) (\<lambda>r.
     and_then (dflt 0 of_u (vals ''last_synced_at'' kvs)) (\<lambda>t.
       Inr \<lparr>ss_base_url = b, ss_account_id = a, ss_device_id = d, ss_device_seed = s,
            ss_last_revision = r, ss_last_synced_at = t\<rparr>)))))))"

definition vault_data_json :: "prims \<Rightarrow> vault_data \<Rightarrow> json" where
  "vault_data_json P d = JObj
     [(''items'', JArr (map (item_json P) (vd_items d))),
      (''audit'', JArr (map JStr (vd_audit d))),
      (''sync'', nullable sync_state_json (vd_sync d)),
      (''auto_lock_seconds'', nullable (nullable u_json) (vd_auto_lock d)),
      (''icons_enabled'', nullable JBool (vd_icons_enabled d)),
      (''folders'', JArr (map JStr (vd_folders d))),
      (''tombstones'', JArr (map (tombstone_json P) (vd_tombstones d)))]"

definition of_vault_data :: "prims \<Rightarrow> json \<Rightarrow> vault_data result" where
  "of_vault_data P v = and_then (of_obj v) (\<lambda>kvs.
     and_then (dflt [] (of_arr (of_item P)) (vals ''items'' kvs)) (\<lambda>items.
     and_then (dflt [] (of_arr of_str) (vals ''audit'' kvs)) (\<lambda>audit.
     and_then (dflt None (of_nullable of_sync_state) (vals ''sync'' kvs)) (\<lambda>sync.
     and_then (dflt None (of_nullable (of_nullable of_u)) (vals ''auto_lock_seconds'' kvs)) (\<lambda>lock.
     and_then (dflt None (of_nullable of_bool) (vals ''icons_enabled'' kvs)) (\<lambda>icons.
     and_then (dflt [] (of_arr of_str) (vals ''folders'' kvs)) (\<lambda>folders.
     and_then (dflt [] (of_arr (of_tombstone P)) (vals ''tombstones'' kvs)) (\<lambda>graves.
       Inr \<lparr>vd_items = items, vd_audit = audit, vd_sync = sync, vd_auto_lock = lock,
            vd_icons_enabled = icons, vd_folders = folders, vd_tombstones = graves\<rparr>))))))))"

section \<open>Reading back what was written\<close>

named_theorems json_rt \<open>a decoder undoes its encoder\<close>

lemma vals_skip [simp]:
  "vals k (skip_none k' f m) = (if k' = k then (case m of None \<Rightarrow> [] | Some x \<Rightarrow> [f x]) else [])"
  "vals k (skip_empty k' g xs) = (if k' = k \<and> xs \<noteq> [] then [JArr (map g xs)] else [])"
  by (auto simp: skip_none_def skip_empty_def split: option.splits)

lemma read_one [simp]: "req f [v] = f v" "dflt d f [v] = f v"
  by (simp_all add: req_def dflt_def)

lemma of_skip_none:
  "(\<And>x. f (g x) = Inr x) \<Longrightarrow> (\<And>x. g x \<noteq> JNull) \<Longrightarrow>
    dflt None (of_nullable f) (case m of None \<Rightarrow> [] | Some x \<Rightarrow> [g x]) = Inr m"
  by (cases m) (simp_all add: dflt_def of_nullable_def)

lemma map_result_map: "(\<And>x. f (g x) = Inr x) \<Longrightarrow> map_result f (map g xs) = Inr xs"
  by (induction xs) simp_all

lemma of_skip_empty:
  "(\<And>x. f (g x) = Inr x) \<Longrightarrow>
    dflt [] (of_arr f) (if xs \<noteq> [] then [JArr (map g xs)] else []) = Inr xs"
  by (simp add: dflt_def map_result_map)

lemma of_nullable_nullable:
  "(\<And>x. f (g x) = Inr x) \<Longrightarrow> (\<And>x. g x \<noteq> JNull) \<Longrightarrow> of_nullable f (nullable g m) = Inr m"
  by (cases m) (simp_all add: nullable_def of_nullable_def)

lemma basic_rt [json_rt]:
  "of_secret (secret_json s) = Inr s" "of_u (u_json w) = Inr w" "of_i (i_json n) = Inr n"
proof -
  have "uint w < 2 ^ LENGTH('a)" by (rule uint_lt2p)
  then show "of_u (u_json w) = Inr w" by (simp add: u_json_def)
  have "- (2 ^ 63) \<le> sint n" "sint n < 2 ^ 63" using sint_ge [of n] sint_lt [of n] by simp_all
  then show "of_i (i_json n) = Inr n" by (simp add: i_json_def)
qed (simp add: of_secret_def secret_json_def)

lemma id_rt [json_rt]:
  "uuid_faithful P \<Longrightarrow> of_uuid P (uuid_json P u) = Inr u"
  "b64_faithful P \<Longrightarrow> of_b64 P (b64_json P bs) = Inr bs"
  by (simp_all add: of_uuid_def uuid_json_def uuid_faithful_def of_b64_def b64_json_def b64_faithful_def)

lemma enum_rt [json_rt]:
  "of_kind (JStr (item_kind_as_str k)) = Inr k"
  "of_cadence (JStr (cadence_as_str c)) = Inr c"
  "of_algorithm (JStr (algorithm_as_str a)) = Inr a"
  by (cases k; cases c; cases a; simp add: of_kind_def of_cadence_def of_algorithm_def of_enum_def
      item_kind_as_str_def cadence_as_str_def algorithm_as_str_def)+

lemma encodings_not_null [simp]:
  "secret_json s \<noteq> JNull" "u_json w \<noteq> JNull" "i_json n \<noteq> JNull" "uuid_json P u \<noteq> JNull"
  "totp_json t \<noteq> JNull" "subscription_json P sub \<noteq> JNull" "sync_state_json ss \<noteq> JNull"
  by (simp_all add: secret_json_def u_json_def i_json_def uuid_json_def totp_json_def
      subscription_json_def sync_state_json_def)

lemma field_rt [json_rt]: "of_field (field_json f) = Inr f"
  by (simp add: of_field_def field_json_def json_rt)

lemma totp_rt [json_rt]: "of_totp (totp_json c) = Inr c"
  by (simp add: of_totp_def totp_json_def json_rt of_skip_none)

lemma subscription_rt [json_rt]: "uuid_faithful P \<Longrightarrow> of_subscription P (subscription_json P s) = Inr s"
  by (simp add: of_subscription_def subscription_json_def json_rt of_skip_none)

lemma item_rt [json_rt]: "uuid_faithful P \<Longrightarrow> of_item P (item_json P i) = Inr i"
  by (simp add: of_item_def item_json_def json_rt of_skip_none of_skip_empty)

lemma tombstone_rt [json_rt]: "uuid_faithful P \<Longrightarrow> of_tombstone P (tombstone_json P t) = Inr t"
  by (simp add: of_tombstone_def tombstone_json_def json_rt)

lemma sync_state_rt [json_rt]: "of_sync_state (sync_state_json s) = Inr s"
  by (simp add: of_sync_state_def sync_state_json_def json_rt)

text \<open>
  \<open>Some None\<close>, "never lock", is written as \<open>null\<close> and read back as \<open>None\<close>, "never asked".
\<close>

definition written_lock :: "u64 option option \<Rightarrow> u64 option option" where
  "written_lock l = (if l = Some None then None else l)"

lemma lock_rt: "of_nullable (of_nullable of_u) (nullable (nullable u_json) l) = Inr (written_lock l)"
proof (cases l)
  case (Some m)
  then show ?thesis
    by (cases m) (simp_all add: nullable_def of_nullable_def written_lock_def json_rt)
qed (simp add: nullable_def of_nullable_def written_lock_def)

text \<open>
  C40: the contents of a vault read back from their JSON form exactly as they were written, every item
  and every optional field, with the one exception of an auto-lock set to "never", which comes back
  as unset.
\<close>

theorem vault_data_roundtrip:
  assumes "uuid_faithful P"
  shows "of_vault_data P (vault_data_json P d) = Inr (d\<lparr>vd_auto_lock := written_lock (vd_auto_lock d)\<rparr>)"
  using assms
  by (simp add: of_vault_data_def vault_data_json_def map_result_map json_rt lock_rt of_nullable_nullable)

theorem vault_data_roundtrip_witness:
  "of_vault_data (sample_prims JNull JNull) (vault_data_json (sample_prims JNull JNull) sample_data) =
    Inr (sample_data\<lparr>vd_auto_lock := written_lock (vd_auto_lock sample_data)\<rparr>)"
  by (rule vault_data_roundtrip) (rule sample_prims_ok)

end
