(* ===== verification/Vault_File.thy ===== *)
theory Vault_File
  imports Vault_Json
begin

text \<open>
  The vault file and the unlocked vault (\<open>crates/yara-core/src/vault.rs\<close>): the envelope of master
  key, vault key and payload, password change, adoption of an account's key, and the sealing of
  single items and deletion proofs for sync. Salts, nonces and fresh keys are arguments.
\<close>

section \<open>The file\<close>

definition FORMAT_VERSION :: u32 where "FORMAT_VERSION = 1"
definition KDF_ALGORITHM :: string where "KDF_ALGORITHM = ''argon2id''"
definition DELETION_AAD :: bytes where "DELETION_AAD = ''yara.tombstone.v1''"

record kdf_header =
  h_algorithm :: string
  h_salt :: bytes
  h_params :: kdf_params

definition params_json :: "kdf_params \<Rightarrow> json" where
  "params_json p = JObj [(''memory_kib'', u_json (memory_kib p)), (''iterations'', u_json (iterations p)),
     (''parallelism'', u_json (parallelism p))]"

definition of_params :: "json \<Rightarrow> kdf_params result" where
  "of_params v = and_then (of_obj v) (\<lambda>kvs.
     and_then (req of_u (vals ''memory_kib'' kvs)) (\<lambda>m.
     and_then (req of_u (vals ''iterations'' kvs)) (\<lambda>i.
     and_then (req of_u (vals ''parallelism'' kvs)) (\<lambda>p.
       Inr \<lparr>memory_kib = m, iterations = i, parallelism = p\<rparr>))))"

definition header_json :: "prims \<Rightarrow> kdf_header \<Rightarrow> json" where
  "header_json P h = JObj [(''algorithm'', JStr (h_algorithm h)), (''salt'', b64_json P (h_salt h)),
     (''params'', params_json (h_params h))]"

definition of_header :: "prims \<Rightarrow> json \<Rightarrow> kdf_header result" where
  "of_header P v = and_then (of_obj v) (\<lambda>kvs.
     and_then (req of_str (vals ''algorithm'' kvs)) (\<lambda>a.
     and_then (req (of_b64 P) (vals ''salt'' kvs)) (\<lambda>s.
     and_then (req of_params (vals ''params'' kvs)) (\<lambda>p.
       Inr \<lparr>h_algorithm = a, h_salt = s, h_params = p\<rparr>))))"

definition sealed_json :: "prims \<Rightarrow> sealed \<Rightarrow> json" where
  "sealed_json P s = JObj [(''nonce'', b64_json P (sealed_nonce s)), (''ciphertext'', b64_json P (sealed_ciphertext s))]"

definition of_sealed :: "prims \<Rightarrow> json \<Rightarrow> sealed result" where
  "of_sealed P v = and_then (of_obj v) (\<lambda>kvs.
     and_then (req (of_b64 P) (vals ''nonce'' kvs)) (\<lambda>n.
     and_then (req (of_b64 P) (vals ''ciphertext'' kvs)) (\<lambda>c.
       Inr \<lparr>sealed_nonce = n, sealed_ciphertext = c\<rparr>)))"

definition associated_json :: "prims \<Rightarrow> u32 \<Rightarrow> kdf_header \<Rightarrow> json" where
  "associated_json P format h = JObj [(''format'', u_json format), (''kdf'', header_json P h)]"

definition associated_data :: "prims \<Rightarrow> u32 \<Rightarrow> kdf_header \<Rightarrow> bytes" where
  "associated_data P format h = p_json_print P (associated_json P format h)"

record vault_file =
  vf_format :: u32
  vf_kdf :: kdf_header
  vf_wrapped_key :: sealed
  vf_payload :: sealed

definition file_json :: "prims \<Rightarrow> vault_file \<Rightarrow> json" where
  "file_json P f = JObj [(''format'', u_json (vf_format f)), (''kdf'', header_json P (vf_kdf f)),
     (''wrapped_key'', sealed_json P (vf_wrapped_key f)), (''payload'', sealed_json P (vf_payload f))]"

definition of_file :: "prims \<Rightarrow> json \<Rightarrow> vault_file result" where
  "of_file P v = and_then (of_obj v) (\<lambda>kvs.
     and_then (req of_u (vals ''format'' kvs)) (\<lambda>fmt.
     and_then (req (of_header P) (vals ''kdf'' kvs)) (\<lambda>h.
     and_then (req (of_sealed P) (vals ''wrapped_key'' kvs)) (\<lambda>w.
     and_then (req (of_sealed P) (vals ''payload'' kvs)) (\<lambda>p.
       Inr \<lparr>vf_format = fmt, vf_kdf = h, vf_wrapped_key = w, vf_payload = p\<rparr>)))))"

definition to_bytes :: "prims \<Rightarrow> vault_file \<Rightarrow> bytes" where
  "to_bytes P f = p_json_pretty P (file_json P f)"

definition parse_json :: "prims \<Rightarrow> (json \<Rightarrow> 'a result) \<Rightarrow> bytes \<Rightarrow> 'a result" where
  "parse_json P dec bs = and_then (ok_or Serde (p_json_parse P bs)) dec"

definition check_supported :: "vault_file \<Rightarrow> vault_file result" where
  "check_supported f =
     (if vf_format f \<noteq> FORMAT_VERSION then Inl (UnsupportedFormat (vf_format f))
      else if h_algorithm (vf_kdf f) \<noteq> KDF_ALGORITHM then Inl (UnsupportedKdf (h_algorithm (vf_kdf f)))
      else Inr f)"

definition from_bytes :: "prims \<Rightarrow> bytes \<Rightarrow> vault_file result" where
  "from_bytes P bs = and_then (parse_json P (of_file P) bs) check_supported"

section \<open>The unlocked vault\<close>

record unlocked_vault =
  uv_kdf :: kdf_header
  uv_wrapped_key :: sealed
  uv_vault_key :: key
  uv_data :: vault_data

definition fresh_header :: "bytes \<Rightarrow> kdf_params \<Rightarrow> kdf_header" where
  "fresh_header salt params = \<lparr>h_algorithm = KDF_ALGORITHM, h_salt = salt, h_params = params\<rparr>"

definition create_with_params ::
    "prims \<Rightarrow> bytes \<Rightarrow> bytes \<Rightarrow> bytes \<Rightarrow> string \<Rightarrow> kdf_params \<Rightarrow> unlocked_vault result" where
  "create_with_params P salt fresh_key nonce password params =
     and_then (kdf_validate params) (\<lambda>_.
     let kdf = fresh_header salt params;
         aad = associated_data P FORMAT_VERSION kdf
     in and_then (derive_key P password (h_salt kdf) params) (\<lambda>master_key.
     let vault_key = Key fresh_key
     in and_then (seal P nonce master_key (key_expose vault_key) aad) (\<lambda>wrapped_key.
       Inr \<lparr>uv_kdf = kdf, uv_wrapped_key = wrapped_key, uv_vault_key = vault_key,
            uv_data = vault_data_default\<rparr>)))"

definition create :: "prims \<Rightarrow> bytes \<Rightarrow> bytes \<Rightarrow> bytes \<Rightarrow> string \<Rightarrow> unlocked_vault result" where
  "create P salt fresh_key nonce password = create_with_params P salt fresh_key nonce password kdf_default"

definition open_vault :: "prims \<Rightarrow> u64 \<Rightarrow> vault_file \<Rightarrow> string \<Rightarrow> unlocked_vault result" where
  "open_vault P now f password =
     and_then (check_supported f) (\<lambda>_.
     and_then (kdf_validate (h_params (vf_kdf f))) (\<lambda>_.
     let aad = associated_data P (vf_format f) (vf_kdf f)
     in and_then (derive_key P password (h_salt (vf_kdf f)) (h_params (vf_kdf f))) (\<lambda>master_key.
     and_then (open_sealed P master_key (vf_wrapped_key f) aad) (\<lambda>vault_key_bytes.
     and_then (key_from_slice vault_key_bytes) (\<lambda>vault_key.
     and_then (open_sealed P vault_key (vf_payload f) aad) (\<lambda>plaintext.
     and_then (parse_json P (of_vault_data P) plaintext) (\<lambda>data.
       Inr \<lparr>uv_kdf = vf_kdf f, uv_wrapped_key = vf_wrapped_key f, uv_vault_key = vault_key,
            uv_data = prune_tombstones now (migrate_tags_into_folders data)\<rparr>)))))))"

definition seal_vault :: "prims \<Rightarrow> bytes \<Rightarrow> unlocked_vault \<Rightarrow> vault_file result" where
  "seal_vault P nonce v =
     (let aad = associated_data P FORMAT_VERSION (uv_kdf v);
          plaintext = p_json_print P (vault_data_json P (uv_data v))
      in and_then (seal P nonce (uv_vault_key v) plaintext aad) (\<lambda>payload.
           Inr \<lparr>vf_format = FORMAT_VERSION, vf_kdf = uv_kdf v, vf_wrapped_key = uv_wrapped_key v,
                vf_payload = payload\<rparr>))"

definition upgraded :: "kdf_params \<Rightarrow> kdf_params" where
  "upgraded current = (if at_least_as_strong_as kdf_default current then kdf_default else current)"

definition change_password_with_params ::
    "prims \<Rightarrow> bytes \<Rightarrow> bytes \<Rightarrow> string \<Rightarrow> kdf_params \<Rightarrow> unlocked_vault \<Rightarrow> unlocked_vault result" where
  "change_password_with_params P salt nonce new_password params v =
     and_then (kdf_validate params) (\<lambda>_.
     let kdf = fresh_header salt params;
         aad = associated_data P FORMAT_VERSION kdf
     in and_then (derive_key P new_password (h_salt kdf) (h_params kdf)) (\<lambda>master_key.
     and_then (seal P nonce master_key (key_expose (uv_vault_key v)) aad) (\<lambda>wrapped_key.
       Inr (v\<lparr>uv_kdf := kdf, uv_wrapped_key := wrapped_key\<rparr>))))"

definition change_password ::
    "prims \<Rightarrow> bytes \<Rightarrow> bytes \<Rightarrow> string \<Rightarrow> unlocked_vault \<Rightarrow> unlocked_vault result" where
  "change_password P salt nonce new_password v =
     change_password_with_params P salt nonce new_password (upgraded (h_params (uv_kdf v))) v"

definition adopt_vault_key ::
    "prims \<Rightarrow> bytes \<Rightarrow> string \<Rightarrow> bytes \<Rightarrow> unlocked_vault \<Rightarrow> unlocked_vault result" where
  "adopt_vault_key P nonce password k v =
     and_then (key_from_slice k) (\<lambda>vault_key.
     let aad = associated_data P FORMAT_VERSION (uv_kdf v)
     in and_then (derive_key P password (h_salt (uv_kdf v)) (h_params (uv_kdf v))) (\<lambda>master_key.
     and_then (open_sealed P master_key (uv_wrapped_key v) aad) (\<lambda>_.
     and_then (seal P nonce master_key (key_expose vault_key) aad) (\<lambda>wrapped_key.
       Inr (v\<lparr>uv_vault_key := vault_key, uv_wrapped_key := wrapped_key\<rparr>)))))"

section \<open>Items and deletion proofs on the wire\<close>

definition seal_item :: "prims \<Rightarrow> bytes \<Rightarrow> unlocked_vault \<Rightarrow> item \<Rightarrow> sealed result" where
  "seal_item P nonce v i =
     seal P nonce (uv_vault_key v) (p_json_print P (item_json P i)) (uuid_bytes (item_id i))"

definition open_item :: "prims \<Rightarrow> unlocked_vault \<Rightarrow> uuid \<Rightarrow> sealed \<Rightarrow> item result" where
  "open_item P v k s =
     and_then (open_sealed P (uv_vault_key v) s (uuid_bytes k)) (parse_json P (of_item P))"

definition deletion_aad :: "uuid \<Rightarrow> bytes" where
  "deletion_aad k = DELETION_AAD @ uuid_bytes k"

definition seal_deletion :: "prims \<Rightarrow> bytes \<Rightarrow> unlocked_vault \<Rightarrow> tombstone \<Rightarrow> sealed result" where
  "seal_deletion P nonce v t =
     seal P nonce (uv_vault_key v) (p_json_print P (tombstone_json P t)) (deletion_aad (t_id t))"

definition open_deletion :: "prims \<Rightarrow> unlocked_vault \<Rightarrow> uuid \<Rightarrow> sealed \<Rightarrow> tombstone result" where
  "open_deletion P v k s =
     and_then (open_sealed P (uv_vault_key v) s (deletion_aad k)) (\<lambda>plaintext.
     and_then (parse_json P (of_tombstone P) plaintext) (\<lambda>t.
       if t_id t \<noteq> k then Inl (Malformed ''deletion proof names another item'') else Inr t))"

section \<open>The envelope\<close>

text \<open>
  What it means for a vault in memory to be openable with a password once written: its header is one
  the program accepts, and the wrapped key on it opens, under the key derived from the password, to
  the vault key in use.
\<close>

definition protected_by :: "prims \<Rightarrow> unlocked_vault \<Rightarrow> string \<Rightarrow> bool" where
  "protected_by P v password \<longleftrightarrow>
     h_algorithm (uv_kdf v) = KDF_ALGORITHM \<and> kdf_validate (h_params (uv_kdf v)) = Inr () \<and>
     length (key_expose (uv_vault_key v)) = KEY_LEN \<and>
     (\<exists>master. derive_key P password (h_salt (uv_kdf v)) (h_params (uv_kdf v)) = Inr master \<and>
        open_sealed P master (uv_wrapped_key v) (associated_data P FORMAT_VERSION (uv_kdf v)) =
          Inr (key_expose (uv_vault_key v)))"

lemma parse_json_print:
  "json_faithful P j \<Longrightarrow> parse_json P dec (p_json_print P j) = dec j"
  by (simp add: parse_json_def json_faithful_def)

lemma protected_rewrapped:
  assumes "aead_correct P" "argon2_len P" "length nonce = NONCE_LEN"
    and "kdf_validate params = Inr ()" and "length (key_expose k) = KEY_LEN"
    and "derive_key P password salt params = Inr master"
    and "seal P nonce master (key_expose k) (associated_data P FORMAT_VERSION (fresh_header salt params)) = Inr w"
    and "uv_kdf v = fresh_header salt params" "uv_wrapped_key v = w" "uv_vault_key v = k"
  shows "protected_by P v password"
proof -
  have "length (key_expose master) = KEY_LEN" using derive_key_len [OF assms(2,6)] .
  from open_seal [OF assms(1) this assms(3,7)] show ?thesis
    using assms by (simp add: protected_by_def fresh_header_def)
qed

lemma create_protected:
  assumes "aead_correct P" "argon2_len P" "length nonce = NONCE_LEN" "length fresh = KEY_LEN"
    and "create_with_params P salt fresh nonce password params = Inr v"
  shows "protected_by P v password \<and> uv_data v = vault_data_default"
proof -
  from assms(5) obtain master w where "kdf_validate params = Inr ()"
    and "derive_key P password salt params = Inr master"
    and "seal P nonce master fresh (associated_data P FORMAT_VERSION (fresh_header salt params)) = Inr w"
    and "v = \<lparr>uv_kdf = fresh_header salt params, uv_wrapped_key = w, uv_vault_key = Key fresh,
            uv_data = vault_data_default\<rparr>"
    by (auto simp: create_with_params_def and_then_Inr Let_def) (auto simp: fresh_header_def)
  with protected_rewrapped [OF assms(1-3), of params "Key fresh" password salt master w v] assms(4)
  show ?thesis by simp
qed

lemma change_password_Inr:
  assumes "change_password_with_params P salt nonce new params v = Inr v'"
  obtains master w where "kdf_validate params = Inr ()" "derive_key P new salt params = Inr master"
    "seal P nonce master (key_expose (uv_vault_key v)) (associated_data P FORMAT_VERSION (fresh_header salt params)) = Inr w"
    "v' = v\<lparr>uv_kdf := fresh_header salt params, uv_wrapped_key := w\<rparr>"
  using assms by (auto simp: change_password_with_params_def and_then_Inr Let_def) (auto simp: fresh_header_def)

lemma upgraded_stronger: "at_least_as_strong_as (upgraded current) current"
  by (simp add: upgraded_def)

text \<open>Opening, taken apart.\<close>

lemma open_vault_protected:
  assumes prot: "protected_by P v password"
    and f: "vf_format f = FORMAT_VERSION" "vf_kdf f = uv_kdf v" "vf_wrapped_key f = uv_wrapped_key v"
  shows "open_vault P now f password =
    and_then (open_sealed P (uv_vault_key v) (vf_payload f) (associated_data P FORMAT_VERSION (uv_kdf v))) (\<lambda>plaintext.
    and_then (parse_json P (of_vault_data P) plaintext) (\<lambda>data.
      Inr (v\<lparr>uv_data := prune_tombstones now (migrate_tags_into_folders data)\<rparr>)))"
proof -
  obtain kdf w k d where v: "v = \<lparr>uv_kdf = kdf, uv_wrapped_key = w, uv_vault_key = k, uv_data = d\<rparr>"
    by (cases v)
  show ?thesis
    using prot f unfolding v
    by (auto simp: open_vault_def protected_by_def check_supported_def key_from_slice_def)
qed

lemma open_after_seal:
  assumes "aead_correct P" "uuid_faithful P" "json_faithful P (vault_data_json P (uv_data v))"
    and "length nonce = NONCE_LEN" and prot: "protected_by P v password"
    and sealed: "seal_vault P nonce v = Inr f"
  shows "open_vault P now f password =
    Inr (v\<lparr>uv_data := prune_tombstones now (migrate_tags_into_folders
      ((uv_data v)\<lparr>vd_auto_lock := written_lock (vd_auto_lock (uv_data v))\<rparr>))\<rparr>)"
proof -
  let ?aad = "associated_data P FORMAT_VERSION (uv_kdf v)"
  obtain payload where pl: "seal P nonce (uv_vault_key v) (p_json_print P (vault_data_json P (uv_data v))) ?aad = Inr payload"
    and f: "f = \<lparr>vf_format = FORMAT_VERSION, vf_kdf = uv_kdf v, vf_wrapped_key = uv_wrapped_key v, vf_payload = payload\<rparr>"
    using sealed by (auto simp: seal_vault_def and_then_Inr Let_def)
  have "length (key_expose (uv_vault_key v)) = KEY_LEN" using prot by (simp add: protected_by_def)
  note opened = open_seal [OF assms(1) this assms(4) pl]
  have "of_vault_data P (vault_data_json P (uv_data v)) =
      Inr ((uv_data v)\<lparr>vd_auto_lock := written_lock (vd_auto_lock (uv_data v))\<rparr>)"
    using assms(2)
    by (simp add: of_vault_data_def vault_data_json_def map_result_map json_rt lock_rt of_nullable_nullable)
  with assms(3) show ?thesis
    unfolding open_vault_protected [OF prot, of f now] f
    by (subst open_vault_protected [OF prot]) (simp_all add: opened parse_json_print)
qed

text \<open>
  C1: a vault written to disk opens with its password to the vault that was written: same keys, same
  contents after the migration and expiry that every opening performs, whatever was changed since it
  was created; only an auto-lock of "never" is forgotten.
\<close>

theorem seal_open_roundtrip:
  assumes "aead_correct P" "uuid_faithful P" "json_faithful P (vault_data_json P (uv_data v))"
    and "length nonce = NONCE_LEN" and "protected_by P v password"
    and "seal_vault P nonce v = Inr f"
  shows "open_vault P now f password =
    Inr (v\<lparr>uv_data := prune_tombstones now (migrate_tags_into_folders
      ((uv_data v)\<lparr>vd_auto_lock := written_lock (vd_auto_lock (uv_data v))\<rparr>))\<rparr>)"
  using assms by (rule open_after_seal)

text \<open>
  C4: after a password change the written vault opens with the new password to the same contents and
  the same vault key, and its derivation costs at least as much as before on every axis.
\<close>

theorem change_password_reopens:
  assumes "aead_correct P" "argon2_len P" "uuid_faithful P" "json_faithful P (vault_data_json P (uv_data v))"
    and "length nonce = NONCE_LEN" "length nonce' = NONCE_LEN"
    and "protected_by P v old" and "change_password P salt nonce new v = Inr v'"
    and "seal_vault P nonce' v' = Inr f"
  shows "open_vault P now f new =
      Inr (v'\<lparr>uv_data := prune_tombstones now (migrate_tags_into_folders
        ((uv_data v)\<lparr>vd_auto_lock := written_lock (vd_auto_lock (uv_data v))\<rparr>))\<rparr>) \<and>
    uv_vault_key v' = uv_vault_key v \<and>
    at_least_as_strong_as (h_params (vf_kdf f)) (h_params (uv_kdf v))"
proof -
  from assms(8) obtain master w where
    w: "kdf_validate (upgraded (h_params (uv_kdf v))) = Inr ()"
      "derive_key P new salt (upgraded (h_params (uv_kdf v))) = Inr master"
      "seal P nonce master (key_expose (uv_vault_key v))
        (associated_data P FORMAT_VERSION (fresh_header salt (upgraded (h_params (uv_kdf v))))) = Inr w"
    and v': "v' = v\<lparr>uv_kdf := fresh_header salt (upgraded (h_params (uv_kdf v))), uv_wrapped_key := w\<rparr>"
    unfolding change_password_def by (rule change_password_Inr)
  have "length (key_expose (uv_vault_key v)) = KEY_LEN" using assms(7) by (simp add: protected_by_def)
  from protected_rewrapped [OF assms(1,2,5) w(1) this w(2,3), of v'] have "protected_by P v' new"
    by (simp add: v')
  from open_after_seal [OF assms(1,3) _ assms(6) this assms(9)] assms(4)
  have "open_vault P now f new = Inr (v'\<lparr>uv_data := prune_tombstones now (migrate_tags_into_folders
        ((uv_data v)\<lparr>vd_auto_lock := written_lock (vd_auto_lock (uv_data v))\<rparr>))\<rparr>)"
    by (simp add: v')
  moreover have "vf_kdf f = uv_kdf v'"
    using assms(9) by (auto simp: seal_vault_def and_then_Inr Let_def)
  ultimately show ?thesis by (simp add: v' fresh_header_def upgraded_stronger)
qed

text \<open>
  Adopting an account's vault key needs the vault's own password, and leaves a vault that opens
  with that password and uses the adopted key.
\<close>

theorem adopt_needs_password:
  assumes "aead_correct P" "argon2_len P" "length nonce = NONCE_LEN"
    and "kdf_validate (h_params (uv_kdf v)) = Inr ()" "h_algorithm (uv_kdf v) = KDF_ALGORITHM"
    and "adopt_vault_key P nonce password k v = Inr v'"
  shows "(\<exists>master b. derive_key P password (h_salt (uv_kdf v)) (h_params (uv_kdf v)) = Inr master \<and>
      open_sealed P master (uv_wrapped_key v) (associated_data P FORMAT_VERSION (uv_kdf v)) = Inr b) \<and>
    protected_by P v' password \<and> uv_vault_key v' = Key k \<and> uv_data v' = uv_data v"
proof -
  let ?aad = "associated_data P FORMAT_VERSION (uv_kdf v)"
  obtain master b w where k: "length k = KEY_LEN"
    and m: "derive_key P password (h_salt (uv_kdf v)) (h_params (uv_kdf v)) = Inr master"
    and b: "open_sealed P master (uv_wrapped_key v) ?aad = Inr b"
    and w: "seal P nonce master k ?aad = Inr w"
    and v': "v' = v\<lparr>uv_vault_key := Key k, uv_wrapped_key := w\<rparr>"
    using assms(6) by (auto simp: adopt_vault_key_def and_then_Inr Let_def key_from_slice_Inr)
  have "open_sealed P master w ?aad = Inr k"
    by (rule open_seal [OF assms(1) derive_key_len [OF assms(2) m] assms(3) w])
  then have "protected_by P v' password"
    using assms(4,5) k m by (simp add: protected_by_def v')
  with m b show ?thesis by (simp add: v')
qed

section \<open>What tampering meets\<close>

text \<open>
  C3: a file asking for more derivation than the program allows is refused before the derivation: the
  answer does not depend on Argon2 or any other primitive.
\<close>

theorem open_refuses_unbounded_cost:
  assumes "vf_format f = FORMAT_VERSION" and "h_algorithm (vf_kdf f) = KDF_ALGORITHM"
    and "\<not> is_ok (kdf_validate (h_params (vf_kdf f)))"
  shows "\<exists>m. \<forall>P. open_vault P now f password = Inl (DamagedFile m)"
proof -
  from assms(3) obtain e where e: "kdf_validate (h_params (vf_kdf f)) = Inl e"
    by (auto simp: is_ok_def split: sum.splits)
  then obtain m where "e = DamagedFile m" using kdf_validate_damaged by blast
  with e assms(1,2) show ?thesis by (auto simp: open_vault_def check_supported_def)
qed

lemma header_rt [json_rt]: "b64_faithful P \<Longrightarrow> of_header P (header_json P h) = Inr h"
  by (simp add: of_header_def header_json_def of_params_def params_json_def json_rt)

lemma sealed_rt [json_rt]: "b64_faithful P \<Longrightarrow> of_sealed P (sealed_json P s) = Inr s"
  by (simp add: of_sealed_def sealed_json_def json_rt)

lemma file_rt: "b64_faithful P \<Longrightarrow> of_file P (file_json P f) = Inr f"
  by (simp add: of_file_def file_json_def json_rt)

lemma associated_inj:
  assumes "b64_faithful P" and "json_faithful P (associated_json P fmt h)" and "json_faithful P (associated_json P fmt' h')"
    and "associated_data P fmt h = associated_data P fmt' h'"
  shows "h = h'"
proof -
  have "associated_json P fmt h = associated_json P fmt' h'"
    using assms(2-4) unfolding json_faithful_def associated_data_def by (metis option.inject)
  then have "header_json P h = header_json P h'" by (simp add: associated_json_def)
  then show ?thesis using header_rt [OF assms(1)] by (metis sum.inject(2))
qed

text \<open>
  C2: a file whose key-derivation header was edited in any way does not open, with any password,
  whatever the edit makes the derivation cost: the header is bound into the wrapped key.
\<close>

theorem edited_header_never_opens:
  assumes "aead_binding P" "argon2_len P" "b64_faithful P"
    and "json_faithful P (associated_json P FORMAT_VERSION (vf_kdf f))"
    and "json_faithful P (associated_json P FORMAT_VERSION h)"
    and "vf_kdf f = fresh_header salt params" and "derive_key P password salt params = Inr master"
    and "length nonce = NONCE_LEN"
    and "seal P nonce master vault_key (associated_data P FORMAT_VERSION (vf_kdf f)) = Inr (vf_wrapped_key f)"
    and "h \<noteq> vf_kdf f"
  shows "\<not> is_ok (open_vault P now (f\<lparr>vf_kdf := h\<rparr>) typed)"
proof
  assume "is_ok (open_vault P now (f\<lparr>vf_kdf := h\<rparr>) typed)"
  then obtain v where "open_vault P now (f\<lparr>vf_kdf := h\<rparr>) typed = Inr v"
    by (auto simp: is_ok_def split: sum.splits)
  then obtain master' b where fmt: "vf_format f = FORMAT_VERSION"
    and m: "derive_key P typed (h_salt h) (h_params h) = Inr master'"
    and b: "open_sealed P master' (vf_wrapped_key f) (associated_data P (vf_format f) h) = Inr b"
    by (auto simp: open_vault_def and_then_Inr Let_def check_supported_def split: if_splits)
  have "associated_data P FORMAT_VERSION h \<noteq> associated_data P FORMAT_VERSION (vf_kdf f)"
    using associated_inj [OF assms(3,5,4)] assms(10) by blast
  then have "open_sealed P master' (vf_wrapped_key f) (associated_data P FORMAT_VERSION h) = Inl Decrypt"
    using assms by (intro open_seal_other [where k = master and n = nonce])
      (auto intro: derive_key_len [OF assms(2) m] derive_key_len [OF assms(2)])
  with b fmt show False by simp
qed

lemma deletion_aad_inj: "deletion_aad k = deletion_aad j \<longleftrightarrow> k = j"
  by (simp add: deletion_aad_def uuid_bytes_inj)

lemma deletion_aad_not_item: "deletion_aad k \<noteq> uuid_bytes j"
proof
  assume "deletion_aad k = uuid_bytes j"
  then have "length (deletion_aad k) = length (uuid_bytes j)" by simp
  then show False by (simp add: deletion_aad_def uuid_bytes_def DELETION_AAD_def)
qed

text \<open>
  C5: what is sealed for the server opens under its own id only, and the two kinds never stand in for
  one another: an item opens to itself under its id, to nothing under another id, and not as a
  deletion proof; a deletion proof opens to itself under its id and never as an item.
\<close>

theorem wire_records_bound:
  assumes "aead_correct P" "aead_binding P" "uuid_faithful P"
    and "json_faithful P (item_json P i)" "json_faithful P (tombstone_json P t)"
    and "length (key_expose (uv_vault_key v)) = KEY_LEN" "length n = NONCE_LEN" "length n' = NONCE_LEN"
    and "seal_item P n v i = Inr si" "seal_deletion P n' v t = Inr st"
  shows "open_item P v (item_id i) si = Inr i \<and>
    (\<forall>k. k \<noteq> item_id i \<longrightarrow> open_item P v k si = Inl Decrypt) \<and>
    (\<forall>k. open_deletion P v k si = Inl Decrypt) \<and>
    open_deletion P v (t_id t) st = Inr t \<and>
    (\<forall>k. k \<noteq> t_id t \<longrightarrow> open_deletion P v k st = Inl Decrypt) \<and>
    (\<forall>k. open_item P v k st = Inl Decrypt)"
proof -
  let ?k = "uv_vault_key v"
  have other: "open_sealed P ?k si a = Inl Decrypt" if "a \<noteq> uuid_bytes (item_id i)" for a
    using assms(9) that unfolding seal_item_def
    by (intro open_seal_other [OF assms(2,6,7,6)]) auto
  have other': "open_sealed P ?k st a = Inl Decrypt" if "a \<noteq> deletion_aad (t_id t)" for a
    using assms(10) that unfolding seal_deletion_def
    by (intro open_seal_other [OF assms(2,6,8,6)]) auto
  have "open_sealed P ?k si (uuid_bytes (item_id i)) = Inr (p_json_print P (item_json P i))"
    using assms(9) unfolding seal_item_def by (rule open_seal [OF assms(1,6,7)])
  then have "open_item P v (item_id i) si = Inr i"
    using assms(3,4) by (simp add: open_item_def parse_json_print item_rt)
  moreover have "open_sealed P ?k st (deletion_aad (t_id t)) = Inr (p_json_print P (tombstone_json P t))"
    using assms(10) unfolding seal_deletion_def by (rule open_seal [OF assms(1,6,8)])
  then have "open_deletion P v (t_id t) st = Inr t"
    using assms(3,5) by (simp add: open_deletion_def parse_json_print tombstone_rt)
  moreover have "open_item P v k si = Inl Decrypt" if "k \<noteq> item_id i" for k
    using other [of "uuid_bytes k"] that by (simp add: open_item_def uuid_bytes_inj)
  moreover have "open_deletion P v k si = Inl Decrypt" for k
    using other [of "deletion_aad k"] by (simp add: open_deletion_def deletion_aad_not_item)
  moreover have "open_deletion P v k st = Inl Decrypt" if "k \<noteq> t_id t" for k
    using other' [of "deletion_aad k"] that by (simp add: open_deletion_def deletion_aad_inj)
  moreover have "open_item P v k st = Inl Decrypt" for k
    using other' [of "uuid_bytes k"] deletion_aad_not_item [of "t_id t" k] by (simp add: open_item_def)
  ultimately show ?thesis by blast
qed

section \<open>The hypotheses hold together\<close>

lemma sample_json_indep:
  "vault_data_json (sample_prims a b) d = vault_data_json (sample_prims JNull JNull) d"
  "item_json (sample_prims a b) i = item_json (sample_prims JNull JNull) i"
  "tombstone_json (sample_prims a b) t = tombstone_json (sample_prims JNull JNull) t"
  "associated_json (sample_prims a b) fmt h = associated_json (sample_prims JNull JNull) fmt h"
proof -
  have u: "uuid_json (sample_prims a b) = uuid_json (sample_prims JNull JNull)"
    by (simp add: uuid_json_def sample_prims_def fun_eq_iff)
  have s: "subscription_json (sample_prims a b) = subscription_json (sample_prims JNull JNull)"
    by (simp add: subscription_json_def u fun_eq_iff)
  show i: "item_json (sample_prims a b) i = item_json (sample_prims JNull JNull) i" for i
    by (simp add: item_json_def u s)
  show t: "tombstone_json (sample_prims a b) t = tombstone_json (sample_prims JNull JNull) t" for t
    by (simp add: tombstone_json_def u)
  show "vault_data_json (sample_prims a b) d = vault_data_json (sample_prims JNull JNull) d"
    by (simp add: vault_data_json_def i t)
  show "associated_json (sample_prims a b) fmt h = associated_json (sample_prims JNull JNull) fmt h"
    by (simp add: associated_json_def header_json_def b64_json_def sample_prims_def)
qed

abbreviation nonce24 :: bytes where "nonce24 \<equiv> replicate 24 (CHR ''N'')"
abbreviation salt32 :: bytes where "salt32 \<equiv> replicate 32 (CHR ''S'')"

definition json_prims :: "vault_data \<Rightarrow> prims" where
  "json_prims d = sample_prims (vault_data_json (sample_prims JNull JNull) d) JNull"

lemma json_prims_ok:
  "aead_correct (json_prims d)" "argon2_len (json_prims d)" "uuid_faithful (json_prims d)"
  "json_faithful (json_prims d) (vault_data_json (json_prims d) d)" "aead_total (json_prims d)"
  using sample_prims_ok [of "vault_data_json (sample_prims JNull JNull) d" JNull]
    sample_json_indep(1) [of "vault_data_json (sample_prims JNull JNull) d" JNull d]
  by (simp_all add: json_prims_def)

lemma sample_derive:
  "\<exists>master. derive_key (sample_prims j1 j2) pw salt32 ps = Inr master \<and> length (key_expose master) = KEY_LEN"
  by (simp add: derive_key_def sample_prims_def)

lemma sample_protected:
  "\<exists>v. protected_by (sample_prims j1 j2) v pw \<and> uv_data v = d \<and> uv_kdf v = fresh_header salt32 kdf_default"
proof -
  let ?P = "sample_prims j1 j2"
  let ?h = "fresh_header salt32 kdf_default"
  let ?k = "Key (replicate 32 (CHR ''K''))"
  obtain master where m: "derive_key ?P pw salt32 kdf_default = Inr master" "length (key_expose master) = KEY_LEN"
    using sample_derive by blast
  obtain w where w: "seal ?P nonce24 master (key_expose ?k) (associated_data ?P FORMAT_VERSION ?h) = Inr w"
    using seal_total [OF sample_prims_ok(2) m(2), of nonce24] by force
  define v where "v = \<lparr>uv_kdf = ?h, uv_wrapped_key = w, uv_vault_key = ?k, uv_data = d\<rparr>"
  have "protected_by ?P v pw"
    by (rule protected_rewrapped [OF sample_prims_ok(1,3) _ kdf_default_valid _ m(1) w])
      (simp_all add: v_def)
  then show ?thesis by (auto simp: v_def)
qed

lemma seal_vault_total:
  "aead_total P \<Longrightarrow> protected_by P v pw \<Longrightarrow> length n = NONCE_LEN \<Longrightarrow> \<exists>f. seal_vault P n v = Inr f"
  using seal_total [of P "uv_vault_key v" n]
  by (fastforce simp: seal_vault_def and_then_Inr Let_def protected_by_def)

theorem seal_open_roundtrip_witness:
  "\<exists>v f. uv_data v = sample_data \<and> seal_vault (json_prims sample_data) nonce24 v = Inr f \<and>
    open_vault (json_prims sample_data) 5 f ''pw'' =
    Inr (v\<lparr>uv_data := prune_tombstones 5 (migrate_tags_into_folders
      ((uv_data v)\<lparr>vd_auto_lock := written_lock (vd_auto_lock (uv_data v))\<rparr>))\<rparr>)"
proof -
  obtain v where v: "protected_by (json_prims sample_data) v ''pw''" and d: "uv_data v = sample_data"
    using sample_protected unfolding json_prims_def by blast
  obtain f where f: "seal_vault (json_prims sample_data) nonce24 v = Inr f"
    using seal_vault_total [OF json_prims_ok(5) v, of nonce24] by auto
  from seal_open_roundtrip [OF json_prims_ok(1,3) _ _ v f] json_prims_ok(4) [of sample_data] d f
  show ?thesis by fastforce
qed

lemma change_password_total:
  assumes "aead_total P" "argon2_len P" "kdf_validate (upgraded (h_params (uv_kdf v))) = Inr ()"
    and "derive_key P new salt (upgraded (h_params (uv_kdf v))) = Inr master" "length n = NONCE_LEN"
  shows "\<exists>v'. change_password P salt n new v = Inr v'"
  using seal_total [OF assms(1) derive_key_len [OF assms(2,4)] assms(5)] assms(3,4)
  by (fastforce simp: change_password_def change_password_with_params_def and_then_Inr Let_def fresh_header_def)

lemma upgraded_default [simp]: "upgraded kdf_default = kdf_default"
  by (simp add: upgraded_def)

theorem change_password_reopens_witness:
  "\<exists>v v' f. change_password (json_prims sample_data) salt32 nonce24 ''new'' v = Inr v' \<and>
    uv_data v = sample_data \<and> open_vault (json_prims sample_data) 5 f ''new'' =
      Inr (v'\<lparr>uv_data := prune_tombstones 5 (migrate_tags_into_folders
        ((uv_data v)\<lparr>vd_auto_lock := written_lock (vd_auto_lock (uv_data v))\<rparr>))\<rparr>) \<and>
    uv_vault_key v' = uv_vault_key v \<and>
    at_least_as_strong_as (h_params (vf_kdf f)) (h_params (uv_kdf v))"
proof -
  let ?P = "json_prims sample_data"
  obtain v where v: "protected_by ?P v ''pw''" and d: "uv_data v = sample_data"
    and h: "uv_kdf v = fresh_header salt32 kdf_default"
    using sample_protected unfolding json_prims_def by blast
  obtain master where m: "derive_key ?P ''new'' salt32 kdf_default = Inr master"
    using sample_derive unfolding json_prims_def by blast
  then obtain v' where v': "change_password ?P salt32 nonce24 ''new'' v = Inr v'"
    using change_password_total [OF json_prims_ok(5,2), where v = v and new = "''new''" and salt = salt32 and n = nonce24]
    by (auto simp: h fresh_header_def kdf_default_valid)
  then have "uv_vault_key v' = uv_vault_key v"
    by (auto simp: change_password_def elim: change_password_Inr)
  then have "length (key_expose (uv_vault_key v')) = KEY_LEN" using v by (simp add: protected_by_def)
  then obtain f where f: "seal_vault ?P nonce24 v' = Inr f"
    using seal_total [OF json_prims_ok(5)] by (fastforce simp: seal_vault_def and_then_Inr Let_def)
  from change_password_reopens [OF json_prims_ok(1,2,3) _ _ _ v v' f] json_prims_ok(4) [of sample_data] d v'
  show ?thesis by fastforce
qed

theorem adopt_needs_password_witness:
  "\<exists>v v'. adopt_vault_key (json_prims sample_data) nonce24 ''pw'' (replicate 32 (CHR ''A'')) v = Inr v' \<and>
    protected_by (json_prims sample_data) v' ''pw'' \<and> uv_vault_key v' = Key (replicate 32 (CHR ''A'')) \<and>
    uv_data v' = uv_data v"
proof -
  let ?P = "json_prims sample_data"
  let ?k = "replicate 32 (CHR ''A'')"
  obtain v where v: "protected_by ?P v ''pw''" using sample_protected unfolding json_prims_def by blast
  then obtain master where m: "derive_key ?P ''pw'' (h_salt (uv_kdf v)) (h_params (uv_kdf v)) = Inr master"
    and o: "open_sealed ?P master (uv_wrapped_key v) (associated_data ?P FORMAT_VERSION (uv_kdf v)) =
          Inr (key_expose (uv_vault_key v))" by (auto simp: protected_by_def)
  obtain w where "seal ?P nonce24 master ?k (associated_data ?P FORMAT_VERSION (uv_kdf v)) = Inr w"
    using seal_total [OF json_prims_ok(5) derive_key_len [OF json_prims_ok(2) m], of nonce24] by force
  then obtain v' where v': "adopt_vault_key ?P nonce24 ''pw'' ?k v = Inr v'"
    using m o by (simp add: adopt_vault_key_def key_from_slice_def Let_def)
  from adopt_needs_password [OF json_prims_ok(1,2) _ _ _ v'] v v' show ?thesis
    by (auto simp: protected_by_def)
qed

theorem open_refuses_unbounded_cost_witness:
  "\<exists>m. \<forall>P. open_vault P 5 \<lparr>vf_format = 1, vf_kdf = \<lparr>h_algorithm = ''argon2id'', h_salt = salt32,
      h_params = \<lparr>memory_kib = 268435455, iterations = 3, parallelism = 4\<rparr>\<rparr>,
      vf_wrapped_key = \<lparr>sealed_nonce = [], sealed_ciphertext = []\<rparr>,
      vf_payload = \<lparr>sealed_nonce = [], sealed_ciphertext = []\<rparr>\<rparr> ''pw'' = Inl (DamagedFile m)"
  by (rule open_refuses_unbounded_cost)
    (simp_all add: FORMAT_VERSION_def KDF_ALGORITHM_def kdf_validate_def kdf_bounds)

theorem edited_header_never_opens_witness:
  "\<exists>P f h. h \<noteq> vf_kdf f \<and> vf_format f = FORMAT_VERSION \<and> \<not> is_ok (open_vault P 5 (f\<lparr>vf_kdf := h\<rparr>) ''pw'')"
proof -
  let ?h = "fresh_header salt32 kdf_default"
  let ?h' = "fresh_header salt32 (kdf_default\<lparr>iterations := 1\<rparr>)"
  let ?P0 = "sample_prims JNull JNull"
  define P where "P = sample_prims (associated_json ?P0 FORMAT_VERSION ?h) (associated_json ?P0 FORMAT_VERSION ?h')"
  have j: "associated_json P FORMAT_VERSION h = associated_json ?P0 FORMAT_VERSION h" for h
    unfolding P_def by (rule sample_json_indep(4))
  have faithful: "json_faithful P (associated_json P FORMAT_VERSION ?h)" "json_faithful P (associated_json P FORMAT_VERSION ?h')"
    unfolding j unfolding P_def by (rule sample_prims_ok(7), rule sample_prims_ok(8))
  obtain v where v: "protected_by P v ''pw''" and h: "uv_kdf v = ?h"
    using sample_protected unfolding P_def by blast
  obtain master where m: "derive_key P ''pw'' salt32 kdf_default = Inr master"
    using sample_derive unfolding P_def by blast
  obtain w where w: "seal P nonce24 master (replicate 32 (CHR ''K'')) (associated_data P FORMAT_VERSION ?h) = Inr w"
    using seal_total [of P master nonce24] sample_prims_ok(2) derive_key_len [OF _ m] sample_prims_ok(3)
    unfolding P_def by (metis length_replicate)
  define f where "f = \<lparr>vf_format = FORMAT_VERSION, vf_kdf = ?h, vf_wrapped_key = w, vf_payload = w\<rparr>"
  have "?h' \<noteq> ?h" by (simp add: fresh_header_def kdf_default_def)
  moreover have "\<not> is_ok (open_vault P 5 (f\<lparr>vf_kdf := ?h'\<rparr>) ''pw'')"
  proof (rule edited_header_never_opens)
    show "aead_binding P" "argon2_len P" "b64_faithful P"
      unfolding P_def by (simp_all add: sample_binding sample_prims_ok)
    show "seal P nonce24 master (replicate 32 (CHR ''K'')) (associated_data P FORMAT_VERSION (vf_kdf f)) = Inr (vf_wrapped_key f)"
      using w by (simp add: f_def)
    show "vf_kdf f = ?h" "?h' \<noteq> vf_kdf f" using \<open>?h' \<noteq> ?h\<close> by (simp_all add: f_def)
    show "json_faithful P (associated_json P FORMAT_VERSION (vf_kdf f))"
      unfolding f_def vault_file.simps by (rule faithful(1))
  qed (rule faithful(2), rule m, simp)
  moreover have "vf_kdf f = ?h" "vf_format f = FORMAT_VERSION" by (simp_all add: f_def)
  ultimately show ?thesis by metis
qed

theorem wire_records_bound_witness:
  "\<exists>P v si st. open_item P v 7 si = Inr sample_item \<and> open_item P v 8 si = Inl Decrypt \<and>
    open_deletion P v 7 si = Inl Decrypt \<and> open_deletion P v 7 st = Inr \<lparr>t_id = 7, t_deleted_at = 9\<rparr> \<and>
    open_item P v 7 st = Inl Decrypt"
proof -
  let ?t = "\<lparr>t_id = 7, t_deleted_at = 9\<rparr> :: tombstone"
  let ?P0 = "sample_prims JNull JNull"
  define P where "P = sample_prims (item_json ?P0 sample_item) (tombstone_json ?P0 ?t)"
  have j: "item_json P sample_item = item_json ?P0 sample_item" "tombstone_json P ?t = tombstone_json ?P0 ?t"
    unfolding P_def by (rule sample_json_indep)+
  have faithful: "json_faithful P (item_json P sample_item)" "json_faithful P (tombstone_json P ?t)"
    unfolding j unfolding P_def by (rule sample_prims_ok(7), rule sample_prims_ok(8))
  obtain v where v: "protected_by P v ''pw''" using sample_protected unfolding P_def by blast
  then have len: "length (key_expose (uv_vault_key v)) = KEY_LEN" by (simp add: protected_by_def)
  have total: "aead_total P" by (simp add: P_def sample_prims_ok)
  obtain si st where s: "seal_item P nonce24 v sample_item = Inr si" "seal_deletion P nonce24 v ?t = Inr st"
    using seal_total [OF total len, of nonce24] unfolding seal_item_def seal_deletion_def by force
  have "item_id sample_item = 7" by (simp add: sample_item_def item_new_def)
  moreover have "aead_correct P" "aead_binding P" "uuid_faithful P"
    unfolding P_def by (rule sample_prims_ok sample_binding)+
  from wire_records_bound [OF this faithful len _ _ s]
  have "open_item P v (item_id sample_item) si = Inr sample_item \<and>
    (\<forall>k. k \<noteq> item_id sample_item \<longrightarrow> open_item P v k si = Inl Decrypt) \<and>
    (\<forall>k. open_deletion P v k si = Inl Decrypt) \<and> open_deletion P v 7 st = Inr ?t \<and>
    (\<forall>k. open_item P v k st = Inl Decrypt)" by simp
  ultimately have "open_item P v 7 si = Inr sample_item \<and> open_item P v 8 si = Inl Decrypt \<and>
    open_deletion P v 7 si = Inl Decrypt \<and> open_deletion P v 7 st = Inr ?t \<and>
    open_item P v 7 st = Inl Decrypt" by simp
  then show ?thesis by blast
qed

end
