(* ===== verification/Disk.thy ===== *)
theory Disk
  imports Vault_File
begin

text \<open>
  The calls of \<open>std::fs\<close> the desktop application makes in its own directory, on files named within
  it. What goes wrong is a script: every call takes the next entry, which lets it succeed, makes it
  fail after part of its work, or stops the process in the middle of it, after which nothing the code
  still does has any effect. A rename is atomic, as the code relies on.
\<close>

type_synonym files = "string \<Rightarrow> bytes option"

datatype fault = Fine | FailsAt nat | DiesAt nat

datatype app_error = CoreError error | AppError string | IoError

type_synonym 'a app_result = "app_error + 'a"

record disk =
  d_files :: files
  d_faults :: "fault list"
  d_dead :: bool

definition on_disk :: "(nat \<Rightarrow> files \<Rightarrow> files) \<Rightarrow> (files \<Rightarrow> files option) \<Rightarrow> disk \<Rightarrow> disk \<times> unit app_result" where
  "on_disk partly fully d =
     (if d_dead d then (d, Inl IoError)
      else
        let rest = d\<lparr>d_faults := tl (d_faults d)\<rparr> in
        case (case d_faults d of [] \<Rightarrow> Fine | f # _ \<Rightarrow> f) of
          Fine \<Rightarrow> (case fully (d_files d) of
                     None \<Rightarrow> (rest, Inl IoError)
                   | Some fs \<Rightarrow> (rest\<lparr>d_files := fs\<rparr>, Inr ()))
        | FailsAt k \<Rightarrow> (rest\<lparr>d_files := partly k (d_files d)\<rparr>, Inl IoError)
        | DiesAt k \<Rightarrow> (rest\<lparr>d_files := partly k (d_files d), d_dead := True\<rparr>, Inl IoError))"

text \<open>A write may stop before the file is created, or with any prefix of the bytes in it.\<close>

definition write_part :: "string \<Rightarrow> bytes \<Rightarrow> nat \<Rightarrow> files \<Rightarrow> files" where
  "write_part path bs k fs = (if k = 0 then fs else fs(path \<mapsto> take (k - 1) bs))"

definition write_durably :: "string \<Rightarrow> bytes \<Rightarrow> disk \<Rightarrow> disk \<times> unit app_result" where
  "write_durably path bs = on_disk (write_part path bs) (\<lambda>fs. Some (fs(path \<mapsto> bs)))"

definition copy_file :: "string \<Rightarrow> string \<Rightarrow> disk \<Rightarrow> disk \<times> unit app_result" where
  "copy_file a b = on_disk
     (\<lambda>k fs. case fs a of None \<Rightarrow> fs | Some bs \<Rightarrow> write_part b bs k fs)
     (\<lambda>fs. case fs a of None \<Rightarrow> None | Some bs \<Rightarrow> Some (fs(b \<mapsto> bs)))"

definition sync_file :: "string \<Rightarrow> disk \<Rightarrow> disk \<times> unit app_result" where
  "sync_file a = on_disk (\<lambda>k fs. fs) (\<lambda>fs. if fs a = None then None else Some fs)"

definition rename_file :: "string \<Rightarrow> string \<Rightarrow> disk \<Rightarrow> disk \<times> unit app_result" where
  "rename_file a b = on_disk (\<lambda>k fs. fs)
     (\<lambda>fs. case fs a of None \<Rightarrow> None | Some bs \<Rightarrow> Some ((fs(a := None))(b \<mapsto> bs)))"

definition remove_file :: "string \<Rightarrow> disk \<Rightarrow> disk \<times> unit app_result" where
  "remove_file a = on_disk (\<lambda>k fs. fs) (\<lambda>fs. if fs a = None then None else Some (fs(a := None)))"

definition file_exists :: "string \<Rightarrow> disk \<Rightarrow> bool" where
  "file_exists a d \<longleftrightarrow> d_files d a \<noteq> None"

section \<open>What one call may leave behind\<close>

lemma on_disk_cases:
  assumes "on_disk partly fully d = (d', r)"
  obtains (finished) fs where "fully (d_files d) = Some fs" "d_files d' = fs" "r = Inr ()" "\<not> d_dead d" "\<not> d_dead d'"
  | (failed) "r = Inl IoError" "d_files d' = d_files d" "d_dead d \<longrightarrow> d' = d"
  | (partial) k where "r = Inl IoError" "d_files d' = partly k (d_files d)" "\<not> d_dead d"
  using assms
  by (auto simp: on_disk_def Let_def split: if_splits fault.splits option.splits list.splits)

lemmas disk_ops = write_durably_def copy_file_def sync_file_def rename_file_def remove_file_def

text \<open>A name none of the calls mentions keeps its contents.\<close>

lemma disk_frame:
  "p \<noteq> path \<Longrightarrow> d_files (fst (write_durably path bs d)) p = d_files d p"
  "p \<noteq> b \<Longrightarrow> d_files (fst (copy_file a b d)) p = d_files d p"
  "d_files (fst (sync_file a d)) = d_files d"
  "p \<noteq> a \<Longrightarrow> p \<noteq> b \<Longrightarrow> d_files (fst (rename_file a b d)) p = d_files d p"
  "p \<noteq> a \<Longrightarrow> d_files (fst (remove_file a d)) p = d_files d p"
  by (auto simp: disk_ops on_disk_def write_part_def Let_def split: if_splits fault.splits option.splits list.splits)

text \<open>A rename has happened or it has not.\<close>

lemma rename_atomic:
  "rename_file a b d = (d', r) \<Longrightarrow>
    r = Inl IoError \<and> d_files d' = d_files d
    \<or> (\<exists>bs. r = Inr () \<and> d_files d a = Some bs \<and> d_files d' = (d_files d)(a := None, b \<mapsto> bs))"
  unfolding rename_file_def by (erule on_disk_cases) (auto split: option.splits)

lemma write_result: "write_durably path bs d = (d', Inr u) \<Longrightarrow> d_files d' = (d_files d)(path \<mapsto> bs)"
  unfolding write_durably_def by (erule on_disk_cases) auto

lemma write_grows: "write_durably path bs d = (d', r) \<Longrightarrow> d_files d p \<noteq> None \<Longrightarrow> d_files d' p \<noteq> None"
  unfolding write_durably_def by (erule on_disk_cases) (auto simp: write_part_def fun_upd_apply split: if_splits)

lemma copy_result:
  "copy_file a b d = (d', Inr u) \<Longrightarrow> \<exists>bs. d_files d a = Some bs \<and> d_files d' = (d_files d)(b \<mapsto> bs)"
  unfolding copy_file_def by (erule on_disk_cases) (auto split: option.splits)

lemma sync_result: "sync_file a d = (d', r) \<Longrightarrow> d_files d' = d_files d"
  using disk_frame(3) [of a d] by simp

text \<open>A disk on which nothing goes wrong.\<close>

definition healthy :: "disk \<Rightarrow> bool" where
  "healthy d \<longleftrightarrow> d_faults d = [] \<and> \<not> d_dead d"

lemma healthy_ops:
  assumes "healthy d"
  shows "write_durably path bs d = (d\<lparr>d_files := (d_files d)(path \<mapsto> bs)\<rparr>, Inr ())"
    and "d_files d a = Some cs \<Longrightarrow> copy_file a b d = (d\<lparr>d_files := (d_files d)(b \<mapsto> cs)\<rparr>, Inr ())"
    and "d_files d a = Some cs \<Longrightarrow> sync_file a d = (d, Inr ())"
    and "d_files d a = Some cs \<Longrightarrow> rename_file a b d = (d\<lparr>d_files := (d_files d)(a := None, b \<mapsto> cs)\<rparr>, Inr ())"
    and "d_files d a = Some cs \<Longrightarrow> remove_file a d = (d\<lparr>d_files := (d_files d)(a := None)\<rparr>, Inr ())"
  using assms by (cases d; simp add: healthy_def disk_ops on_disk_def)+

lemma healthy_update [simp]: "healthy (d\<lparr>d_files := fs\<rparr>) = healthy d"
  by (simp add: healthy_def)

end
