(* ===== verification/App_State.thy ===== *)
theory App_State
  imports Disk
begin

text \<open>
  The desktop application's state (\<open>apps/desktop/src-tauri/src/state.rs\<close>) and the remembered password
  (\<open>remembered.rs\<close>): which vaults are on the device, the one that is unlocked, and how they are
  written, recovered and removed. Every file is named relative to the application's directory. A mutex
  is never poisoned here, since nothing panics while one is held.
\<close>

section \<open>The registry of vaults\<close>

definition REGISTRY_FILE :: string where "REGISTRY_FILE = ''vaults.json''"
definition DEFAULT_VAULT_ID :: string where "DEFAULT_VAULT_ID = ''default''"
definition DEFAULT_VAULT_NAME :: string where "DEFAULT_VAULT_NAME = ''Personal''"
definition REMEMBER_SECONDS :: u64 where "REMEMBER_SECONDS = 14 * 24 * 60 * 60"

datatype startup_screen = Setup | Locked | Recover | Select | Unlocked

record vault_profile =
  vp_id :: string
  vp_name :: string
  vp_selected :: bool
  vp_remembered_until :: "u64 option"

record vault_record =
  vr_id :: string
  vr_name :: string
  vr_file :: string
  vr_remembered_until :: "u64 option"

record vault_registry =
  rg_selected :: "string option"
  rg_vaults :: "vault_record list"

definition record_json :: "vault_record \<Rightarrow> json" where
  "record_json r = JObj [(''id'', JStr (vr_id r)), (''name'', JStr (vr_name r)), (''file'', JStr (vr_file r)),
     (''remembered_until'', nullable u_json (vr_remembered_until r))]"

definition of_record :: "json \<Rightarrow> vault_record result" where
  "of_record v = and_then (of_obj v) (\<lambda>kvs.
     and_then (req of_str (vals ''id'' kvs)) (\<lambda>k.
     and_then (req of_str (vals ''name'' kvs)) (\<lambda>name.
     and_then (req of_str (vals ''file'' kvs)) (\<lambda>f.
     and_then (dflt None (of_nullable of_u) (vals ''remembered_until'' kvs)) (\<lambda>until.
       Inr \<lparr>vr_id = k, vr_name = name, vr_file = f, vr_remembered_until = until\<rparr>)))))"

definition registry_json :: "vault_registry \<Rightarrow> json" where
  "registry_json g = JObj [(''selected'', nullable JStr (rg_selected g)), (''vaults'', JArr (map record_json (rg_vaults g)))]"

definition of_registry :: "json \<Rightarrow> vault_registry result" where
  "of_registry v = and_then (of_obj v) (\<lambda>kvs.
     and_then (dflt None (of_nullable of_str) (vals ''selected'' kvs)) (\<lambda>sel.
     and_then (dflt [] (of_arr of_record) (vals ''vaults'' kvs)) (\<lambda>vs.
       Inr \<lparr>rg_selected = sel, rg_vaults = vs\<rparr>)))"

definition registry_default :: vault_registry where
  "registry_default = \<lparr>rg_selected = None, rg_vaults = []\<rparr>"

definition find_record :: "string \<Rightarrow> vault_registry \<Rightarrow> vault_record option" where
  "find_record k g = find (\<lambda>r. vr_id r = k) (rg_vaults g)"

section \<open>File names\<close>

definition file_stem :: "string \<Rightarrow> string" where
  "file_stem f = (case rsplit_once (CHR ''.'') f of None \<Rightarrow> f | Some (a, b) \<Rightarrow> if a = [] then f else a)"

definition backup_of :: "string \<Rightarrow> string" where
  "backup_of f = file_stem f @ ''.yara.bak''"

definition temp_of :: "string \<Rightarrow> string" where
  "temp_of f = file_stem f @ ''.yara.tmp''"

definition DELETE_MARK :: string where "DELETE_MARK = ''.delete-''"

definition deletion_tombstone :: "prims \<Rightarrow> string \<Rightarrow> uuid \<Rightarrow> string" where
  "deletion_tombstone P f operation = f @ DELETE_MARK @ p_uuid_print P operation"

fun rsplit_str :: "string \<Rightarrow> string \<Rightarrow> (string \<times> string) option" where
  "rsplit_str pat [] = (if pat = [] then Some ([], []) else None)"
| "rsplit_str pat (c # s) =
     (case rsplit_str pat s of
        Some (a, b) \<Rightarrow> Some (c # a, b)
      | None \<Rightarrow> if starts_with (c # s) pat then Some ([], drop (length pat) (c # s)) else None)"

text \<open>
  \<open>Path::components\<close>: a leading separator or drive is a component of its own, and empty or inner
  \<open>.\<close> components do not count.
\<close>

definition is_separator :: "char \<Rightarrow> bool" where
  "is_separator c \<longleftrightarrow> c = CHR ''/'' \<or> c = CHR 0x5C"

definition path_components :: "string \<Rightarrow> string list" where
  "path_components f =
     (let unified = map (\<lambda>c. if is_separator c then CHR ''/'' else c) f;
          parts = split_char (CHR ''/'') unified;
          root = (if starts_with unified ''/'' then [''/''] else []);
          drive = (if 2 \<le> length f \<and> f ! 1 = CHR '':'' then [take 2 f] else []);
          lead = (if hd parts = ''.'' then [''.''] else [])
      in drive @ root @ lead @ filter (\<lambda>p. p \<noteq> [] \<and> p \<noteq> ''.'') parts)"

definition valid_record :: "vault_record \<Rightarrow> bool" where
  "valid_record r \<longleftrightarrow>
     trim (vr_id r) \<noteq> [] \<and> trim (vr_name r) \<noteq> [] \<and> chars_count (vr_name r) \<le> 64 \<and>
     (case path_components (vr_file r) of
        [f] \<Rightarrow> (case rsplit_once (CHR ''.'') f of Some (a, b) \<Rightarrow> a \<noteq> [] \<and> f \<noteq> ''..'' \<and> b = ''yara'' | None \<Rightarrow> False)
      | _ \<Rightarrow> False)"

section \<open>Starting\<close>

definition startup_for :: "string \<Rightarrow> disk \<Rightarrow> startup_screen" where
  "startup_for vault_path d =
     (if file_exists vault_path d then Locked
      else if file_exists (backup_of vault_path) d \<or> file_exists (temp_of vault_path) d then Recover
      else Setup)"

definition record_paths :: "vault_record \<Rightarrow> string list" where
  "record_paths r = [vr_file r, backup_of (vr_file r), temp_of (vr_file r)]"

definition reconcile_entry :: "prims \<Rightarrow> vault_registry \<Rightarrow> string \<Rightarrow> disk \<Rightarrow> disk" where
  "reconcile_entry P g name d =
     (case rsplit_str DELETE_MARK name of
        None \<Rightarrow> d
      | Some (original, operation) \<Rightarrow>
          if original = [] \<or> p_uuid_parse P operation = None then d
          else
            let still_registered = list_ex (\<lambda>r. original \<in> set (record_paths r)) (rg_vaults g) in
            if still_registered \<and> \<not> file_exists original d then fst (rename_file name original d)
            else fst (remove_file name d))"

definition reconcile_deletion_tombstones :: "prims \<Rightarrow> vault_registry \<Rightarrow> string list \<Rightarrow> disk \<Rightarrow> disk" where
  "reconcile_deletion_tombstones P g listing d = fold (reconcile_entry P g) listing d"

definition add_legacy_profile_if_present :: "string \<Rightarrow> disk \<Rightarrow> vault_registry \<Rightarrow> vault_registry" where
  "add_legacy_profile_if_present legacy d g =
     (if startup_for legacy d = Setup
         \<or> list_ex (\<lambda>r. vr_id r = DEFAULT_VAULT_ID \<or> path_components (vr_file r) = [legacy]) (rg_vaults g)
      then g
      else
        let g' = g\<lparr>rg_vaults := \<lparr>vr_id = DEFAULT_VAULT_ID, vr_name = DEFAULT_VAULT_NAME, vr_file = legacy,
                     vr_remembered_until = None\<rparr> # rg_vaults g\<rparr>
        in if rg_selected g' = None then g'\<lparr>rg_selected := Some DEFAULT_VAULT_ID\<rparr> else g')"

fun retain_records :: "string list \<Rightarrow> string list \<Rightarrow> vault_record list \<Rightarrow> vault_record list" where
  "retain_records ids fs [] = []"
| "retain_records ids fs (r # rs) =
     (if \<not> valid_record r \<or> vr_id r \<in> set ids then retain_records ids fs rs
      else if vr_file r \<in> set fs then retain_records (vr_id r # ids) fs rs
      else r # retain_records (vr_id r # ids) (vr_file r # fs) rs)"

definition strip_suffix :: "string \<Rightarrow> string \<Rightarrow> string option" where
  "strip_suffix suf s = map_option rev (strip_prefix (rev suf) (rev s))"

definition found_vault :: "prims \<Rightarrow> string \<Rightarrow> vault_registry \<Rightarrow> vault_registry" where
  "found_vault P f g =
     (case strip_prefix ''vault-'' f of
        None \<Rightarrow> g
      | Some rest \<Rightarrow>
          (case strip_suffix ''.yara'' rest of
             None \<Rightarrow> g
           | Some k \<Rightarrow>
               if p_uuid_parse P k = None \<or> list_ex (\<lambda>r. vr_file r = f) (rg_vaults g) then g
               else g\<lparr>rg_vaults := rg_vaults g @ [\<lparr>vr_id = k, vr_name = ''Vault '' @ take 8 k, vr_file = f,
                       vr_remembered_until = None\<rparr>]\<rparr>))"

definition drop_missing_selection :: "vault_registry \<Rightarrow> vault_registry" where
  "drop_missing_selection g =
     (case rg_selected g of
        None \<Rightarrow> g
      | Some k \<Rightarrow> if find_record k g = None then g\<lparr>rg_selected := None\<rparr> else g)"

definition load_registry :: "prims \<Rightarrow> string list \<Rightarrow> string \<Rightarrow> disk \<Rightarrow> vault_registry" where
  "load_registry P listing legacy d =
     (case (case d_files d REGISTRY_FILE of None \<Rightarrow> Inl Serde | Some bs \<Rightarrow> parse_json P of_registry bs) of
        Inr g \<Rightarrow>
          drop_missing_selection
            (add_legacy_profile_if_present legacy d (g\<lparr>rg_vaults := retain_records [] [] (rg_vaults g)\<rparr>))
      | Inl _ \<Rightarrow>
          let g = fold (found_vault P) listing (add_legacy_profile_if_present legacy d registry_default)
          in g\<lparr>rg_selected :=
               (case find_record DEFAULT_VAULT_ID g of
                  Some r \<Rightarrow> Some (vr_id r)
                | None \<Rightarrow> (case rg_vaults g of [r] \<Rightarrow> Some (vr_id r) | _ \<Rightarrow> None))\<rparr>)"

section \<open>The application\<close>

record app_state =
  as_default_file :: string
  as_disk :: disk
  as_registry :: vault_registry
  as_vault :: "unlocked_vault option"
  as_suppressed :: bool
  as_pending_totp :: "totp_config option"
  as_creds :: "string \<Rightarrow> string option"
  as_cred_faults :: "bool list"

definition app_new :: "prims \<Rightarrow> string list \<Rightarrow> string \<Rightarrow> (string \<Rightarrow> string option) \<Rightarrow> disk \<Rightarrow> app_state" where
  "app_new P listing default_file creds d =
     (let g = load_registry P listing default_file d
      in \<lparr>as_default_file = default_file, as_disk = reconcile_deletion_tombstones P g listing d,
          as_registry = g, as_vault = None, as_suppressed = False, as_pending_totp = None,
          as_creds = creds, as_cred_faults = []\<rparr>)"

text \<open>Running a call of the disk inside the state.\<close>

definition lift_disk :: "(disk \<Rightarrow> disk \<times> 'a app_result) \<Rightarrow> app_state \<Rightarrow> app_state \<times> 'a app_result" where
  "lift_disk f s = (case f (as_disk s) of (d, r) \<Rightarrow> (s\<lparr>as_disk := d\<rparr>, r))"

definition set_pending_totp :: "totp_config \<Rightarrow> app_state \<Rightarrow> app_state" where
  "set_pending_totp t s = s\<lparr>as_pending_totp := Some t\<rparr>"

definition take_pending_totp :: "app_state \<Rightarrow> app_state \<times> totp_config option" where
  "take_pending_totp s = (s\<lparr>as_pending_totp := None\<rparr>, as_pending_totp s)"

definition clear_pending_totp :: "app_state \<Rightarrow> app_state" where
  "clear_pending_totp s = s\<lparr>as_pending_totp := None\<rparr>"

definition selected_vault_path :: "app_state \<Rightarrow> string option" where
  "selected_vault_path s =
     (case rg_selected (as_registry s) of
        None \<Rightarrow> None
      | Some k \<Rightarrow> map_option vr_file (find_record k (as_registry s)))"

definition vault_path :: "app_state \<Rightarrow> string" where
  "vault_path s = (case selected_vault_path s of Some f \<Rightarrow> f | None \<Rightarrow> as_default_file s)"

definition is_unlocked :: "app_state \<Rightarrow> bool" where
  "is_unlocked s \<longleftrightarrow> as_vault s \<noteq> None"

definition startup :: "app_state \<Rightarrow> startup_screen" where
  "startup s =
     (if is_unlocked s then Unlocked
      else case rg_selected (as_registry s) of
        None \<Rightarrow> if rg_vaults (as_registry s) = [] then Setup else Select
      | Some k \<Rightarrow>
          (case find_record k (as_registry s) of
             None \<Rightarrow> Select
           | Some r \<Rightarrow> startup_for (vr_file r) (as_disk s)))"

definition profiles :: "app_state \<Rightarrow> vault_profile list" where
  "profiles s = map (\<lambda>r. \<lparr>vp_id = vr_id r, vp_name = vr_name r, vp_selected = (rg_selected (as_registry s) = Some (vr_id r)),
     vp_remembered_until = vr_remembered_until r\<rparr>) (rg_vaults (as_registry s))"

definition REGISTRY_TEMP :: string where "REGISTRY_TEMP = ''vaults.json.tmp''"

definition write_registry :: "prims \<Rightarrow> vault_registry \<Rightarrow> disk \<Rightarrow> disk \<times> unit app_result" where
  "write_registry P g d =
     and_do (write_durably REGISTRY_TEMP (p_json_pretty P (registry_json g)) d)
       (\<lambda>_. rename_file REGISTRY_TEMP REGISTRY_FILE)"

definition update_registry ::
    "prims \<Rightarrow> (vault_registry \<Rightarrow> vault_registry app_result) \<Rightarrow> app_state \<Rightarrow> app_state \<times> unit app_result" where
  "update_registry P f s =
     (case f (as_registry s) of
        Inl e \<Rightarrow> (s, Inl e)
      | Inr next \<Rightarrow> and_do (lift_disk (write_registry P next) s) (\<lambda>_ s'. (s'\<lparr>as_registry := next\<rparr>, Inr ())))"

definition suppress_resume :: "app_state \<Rightarrow> app_state" where "suppress_resume s = s\<lparr>as_suppressed := True\<rparr>"
definition allow_resume :: "app_state \<Rightarrow> app_state" where "allow_resume s = s\<lparr>as_suppressed := False\<rparr>"

definition select_profile :: "prims \<Rightarrow> string \<Rightarrow> app_state \<Rightarrow> app_state \<times> unit app_result" where
  "select_profile P k s =
     (if is_unlocked s then (s, Inl (AppError ''lock the current vault before choosing another one''))
      else and_do
        (update_registry P (\<lambda>g. if find_record k g = None then Inl (AppError ''that vault is not on this device'')
                                 else Inr (g\<lparr>rg_selected := Some k\<rparr>)) s)
        (\<lambda>_ s'. (allow_resume s', Inr ())))"

definition deselect_profile :: "prims \<Rightarrow> app_state \<Rightarrow> app_state \<times> unit app_result" where
  "deselect_profile P s =
     (if is_unlocked s then (s, Inl (AppError ''lock the current vault before choosing another one''))
      else update_registry P (\<lambda>g. Inr (g\<lparr>rg_selected := None\<rparr>)) s)"

section \<open>Writing a vault\<close>

definition persist_at :: "prims \<Rightarrow> bytes \<Rightarrow> string \<Rightarrow> unlocked_vault \<Rightarrow> disk \<Rightarrow> disk \<times> unit app_result" where
  "persist_at P nonce path v d =
     (case seal_vault P nonce v of
        Inl e \<Rightarrow> (d, Inl (CoreError e))
      | Inr f \<Rightarrow>
          and_do (write_durably (temp_of path) (to_bytes P f) d) (\<lambda>_ d1.
          and_do (if file_exists path d1
                  then and_do (copy_file path (backup_of path) d1) (\<lambda>_. sync_file (backup_of path))
                  else (d1, Inr ()))
            (\<lambda>_. rename_file (temp_of path) path)))"

definition persist :: "prims \<Rightarrow> bytes \<Rightarrow> unlocked_vault \<Rightarrow> app_state \<Rightarrow> app_state \<times> unit app_result" where
  "persist P nonce v s = lift_disk (persist_at P nonce (vault_path s) v) s"

definition save_vault :: "prims \<Rightarrow> bytes \<Rightarrow> app_state \<Rightarrow> app_state \<times> unit app_result" where
  "save_vault P nonce s =
     (case as_vault s of
        None \<Rightarrow> (s, Inl (AppError ''the vault is locked''))
      | Some v \<Rightarrow> persist P nonce v s)"

definition recover :: "prims \<Rightarrow> app_state \<Rightarrow> app_state \<times> unit app_result" where
  "recover P s =
     (let path = vault_path s; d = as_disk s;
          usable = (\<lambda>c. case d_files d c of None \<Rightarrow> False | Some bs \<Rightarrow> is_ok (from_bytes P bs))
      in if file_exists path d then (s, Inl (AppError ''there is already a vault here''))
         else case find usable [temp_of path, backup_of path] of
           None \<Rightarrow> (s, Inl (AppError ''there is nothing here to recover''))
         | Some c \<Rightarrow> lift_disk (write_durably path (the (d_files d c))) s)"

definition set_vault :: "unlocked_vault \<Rightarrow> app_state \<Rightarrow> app_state" where
  "set_vault v s = s\<lparr>as_vault := Some v\<rparr>"

definition app_clear :: "app_state \<Rightarrow> app_state" where
  "app_clear s = clear_pending_totp (s\<lparr>as_vault := None\<rparr>)"

definition with_vault :: "(unlocked_vault \<Rightarrow> 'a app_result) \<Rightarrow> app_state \<Rightarrow> 'a app_result" where
  "with_vault f s = (case as_vault s of None \<Rightarrow> Inl (AppError ''the vault is locked'') | Some v \<Rightarrow> f v)"

definition with_vault_mut ::
    "(unlocked_vault \<Rightarrow> unlocked_vault \<times> 'a app_result) \<Rightarrow> app_state \<Rightarrow> app_state \<times> 'a app_result" where
  "with_vault_mut f s =
     (case as_vault s of
        None \<Rightarrow> (s, Inl (AppError ''the vault is locked''))
      | Some v \<Rightarrow> (case f v of (v', r) \<Rightarrow> (s\<lparr>as_vault := Some v'\<rparr>, r)))"

section \<open>Adding and removing a vault\<close>

definition add_profile ::
    "prims \<Rightarrow> bytes \<Rightarrow> uuid \<Rightarrow> string \<Rightarrow> unlocked_vault \<Rightarrow> app_state \<Rightarrow> app_state \<times> vault_profile app_result" where
  "add_profile P nonce fresh given v s =
     (let name = trim given; g = as_registry s in
      if name = [] then (s, Inl (AppError ''give this vault a name''))
      else if chars_count name > 64 then (s, Inl (AppError ''a vault name cannot be longer than 64 characters''))
      else if list_ex (\<lambda>r. eq_ignore_ascii_case (vr_name r) name) (rg_vaults g)
      then (s, Inl (AppError ''a vault with that name already exists''))
      else
        let first = (rg_vaults g = []);
            k = (if first then DEFAULT_VAULT_ID else p_uuid_print P fresh);
            f = (if first then as_default_file s else ''vault-'' @ k @ ''.yara'')
        in if startup_for f (as_disk s) \<noteq> Setup
           then (s, Inl (AppError ''a vault already exists at that location''))
           else and_do (lift_disk (persist_at P nonce f v) s) (\<lambda>_ s1.
             let next = g\<lparr>rg_vaults := rg_vaults g @ [\<lparr>vr_id = k, vr_name = name, vr_file = f, vr_remembered_until = None\<rparr>],
                          rg_selected := Some k\<rparr>
             in case lift_disk (write_registry P next) s1 of
                  (s2, Inl e) \<Rightarrow> (fst (lift_disk (remove_file f) s2), Inl e)
                | (s2, Inr _) \<Rightarrow>
                    (allow_resume (s2\<lparr>as_registry := next\<rparr>),
                     Inr \<lparr>vp_id = k, vp_name = name, vp_selected = True, vp_remembered_until = None\<rparr>)))"

text \<open>Moving the files of a vault out of the way, undoing the moves, and deleting what was moved.\<close>

fun rollback_staged_files :: "(string \<times> string) list \<Rightarrow> disk \<Rightarrow> disk" where
  "rollback_staged_files [] d = d"
| "rollback_staged_files ((source, tomb) # rest) d = rollback_staged_files rest (fst (rename_file tomb source d))"

fun stage_files :: "prims \<Rightarrow> uuid \<Rightarrow> string list \<Rightarrow> (string \<times> string) list \<Rightarrow> disk \<Rightarrow> disk \<times> (string \<times> string) list app_result" where
  "stage_files P operation [] staged d = (d, Inr staged)"
| "stage_files P operation (source # rest) staged d =
     (if \<not> file_exists source d then stage_files P operation rest staged d
      else
        let tomb = deletion_tombstone P source operation in
        if file_exists tomb d
        then (rollback_staged_files (rev staged) d, Inl (AppError ''a vault deletion is already waiting to be cleaned up''))
        else case rename_file source tomb d of
          (d', Inl e) \<Rightarrow> (rollback_staged_files (rev staged) d', Inl e)
        | (d', Inr _) \<Rightarrow> stage_files P operation rest (staged @ [(source, tomb)]) d')"

fun clean_up :: "(string \<times> string) list \<Rightarrow> disk \<Rightarrow> disk \<times> bool" where
  "clean_up [] d = (d, True)"
| "clean_up ((_, tomb) # rest) d =
     (case remove_file tomb d of
        (d1, r) \<Rightarrow> (case clean_up rest d1 of (d2, all) \<Rightarrow> (d2, is_ok r \<and> all)))"

text \<open>
  \<open>remembered.rs\<close>: one credential per vault id in the operating system's store. Each call takes
  the next entry of a script that says whether the store fails.
\<close>

definition on_creds ::
    "((string \<Rightarrow> string option) \<Rightarrow> string \<Rightarrow> string option) \<Rightarrow> app_state \<Rightarrow> app_state \<times> unit app_result" where
  "on_creds f s =
     (let s' = s\<lparr>as_cred_faults := tl (as_cred_faults s)\<rparr>
      in case as_cred_faults s of
           True # _ \<Rightarrow> (s', Inl IoError)
         | _ \<Rightarrow> (s'\<lparr>as_creds := f (as_creds s)\<rparr>, Inr ()))"

definition remembered_store :: "string \<Rightarrow> string \<Rightarrow> app_state \<Rightarrow> app_state \<times> unit app_result" where
  "remembered_store k password = on_creds (\<lambda>m. m(k \<mapsto> password))"

definition remembered_forget :: "string \<Rightarrow> app_state \<Rightarrow> app_state \<times> unit app_result" where
  "remembered_forget k = on_creds (\<lambda>m. m(k := None))"

definition remembered_read :: "string \<Rightarrow> app_state \<Rightarrow> app_state \<times> string option app_result" where
  "remembered_read k s = (case on_creds id s of (s', r) \<Rightarrow> (s', and_then r (\<lambda>_. Inr (as_creds s k))))"

definition without_record :: "string \<Rightarrow> vault_registry \<Rightarrow> vault_registry" where
  "without_record k g =
     \<lparr>rg_selected = (if rg_selected g = Some k then None else rg_selected g),
      rg_vaults = filter (\<lambda>r. vr_id r \<noteq> k) (rg_vaults g)\<rparr>"

definition remove_profile ::
    "prims \<Rightarrow> uuid \<Rightarrow> string \<Rightarrow> string \<Rightarrow> app_state \<Rightarrow> app_state \<times> unit app_result" where
  "remove_profile P operation k confirmation s =
     (if is_unlocked s then (s, Inl (AppError ''lock the current vault before removing it''))
      else case find_record k (as_registry s) of
        None \<Rightarrow> (s, Inl (AppError ''that vault is not on this device''))
      | Some r \<Rightarrow>
          if vr_name r \<noteq> confirmation then (s, Inl (AppError ''type the Vault name exactly to confirm removal''))
          else and_do (lift_disk (stage_files P operation (record_paths r) []) s) (\<lambda>staged s1.
            let next = without_record k (as_registry s1) in
            case lift_disk (write_registry P next) s1 of
              (s2, Inl e) \<Rightarrow> (s2\<lparr>as_disk := rollback_staged_files (rev staged) (as_disk s2)\<rparr>, Inl e)
            | (s2, Inr _) \<Rightarrow>
                let s3 = fst (remembered_forget k (s2\<lparr>as_registry := next\<rparr>)) in
                (case clean_up staged (as_disk s3) of
                   (d, all) \<Rightarrow> (s3\<lparr>as_disk := d\<rparr>,
                     if all then Inr ()
                     else Inl (AppError ''the Vault was removed, but an encrypted file could not be deleted'')))))"

section \<open>Remembering the password\<close>

definition set_expiry :: "string \<Rightarrow> u64 option \<Rightarrow> vault_registry \<Rightarrow> vault_registry" where
  "set_expiry k e g = g\<lparr>rg_vaults := update_first (\<lambda>r. vr_id r = k) (vr_remembered_until_update (\<lambda>_. e)) (rg_vaults g)\<rparr>"

definition clear_remembered_expiry :: "prims \<Rightarrow> string \<Rightarrow> app_state \<Rightarrow> app_state \<times> unit app_result" where
  "clear_remembered_expiry P k = update_registry P (\<lambda>g. Inr (set_expiry k None g))"

definition forget_remembered :: "prims \<Rightarrow> string \<Rightarrow> app_state \<Rightarrow> app_state \<times> unit app_result" where
  "forget_remembered P k s =
     and_do (clear_remembered_expiry P k s) (\<lambda>_ s'. (fst (remembered_forget k s'), Inr ()))"

definition set_remembered :: "prims \<Rightarrow> u64 \<Rightarrow> string \<Rightarrow> bool \<Rightarrow> app_state \<Rightarrow> app_state \<times> unit app_result" where
  "set_remembered P now password remember s =
     (case rg_selected (as_registry s) of
        None \<Rightarrow> (s, Inl (AppError ''no vault is selected''))
      | Some k \<Rightarrow>
          if \<not> remember then forget_remembered P k s
          else and_do (remembered_store k password s) (\<lambda>_ s1.
            case update_registry P (\<lambda>g.
                if find_record k g = None then Inl (AppError ''the selected vault is no longer registered'')
                else Inr (set_expiry k (Some (sat_add now REMEMBER_SECONDS)) g)) s1 of
              (s2, Inl e) \<Rightarrow> (fst (remembered_forget k s2), Inl e)
            | (s2, Inr _) \<Rightarrow> (s2, Inr ())))"

definition remembered_password :: "prims \<Rightarrow> u64 \<Rightarrow> app_state \<Rightarrow> app_state \<times> secret_string option app_result" where
  "remembered_password P now s =
     (case rg_selected (as_registry s) of
        None \<Rightarrow> (s, Inr None)
      | Some k \<Rightarrow>
          (case Option.bind (find_record k (as_registry s)) vr_remembered_until of
             None \<Rightarrow> (s, Inr None)
           | Some expires \<Rightarrow>
               if expires \<le> now then and_do (forget_remembered P k s) (\<lambda>_ s'. (s', Inr None))
               else and_do (remembered_read k s) (\<lambda>m s'.
                 case m of
                   Some password \<Rightarrow> (s', Inr (Some (SecretString password)))
                 | None \<Rightarrow> and_do (clear_remembered_expiry P k s') (\<lambda>_ s''. (s'', Inr None)))))"

definition forget_selected_remembered :: "prims \<Rightarrow> app_state \<Rightarrow> app_state \<times> unit app_result" where
  "forget_selected_remembered P s =
     (case rg_selected (as_registry s) of None \<Rightarrow> (s, Inr ()) | Some k \<Rightarrow> forget_remembered P k s)"

definition refresh_remembered :: "prims \<Rightarrow> u64 \<Rightarrow> string \<Rightarrow> app_state \<Rightarrow> app_state \<times> unit app_result" where
  "refresh_remembered P now password s =
     (case Option.bind (find (\<lambda>r. rg_selected (as_registry s) = Some (vr_id r)) (rg_vaults (as_registry s))) vr_remembered_until of
        Some expires \<Rightarrow> if expires > now then set_remembered P now password True s else (s, Inr ())
      | None \<Rightarrow> (s, Inr ()))"

section \<open>What a save can lose\<close>

text \<open>A name the application gives a vault file.\<close>

definition vault_name :: "string \<Rightarrow> bool" where
  "vault_name f \<longleftrightarrow> (\<exists>a. a \<noteq> [] \<and> f = a @ ''.yara'')"

lemma vault_name_paths:
  assumes "vault_name f"
  shows "backup_of f = f @ ''.bak''" "temp_of f = f @ ''.tmp''"
    "f \<noteq> backup_of f" "f \<noteq> temp_of f" "backup_of f \<noteq> temp_of f"
proof -
  from assms obtain a where a: "a \<noteq> []" "f = a @ CHR ''.'' # ''yara''" by (auto simp: vault_name_def)
  have "rsplit_once (CHR ''.'') f = Some (a, ''yara'')" unfolding a by (rule rsplit_once_last) simp
  with a have "file_stem f = a" by (simp add: file_stem_def)
  with a show "backup_of f = f @ ''.bak''" "temp_of f = f @ ''.tmp''" by (simp_all add: backup_of_def temp_of_def)
  then show "f \<noteq> backup_of f" "f \<noteq> temp_of f" "backup_of f \<noteq> temp_of f" by simp_all
qed

lemma copy_keeps:
  assumes "and_do (copy_file a b d) (\<lambda>_. sync_file b) = (d', r)" and "p \<noteq> b"
  shows "d_files d' p = d_files d p"
proof -
  obtain d1 r1 where c: "copy_file a b d = (d1, r1)" by fastforce
  have "d_files d1 p = d_files d p" using disk_frame(2) [OF assms(2), of a d] c by simp
  with assms(1) c show ?thesis by (cases r1) (auto dest: sync_result)
qed

lemma persist_at_outcome:
  assumes "vault_name path" and "seal_vault P nonce v = Inr f" and "persist_at P nonce path v d = (d', r)"
  shows "(r = Inr () \<and> d_files d' path = Some (to_bytes P f) \<and>
      (\<forall>bs. d_files d path = Some bs \<longrightarrow> d_files d' (backup_of path) = Some bs)
    \<or> r \<noteq> Inr () \<and> d_files d' path = d_files d path) \<and>
    (\<forall>p. p \<notin> {path, backup_of path, temp_of path} \<longrightarrow> d_files d' p = d_files d p)"
proof -
  note ne = vault_name_paths(3-5) [OF assms(1)]
  let ?t = "temp_of path" let ?b = "backup_of path"
  obtain d1 r1 where w: "write_durably ?t (to_bytes P f) d = (d1, r1)" by fastforce
  have f1: "d_files d1 p = d_files d p" if "p \<noteq> ?t" for p
    using disk_frame(1) [OF that, of "to_bytes P f" d] w by simp
  show ?thesis
  proof (cases r1)
    case (Inl e)
    with assms w f1 ne show ?thesis by (auto simp: persist_at_def)
  next
    case (Inr u)
    with w have t1: "d_files d1 ?t = Some (to_bytes P f)" using write_result by fastforce
    define mid where "mid = (if file_exists path d1 then and_do (copy_file path ?b d1) (\<lambda>_. sync_file ?b) else (d1, Inr ()))"
    obtain d2 r2 where m: "mid = (d2, r2)" by fastforce
    have f2: "d_files d2 p = d_files d1 p" if "p \<noteq> ?b" for p
      using m that copy_keeps [of path ?b d1 d2 r2 p] by (auto simp: mid_def split: if_splits)
    have b2: "d_files d2 ?b = Some bs" if "r2 = Inr ()" "d_files d path = Some bs" for bs
    proof -
      from that ne f1 have e: "d_files d1 path = Some bs" by simp
      then have "and_do (copy_file path ?b d1) (\<lambda>_. sync_file ?b) = (d2, Inr ())"
        using m that(1) by (simp add: mid_def file_exists_def)
      moreover obtain d3 r3 where "copy_file path ?b d1 = (d3, r3)" by fastforce
      ultimately show ?thesis using e by (cases r3) (auto dest!: copy_result sync_result)
    qed
    show ?thesis
    proof (cases r2)
      case e2: (Inl e)
      with assms w Inr m have "d' = d2" "r = Inl e" by (simp_all add: persist_at_def mid_def)
      with f1 f2 ne show ?thesis by auto
    next
      case i2: (Inr u2)
      with assms w Inr m have "rename_file ?t path d2 = (d', r)" by (simp add: persist_at_def mid_def)
      from rename_atomic [OF this] t1 f1 f2 b2 i2 ne show ?thesis by auto
    qed
  qed
qed

lemma persist_at_screen:
  assumes "vault_name path" and "persist_at P nonce path v d = (d', r)" and "startup_for path d \<noteq> Setup"
  shows "startup_for path d' \<noteq> Setup"
proof (cases "seal_vault P nonce v")
  case (Inl e)
  with assms show ?thesis by (simp add: persist_at_def)
next
  case (Inr f)
  show ?thesis
  proof (cases "d_files d' path = None")
    case False
    then show ?thesis by (simp add: startup_for_def file_exists_def)
  next
    case True
    with persist_at_outcome [OF assms(1) Inr assms(2)] have r: "r \<noteq> Inr ()" and p: "d_files d path = None" by auto
    obtain d1 r1 where w: "write_durably (temp_of path) (to_bytes P f) d = (d1, r1)" by fastforce
    note ne = vault_name_paths(3-5) [OF assms(1)]
    have f1: "d_files d1 q = d_files d q" if "q \<noteq> temp_of path" for q
      using disk_frame(1) [OF that, of "to_bytes P f" d] w by simp
    have t: "d_files d (temp_of path) \<noteq> None \<Longrightarrow> d_files d1 (temp_of path) \<noteq> None"
      using write_grows [OF w] .
    have "d_files d' = d_files d1"
    proof (cases r1)
      case (Inl e)
      with assms(2) Inr w show ?thesis by (simp add: persist_at_def \<open>seal_vault P nonce v = Inr f\<close>)
    next
      case (Inr u)
      have "\<not> file_exists path d1" using p f1 ne by (simp add: file_exists_def)
      with assms(2) w Inr have "rename_file (temp_of path) path d1 = (d', r)"
        by (simp add: persist_at_def \<open>seal_vault P nonce v = Inr f\<close>)
      with r show ?thesis using rename_atomic by blast
    qed
    with assms(3) p f1 t ne show ?thesis
      by (auto simp: startup_for_def file_exists_def split: if_splits)
  qed
qed

text \<open>
  C23: whatever fails while a vault is saved, and wherever the process stops, the live file is the old
  vault, untouched, or the complete new one; a save that reports success has also kept what was there
  before as the backup; no file but the vault's own three is touched; and a device that had a vault
  never comes back asking for first-run setup.
\<close>

theorem save_loses_nothing:
  assumes "as_vault s = Some v" and "seal_vault P nonce v = Inr f" and "vault_name (vault_path s)"
    and "save_vault P nonce s = (s', r)"
  shows "(r = Inr () \<and> d_files (as_disk s') (vault_path s) = Some (to_bytes P f) \<and>
      (\<forall>bs. d_files (as_disk s) (vault_path s) = Some bs \<longrightarrow> d_files (as_disk s') (backup_of (vault_path s)) = Some bs)
    \<or> r \<noteq> Inr () \<and> d_files (as_disk s') (vault_path s) = d_files (as_disk s) (vault_path s)) \<and>
    (\<forall>p. p \<notin> {vault_path s, backup_of (vault_path s), temp_of (vault_path s)} \<longrightarrow>
       d_files (as_disk s') p = d_files (as_disk s) p) \<and>
    (startup_for (vault_path s) (as_disk s) \<noteq> Setup \<longrightarrow> startup_for (vault_path s) (as_disk s') \<noteq> Setup)"
proof -
  from assms(1,4) have "persist_at P nonce (vault_path s) v (as_disk s) = (as_disk s', r)"
    by (auto simp: save_vault_def persist_def lift_disk_def split: prod.splits)
  with persist_at_outcome [OF assms(3,2)] persist_at_screen [OF assms(3)] show ?thesis by blast
qed

lemma save_keeps_memory: "as_vault (fst (save_vault P nonce s)) = as_vault s"
  by (auto simp: save_vault_def persist_def lift_disk_def split: option.splits prod.splits)

lemma healthy_save:
  assumes "healthy (as_disk s)" "as_vault s = Some v" "seal_vault P nonce v = Inr f" "vault_name (vault_path s)"
  obtains s1 where "save_vault P nonce s = (s1, Inr ())" "as_vault s1 = Some v"
proof -
  let ?path = "vault_path s" and ?d = "as_disk s"
  have temp: "temp_of ?path \<noteq> backup_of ?path" "temp_of ?path \<noteq> ?path" "backup_of ?path \<noteq> ?path"
    using vault_name_paths [OF assms(4)] by auto
  have "\<exists>d'. persist_at P nonce ?path v ?d = (d', Inr ())"
    using assms(1) temp
    by (cases "d_files ?d ?path")
       (simp_all add: persist_at_def assms(3) healthy_ops file_exists_def)
  then show thesis using that assms(2) by (auto simp: save_vault_def persist_def lift_disk_def)
qed

definition sample_disk :: "files \<Rightarrow> disk" where
  "sample_disk fs = \<lparr>d_files = fs, d_faults = [], d_dead = False\<rparr>"

definition sample_vault :: unlocked_vault where
  "sample_vault = \<lparr>uv_kdf = fresh_header [] kdf_default, uv_wrapped_key = \<lparr>sealed_nonce = [], sealed_ciphertext = []\<rparr>,
     uv_vault_key = Key (replicate 32 (CHR ''k'')), uv_data = vault_data_default\<rparr>"

definition sample_app :: "unlocked_vault option \<Rightarrow> disk \<Rightarrow> app_state" where
  "sample_app v d = \<lparr>as_default_file = ''vault.yara'', as_disk = d, as_registry = registry_default, as_vault = v,
     as_suppressed = False, as_pending_totp = None, as_creds = Map.empty, as_cred_faults = []\<rparr>"

lemma sample_path: "vault_path (sample_app v d) = ''vault.yara''" "vault_name ''vault.yara''"
  by (simp_all add: vault_path_def selected_vault_path_def sample_app_def registry_default_def vault_name_def)

theorem save_loses_nothing_witness:
  "\<exists>s' r. save_vault (sample_prims JNull JNull) (replicate 12 (CHR ''n''))
      (sample_app (Some sample_vault) \<lparr>d_files = [''vault.yara'' \<mapsto> ''old''], d_faults = [Fine, DiesAt 2], d_dead = False\<rparr>) = (s', r) \<and>
    startup_for ''vault.yara'' (as_disk s') \<noteq> Setup"
proof -
  let ?P = "sample_prims JNull JNull" and ?n = "replicate 12 (CHR ''n'')"
  let ?s = "sample_app (Some sample_vault) \<lparr>d_files = [''vault.yara'' \<mapsto> ''old''], d_faults = [Fine, DiesAt 2], d_dead = False\<rparr>"
  obtain s' r where r: "save_vault ?P ?n ?s = (s', r)" by fastforce
  obtain f where f: "seal_vault ?P ?n sample_vault = Inr f"
    by (simp add: seal_vault_def seal_def sample_prims_def sample_vault_def Let_def)
  have v: "as_vault ?s = Some sample_vault" by (simp add: sample_app_def)
  have "vault_name (vault_path ?s)" by (simp only: sample_path)
  from save_loses_nothing [OF v f this r]
  have "startup_for ''vault.yara'' (as_disk ?s) \<noteq> Setup \<longrightarrow> startup_for ''vault.yara'' (as_disk s') \<noteq> Setup"
    unfolding sample_path by blast
  with r show ?thesis by (simp add: sample_app_def startup_for_def file_exists_def)
qed

text \<open>
  Recovery itself does not write that way: it writes the live path directly, so a process that stops
  in the middle of it leaves a truncated live file, which from then on counts as the vault, and
  recovery refuses to run again although the good copy is still there.
\<close>

theorem recover_can_block_itself:
  assumes "\<not> is_ok (from_bytes P (take 1 good))" and "is_ok (from_bytes P good)"
  shows "\<exists>s s' r. d_files (as_disk s) (backup_of (vault_path s)) = Some good \<and> startup_for (vault_path s) (as_disk s) = Recover \<and>
    recover P s = (s', r) \<and> d_files (as_disk s') (vault_path s') = Some (take 1 good) \<and>
    startup_for (vault_path s') (as_disk s') = Locked \<and>
    (\<forall>again. recover P (s'\<lparr>as_disk := (as_disk s')\<lparr>d_faults := again, d_dead := False\<rparr>\<rparr>) =
       (s'\<lparr>as_disk := (as_disk s')\<lparr>d_faults := again, d_dead := False\<rparr>\<rparr>, Inl (AppError ''there is already a vault here'')))"
proof -
  define s where "s = sample_app None \<lparr>d_files = [''vault.yara.bak'' \<mapsto> good], d_faults = [DiesAt 2], d_dead = False\<rparr>"
  have path: "vault_path t = ''vault.yara''" if "as_registry t = registry_default" "as_default_file t = ''vault.yara''" for t
    using that by (simp add: vault_path_def selected_vault_path_def registry_default_def)
  have names: "backup_of ''vault.yara'' = ''vault.yara.bak''" "temp_of ''vault.yara'' = ''vault.yara.tmp''"
    using vault_name_paths [OF sample_path(2)] by simp_all
  obtain s' r where r: "recover P s = (s', r)" by fastforce
  then have s': "s' = s\<lparr>as_disk := \<lparr>d_files = [''vault.yara.bak'' \<mapsto> good, ''vault.yara'' \<mapsto> take 1 good], d_faults = [], d_dead = True\<rparr>\<rparr>"
    using assms path [of s]
    by (simp add: recover_def s_def sample_app_def names file_exists_def lift_disk_def write_durably_def on_disk_def
        write_part_def Let_def)
  show ?thesis
    using r path [of s] path [of s']
    by (intro exI [of _ s] exI [of _ s'] exI [of _ r])
      (auto simp: s' names startup_for_def file_exists_def recover_def s_def sample_app_def vault_path_def
        selected_vault_path_def registry_default_def Let_def)
qed

end
