(* ===== verification/Vault_Registry.thy ===== *)
theory Vault_Registry
  imports App_State
begin

text \<open>
  The register of vaults over a whole session (\<open>apps/desktop/src-tauri/src/state.rs\<close>): what
  loading it from disk guarantees whatever the disk holds, and that every operation of the
  application on it keeps that: no two records share an id or a file, and a selection names a
  record.
\<close>

definition registry_wf :: "vault_registry \<Rightarrow> bool" where
  "registry_wf g \<longleftrightarrow> distinct (map vr_id (rg_vaults g)) \<and> distinct (map vr_file (rg_vaults g)) \<and>
     (\<forall>k. rg_selected g = Some k \<longrightarrow> k \<in> vr_id ` set (rg_vaults g))"

lemma registry_wf_default: "registry_wf registry_default"
  by (simp add: registry_wf_def registry_default_def)

lemma find_record_iff: "find_record k g \<noteq> None \<longleftrightarrow> k \<in> vr_id ` set (rg_vaults g)"
  by (auto simp: find_record_def find_None_iff)

section \<open>Loading\<close>

lemma retain_records_kept:
  "distinct (map vr_id (retain_records ids fs rs)) \<and> distinct (map vr_file (retain_records ids fs rs)) \<and>
   (\<forall>r\<in>set (retain_records ids fs rs). vr_id r \<notin> set ids \<and> vr_file r \<notin> set fs \<and> valid_record r)"
proof (induction ids fs rs rule: retain_records.induct)
  case (2 ids fs r rs)
  consider "\<not> valid_record r \<or> vr_id r \<in> set ids" | "valid_record r" "vr_id r \<notin> set ids" "vr_file r \<in> set fs"
    | "valid_record r" "vr_id r \<notin> set ids" "vr_file r \<notin> set fs" by blast
  then show ?case
  proof cases
    case 1
    then have "retain_records ids fs (r # rs) = retain_records ids fs rs" by simp
    with "2.IH"(1) [OF 1] show ?thesis by metis
  next
    case 2
    then have "retain_records ids fs (r # rs) = retain_records (vr_id r # ids) fs rs" by simp
    with "2.IH"(2) [OF _ 2(3)] 2 show ?thesis by (metis list.set_intros(2))
  next
    case 3
    then have "retain_records ids fs (r # rs) = r # retain_records (vr_id r # ids) (vr_file r # fs) rs" by simp
    moreover have "distinct (map vr_id (r # retain_records (vr_id r # ids) (vr_file r # fs) rs))"
      "distinct (map vr_file (r # retain_records (vr_id r # ids) (vr_file r # fs) rs))"
      using "2.IH"(3) [OF _ 3(3)] 3 by (auto simp del: retain_records.simps)
    moreover have "\<forall>q\<in>set (r # retain_records (vr_id r # ids) (vr_file r # fs) rs).
        vr_id q \<notin> set ids \<and> vr_file q \<notin> set fs \<and> valid_record q"
      using "2.IH"(3) [OF _ 3(3)] 3 by (auto simp del: retain_records.simps)
    ultimately show ?thesis by metis
  qed
qed simp

lemma legacy_wf:
  assumes "path_components legacy = [legacy]"
    and "distinct (map vr_id (rg_vaults g))" "distinct (map vr_file (rg_vaults g))"
  shows "distinct (map vr_id (rg_vaults (add_legacy_profile_if_present legacy d g)))"
    and "distinct (map vr_file (rg_vaults (add_legacy_profile_if_present legacy d g)))"
proof -
  define taken where "taken = list_ex (\<lambda>r. vr_id r = DEFAULT_VAULT_ID \<or> path_components (vr_file r) = [legacy]) (rg_vaults g)"
  have "DEFAULT_VAULT_ID \<noteq> vr_id r" "legacy \<noteq> vr_file r" if "\<not> taken" "r \<in> set (rg_vaults g)" for r
    using that assms(1) by (auto simp: taken_def list_ex_iff)
  then show "distinct (map vr_id (rg_vaults (add_legacy_profile_if_present legacy d g)))"
    "distinct (map vr_file (rg_vaults (add_legacy_profile_if_present legacy d g)))"
    using assms(2,3) by (auto simp: add_legacy_profile_if_present_def Let_def simp flip: taken_def)
qed

lemma drop_missing_wf:
  "distinct (map vr_id (rg_vaults g)) \<Longrightarrow> distinct (map vr_file (rg_vaults g)) \<Longrightarrow> registry_wf (drop_missing_selection g)"
  using find_record_iff [of "the (rg_selected g)" g]
  by (auto simp: registry_wf_def drop_missing_selection_def split: option.splits)

text \<open>A vault found by its file name: the name determines the id.\<close>

definition found_id :: "string \<Rightarrow> string \<Rightarrow> bool" where
  "found_id f k \<longleftrightarrow> f = ''vault-'' @ k @ ''.yara''"

lemma found_name:
  assumes "strip_prefix ''vault-'' f = Some rest" "strip_suffix ''.yara'' rest = Some k"
  shows "found_id f k"
proof -
  have "rev rest = rev ''.yara'' @ rev k" using assms(2) by (auto simp: strip_suffix_def strip_prefix_Some)
  then have "rest = k @ ''.yara''" by (metis append_Nil2 rev_append rev_rev_ident)
  with assms(1) show ?thesis by (simp add: found_id_def strip_prefix_Some)
qed

definition found_wf :: "prims \<Rightarrow> vault_registry \<Rightarrow> bool" where
  "found_wf P g \<longleftrightarrow> distinct (map vr_id (rg_vaults g)) \<and> distinct (map vr_file (rg_vaults g)) \<and>
     (\<forall>r\<in>set (rg_vaults g). vr_id r = DEFAULT_VAULT_ID \<or> found_id (vr_file r) (vr_id r) \<and> p_uuid_parse P (vr_id r) \<noteq> None)"

lemma found_vault_wf:
  assumes "p_uuid_parse P DEFAULT_VAULT_ID = None" "found_wf P g"
  shows "found_wf P (found_vault P f g)"
proof (cases "\<exists>rest k. strip_prefix ''vault-'' f = Some rest \<and> strip_suffix ''.yara'' rest = Some k \<and>
    p_uuid_parse P k \<noteq> None \<and> \<not> list_ex (\<lambda>r. vr_file r = f) (rg_vaults g)")
  case True
  then obtain rest k where k: "strip_prefix ''vault-'' f = Some rest" "strip_suffix ''.yara'' rest = Some k"
    "p_uuid_parse P k \<noteq> None" "\<not> list_ex (\<lambda>r. vr_file r = f) (rg_vaults g)" by blast
  have f: "found_id f k" by (rule found_name [OF k(1,2)])
  have new: "vr_id r \<noteq> k" if "r \<in> set (rg_vaults g)" for r
    using assms that f k(3,4) by (auto simp: found_wf_def found_id_def list_ex_iff)
  from assms(2) k f new show ?thesis
    by (auto simp: found_vault_def found_wf_def list_ex_iff split: if_splits)
next
  case False
  then have "found_vault P f g = g" by (auto simp: found_vault_def split: option.splits)
  with assms(2) show ?thesis by simp
qed

lemma fold_found_wf:
  "p_uuid_parse P DEFAULT_VAULT_ID = None \<Longrightarrow> found_wf P g \<Longrightarrow> found_wf P (fold (found_vault P) listing g)"
  by (induction listing arbitrary: g) (simp_all add: found_vault_wf)

lemma loaded_wf:
  assumes "path_components legacy = [legacy]" "p_uuid_parse P DEFAULT_VAULT_ID = None"
  shows "registry_wf (load_registry P listing legacy d)"
proof (cases "case d_files d REGISTRY_FILE of None \<Rightarrow> Inl Serde | Some bs \<Rightarrow> parse_json P of_registry bs")
  case (Inr g)
  note kept = retain_records_kept [of "[]" "[]" "rg_vaults g"]
  show ?thesis unfolding load_registry_def Inr sum.case
    by (intro drop_missing_wf legacy_wf assms(1)) (use kept in simp_all)
next
  case (Inl e)
  have "found_wf P (add_legacy_profile_if_present legacy d registry_default)"
    by (simp add: found_wf_def add_legacy_profile_if_present_def registry_default_def)
  from fold_found_wf [OF assms(2) this, of listing] show ?thesis
    unfolding load_registry_def Inl sum.case
    by (auto simp: Let_def registry_wf_def found_wf_def find_record_def dest!: find_Some_set split: option.splits list.splits)
qed

section \<open>Every operation\<close>

lemma wf_select: "registry_wf g \<Longrightarrow> find_record k g \<noteq> None \<Longrightarrow> registry_wf (g\<lparr>rg_selected := Some k\<rparr>)"
  using find_record_iff [of k g] by (simp add: registry_wf_def)

lemma wf_deselect: "registry_wf g \<Longrightarrow> registry_wf (g\<lparr>rg_selected := None\<rparr>)"
  by (simp add: registry_wf_def)

lemma wf_without: "registry_wf g \<Longrightarrow> registry_wf (without_record k g)"
  by (auto simp: registry_wf_def without_record_def distinct_map_filter image_iff)

lemma set_expiry_keys:
  "map vr_id (rg_vaults (set_expiry k e g)) = map vr_id (rg_vaults g)"
  "map vr_file (rg_vaults (set_expiry k e g)) = map vr_file (rg_vaults g)"
  by (simp_all add: set_expiry_def map_update_first)

lemma wf_expiry: "registry_wf g \<Longrightarrow> registry_wf (set_expiry k e g)"
  by (simp add: registry_wf_def set_expiry_keys flip: set_map) (simp add: set_expiry_def)

lemma wf_added:
  assumes "registry_wf g" "vr_id r \<notin> vr_id ` set (rg_vaults g)" "vr_file r \<notin> vr_file ` set (rg_vaults g)"
  shows "registry_wf \<lparr>rg_selected = Some (vr_id r), rg_vaults = rg_vaults g @ [r]\<rparr>"
  using assms by (simp add: registry_wf_def)

lemmas wf_changes = wf_select wf_deselect wf_without wf_expiry

definition app_ok :: "app_state \<Rightarrow> bool" where
  "app_ok s \<longleftrightarrow> registry_wf (as_registry s)"

lemma app_ok_updates [simp]:
  "app_ok (s\<lparr>as_disk := d\<rparr>) = app_ok s"
  "app_ok (allow_resume s) = app_ok s"
  "app_ok (s\<lparr>as_registry := g\<rparr>) = registry_wf g"
  by (simp_all add: app_ok_def allow_resume_def)

lemma on_creds_ok [simp]: "app_ok (fst (on_creds f s)) = app_ok s"
  by (simp add: on_creds_def app_ok_def Let_def split: list.splits bool.splits)

lemma lift_disk_ok [simp]: "app_ok (fst (lift_disk f s)) = app_ok s"
  by (simp add: lift_disk_def app_ok_def split: prod.splits)

lemma lift_disk_keeps: "lift_disk f s = (s', q) \<Longrightarrow> app_ok s' = app_ok s"
  using lift_disk_ok [of f s] by simp

lemma and_do_ok:
  assumes "app_ok (fst r)" "\<And>x s'. r = (s', Inr x) \<Longrightarrow> app_ok s' \<Longrightarrow> app_ok (fst (k x s'))"
  shows "app_ok (fst (and_do r k))"
  using assms by (cases r) (auto simp: and_do_def split: sum.splits)

lemma update_registry_ok:
  assumes "app_ok s" "\<And>g'. f (as_registry s) = Inr g' \<Longrightarrow> registry_wf g'"
  shows "app_ok (fst (update_registry P f s))"
  using assms by (auto simp: update_registry_def intro!: and_do_ok split: sum.splits)

lemma clear_expiry_ok: "app_ok s \<Longrightarrow> app_ok (fst (clear_remembered_expiry P k s))"
  by (auto simp: clear_remembered_expiry_def app_ok_def intro!: update_registry_ok [unfolded app_ok_def] wf_expiry)

lemma forget_ok: "app_ok s \<Longrightarrow> app_ok (fst (forget_remembered P k s))"
  by (auto simp: forget_remembered_def remembered_forget_def intro!: and_do_ok clear_expiry_ok)

lemma select_ok: "app_ok s \<Longrightarrow> app_ok (fst (select_profile P k s))"
  by (auto simp: select_profile_def app_ok_def [of s] intro!: and_do_ok update_registry_ok wf_select split: if_splits)

lemma deselect_ok: "app_ok s \<Longrightarrow> app_ok (fst (deselect_profile P s))"
  by (auto simp: deselect_profile_def intro!: update_registry_ok) (simp add: app_ok_def wf_deselect)

lemma remember_ok: "app_ok s \<Longrightarrow> app_ok (fst (set_remembered P now password remember s))"
proof -
  assume ok: "app_ok s"
  have update: "app_ok s2" if "app_ok s1" "update_registry P (\<lambda>g.
      if find_record k g = None then Inl (AppError m) else Inr (set_expiry k e g)) s1 = (s2, r)" for k m e s1 s2 r
  proof -
    have "app_ok (fst (update_registry P (\<lambda>g. if find_record k g = None then Inl (AppError m) else Inr (set_expiry k e g)) s1))"
      using that(1) by (intro update_registry_ok) (auto simp: app_ok_def wf_expiry split: if_splits)
    then show ?thesis by (simp add: that(2))
  qed
  from ok show ?thesis
    unfolding set_remembered_def
    by (auto simp: remembered_store_def remembered_forget_def intro!: and_do_ok forget_ok
        split: option.splits prod.splits sum.splits dest: update)
qed

lemma password_ok: "app_ok s \<Longrightarrow> app_ok (fst (remembered_password P now s))"
  by (auto simp: remembered_password_def remembered_read_def intro!: and_do_ok forget_ok clear_expiry_ok
      split: option.splits prod.splits) (metis fst_conv on_creds_ok)+

lemma add_ok:
  assumes "app_ok s" "p_uuid_print P fresh \<notin> vr_id ` set (rg_vaults (as_registry s))"
    "''vault-'' @ p_uuid_print P fresh @ ''.yara'' \<notin> vr_file ` set (rg_vaults (as_registry s))"
  shows "app_ok (fst (add_profile P nonce fresh given v s))"
proof -
  define r where "r = \<lparr>vr_id = (if rg_vaults (as_registry s) = [] then DEFAULT_VAULT_ID else p_uuid_print P fresh), vr_name = trim given,
    vr_file = (if rg_vaults (as_registry s) = [] then as_default_file s else ''vault-'' @ p_uuid_print P fresh @ ''.yara''),
    vr_remembered_until = None\<rparr>"
  have "registry_wf \<lparr>rg_selected = Some (vr_id r), rg_vaults = rg_vaults (as_registry s) @ [r]\<rparr>"
    by (rule wf_added) (use assms in \<open>auto simp: r_def app_ok_def\<close>)
  then have next_ok: "registry_wf ((as_registry s)\<lparr>rg_vaults := rg_vaults (as_registry s) @ [r], rg_selected := Some (vr_id r)\<rparr>)"
    by (simp add: registry_wf_def)
  from assms(1) next_ok show ?thesis
    unfolding add_profile_def Let_def
    by (auto simp: r_def intro!: and_do_ok split: prod.splits sum.splits if_splits dest: lift_disk_keeps)
qed

lemma remove_ok: "app_ok s \<Longrightarrow> app_ok (fst (remove_profile P operation k confirmation s))"
proof -
  assume ok: "app_ok s"
  have "registry_wf (without_record k (as_registry s1))" if "app_ok s1" for s1
    using that by (simp add: app_ok_def wf_without)
  with ok show ?thesis
    unfolding remove_profile_def Let_def
    by (auto simp: remembered_forget_def intro!: and_do_ok split: option.splits prod.splits sum.splits dest: lift_disk_keeps)
qed

text \<open>
  One call of the application. A call that does not touch the register (saving, unlocking, locking,
  recovering, an edit) leaves it equal; a new vault draws an id no record uses, as a random UUID does.
\<close>

inductive registry_step :: "prims \<Rightarrow> app_state \<Rightarrow> app_state \<Rightarrow> bool" for P where
  rs_select: "registry_step P s (fst (select_profile P k s))"
| rs_deselect: "registry_step P s (fst (deselect_profile P s))"
| rs_add: "p_uuid_print P fresh \<notin> vr_id ` set (rg_vaults (as_registry s)) \<Longrightarrow>
    ''vault-'' @ p_uuid_print P fresh @ ''.yara'' \<notin> vr_file ` set (rg_vaults (as_registry s)) \<Longrightarrow>
    registry_step P s (fst (add_profile P nonce fresh given v s))"
| rs_remove: "registry_step P s (fst (remove_profile P operation k confirmation s))"
| rs_remember: "registry_step P s (fst (set_remembered P now password remember s))"
| rs_password: "registry_step P s (fst (remembered_password P now s))"
| rs_forget: "registry_step P s (fst (forget_selected_remembered P s))"
| rs_refresh: "registry_step P s (fst (refresh_remembered P now password s))"
| rs_other: "as_registry s' = as_registry s \<Longrightarrow> registry_step P s s'"

lemma registry_step_ok: "registry_step P s s' \<Longrightarrow> app_ok s \<Longrightarrow> app_ok s'"
proof (induction rule: registry_step.induct)
  case (rs_forget s)
  then show ?case by (auto simp: forget_selected_remembered_def intro: forget_ok split: option.splits)
next
  case (rs_refresh s now password)
  then show ?case by (auto simp: refresh_remembered_def intro: remember_ok split: option.splits)
next
  case (rs_other s' s)
  then show ?case by (simp add: app_ok_def)
qed (auto intro: select_ok deselect_ok add_ok remove_ok remember_ok password_ok)

text \<open>
  C27: whatever \<open>vaults.json\<close> and the application directory hold at start, and whatever calls follow,
  the register of vaults is well formed: no two records share an id or a file, and the selection is
  empty or names a record of the register. (The default file is a plain file name, and the fixed
  id of the first vault is not the text of a UUID.)
\<close>

theorem registry_reachable_wf:
  assumes "path_components legacy = [legacy]" and "p_uuid_parse P DEFAULT_VAULT_ID = None"
    and "(registry_step P)\<^sup>*\<^sup>* (app_new P listing legacy creds d) s"
  shows "registry_wf (as_registry s)"
proof -
  have "app_ok (app_new P listing legacy creds d)"
    using loaded_wf [OF assms(1,2)] by (simp add: app_ok_def app_new_def Let_def)
  with assms(3) have "app_ok s" by (induction rule: rtranclp_induct) (auto intro: registry_step_ok)
  then show ?thesis by (simp add: app_ok_def)
qed

text \<open>A hostile register: two records of one id and a selection that names neither.\<close>

definition hostile_registry :: json where
  "hostile_registry = registry_json
     \<lparr>rg_selected = Some ''ghost'',
      rg_vaults = [\<lparr>vr_id = ''a'', vr_name = ''A'', vr_file = ''a.yara'', vr_remembered_until = None\<rparr>,
                   \<lparr>vr_id = ''a'', vr_name = ''B'', vr_file = ''b.yara'', vr_remembered_until = None\<rparr>]\<rparr>"

lemma registry_reachable_wf_witness:
  "registry_wf (as_registry (fst (deselect_profile
     ((sample_prims hostile_registry hostile_registry)\<lparr>p_uuid_parse := \<lambda>_. None\<rparr>)
     (app_new ((sample_prims hostile_registry hostile_registry)\<lparr>p_uuid_parse := \<lambda>_. None\<rparr>) [] ''vault.yara'' Map.empty
        (sample_disk [REGISTRY_FILE \<mapsto> ''1'', ''vault.yara'' \<mapsto> ''v''])))))"
proof -
  let ?P = "(sample_prims hostile_registry hostile_registry)\<lparr>p_uuid_parse := \<lambda>_. None\<rparr>"
  have "path_components ''vault.yara'' = [''vault.yara'']"
    by (simp add: path_components_def is_separator_def Let_def starts_with_def)
  then show ?thesis
    by (rule registry_reachable_wf [where P = ?P]) (simp, rule r_into_rtranclp, rule rs_deselect)
qed

end
