(* ===== verification/Sync_Auth.thy ===== *)
theory Sync_Auth
  imports Vault_File Sample_Prims
begin

text \<open>
  Signed requests: what a client signs (\<open>crates/yara-sync-client/src/signing.rs\<close>) and how the server
  checks it (\<open>crates/yara-sync/src/auth.rs\<close>). Ed25519, SHA-256 and base64 are other crates and
  parameters. \<open>i64\<close> arithmetic wraps, as a release build has it.
\<close>

section \<open>Parameters\<close>

text \<open>
  \<open>w_verify key message signature\<close> is Ed25519 verification and \<open>w_key_ok\<close> says which 32 bytes are a
  key; \<open>w_to_str\<close> is the text of a header value, when it has one; \<open>w_parse_ip\<close>
  reads an address, and \<open>w_segment\<close> is what the router makes of an encoded path segment.
\<close>

record web =
  w_prims :: prims
  w_verify :: "bytes \<Rightarrow> bytes \<Rightarrow> bytes \<Rightarrow> bool"
  w_key_ok :: "bytes \<Rightarrow> bool"
  w_to_str :: "bytes \<Rightarrow> string option"
  w_parse_ip :: "string \<Rightarrow> string option"
  w_segment :: "string \<Rightarrow> string"

section \<open>What is signed\<close>

definition CLOCK_SKEW_SECS :: i64 where "CLOCK_SKEW_SECS = 60"
definition AUTH_NONCE_LEN :: nat where "AUTH_NONCE_LEN = 16"

datatype rejection = Malformed | StaleTimestamp | Replayed | BadSignature

definition rejection_message :: "rejection \<Rightarrow> string" where
  "rejection_message r =
     (case r of StaleTimestamp \<Rightarrow> ''The request timestamp is outside the accepted window.''
      | _ \<Rightarrow> ''The request could not be authenticated.'')"

record signed_request =
  sr_method :: string
  sr_path :: string
  sr_timestamp :: i64
  sr_nonce :: string
  sr_body :: bytes

definition hex_char :: "nat \<Rightarrow> char" where
  "hex_char d = (if d < 10 then digit_char d else char_of (87 + d))"

definition hex :: "bytes \<Rightarrow> string" where
  "hex bs = concat (map (\<lambda>b. [hex_char (code b div 16), hex_char (code b mod 16)]) bs)"

definition show_i64 :: "i64 \<Rightarrow> string" where
  "show_i64 w = (if w <s 0 then ''-'' @ show_nat (nat (- sint w)) else show_nat (nat (sint w)))"

abbreviation newline :: char where "newline \<equiv> CHR 0x0A"

definition canonical :: "prims \<Rightarrow> signed_request \<Rightarrow> bytes" where
  "canonical P r =
     join [newline] [sr_method r, sr_path r, show_i64 (sr_timestamp r), sr_nonce r, hex (p_sha256 P (sr_body r))]"

section \<open>Checking a request\<close>

type_synonym nonce_cache = "string \<Rightarrow> i64 option"

definition nonce_prune :: "i64 \<Rightarrow> nonce_cache \<Rightarrow> nonce_cache" where
  "nonce_prune now m =
     (\<lambda>k. case m k of None \<Rightarrow> None | Some t \<Rightarrow> if now - t \<le>s CLOCK_SKEW_SECS then Some t else None)"

definition nonce_accept :: "string \<Rightarrow> i64 \<Rightarrow> nonce_cache \<Rightarrow> nonce_cache \<times> bool" where
  "nonce_accept n now m = (let m' = nonce_prune now m in (m'(n \<mapsto> now), m' n = None))"

definition i64_abs :: "i64 \<Rightarrow> i64" where
  "i64_abs w = (if w <s 0 then - w else w)"

definition public_key :: "web \<Rightarrow> bytes \<Rightarrow> bytes option" where
  "public_key W bs = (if length bs = 32 \<and> w_key_ok W bs then Some bs else None)"

definition auth_verify ::
    "web \<Rightarrow> signed_request \<Rightarrow> string \<Rightarrow> bytes \<Rightarrow> nonce_cache \<Rightarrow> i64 \<Rightarrow> nonce_cache \<times> (rejection + unit)" where
  "auth_verify W r signature_b64 key m now =
     (if length (sr_nonce r) < AUTH_NONCE_LEN \<or> sr_method r = [] \<or> \<not> starts_with (sr_path r) ''/'' then (m, Inl Malformed)
      else if CLOCK_SKEW_SECS <s i64_abs (now - sr_timestamp r) then (m, Inl StaleTimestamp)
      else
        (case p_b64_decode (w_prims W) signature_b64 of
           None \<Rightarrow> (m, Inl Malformed)
         | Some raw \<Rightarrow>
             if length raw \<noteq> 64 then (m, Inl Malformed)
             else if \<not> w_verify W key (canonical (w_prims W) r) raw then (m, Inl BadSignature)
             else (let (m', fresh) = nonce_accept (sr_nonce r) now m
                   in if fresh then (m', Inr ()) else (m', Inl Replayed))))"

section \<open>Signing\<close>

record signed_headers =
  sh_authorization :: string
  sh_timestamp :: string
  sh_nonce :: string
  sh_signature :: string

definition signed_pairs :: "signed_headers \<Rightarrow> (string \<times> string) list" where
  "signed_pairs h = [(''authorization'', sh_authorization h), (''x-yara-timestamp'', sh_timestamp h),
     (''x-yara-nonce'', sh_nonce h), (''x-yara-signature'', sh_signature h)]"

definition client_canonical :: "prims \<Rightarrow> string \<Rightarrow> string \<Rightarrow> i64 \<Rightarrow> string \<Rightarrow> bytes \<Rightarrow> bytes" where
  "client_canonical P meth path timestamp nonce body =
     meth @ [newline] @ path @ [newline] @ show_i64 timestamp @ [newline] @ nonce @ [newline]
     @ hex (p_sha256 P body)"

definition fresh_nonce :: "prims \<Rightarrow> bytes \<Rightarrow> string" where
  "fresh_nonce P random16 = p_b64_encode P random16"

record request_to_sign =
  rs_account_id :: string
  rs_device_id :: string
  rs_method :: string
  rs_path :: string
  rs_body :: bytes
  rs_timestamp :: i64
  rs_nonce :: string

definition sign_request :: "prims \<Rightarrow> request_to_sign \<Rightarrow> (bytes \<Rightarrow> bytes) \<Rightarrow> signed_headers" where
  "sign_request P r sign =
     \<lparr>sh_authorization = ''yara1 '' @ rs_account_id r @ ''/'' @ rs_device_id r,
      sh_timestamp = show_i64 (rs_timestamp r), sh_nonce = rs_nonce r,
      sh_signature = p_b64_encode P (sign (client_canonical P (rs_method r) (rs_path r) (rs_timestamp r) (rs_nonce r) (rs_body r)))\<rparr>"

definition sign_as_account ::
    "prims \<Rightarrow> string \<Rightarrow> string \<Rightarrow> string \<Rightarrow> bytes \<Rightarrow> i64 \<Rightarrow> string \<Rightarrow> (bytes \<Rightarrow> bytes) \<Rightarrow> signed_headers" where
  "sign_as_account P account_id meth path body timestamp nonce sign =
     \<lparr>sh_authorization = ''yara1-account '' @ account_id, sh_timestamp = show_i64 timestamp, sh_nonce = nonce,
      sh_signature = p_b64_encode P (sign (client_canonical P meth path timestamp nonce body))\<rparr>"

section \<open>The signed text\<close>

lemma parse_show_i64: "parse_i64 (show_i64 w) = Some (sint w)"
proof (cases "w <s 0")
  case True
  have "- (2 ^ 63) \<le> sint w" using sint_ge [of w] by simp
  with True show ?thesis
    by (simp add: parse_i64_def show_i64_def Let_def value_show_nat word_sless_alt nat_le_iff)
next
  case False
  then have "0 \<le> sint w" by (simp add: word_sless_alt)
  moreover have "sint w < 2 ^ 63" using sint_lt [of w] by simp
  moreover have "\<not> (show_nat n \<noteq> [] \<and> hd (show_nat n) = CHR ''-'')" for n
  proof
    assume "show_nat n \<noteq> [] \<and> hd (show_nat n) = CHR ''-''"
    then have "CHR ''-'' \<in> set (show_nat n)" by (metis list.set_sel(1))
    then have "is_ascii_digit (CHR ''-'')" using show_nat_digits [of n] by blast
    then show False by (simp add: is_ascii_digit_def)
  qed
  then have "hd (show_nat n) \<noteq> CHR ''-''" for n using show_nat_digits [of n] by blast
  ultimately show ?thesis
    using False by (simp add: parse_i64_def show_i64_def parse_show_nat nat_less_iff)
qed

text \<open>The two sides write the same text.\<close>

lemma client_canonical_eq:
  "client_canonical P (sr_method r) (sr_path r) (sr_timestamp r) (sr_nonce r) (sr_body r) = canonical P r"
  by (simp add: client_canonical_def canonical_def)

lemma code_hex_char: "d < 16 \<Longrightarrow> code (hex_char d) = (if d < 10 then 48 + d else 87 + d)"
  by (simp add: hex_char_def code_digit_char code_char_of)

lemma hex_char_inj: "a < 16 \<Longrightarrow> b < 16 \<Longrightarrow> hex_char a = hex_char b \<Longrightarrow> a = b"
proof -
  assume a: "a < 16" and b: "b < 16" and "hex_char a = hex_char b"
  then have "code (hex_char a) = code (hex_char b)" by (simp only:)
  then have "(if a < 10 then 48 + a else 87 + a) = (if b < 10 then 48 + b else 87 + b)"
    by (simp only: code_hex_char [OF a] code_hex_char [OF b])
  with a b show "a = b" by (simp split: if_splits)
qed

lemma code_div_16: "code c div 16 < 16"
  using code_less [of c] by (intro less_mult_imp_div_less) simp

lemma hex_Cons: "hex (x # a) = hex_char (code x div 16) # hex_char (code x mod 16) # hex a"
  by (simp add: hex_def)

lemma hex_inj: "hex a = hex b \<Longrightarrow> a = b"
proof (induction a arbitrary: b)
  case Nil
  then show ?case by (cases b) (simp_all add: hex_def)
next
  case (Cons x a)
  then obtain y b' where b: "b = y # b'" by (cases b) (simp_all add: hex_def)
  with Cons.prems have eq: "hex_char (code x div 16) = hex_char (code y div 16)"
    "hex_char (code x mod 16) = hex_char (code y mod 16)" "hex a = hex b'"
    by (simp_all add: hex_Cons)
  have "code x div 16 = code y div 16" using hex_char_inj [OF code_div_16 code_div_16 eq(1)] .
  moreover have "code x mod 16 = code y mod 16" using hex_char_inj [OF _ _ eq(2)] by simp
  ultimately have "code x = code y" by (metis div_mult_mod_eq)
  then have "x = y" by (simp only: code_inject)
  with Cons.IH [OF eq(3)] b show ?case by simp
qed

lemma show_i64_chars: "c \<in> set (show_i64 w) \<Longrightarrow> is_ascii_digit c \<or> c = CHR ''-''"
  using show_nat_digits by (auto simp: show_i64_def split: if_splits)

lemma newline_show: "newline \<notin> set (show_i64 w)"
proof
  assume "newline \<in> set (show_i64 w)"
  then have "is_ascii_digit newline \<or> newline = CHR ''-''" by (rule show_i64_chars)
  moreover have "code newline = 10" by simp
  moreover have "code (CHR ''-'') = 45" by simp
  ultimately show False by (auto simp: is_ascii_digit_def)
qed

lemma show_nat_no_dash: "show_nat n \<noteq> CHR ''-'' # s"
  using show_nat_digits [of n] by (auto simp: is_ascii_digit_def)

lemma show_i64_inj: "show_i64 a = show_i64 b \<Longrightarrow> a = b"
proof -
  assume h: "show_i64 a = show_i64 b"
  have "sint a = sint b"
    using h show_nat_no_dash show_nat_no_dash [symmetric]
    by (auto simp: show_i64_def word_sless_alt split: if_splits dest!: show_nat_inj)
  then show "a = b" by (rule signed_word_eqI)
qed

lemma newline_hex: "newline \<notin> set (hex bs)"
proof (induction bs)
  case (Cons x a)
  have "hex_char d \<noteq> newline" if "d < 16" for d
  proof
    assume "hex_char d = newline"
    then have "code (hex_char d) = 10" by simp
    with code_hex_char [OF that] show False by (simp split: if_splits)
  qed
  from this [of "code x mod 16"] this [OF code_div_16] Cons show ?case by (simp add: hex_Cons) (metis)
qed (simp add: hex_def)

text \<open>
  Two requests with the same signed text are the same request: no text in one field can pass for
  another field, so a signature covers one method, one path, one moment, one nonce and one body.
\<close>

theorem canonical_injective:
  assumes "canonical P r = canonical P r'"
    and "newline \<notin> set (sr_method r) \<union> set (sr_path r) \<union> set (sr_nonce r)"
    and "newline \<notin> set (sr_method r') \<union> set (sr_path r') \<union> set (sr_nonce r')"
    and "p_sha256 P (sr_body r) = p_sha256 P (sr_body r') \<longrightarrow> sr_body r = sr_body r'"
  shows "r = (r' :: signed_request)"
proof -
  let ?parts = "\<lambda>r :: signed_request. [sr_method r, sr_path r, show_i64 (sr_timestamp r), sr_nonce r, hex (p_sha256 P (sr_body r))]"
  have plain: "split_char newline (canonical P q) = ?parts q"
    if "newline \<notin> set (sr_method q) \<union> set (sr_path q) \<union> set (sr_nonce q)" for q :: signed_request
    unfolding canonical_def using that newline_show newline_hex by (intro split_char_join) auto
  have eq: "?parts r = ?parts r'"
    using plain [OF assms(2)] plain [OF assms(3)] unfolding assms(1) by (rule trans [OF sym])
  from eq have "sr_timestamp r = sr_timestamp r'" by (intro show_i64_inj) simp
  moreover from eq have "sr_body r = sr_body r'" using assms(4) hex_inj by simp
  ultimately show ?thesis using eq by simp
qed

section \<open>Replay\<close>

text \<open>
  The server's cache is shared: between two arrivals of a request any others may come, each a
  request, its signature, the key it is checked against and the clock.
\<close>

fun auth_run :: "web \<Rightarrow> (signed_request \<times> string \<times> bytes \<times> i64) list \<Rightarrow> nonce_cache \<Rightarrow> nonce_cache" where
  "auth_run W [] m = m"
| "auth_run W ((r, sig, key, now) # qs) m = auth_run W qs (fst (auth_verify W r sig key m now))"

lemma auth_verify_ok:
  "snd (auth_verify W r sig key m now) = Inr () \<longleftrightarrow>
    AUTH_NONCE_LEN \<le> length (sr_nonce r) \<and> sr_method r \<noteq> [] \<and> starts_with (sr_path r) ''/'' \<and>
    i64_abs (now - sr_timestamp r) \<le>s CLOCK_SKEW_SECS \<and>
    (\<exists>raw. p_b64_decode (w_prims W) sig = Some raw \<and> length raw = 64 \<and> w_verify W key (canonical (w_prims W) r) raw) \<and>
    nonce_prune now m (sr_nonce r) = None"
  by (auto simp: auth_verify_def nonce_accept_def Let_def word_sless_alt word_sle_eq split: option.split)

lemma auth_verify_cache:
  "fst (auth_verify W r sig key m now) = m \<or>
    fst (auth_verify W r sig key m now) = (nonce_prune now m)(sr_nonce r \<mapsto> now)"
  by (auto simp: auth_verify_def nonce_accept_def Let_def split: option.split)

lemma auth_verify_ok_cache:
  "snd (auth_verify W r sig key m now) = Inr () \<Longrightarrow>
    fst (auth_verify W r sig key m now) = (nonce_prune now m)(sr_nonce r \<mapsto> now)"
  by (auto simp: auth_verify_def nonce_accept_def Let_def split: option.splits if_splits)

text \<open>The clock runs from \<open>t1\<close> to \<open>t2\<close>; within that span the cache knows the nonce, unless the window is over.\<close>

definition remembered_until :: "string \<Rightarrow> i64 \<Rightarrow> i64 \<Rightarrow> nonce_cache \<Rightarrow> bool" where
  "remembered_until n t1 t2 m \<longleftrightarrow> sint t1 + 60 < sint t2 \<or>
     (\<exists>seen. m n = Some seen \<and> sint t1 \<le> sint seen \<and> sint seen \<le> sint t2)"

lemma sint_minus_nonneg: "0 \<le> sint a \<Longrightarrow> 0 \<le> sint b \<Longrightarrow> sint (a - b) = sint a - sint b" for a b :: i64
proof -
  assume "0 \<le> sint a" "0 \<le> sint b"
  moreover have "sint a < 2 ^ 63" "sint b < 2 ^ 63" using sint_lt [of a] sint_lt [of b] by simp_all
  ultimately show ?thesis by (simp add: sint_word_ariths signed_take_bit_int_eq_self)
qed

lemma remembered_prune:
  assumes "0 \<le> sint t1" "sint t1 \<le> sint now" "sint now \<le> sint t2" and "remembered_until n t1 t2 m"
  shows "remembered_until n t1 t2 (nonce_prune now m)"
  using assms sint_minus_nonneg [of now]
  by (fastforce simp: remembered_until_def nonce_prune_def CLOCK_SKEW_SECS_def word_sle_eq)

lemma remembered_verify:
  assumes "0 \<le> sint t1" "sint t1 \<le> sint now" "sint now \<le> sint t2" and "remembered_until n t1 t2 m"
  shows "remembered_until n t1 t2 (fst (auth_verify W r sig key m now))"
proof -
  have "remembered_until n t1 t2 (m'(k \<mapsto> now))" if "remembered_until n t1 t2 m'" for m' k
    using that assms(2,3) by (auto simp: remembered_until_def)
  then show ?thesis
    using auth_verify_cache [of W r sig key m now] remembered_prune [OF assms] assms(4) by metis
qed

lemma remembered_run:
  "0 \<le> sint t1 \<Longrightarrow> \<forall>(r, sig, key, now) \<in> set qs. sint t1 \<le> sint now \<and> sint now \<le> sint t2 \<Longrightarrow>
    remembered_until n t1 t2 m \<Longrightarrow> remembered_until n t1 t2 (auth_run W qs m)"
proof (induction qs arbitrary: m)
  case (Cons q qs)
  obtain r sig key now where "q = (r, sig, key, now)" by (cases q)
  with Cons remembered_verify [of t1 now t2 n m W r sig key] show ?case by simp
qed simp

text \<open>
  C13: a request that was accepted, and was not stamped later than the server's clock, is never
  accepted again, whatever else arrives in between and whoever sends it.
\<close>

theorem replay_refused:
  assumes "auth_verify W r sig key m t1 = (m1, Inr ())"
    and "sint (sr_timestamp r) \<le> sint t1" and "0 \<le> sint (sr_timestamp r)"
    and "\<forall>(r', sig', key', now) \<in> set qs. sint t1 \<le> sint now \<and> sint now \<le> sint t2" and "sint t1 \<le> sint t2"
  shows "snd (auth_verify W r sig' key' (auth_run W qs m1) t2) \<noteq> Inr ()"
proof
  assume again: "snd (auth_verify W r sig' key' (auth_run W qs m1) t2) = Inr ()"
  have t1: "0 \<le> sint t1" and t2: "0 \<le> sint t2" using assms(2,3,5) by linarith+
  have "m1 = (nonce_prune t1 m)(sr_nonce r \<mapsto> t1)"
    using auth_verify_ok_cache [of W r sig key m t1] assms(1) by simp
  then have "remembered_until (sr_nonce r) t1 t2 m1" using assms(5) by (simp add: remembered_until_def)
  from remembered_prune [OF t1 assms(5) order.refl remembered_run [OF t1 assms(4) this]]
  have "remembered_until (sr_nonce r) t1 t2 (nonce_prune t2 (auth_run W qs m1))" .
  then have late: "sint t1 + 60 < sint t2" using again by (auto simp: remembered_until_def auth_verify_ok)
  have "sint (t2 - sr_timestamp r) = sint t2 - sint (sr_timestamp r)"
    using t2 assms(3) by (rule sint_minus_nonneg)
  with late assms(2) have "60 < sint (t2 - sr_timestamp r)" by simp
  moreover have "i64_abs (t2 - sr_timestamp r) \<le>s CLOCK_SKEW_SECS" using again by (simp add: auth_verify_ok)
  ultimately show False by (simp add: i64_abs_def word_sless_alt word_sle_eq CLOCK_SKEW_SECS_def)
qed

text \<open>
  A request stamped ahead of the server's clock, which the window allows, outlives the memory of its
  nonce: one stamped a minute ahead is accepted again a minute and a second later.
\<close>

theorem future_stamp_replays:
  assumes "auth_verify W r sig key m t = (m1, Inr ())" and "sr_timestamp r = t + 60"
    and "0 \<le> sint t" and "sint t < 2 ^ 62"
  shows "snd (auth_verify W r sig key m1 (t + 61)) = Inr ()"
proof -
  have ok: "snd (auth_verify W r sig key m t) = Inr ()" using assms(1) by simp
  have m1: "m1 = (nonce_prune t m)(sr_nonce r \<mapsto> t)"
    using auth_verify_ok_cache [OF ok] assms(1) by simp
  have "t + 61 - (t + 60) = 1" "t + 61 - t = 61" by simp_all
  then show ?thesis
    using ok unfolding auth_verify_ok assms(2)
    by (simp add: m1 nonce_prune_def i64_abs_def CLOCK_SKEW_SECS_def word_sle_eq word_sless_alt)
qed

text \<open>A stamp half the range away from the clock wraps round and passes for a fresh one.\<close>

theorem wrapped_stamp_passes: "i64_abs (now - (now - push_bit 63 1)) \<le>s CLOCK_SKEW_SECS"
  by (simp add: i64_abs_def CLOCK_SKEW_SECS_def word_sle_eq word_sless_alt)

section \<open>Witnesses\<close>

definition sample_web :: "json \<Rightarrow> json \<Rightarrow> web" where
  "sample_web j1 j2 = \<lparr>w_prims = sample_prims j1 j2, w_verify = (\<lambda>key msg sig. take 32 sig = key), w_key_ok = (\<lambda>_. True),
     w_to_str = Some, w_parse_ip = Some, w_segment = id\<rparr>"

definition sample_key :: bytes where "sample_key = replicate 32 (CHR ''k'')"

definition sample_signed :: "i64 \<Rightarrow> signed_request" where
  "sample_signed t = \<lparr>sr_method = ''GET'', sr_path = ''/api/v1/items'', sr_timestamp = t,
     sr_nonce = ''0123456789abcdef'', sr_body = []\<rparr>"

lemma sample_verify:
  "auth_verify (sample_web j1 j2) (sample_signed 1000) (sample_key @ sample_key) sample_key Map.empty 1000 =
    ([''0123456789abcdef'' \<mapsto> 1000], Inr ())"
  by (simp add: auth_verify_def sample_web_def sample_signed_def sample_key_def sample_prims_def AUTH_NONCE_LEN_def
      CLOCK_SKEW_SECS_def i64_abs_def nonce_accept_def nonce_prune_def starts_with_def word_sless_alt fun_eq_iff)

lemma replay_refused_witness:
  "snd (auth_verify (sample_web JNull JNull) (sample_signed 1000) (sample_key @ sample_key) sample_key
     [''0123456789abcdef'' \<mapsto> 1000] 1030) \<noteq> Inr ()"
  using replay_refused [OF sample_verify, of "[]" 1030 JNull JNull "sample_key @ sample_key" sample_key]
  by (simp add: sample_signed_def)

lemma canonical_injective_witness:
  "canonical (sample_prims JNull JNull) (sample_signed 1) \<noteq> canonical (sample_prims JNull JNull) (sample_signed 2)"
  using canonical_injective [of "sample_prims JNull JNull" "sample_signed 1" "sample_signed 2"]
  by (auto simp: sample_signed_def)

end
