(* ===== verification/Sync_Store.thy ===== *)
theory Sync_Store
  imports Vault_File Sample_Prims "HOL-Library.List_Lexorder" "HOL-Library.Char_ord" "HOL-Library.Product_Lexorder"
begin

text \<open>
  The sync server's database (\<open>crates/yara-sync/src/store.rs\<close>): accounts, devices, items and invites
  as tables of rows, and each operation as the SQL statements it runs, in a transaction that leaves
  the tables as they were when it fails. A failing statement here is one that breaks a primary key or
  a reference; opening a file, whichever version wrote it, is \<open>Sync_Schema\<close>. \<open>INTEGER\<close> columns are
  signed.
\<close>

section \<open>Tables\<close>

datatype store_error = DbError | PushConflict i64 | NoAccount | BadInvite

type_synonym 'a store_result = "store_error + 'a"

record account_blobs =
  ab_salt :: string
  ab_kdf :: string
  ab_wrapped_vault_key :: string
  ab_wrapped_account_key :: string
  ab_revision :: i64

record new_account =
  na_id :: string
  na_salt :: string
  na_kdf :: string
  na_wrapped_vault_key :: string
  na_wrapped_account_key :: string
  na_public_key :: "bytes option"

record item_record =
  ir_id :: string
  ir_revision :: i64
  ir_ciphertext :: "string option"
  ir_deleted :: bool
  ir_proof :: "string option"

record account_row =
  ac_new :: new_account
  ac_revision :: i64
  ac_created_at :: i64

record device_row =
  dv_id :: string
  dv_account :: string
  dv_public_key :: bytes
  dv_label :: "string option"
  dv_created_at :: i64
  dv_last_seen :: "i64 option"

record item_row =
  it_account :: string
  it_record :: item_record
  it_updated_at :: i64

record invite_row =
  iv_code_hash :: bytes
  iv_created_at :: i64
  iv_expires_at :: i64
  iv_used_by :: "string option"

record db =
  db_accounts :: "account_row list"
  db_devices :: "device_row list"
  db_items :: "item_row list"
  db_invites :: "invite_row list"

definition db_empty :: db where
  "db_empty = \<lparr>db_accounts = [], db_devices = [], db_items = [], db_invites = []\<rparr>"

abbreviation ac_id :: "account_row \<Rightarrow> string" where "ac_id a \<equiv> na_id (ac_new a)"
abbreviation it_id :: "item_row \<Rightarrow> string" where "it_id i \<equiv> ir_id (it_record i)"

definition find_account :: "string \<Rightarrow> db \<Rightarrow> account_row option" where
  "find_account k b = find (\<lambda>a. ac_id a = k) (db_accounts b)"

section \<open>Invites\<close>

definition hash_code :: "prims \<Rightarrow> string \<Rightarrow> bytes" where
  "hash_code P s = p_sha256 P (trim s)"

definition create_invite :: "prims \<Rightarrow> string \<Rightarrow> i64 \<Rightarrow> i64 \<Rightarrow> db \<Rightarrow> db \<times> unit store_result" where
  "create_invite P s now valid_secs b =
     (if hash_code P s \<in> iv_code_hash ` set (db_invites b) then (b, Inl DbError)
      else (b\<lparr>db_invites := db_invites b @
              [\<lparr>iv_code_hash = hash_code P s, iv_created_at = now, iv_expires_at = now + valid_secs, iv_used_by = None\<rparr>]\<rparr>,
            Inr ()))"

definition spendable :: "prims \<Rightarrow> string \<Rightarrow> i64 \<Rightarrow> invite_row \<Rightarrow> bool" where
  "spendable P s now v \<longleftrightarrow> iv_code_hash v = hash_code P s \<and> iv_used_by v = None \<and> now <s iv_expires_at v"

definition spend_invite :: "prims \<Rightarrow> string \<Rightarrow> string \<Rightarrow> i64 \<Rightarrow> db \<Rightarrow> db option" where
  "spend_invite P s account_id now b =
     (if list_ex (spendable P s now) (db_invites b)
      then Some (b\<lparr>db_invites := map (\<lambda>v. if spendable P s now v then v\<lparr>iv_used_by := Some account_id\<rparr> else v) (db_invites b)\<rparr>)
      else None)"

definition redeem_invite :: "prims \<Rightarrow> string \<Rightarrow> string \<Rightarrow> i64 \<Rightarrow> db \<Rightarrow> db \<times> unit store_result" where
  "redeem_invite P s account_id now b =
     (case spend_invite P s account_id now b of None \<Rightarrow> (b, Inl BadInvite) | Some b' \<Rightarrow> (b', Inr ()))"

section \<open>Accounts\<close>

definition insert_account :: "new_account \<Rightarrow> i64 \<Rightarrow> db \<Rightarrow> db option" where
  "insert_account a now b =
     (if find_account (na_id a) b \<noteq> None then None
      else Some (b\<lparr>db_accounts := db_accounts b @ [\<lparr>ac_new = a, ac_revision = 0, ac_created_at = now\<rparr>]\<rparr>))"

definition create_account :: "new_account \<Rightarrow> i64 \<Rightarrow> db \<Rightarrow> db \<times> unit store_result" where
  "create_account a now b =
     (case insert_account a now b of None \<Rightarrow> (b, Inl DbError) | Some b' \<Rightarrow> (b', Inr ()))"

definition insert_device :: "string \<Rightarrow> string \<Rightarrow> bytes \<Rightarrow> string option \<Rightarrow> i64 \<Rightarrow> db \<Rightarrow> db option" where
  "insert_device k account_id public_key label now b =
     (if k \<in> dv_id ` set (db_devices b) \<or> find_account account_id b = None then None
      else Some (b\<lparr>db_devices := db_devices b @
         [\<lparr>dv_id = k, dv_account = account_id, dv_public_key = public_key, dv_label = label, dv_created_at = now,
           dv_last_seen = None\<rparr>]\<rparr>))"

definition store_enrol ::
    "prims \<Rightarrow> string \<Rightarrow> new_account \<Rightarrow> string \<Rightarrow> bytes \<Rightarrow> string option \<Rightarrow> i64 \<Rightarrow> db \<Rightarrow> db \<times> unit store_result" where
  "store_enrol P invite a device_id public_key label now b =
     (case spend_invite P invite (na_id a) now b of
        None \<Rightarrow> (b, Inl BadInvite)
      | Some b1 \<Rightarrow>
          (case Option.bind (insert_account a now b1) (insert_device device_id (na_id a) public_key label now) of
             None \<Rightarrow> (b, Inl DbError)
           | Some b2 \<Rightarrow> (b2, Inr ())))"

definition store_account :: "string \<Rightarrow> db \<Rightarrow> account_blobs option" where
  "store_account k b =
     map_option (\<lambda>a. \<lparr>ab_salt = na_salt (ac_new a), ab_kdf = na_kdf (ac_new a),
         ab_wrapped_vault_key = na_wrapped_vault_key (ac_new a),
         ab_wrapped_account_key = na_wrapped_account_key (ac_new a), ab_revision = ac_revision a\<rparr>)
       (find_account k b)"

definition account_key :: "string \<Rightarrow> db \<Rightarrow> bytes option" where
  "account_key k b = Option.bind (find_account k b) (\<lambda>a. na_public_key (ac_new a))"

definition delete_account :: "string \<Rightarrow> db \<Rightarrow> db \<times> bool" where
  "delete_account k b =
     (b\<lparr>db_items := filter (\<lambda>i. it_account i \<noteq> k) (db_items b),
        db_devices := filter (\<lambda>d. dv_account d \<noteq> k) (db_devices b),
        db_accounts := filter (\<lambda>a. ac_id a \<noteq> k) (db_accounts b)\<rparr>,
      find_account k b \<noteq> None)"

section \<open>Devices\<close>

definition register_device ::
    "string \<Rightarrow> string \<Rightarrow> bytes \<Rightarrow> string option \<Rightarrow> i64 \<Rightarrow> db \<Rightarrow> db \<times> unit store_result" where
  "register_device k account_id public_key label now b =
     (case insert_device k account_id public_key label now b of None \<Rightarrow> (b, Inl DbError) | Some b' \<Rightarrow> (b', Inr ()))"

definition register_device_on_invite ::
    "prims \<Rightarrow> string \<Rightarrow> string \<Rightarrow> string \<Rightarrow> bytes \<Rightarrow> string option \<Rightarrow> i64 \<Rightarrow> db \<Rightarrow> db \<times> unit store_result" where
  "register_device_on_invite P invite account_id device_id public_key label now b =
     (case map_option (\<lambda>a. na_public_key (ac_new a)) (find_account account_id b) of
        None \<Rightarrow> (b, Inl BadInvite)
      | Some (Some _) \<Rightarrow> (b, Inl BadInvite)
      | Some None \<Rightarrow>
          if list_ex (\<lambda>d. dv_account d = account_id) (db_devices b) then (b, Inl BadInvite)
          else (case spend_invite P invite account_id now b of
                  None \<Rightarrow> (b, Inl BadInvite)
                | Some b1 \<Rightarrow>
                    (case insert_device device_id account_id public_key label now b1 of
                       None \<Rightarrow> (b, Inl DbError)
                     | Some b2 \<Rightarrow> (b2, Inr ()))))"

definition device_key :: "string \<Rightarrow> string \<Rightarrow> db \<Rightarrow> bytes option" where
  "device_key account_id k b =
     map_option dv_public_key (find (\<lambda>d. dv_id d = k \<and> dv_account d = account_id) (db_devices b))"

definition touch_device :: "string \<Rightarrow> i64 \<Rightarrow> db \<Rightarrow> db" where
  "touch_device k now b =
     b\<lparr>db_devices := map (\<lambda>d. if dv_id d = k then d\<lparr>dv_last_seen := Some now\<rparr> else d) (db_devices b)\<rparr>"

definition remove_device :: "string \<Rightarrow> string \<Rightarrow> db \<Rightarrow> db \<times> bool" where
  "remove_device account_id k b =
     (b\<lparr>db_devices := filter (\<lambda>d. \<not> (dv_id d = k \<and> dv_account d = account_id)) (db_devices b)\<rparr>,
      list_ex (\<lambda>d. dv_id d = k \<and> dv_account d = account_id) (db_devices b))"

section \<open>Items\<close>

definition store_revision :: "string \<Rightarrow> db \<Rightarrow> i64 store_result" where
  "store_revision account_id b = ok_or NoAccount (map_option ac_revision (find_account account_id b))"

definition items_since :: "string \<Rightarrow> i64 \<Rightarrow> db \<Rightarrow> item_record list" where
  "items_since account_id since b =
     sort_key (\<lambda>r. (sint (ir_revision r), ir_id r))
       (map it_record (filter (\<lambda>i. it_account i = account_id \<and> since <s ir_revision (it_record i)) (db_items b)))"

definition stored_item :: "i64 \<Rightarrow> item_record \<Rightarrow> item_record" where
  "stored_item next r =
     \<lparr>ir_id = ir_id r, ir_revision = next, ir_ciphertext = (if ir_deleted r then None else ir_ciphertext r),
      ir_deleted = ir_deleted r, ir_proof = (if ir_deleted r then ir_proof r else None)\<rparr>"

definition upsert_item :: "string \<Rightarrow> i64 \<Rightarrow> i64 \<Rightarrow> item_record \<Rightarrow> item_row list \<Rightarrow> item_row list" where
  "upsert_item account_id next now r rows =
     (let row = \<lparr>it_account = account_id, it_record = stored_item next r, it_updated_at = now\<rparr>;
          same = (\<lambda>i. it_account i = account_id \<and> it_id i = ir_id r)
      in if list_ex same rows then map (\<lambda>i. if same i then row else i) rows else rows @ [row])"

definition store_push ::
    "string \<Rightarrow> i64 \<Rightarrow> item_record list \<Rightarrow> i64 \<Rightarrow> db \<Rightarrow> db \<times> i64 store_result" where
  "store_push account_id expected items now b =
     (case find_account account_id b of
        None \<Rightarrow> (b, Inl NoAccount)
      | Some a \<Rightarrow>
          if ac_revision a \<noteq> expected then (b, Inl (PushConflict (ac_revision a)))
          else
            let next = ac_revision a + 1 in
            (b\<lparr>db_items := fold (upsert_item account_id next now) items (db_items b),
               db_accounts := map (\<lambda>c. if ac_id c = account_id then c\<lparr>ac_revision := next\<rparr> else c) (db_accounts b)\<rparr>,
             Inr next))"

definition purge_tombstones :: "i64 \<Rightarrow> db \<Rightarrow> db \<times> nat" where
  "purge_tombstones before b =
     (let gone = (\<lambda>i. ir_deleted (it_record i) \<and> it_updated_at i <s before)
      in (b\<lparr>db_items := filter (\<lambda>i. \<not> gone i) (db_items b)\<rparr>, length (filter gone (db_items b))))"

section \<open>What the tables keep\<close>

definition record_ok :: "item_record \<Rightarrow> bool" where
  "record_ok r \<longleftrightarrow> (if ir_deleted r then ir_ciphertext r = None else ir_proof r = None)"

definition db_wf :: "db \<Rightarrow> bool" where
  "db_wf b \<longleftrightarrow>
     distinct (map ac_id (db_accounts b)) \<and> distinct (map dv_id (db_devices b)) \<and>
     distinct (map (\<lambda>i. (it_account i, it_id i)) (db_items b)) \<and> distinct (map iv_code_hash (db_invites b)) \<and>
     (\<forall>d \<in> set (db_devices b). dv_account d \<in> ac_id ` set (db_accounts b)) \<and>
     (\<forall>i \<in> set (db_items b). it_account i \<in> ac_id ` set (db_accounts b) \<and> record_ok (it_record i))"

inductive db_step :: "db \<Rightarrow> db \<Rightarrow> bool" where
  dbs_invite: "create_invite P s now valid b = (b', r) \<Longrightarrow> db_step b b'"
| dbs_redeem: "redeem_invite P s k now b = (b', r) \<Longrightarrow> db_step b b'"
| dbs_account: "create_account a now b = (b', r) \<Longrightarrow> db_step b b'"
| dbs_enrol: "store_enrol P s a k pk label now b = (b', r) \<Longrightarrow> db_step b b'"
| dbs_delete: "delete_account k b = (b', found) \<Longrightarrow> db_step b b'"
| dbs_register: "register_device k account pk label now b = (b', r) \<Longrightarrow> db_step b b'"
| dbs_bootstrap: "register_device_on_invite P s account k pk label now b = (b', r) \<Longrightarrow> db_step b b'"
| dbs_touch: "db_step b (touch_device k now b)"
| dbs_remove: "remove_device account k b = (b', found) \<Longrightarrow> db_step b b'"
| dbs_push: "store_push account expected items now b = (b', r) \<Longrightarrow> db_step b b'"
| dbs_purge: "purge_tombstones before b = (b', n) \<Longrightarrow> db_step b b'"

inductive db_reachable :: "db \<Rightarrow> bool" where
  db_start: "db_reachable db_empty"
| db_more: "db_reachable b \<Longrightarrow> db_step b b' \<Longrightarrow> db_reachable b'"

abbreviation it_key :: "item_row \<Rightarrow> string \<times> string" where "it_key i \<equiv> (it_account i, it_id i)"

lemma find_account_None: "find_account k b = None \<longleftrightarrow> k \<notin> ac_id ` set (db_accounts b)"
  by (auto simp: find_account_def find_None_iff)

lemma spend_invite_keeps:
  assumes "spend_invite P s k now b = Some b'"
  shows "db_accounts b' = db_accounts b" "db_devices b' = db_devices b" "db_items b' = db_items b"
    "map iv_code_hash (db_invites b') = map iv_code_hash (db_invites b)"
  using assms by (auto simp: spend_invite_def split: if_splits)

lemma wf_spend: "db_wf b \<Longrightarrow> spend_invite P s k now b = Some b' \<Longrightarrow> db_wf b'"
  using spend_invite_keeps [of P s k now b b'] unfolding db_wf_def by metis

lemma wf_insert_account: "db_wf b \<Longrightarrow> insert_account a now b = Some b' \<Longrightarrow> db_wf b'"
  by (auto simp: insert_account_def db_wf_def find_account_None split: if_splits)

lemma wf_insert_device: "db_wf b \<Longrightarrow> insert_device k a pk label now b = Some b' \<Longrightarrow> db_wf b'"
  by (auto simp: insert_device_def db_wf_def find_account_None split: if_splits)

lemma upsert_keys:
  "map it_key (upsert_item a next now r rows) =
    (if (a, ir_id r) \<in> set (map it_key rows) then map it_key rows else map it_key rows @ [(a, ir_id r)])"
proof -
  have "list_ex (\<lambda>i. it_account i = a \<and> it_id i = ir_id r) rows \<longleftrightarrow> (a, ir_id r) \<in> set (map it_key rows)"
    by (auto simp: list_ex_iff)
  then show ?thesis by (simp add: upsert_item_def stored_item_def Let_def comp_def cong: if_cong)
qed

lemma upsert_rows:
  "i \<in> set (upsert_item a next now r rows) \<Longrightarrow>
    i = \<lparr>it_account = a, it_record = stored_item next r, it_updated_at = now\<rparr> \<or> i \<in> set rows"
  by (auto simp: upsert_item_def Let_def split: if_splits)

lemma fold_upsert_keys:
  "distinct (map it_key rows) \<Longrightarrow> distinct (map it_key (fold (upsert_item a next now) rs rows))"
proof (induction rs arbitrary: rows)
  case (Cons r rs)
  have "distinct (map it_key (upsert_item a next now r rows))"
    using Cons.prems by (simp add: upsert_keys)
  then show ?case using Cons.IH by simp
qed simp

lemma fold_upsert_rows:
  "i \<in> set (fold (upsert_item a next now) rs rows) \<Longrightarrow>
    i \<in> set rows \<or> (\<exists>r \<in> set rs. i = \<lparr>it_account = a, it_record = stored_item next r, it_updated_at = now\<rparr>)"
proof (induction rs arbitrary: rows)
  case (Cons r rs)
  then show ?case using upsert_rows [of i a "next" now r rows] by fastforce
qed simp

lemma map_ac_id_update: "map ac_id (map (\<lambda>c. if ac_id c = a then c\<lparr>ac_revision := n\<rparr> else c) cs) = map ac_id cs"
  by (induction cs) auto

lemma wf_push:
  assumes "db_wf b" and "store_push a expected items now b = (b', r)"
  shows "db_wf b'"
proof (cases "b' = b")
  case False
  with assms(2) obtain n where n: "db_items b' = fold (upsert_item a n now) items (db_items b)"
    "map ac_id (db_accounts b') = map ac_id (db_accounts b)" "db_devices b' = db_devices b" "db_invites b' = db_invites b"
    and a: "a \<in> ac_id ` set (db_accounts b)"
    using map_ac_id_update [of a _ "db_accounts b"]
    by (auto simp: store_push_def Let_def find_account_def split: option.splits if_splits dest!: find_Some_set)
  have acc: "ac_id ` set (db_accounts b') = ac_id ` set (db_accounts b)"
    using n(2) by (metis list.set_map)
  have ok: "record_ok (stored_item n r)" for r by (simp add: record_ok_def stored_item_def)
  have "distinct (map it_key (db_items b'))"
    unfolding n(1) using assms(1) by (intro fold_upsert_keys) (simp add: db_wf_def)
  moreover have "it_account i \<in> ac_id ` set (db_accounts b) \<and> record_ok (it_record i)" if "i \<in> set (db_items b')" for i
    using fold_upsert_rows [OF that [unfolded n(1)]] assms(1) a ok by (auto simp: db_wf_def)
  ultimately show ?thesis using assms(1) by (simp add: db_wf_def acc n(2-4))
qed (use assms in simp)

lemma distinct_map_filter_pred: "distinct (map f xs) \<Longrightarrow> distinct (map f (filter P xs))"
  by (induction xs) auto

lemma image_kept: "x \<in> f ` set xs \<Longrightarrow> x \<noteq> k \<Longrightarrow> x \<in> f ` {y \<in> set xs. f y \<noteq> k}"
  by auto

lemma db_wf_step: "db_step b b' \<Longrightarrow> db_wf b \<Longrightarrow> db_wf b'"
proof (induction rule: db_step.induct)
  case (dbs_invite P s now valid b b' r)
  then show ?case by (auto simp: create_invite_def db_wf_def split: if_splits)
next
  case (dbs_redeem P s k now b b' r)
  then show ?case by (auto simp: redeem_invite_def split: option.splits dest: wf_spend)
next
  case (dbs_account a now b b' r)
  then show ?case by (auto simp: create_account_def split: option.splits dest: wf_insert_account)
next
  case (dbs_enrol P s a k pk label now b b' r)
  then show ?case
    by (auto simp: store_enrol_def bind_eq_Some_conv split: option.splits
        intro: wf_insert_device [OF wf_insert_account [OF wf_spend]])
next
  case (dbs_delete k b b' found)
  then show ?case
    by (auto simp: delete_account_def db_wf_def intro!: distinct_map_filter_pred image_kept)
next
  case (dbs_register k account pk label now b b' r)
  then show ?case by (auto simp: register_device_def split: option.splits dest: wf_insert_device)
next
  case (dbs_bootstrap P s account k pk label now b b' r)
  then show ?case
    by (auto simp: register_device_on_invite_def split: option.splits if_splits dest: wf_spend wf_insert_device)
next
  case (dbs_touch b k now)
  let ?f = "\<lambda>d. if dv_id d = k then d\<lparr>dv_last_seen := Some now\<rparr> else d"
  have "map dv_id (map ?f ds) = map dv_id ds" for ds by (induction ds) simp_all
  then have "map dv_id (db_devices (touch_device k now b)) = map dv_id (db_devices b)" by (simp add: touch_device_def)
  moreover have "\<forall>d \<in> set (db_devices (touch_device k now b)). dv_account d \<in> ac_id ` set (db_accounts b)"
    using dbs_touch by (auto simp: touch_device_def db_wf_def)
  moreover have "db_accounts (touch_device k now b) = db_accounts b" "db_items (touch_device k now b) = db_items b"
    "db_invites (touch_device k now b) = db_invites b" by (simp_all add: touch_device_def)
  ultimately show ?case using dbs_touch unfolding db_wf_def by simp
next
  case (dbs_remove account k b b' found)
  then show ?case by (auto simp: remove_device_def db_wf_def intro!: distinct_map_filter_pred)
next
  case (dbs_push account expected items now b b' r)
  then show ?case using wf_push by blast
next
  case (dbs_purge before b b' n)
  then show ?case
    by (auto simp: purge_tombstones_def db_wf_def Let_def intro!: distinct_map_filter_pred)
qed

text \<open>
  C21: every state the server's database can reach keeps its keys unique and its references whole, and
  holds no ciphertext for a deleted item and no deletion proof for a live one.
\<close>

theorem db_reachable_wf: "db_reachable b \<Longrightarrow> db_wf b"
  by (induction rule: db_reachable.induct) (simp_all add: db_wf_def [of db_empty] db_wf_step, simp add: db_empty_def)

section \<open>Catching up\<close>

definition find_item :: "string \<Rightarrow> string \<Rightarrow> db \<Rightarrow> item_row option" where
  "find_item a k b = find (\<lambda>i. it_account i = a \<and> it_id i = k) (db_items b)"

text \<open>A push as the handler makes it: to some account, with the revision the client expects.\<close>

fun run_pushes :: "(string \<times> i64 \<times> item_record list \<times> i64) list \<Rightarrow> db \<Rightarrow> db" where
  "run_pushes [] b = b"
| "run_pushes ((a, expected, items, now) # ps) b = run_pushes ps (fst (store_push a expected items now b))"

lemma find_item_Some: "find_item a k b = Some i \<Longrightarrow> i \<in> set (db_items b) \<and> it_account i = a \<and> it_id i = k"
  by (auto simp: find_item_def dest: find_Some_set)

lemma find_key: "distinct (map f xs) \<Longrightarrow> x \<in> set xs \<Longrightarrow> find (\<lambda>y. f y = f x) xs = Some x"
  by (induction xs) (auto simp: rev_image_eqI)

lemma find_item_member: "db_wf b \<Longrightarrow> i \<in> set (db_items b) \<Longrightarrow> find_item (it_account i) (it_id i) b = Some i"
  using find_key [of it_key "db_items b" i] by (simp add: db_wf_def find_item_def)

lemma fold_upsert_find_other:
  "k \<noteq> a \<Longrightarrow> filter (\<lambda>i. it_account i = k) (fold (upsert_item a n now) rs rows) = filter (\<lambda>i. it_account i = k) rows"
proof (induction rs arbitrary: rows)
  case (Cons r rs)
  have "filter (\<lambda>i. it_account i = k) (map (\<lambda>i. if it_account i = a \<and> it_id i = j then row else i) is) =
      filter (\<lambda>i. it_account i = k) is" if "it_account row = a" for row j "is"
    using that Cons.prems by (induction "is") auto
  then have "filter (\<lambda>i. it_account i = k) (upsert_item a n now r rows) = filter (\<lambda>i. it_account i = k) rows"
    using Cons.prems by (simp add: upsert_item_def Let_def)
  with Cons show ?case by simp
qed simp

text \<open>What has happened to an account since it was at revision \<open>r\<close> with the items of \<open>b0\<close>.\<close>

definition since_inv :: "string \<Rightarrow> i64 \<Rightarrow> db \<Rightarrow> nat \<Rightarrow> db \<Rightarrow> bool" where
  "since_inv a r b0 n b \<longleftrightarrow> db_wf b \<and>
     (\<exists>row. find_account a b = Some row \<and> sint r \<le> sint (ac_revision row) \<and> sint (ac_revision row) \<le> sint r + int n) \<and>
     (\<forall>k. case find_item a k b of
        None \<Rightarrow> find_item a k b0 = None
      | Some i \<Rightarrow> if r <s ir_revision (it_record i) then True
                  else find_item a k b0 = Some i)"

lemma sint_next: "sint r < 2 ^ 63 - 1 \<Longrightarrow> sint (r + 1 :: i64) = sint r + 1"
proof -
  assume "sint r < 2 ^ 63 - 1"
  moreover have "- (2 ^ 63) \<le> sint r" using sint_ge [of r] by simp
  ultimately show ?thesis by (simp add: sint_word_ariths signed_take_bit_int_eq_self)
qed

lemma fold_upsert_find:
  assumes "find (\<lambda>i. it_account i = a \<and> it_id i = k) (fold (upsert_item a n now) rs rows) = Some i"
  shows "ir_revision (it_record i) = n \<or> find (\<lambda>i. it_account i = a \<and> it_id i = k) rows = Some i"
  using assms
proof (induction rs arbitrary: rows)
  case (Cons r rs)
  let ?row = "\<lparr>it_account = a, it_record = stored_item n r, it_updated_at = now\<rparr>"
  let ?f = "find (\<lambda>i. it_account i = a \<and> it_id i = k)"
  have ih: "ir_revision (it_record i) = n \<or> ?f (upsert_item a n now r rows) = Some i" using Cons by simp
  have rev: "ir_revision (it_record ?row) = n" by (simp add: stored_item_def)
  have upd: "?f (map (\<lambda>i. if it_account i = a \<and> it_id i = ir_id r then ?row else i) is) = Some i \<Longrightarrow>
      i = ?row \<or> ?f is = Some i" for "is"
    by (induction "is") (auto simp: stored_item_def split: if_splits)
  have new: "?f (rows @ [?row]) = Some i \<Longrightarrow> i = ?row \<or> ?f rows = Some i"
    by (auto simp: find_append split: option.splits if_splits)
  have "?f (upsert_item a n now r rows) = Some i \<Longrightarrow> i = ?row \<or> ?f rows = Some i"
    using upd [of rows] new unfolding upsert_item_def Let_def by (simp split: if_splits)
  with ih rev show ?case by blast
qed simp

lemma fold_upsert_find_None:
  "find (\<lambda>i. it_account i = a \<and> it_id i = k) (fold (upsert_item c n now) rs rows) = None \<Longrightarrow>
    find (\<lambda>i. it_account i = a \<and> it_id i = k) rows = None"
proof (induction rs arbitrary: rows)
  case (Cons r rs)
  then have "(a, k) \<notin> set (map it_key (upsert_item c n now r rows))" by (auto simp: find_None_iff)
  then have "(a, k) \<notin> set (map it_key rows)" unfolding upsert_keys by (auto split: if_splits)
  then show ?case by (auto simp: find_None_iff)
qed simp

lemma find_account_push:
  assumes "find_account c b = Some row"
  shows "find_account c (b\<lparr>db_items := is, db_accounts := map (\<lambda>d. if ac_id d = a then d\<lparr>ac_revision := n\<rparr> else d) (db_accounts b)\<rparr>) =
    Some (if c = a then row\<lparr>ac_revision := n\<rparr> else row)"
proof -
  have "find (\<lambda>d. ac_id d = c) (map (\<lambda>d. if ac_id d = a then d\<lparr>ac_revision := n\<rparr> else d) cs) =
      map_option (\<lambda>d. if ac_id d = a then d\<lparr>ac_revision := n\<rparr> else d) (find (\<lambda>d. ac_id d = c) cs)" for cs
    by (induction cs) auto
  moreover have "ac_id row = c" using assms by (auto simp: find_account_def dest: find_Some_set)
  ultimately show ?thesis using assms by (auto simp: find_account_def)
qed

text \<open>What a push to an account does to an invariant of that account, and to one of another.\<close>

definition pushed :: "string \<Rightarrow> i64 \<Rightarrow> item_record list \<Rightarrow> i64 \<Rightarrow> db \<Rightarrow> db" where
  "pushed c n items now b = b\<lparr>db_items := fold (upsert_item c n now) items (db_items b),
     db_accounts := map (\<lambda>d. if ac_id d = c then d\<lparr>ac_revision := n\<rparr> else d) (db_accounts b)\<rparr>"

lemma store_push_pushed:
  assumes "store_push c expected items now b = (b', res)" and "b' \<noteq> b"
  shows "\<exists>row. find_account c b = Some row \<and> b' = pushed c (ac_revision row + 1) items now b"
  using assms by (auto simp: store_push_def pushed_def Let_def split: option.splits if_splits)

lemma since_inv_pushed_here:
  assumes inv: "since_inv a r b0 n b" and small: "sint r + int n < 2 ^ 63 - 1"
    and row: "find_account a b = Some row" and wf': "db_wf (pushed a (ac_revision row + 1) items now b)"
  shows "since_inv a r b0 (Suc n) (pushed a (ac_revision row + 1) items now b)"
proof -
  let ?n = "ac_revision row + 1" let ?b = "pushed a ?n items now b"
  from inv row have bounds: "sint r \<le> sint (ac_revision row)" "sint (ac_revision row) \<le> sint r + int n"
    and held: "\<And>k. case find_item a k b of None \<Rightarrow> find_item a k b0 = None
      | Some i \<Rightarrow> if r <s ir_revision (it_record i) then True else find_item a k b0 = Some i"
    unfolding since_inv_def by auto
  have nx: "sint ?n = sint (ac_revision row) + 1" using bounds small by (intro sint_next) linarith
  have newer: "r <s ?n" using bounds(1) nx by (simp add: word_sless_alt)
  have "find_account a ?b = Some (row\<lparr>ac_revision := ?n\<rparr>)"
    using find_account_push [OF row] by (simp add: pushed_def)
  moreover have "case find_item a k ?b of None \<Rightarrow> find_item a k b0 = None
    | Some i \<Rightarrow> if r <s ir_revision (it_record i) then True else find_item a k b0 = Some i" for k
  proof (cases "find_item a k ?b")
    case None
    then have "find_item a k b = None" using fold_upsert_find_None by (fastforce simp: find_item_def pushed_def)
    with held [of k] None show ?thesis by simp
  next
    case (Some i)
    then have "ir_revision (it_record i) = ?n \<or> find_item a k b = Some i"
      using fold_upsert_find [of a k ?n now items "db_items b" i] by (simp add: find_item_def pushed_def)
    with held [of k] Some newer show ?thesis by auto
  qed
  ultimately show ?thesis using wf' bounds nx by (auto simp: since_inv_def)
qed

lemma since_inv_pushed_elsewhere:
  assumes inv: "since_inv a r b0 n b" and other: "c \<noteq> a" and wf': "db_wf (pushed c m items now b)"
  shows "since_inv a r b0 (Suc n) (pushed c m items now b)"
proof -
  let ?b = "pushed c m items now b"
  have "find_item a k ?b = find_item a k b" for k
  proof -
    have "find (\<lambda>i. it_account i = a \<and> it_id i = k) xs = find (\<lambda>i. it_id i = k) (filter (\<lambda>i. it_account i = a) xs)" for xs
      by (induction xs) auto
    then show ?thesis using fold_upsert_find_other [of a c] other by (simp add: find_item_def pushed_def)
  qed
  moreover have "find_account a ?b = Some row" if "find_account a b = Some row" for row
    using find_account_push [OF that] other by (simp add: pushed_def)
  ultimately show ?thesis using wf' inv by (fastforce simp: since_inv_def)
qed

lemma since_inv_push:
  assumes inv: "since_inv a r b0 n b" and small: "sint r + int n < 2 ^ 63 - 1"
    and push: "store_push c expected items now b = (b', res)"
  shows "since_inv a r b0 (Suc n) b'"
proof (cases "b' = b")
  case True
  with inv show ?thesis by (auto simp: since_inv_def)
next
  case False
  from store_push_pushed [OF push this] obtain row where row: "find_account c b = Some row"
    and b': "b' = pushed c (ac_revision row + 1) items now b" by blast
  have "db_wf b'" using inv push wf_push by (auto simp: since_inv_def)
  then show ?thesis
    using since_inv_pushed_here [OF inv small] since_inv_pushed_elsewhere [OF inv] row unfolding b' by (cases "c = a") auto
qed

text \<open>A page holds each item that is newer than the revision asked about once, as it is in the database.\<close>

lemma items_since_member:
  "x \<in> set (items_since a r b) \<longleftrightarrow>
    (\<exists>i \<in> set (db_items b). it_account i = a \<and> r <s ir_revision (it_record i) \<and> x = it_record i)"
  by (auto simp: items_since_def)

lemma items_since_distinct:
  assumes "db_wf b"
  shows "distinct (map ir_id (items_since a r b))"
proof -
  let ?rows = "filter (\<lambda>i. it_account i = a \<and> r <s ir_revision (it_record i)) (db_items b)"
  have "distinct (map it_id (filter (\<lambda>i. it_account i = a \<and> P i) xs))" if "distinct (map it_key xs)" for P xs
    using that by (induction xs) (auto simp: rev_image_eqI image_iff)
  then have d: "distinct (map ir_id (map it_record ?rows))"
    using assms by (simp add: db_wf_def comp_def)
  have "mset (map ir_id (items_since a r b)) = mset (map ir_id (map it_record ?rows))"
    by (simp add: items_since_def mset_map [symmetric] del: mset_map) (simp add: mset_map multiset.map_comp)
  then show ?thesis using d mset_eq_imp_distinct_iff by blast
qed

lemma items_since_find:
  assumes "db_wf b"
  shows "find (\<lambda>x. ir_id x = k) (items_since a r b) =
    (case find_item a k b of None \<Rightarrow> None
     | Some i \<Rightarrow> if r <s ir_revision (it_record i) then Some (it_record i) else None)"
proof -
  have newer: "find_item a k b = Some i \<and> r <s ir_revision (it_record i)"
    if "i \<in> set (db_items b)" "it_account i = a" "r <s ir_revision (it_record i)" "it_id i = k" for i
    using find_item_member [OF assms that(1)] that by simp
  show ?thesis
  proof (cases "\<exists>i. find_item a k b = Some i \<and> r <s ir_revision (it_record i)")
    case True
    then obtain i where i: "find_item a k b = Some i" "r <s ir_revision (it_record i)" by blast
    note m = find_item_Some [OF i(1)]
    with i(2) have "it_record i \<in> set (items_since a r b)" by (auto simp: items_since_member)
    from find_key [OF items_since_distinct [OF assms] this] i m show ?thesis by simp
  next
    case False
    with newer have "ir_id x \<noteq> k" if "x \<in> set (items_since a r b)" for x
      using that unfolding items_since_member by blast
    then have "find (\<lambda>x. ir_id x = k) (items_since a r b) = None" unfolding find_None_iff by blast
    with False show ?thesis by (auto split: option.split)
  qed
qed

section \<open>Invitations are spent once, and accounts are apart\<close>

definition spent :: "bytes \<Rightarrow> db \<Rightarrow> bool" where
  "spent h b \<longleftrightarrow> (\<exists>v \<in> set (db_invites b). iv_code_hash v = h \<and> iv_used_by v \<noteq> None)"

lemma spent_refused:
  assumes "db_wf b" and "spent (hash_code P s) b"
  shows "spend_invite P s k now b = None"
proof -
  obtain v where v: "v \<in> set (db_invites b)" "iv_code_hash v = hash_code P s" "iv_used_by v \<noteq> None"
    using assms(2) by (auto simp: spent_def)
  have "w = v" if "w \<in> set (db_invites b)" "iv_code_hash w = hash_code P s" for w
    using that v assms(1) by (auto simp: db_wf_def distinct_map inj_on_def)
  then have "\<not> list_ex (spendable P s now) (db_invites b)"
    using v(3) by (auto simp: list_ex_iff spendable_def)
  then show ?thesis by (simp add: spend_invite_def)
qed

lemma spend_marks:
  assumes "spend_invite P s k now b = Some b'"
  shows "spent (hash_code P s) b'"
proof -
  obtain v where "v \<in> set (db_invites b)" "spendable P s now v"
    and "b' = b\<lparr>db_invites := map (\<lambda>v. if spendable P s now v then v\<lparr>iv_used_by := Some k\<rparr> else v) (db_invites b)\<rparr>"
    using assms by (auto simp: spend_invite_def list_ex_iff split: if_splits)
  then have "v\<lparr>iv_used_by := Some k\<rparr> \<in> set (db_invites b')" "iv_code_hash v = hash_code P s"
    by (auto simp: spendable_def intro!: rev_image_eqI)
  then show ?thesis unfolding spent_def by (intro bexI) simp_all
qed

lemma spent_spend: "spent h b \<Longrightarrow> spend_invite P s k now b = Some b' \<Longrightarrow> spent h b'"
  by (force simp: spend_invite_def spent_def spendable_def split: if_splits)

lemma invites_kept [simp]:
  "insert_account a now b = Some b1 \<Longrightarrow> db_invites b1 = db_invites b"
  "insert_device k a' pk label now b = Some b2 \<Longrightarrow> db_invites b2 = db_invites b"
  by (auto simp: insert_account_def insert_device_def split: if_splits)

lemma spent_step: "db_step b b' \<Longrightarrow> spent h b \<Longrightarrow> spent h b'"
proof (induction rule: db_step.induct)
  case (dbs_invite P s now valid b b' r)
  then show ?case by (auto simp: create_invite_def spent_def split: if_splits)
next
  case (dbs_redeem P s k now b b' r)
  then show ?case by (auto simp: redeem_invite_def split: option.splits dest: spent_spend)
next
  case (dbs_account a now b b' r)
  then show ?case by (auto simp: create_account_def spent_def split: option.splits)
next
  case (dbs_enrol P s a k pk label now b b' r)
  show ?case
  proof (cases "r = Inr ()")
    case True
    with dbs_enrol obtain b1 where "spend_invite P s (na_id a) now b = Some b1" "db_invites b' = db_invites b1"
      by (auto simp: store_enrol_def bind_eq_Some_conv split: option.splits)
    with spent_spend [OF dbs_enrol(2)] show ?thesis by (auto simp: spent_def)
  next
    case False
    with dbs_enrol show ?thesis by (auto simp: store_enrol_def split: option.splits)
  qed
next
  case (dbs_bootstrap P s account k pk label now b b' r)
  show ?case
  proof (cases "r = Inr ()")
    case True
    with dbs_bootstrap obtain b1 where "spend_invite P s account now b = Some b1" "db_invites b' = db_invites b1"
      by (auto simp: register_device_on_invite_def split: option.splits if_splits)
    with spent_spend [OF dbs_bootstrap(2)] show ?thesis by (auto simp: spent_def)
  next
    case False
    with dbs_bootstrap show ?thesis
      by (auto simp: register_device_on_invite_def split: option.splits if_splits)
  qed
next
  case (dbs_register k account pk label now b b' r)
  then show ?case by (auto simp: register_device_def spent_def split: option.splits)
next
  case (dbs_push account expected items now b b' r)
  then show ?case by (auto simp: store_push_def Let_def spent_def split: option.splits if_splits)
qed (auto simp: delete_account_def touch_device_def remove_device_def purge_tombstones_def Let_def spent_def)

lemma later_state:
  "db_step\<^sup>*\<^sup>* b b' \<Longrightarrow> db_wf b \<and> spent h b \<Longrightarrow> db_wf b' \<and> spent h b'"
  by (induction rule: rtranclp_induct) (auto intro: db_wf_step spent_step)

text \<open>
  C20: an invitation that has enrolled an account is worth nothing afterwards: whatever the server
  goes on to do, the same code enrols nothing, redeems nothing and admits no device, and changes nothing.
\<close>

theorem invite_spent_once:
  assumes "db_wf b" and "store_enrol P s a k pk label now b = (b1, Inr ())" and "db_step\<^sup>*\<^sup>* b1 b2"
  shows "store_enrol P s a' k' pk' label' now' b2 = (b2, Inl BadInvite) \<and>
    redeem_invite P s i now' b2 = (b2, Inl BadInvite) \<and>
    register_device_on_invite P s i k' pk' label' now' b2 = (b2, Inl BadInvite)"
proof -
  from assms(2) have "spent (hash_code P s) b1"
    by (auto simp: store_enrol_def bind_eq_Some_conv spent_def dest!: spend_marks split: option.splits)
  moreover from assms(2) have "db_wf b1" using db_wf_step [OF dbs_enrol [OF assms(2)]] assms(1) by simp
  ultimately have "db_wf b2 \<and> spent (hash_code P s) b2" using later_state [OF assms(3)] by blast
  then have "spend_invite P s j t b2 = None" for j t by (simp add: spent_refused)
  then show ?thesis
    by (auto simp: store_enrol_def redeem_invite_def register_device_on_invite_def split: option.split)
qed

text \<open>What one account has on the server.\<close>

definition account_part :: "string \<Rightarrow> db \<Rightarrow> account_row list \<times> device_row list \<times> item_row list" where
  "account_part a b = (filter (\<lambda>c. ac_id c = a) (db_accounts b), filter (\<lambda>d. dv_account d = a) (db_devices b),
     filter (\<lambda>i. it_account i = a) (db_items b))"

lemma filter_map_other:
  "(\<And>x. x \<in> set xs \<Longrightarrow> Q (f x) = Q x) \<Longrightarrow> (\<And>x. x \<in> set xs \<Longrightarrow> Q x \<Longrightarrow> f x = x) \<Longrightarrow>
    filter Q (map f xs) = filter Q xs"
  by (induction xs) auto

text \<open>
  What is done for one account is done to nothing of another: a push, a device removed and an
  account deleted leave every row of every other account as it was, and deleting an account leaves
  none of its own.
\<close>

theorem accounts_apart:
  assumes "k \<noteq> a"
  shows "account_part k (fst (store_push a expected items now b)) = account_part k b \<and>
    account_part k (fst (remove_device a d b)) = account_part k b \<and>
    account_part k (fst (delete_account a b)) = account_part k b \<and>
    account_part a (fst (delete_account a b)) = ([], [], [])"
proof (intro conjI)
  show "account_part k (fst (store_push a expected items now b)) = account_part k b"
    using assms by (auto simp: store_push_def account_part_def Let_def fold_upsert_find_other split: option.split
        intro!: filter_map_other)
qed (use assms in \<open>auto simp: account_part_def remove_device_def delete_account_def intro!: filter_cong\<close>)

section \<open>Witnesses\<close>

definition sample_account :: "string \<Rightarrow> new_account" where
  "sample_account k = \<lparr>na_id = k, na_salt = ''s'', na_kdf = ''k'', na_wrapped_vault_key = ''v'',
     na_wrapped_account_key = ''w'', na_public_key = None\<rparr>"

definition sample_code :: prims where "sample_code = sample_prims JNull JNull"

definition sample_invited :: db where
  "sample_invited = fst (create_invite sample_code ''c1'' 10 100 db_empty)"

definition sample_enrolled :: db where
  "sample_enrolled = fst (store_enrol sample_code ''c1'' (sample_account ''a'') ''d'' ''pk'' None 20 sample_invited)"

lemmas sample_db_simps = sample_enrolled_def sample_invited_def sample_account_def sample_code_def sample_prims_def
  create_invite_def store_enrol_def spend_invite_def spendable_def hash_code_def insert_account_def
  insert_device_def find_account_def db_empty_def trim_def word_sless_alt

lemma sample_invited_wf: "db_wf sample_invited"
  by (simp add: sample_invited_def create_invite_def db_empty_def db_wf_def)

lemma sample_trim: "trim ''c1'' = ''c1''"
  by code_simp

lemma sample_enrol_ok:
  "store_enrol sample_code ''c1'' (sample_account ''a'') ''d'' ''pk'' None 20 sample_invited = (sample_enrolled, Inr ())"
  by (simp add: sample_db_simps sample_trim)

lemma sample_enrolled_wf: "db_wf sample_enrolled"
  using db_wf_step [OF dbs_enrol [OF sample_enrol_ok]] sample_invited_wf by blast

lemma db_reachable_wf_witness: "db_wf (touch_device ''d'' 40 sample_enrolled)"
proof -
  have "db_step db_empty sample_invited"
    by (rule dbs_invite [where P = sample_code and s = "''c1''" and now = 10 and valid = 100]) (simp add: sample_invited_def prod_eq_iff)
  then have "db_reachable (touch_device ''d'' 40 sample_enrolled)"
    using db_start dbs_enrol [OF sample_enrol_ok] dbs_touch db_more by meson
  then show ?thesis by (rule db_reachable_wf)
qed

lemma invite_spent_once_witness:
  "store_enrol sample_code ''c1'' (sample_account ''b'') ''e'' ''pk2'' None 50 (touch_device ''d'' 40 sample_enrolled) =
    (touch_device ''d'' 40 sample_enrolled, Inl BadInvite)"
proof -
  have "db_step\<^sup>*\<^sup>* sample_enrolled (touch_device ''d'' 40 sample_enrolled)"
    by (rule r_into_rtranclp) (rule dbs_touch)
  from invite_spent_once [OF sample_invited_wf sample_enrol_ok this, of "sample_account ''b''" "''e''" "''pk2''" None 50]
  show ?thesis by blast
qed

lemma accounts_apart_witness:
  "account_part ''a'' (fst (delete_account ''b'' sample_enrolled)) = account_part ''a'' sample_enrolled"
  using accounts_apart [of "''a''" "''b''" 0 "[]" 0 sample_enrolled] by simp

end
