(* ===== verification/Sync_Api.thy ===== *)
theory Sync_Api
  imports Sync_Auth Sync_Store Vault_Json "HOL-Library.AList" "HOL-Library.Signed_Division"
begin

text \<open>
  The server's handlers (\<open>crates/yara-sync/src/api.rs\<close>) over the database and the nonce cache, each as
  the function from the state it finds to the state it leaves and its answer. Headers are the value of
  each (lower-case) name; routing and body extraction are axum's. A lookup in the database does not
  fail, and a lock is never poisoned.
\<close>

section \<open>The rate limiter\<close>

definition UNSIGNED_PER_MINUTE :: u32 where "UNSIGNED_PER_MINUTE = 20"
definition MAX_TRACKED :: nat where "MAX_TRACKED = 65536"
definition MAX_BODY :: nat where "MAX_BODY = 4 * 1024 * 1024"

record rate_limiter =
  rl_hits :: "(string \<times> u32) list"
  rl_window :: i64

definition limiter_new :: rate_limiter where
  "limiter_new = \<lparr>rl_hits = [], rl_window = 0\<rparr>"

definition limiter_window :: "i64 \<Rightarrow> i64" where
  "limiter_window now = word_of_int (sint now sdiv 60)"

definition limiter_allow :: "string \<Rightarrow> i64 \<Rightarrow> rate_limiter \<Rightarrow> rate_limiter \<times> bool" where
  "limiter_allow addr now l =
     (let l = (if limiter_window now \<noteq> rl_window l then \<lparr>rl_hits = [], rl_window = limiter_window now\<rparr> else l)
      in case map_of (rl_hits l) addr of
           Some hits \<Rightarrow>
             (l\<lparr>rl_hits := AList.update addr (sat_add hits 1) (rl_hits l)\<rparr>, sat_add hits 1 \<le> UNSIGNED_PER_MINUTE)
         | None \<Rightarrow>
             if MAX_TRACKED \<le> length (rl_hits l) then (l, False)
             else (l\<lparr>rl_hits := AList.update addr 1 (rl_hits l)\<rparr>, True))"

section \<open>Requests and answers\<close>

record app =
  ap_db :: db
  ap_nonces :: nonce_cache
  ap_limiter :: rate_limiter

definition app_start :: "db \<Rightarrow> app" where
  "app_start b = \<lparr>ap_db = b, ap_nonces = Map.empty, ap_limiter = limiter_new\<rparr>"

type_synonym headers = "string \<Rightarrow> bytes option"

datatype api_error = ApiError (api_status: nat) (api_text: string)

type_synonym 'a answer = "api_error + 'a"

definition of_rejection :: "rejection \<Rightarrow> api_error" where
  "of_rejection r = ApiError 401 (rejection_message r)"

fun of_store_error :: "store_error \<Rightarrow> api_error" where
  "of_store_error (PushConflict r) = ApiError 409 (''the vault is at revision '' @ show_i64 r @ ''; pull and retry'')"
| "of_store_error BadInvite = ApiError 403 ''that invite is not usable''"
| "of_store_error NoAccount = ApiError 404 ''no such account''"
| "of_store_error DbError = ApiError 500 ''the request could not be completed''"

definition header :: "web \<Rightarrow> headers \<Rightarrow> string \<Rightarrow> string option" where
  "header W hs name = Option.bind (hs name) (w_to_str W)"

definition UNATTRIBUTED :: string where "UNATTRIBUTED = ''127.0.0.1''"

definition client_ip :: "web \<Rightarrow> headers \<Rightarrow> string" where
  "client_ip W hs =
     (let parse = (\<lambda>v. w_parse_ip W (trim v))
      in case Option.bind (header W hs ''x-real-ip'') parse of
           Some real \<Rightarrow> real
         | None \<Rightarrow>
             (case Option.bind (header W hs ''x-forwarded-for'') (\<lambda>v. parse (last (split_char (CHR '','') v))) of
                Some a \<Rightarrow> a | None \<Rightarrow> UNATTRIBUTED))"

definition rate_limit :: "web \<Rightarrow> headers \<Rightarrow> i64 \<Rightarrow> app \<Rightarrow> app \<times> unit answer" where
  "rate_limit W hs now s =
     (let (l, allowed) = limiter_allow (client_ip W hs) now (ap_limiter s)
      in (s\<lparr>ap_limiter := l\<rparr>, if allowed then Inr () else Inl (ApiError 429 ''too many requests'')))"

record enrol_body =
  en_account_id :: string
  en_salt :: string
  en_kdf :: string
  en_wrapped_vault_key :: string
  en_wrapped_account_key :: string
  en_account_public_key :: string
  en_device_id :: string
  en_public_key :: string
  en_label :: "string option"
  en_invite :: string

record register_body =
  rg_account_id :: string
  rg_device_id :: string
  rg_public_key :: string
  rg_label :: "string option"
  rg_invite :: "string option"

record push_body =
  pu_expected_revision :: i64
  pu_items :: "item_record list"

definition of_enrol :: "json \<Rightarrow> enrol_body result" where
  "of_enrol v = and_then (of_obj v) (\<lambda>kvs.
     and_then (req of_str (vals ''accountId'' kvs)) (\<lambda>account.
     and_then (req of_str (vals ''salt'' kvs)) (\<lambda>salt.
     and_then (req of_str (vals ''kdf'' kvs)) (\<lambda>kdf.
     and_then (req of_str (vals ''wrappedVaultKey'' kvs)) (\<lambda>vk.
     and_then (req of_str (vals ''wrappedAccountKey'' kvs)) (\<lambda>ak.
     and_then (req of_str (vals ''accountPublicKey'' kvs)) (\<lambda>apk.
     and_then (req of_str (vals ''deviceId'' kvs)) (\<lambda>device.
     and_then (req of_str (vals ''publicKey'' kvs)) (\<lambda>pk.
     and_then (dflt None (of_nullable of_str) (vals ''label'' kvs)) (\<lambda>label.
     and_then (req of_str (vals ''invite'' kvs)) (\<lambda>invite.
       Inr \<lparr>en_account_id = account, en_salt = salt, en_kdf = kdf, en_wrapped_vault_key = vk,
            en_wrapped_account_key = ak, en_account_public_key = apk, en_device_id = device, en_public_key = pk,
            en_label = label, en_invite = invite\<rparr>)))))))))))"

definition of_register :: "json \<Rightarrow> register_body result" where
  "of_register v = and_then (of_obj v) (\<lambda>kvs.
     and_then (req of_str (vals ''accountId'' kvs)) (\<lambda>account.
     and_then (req of_str (vals ''deviceId'' kvs)) (\<lambda>device.
     and_then (req of_str (vals ''publicKey'' kvs)) (\<lambda>pk.
     and_then (dflt None (of_nullable of_str) (vals ''label'' kvs)) (\<lambda>label.
     and_then (dflt None (of_nullable of_str) (vals ''invite'' kvs)) (\<lambda>invite.
       Inr \<lparr>rg_account_id = account, rg_device_id = device, rg_public_key = pk, rg_label = label,
            rg_invite = invite\<rparr>))))))"

definition item_record_json :: "item_record \<Rightarrow> json" where
  "item_record_json r = JObj
     ([(''id'', JStr (ir_id r)), (''revision'', i_json (ir_revision r))]
      @ skip_none ''ciphertext'' JStr (ir_ciphertext r) @ [(''deleted'', JBool (ir_deleted r))]
      @ skip_none ''proof'' JStr (ir_proof r))"

definition of_item_record :: "json \<Rightarrow> item_record result" where
  "of_item_record v = and_then (of_obj v) (\<lambda>kvs.
     and_then (req of_str (vals ''id'' kvs)) (\<lambda>k.
     and_then (dflt 0 of_i (vals ''revision'' kvs)) (\<lambda>rev.
     and_then (dflt None (of_nullable of_str) (vals ''ciphertext'' kvs)) (\<lambda>c.
     and_then (dflt False of_bool (vals ''deleted'' kvs)) (\<lambda>d.
     and_then (dflt None (of_nullable of_str) (vals ''proof'' kvs)) (\<lambda>p.
       Inr \<lparr>ir_id = k, ir_revision = rev, ir_ciphertext = c, ir_deleted = d, ir_proof = p\<rparr>))))))"

definition of_push :: "json \<Rightarrow> push_body result" where
  "of_push v = and_then (of_obj v) (\<lambda>kvs.
     and_then (req of_i (vals ''expectedRevision'' kvs)) (\<lambda>e.
     and_then (req (of_arr of_item_record) (vals ''items'' kvs)) (\<lambda>items.
       Inr \<lparr>pu_expected_revision = e, pu_items = items\<rparr>)))"

definition body_json :: "web \<Rightarrow> (json \<Rightarrow> 'a result) \<Rightarrow> bytes \<Rightarrow> 'a answer" where
  "body_json W f body =
     (case and_then (ok_or Serde (p_json_parse (w_prims W) body)) f of
        Inl e \<Rightarrow> Inl (ApiError 400 ''malformed body'')
      | Inr x \<Rightarrow> Inr x)"

definition account_json :: "account_blobs \<Rightarrow> json" where
  "account_json a = JObj
     [(''salt'', JStr (ab_salt a)), (''kdf'', JStr (ab_kdf a)), (''wrappedVaultKey'', JStr (ab_wrapped_vault_key a)),
      (''wrappedAccountKey'', JStr (ab_wrapped_account_key a)), (''revision'', i_json (ab_revision a))]"

section \<open>Who is asking\<close>

definition parse_authorization :: "string \<Rightarrow> (string \<times> string) option" where
  "parse_authorization v =
     Option.bind (strip_prefix ''yara1 '' v) (\<lambda>rest.
     Option.bind (split_once (CHR ''/'') (trim rest)) (\<lambda>(account, device).
       if account = [] \<or> device = [] then None else Some (account, device)))"

definition parse_account_authorization :: "string \<Rightarrow> string option" where
  "parse_account_authorization v =
     Option.bind (strip_prefix ''yara1-account '' v) (\<lambda>rest.
       let account = trim rest in if account = [] \<or> CHR ''/'' \<in> set account then None else Some account)"

text \<open>The three headers that both forms read after the first.\<close>

definition read_signature :: "web \<Rightarrow> headers \<Rightarrow> rejection + (i64 \<times> string \<times> string)" where
  "read_signature W hs =
     and_then (ok_or Malformed (map_option word_of_int (Option.bind (header W hs ''x-yara-timestamp'') parse_i64))) (\<lambda>t.
     and_then (ok_or Malformed (header W hs ''x-yara-nonce'')) (\<lambda>n.
     and_then (ok_or Malformed (header W hs ''x-yara-signature'')) (\<lambda>sig. Inr (t, n, sig))))"

definition check_signature ::
    "web \<Rightarrow> bytes option \<Rightarrow> string \<Rightarrow> string \<Rightarrow> bytes \<Rightarrow> i64 \<times> string \<times> string \<Rightarrow> i64 \<Rightarrow> app \<Rightarrow> app \<times> (rejection + unit)" where
  "check_signature W stored meth path body stamp now s =
     (case Option.bind stored (public_key W) of
        None \<Rightarrow> (s, Inl BadSignature)
      | Some key \<Rightarrow>
          (let (t, n, sig) = stamp;
               (m, v) = auth_verify W
                 \<lparr>sr_method = meth, sr_path = path, sr_timestamp = t, sr_nonce = n, sr_body = body\<rparr> sig key (ap_nonces s) now
           in (s\<lparr>ap_nonces := m\<rparr>, v)))"

definition authenticate ::
    "web \<Rightarrow> string \<Rightarrow> string \<Rightarrow> headers \<Rightarrow> bytes \<Rightarrow> i64 \<Rightarrow> app \<Rightarrow> app \<times> (string \<times> string) answer" where
  "authenticate W meth path hs body now s =
     (case and_then (ok_or Malformed (Option.bind (header W hs ''authorization'') parse_authorization))
            (\<lambda>who. and_then (read_signature W hs) (\<lambda>stamp. Inr (who, stamp))) of
        Inl e \<Rightarrow> (s, Inl (of_rejection e))
      | Inr ((account, device), stamp) \<Rightarrow>
          (case check_signature W (device_key account device (ap_db s)) meth path body stamp now s of
             (s', Inl e) \<Rightarrow> (s', Inl (of_rejection e))
           | (s', Inr _) \<Rightarrow> (s'\<lparr>ap_db := touch_device device now (ap_db s')\<rparr>, Inr (account, device))))"

definition account_signer ::
    "web \<Rightarrow> string \<Rightarrow> string \<Rightarrow> headers \<Rightarrow> bytes \<Rightarrow> i64 \<Rightarrow> app \<Rightarrow> app \<times> string answer" where
  "account_signer W meth path hs body now s =
     (case and_then (ok_or Malformed (Option.bind (header W hs ''authorization'') parse_account_authorization))
            (\<lambda>who. and_then (read_signature W hs) (\<lambda>stamp. Inr (who, stamp))) of
        Inl e \<Rightarrow> (s, Inl (of_rejection e))
      | Inr (account, stamp) \<Rightarrow>
          (case check_signature W (account_key account (ap_db s)) meth path body stamp now s of
             (s', Inl e) \<Rightarrow> (s', Inl (of_rejection e))
           | (s', Inr _) \<Rightarrow> (s', Inr account)))"

definition decode_public_key :: "web \<Rightarrow> string \<Rightarrow> string \<Rightarrow> bytes answer" where
  "decode_public_key W v what =
     (case p_b64_decode (w_prims W) v of
        Some bs \<Rightarrow> if length bs = 32 then Inr bs else Inl (ApiError 400 (''the '' @ what @ '' must be 32 base64 bytes''))
      | None \<Rightarrow> Inl (ApiError 400 (''the '' @ what @ '' must be 32 base64 bytes'')))"

section \<open>Handlers\<close>

text \<open>Running a store operation in the state, its error becoming the answer's.\<close>

definition on_db :: "(db \<Rightarrow> db \<times> 'a store_result) \<Rightarrow> app \<Rightarrow> app \<times> 'a answer" where
  "on_db f s =
     (case f (ap_db s) of (b, r) \<Rightarrow>
        (s\<lparr>ap_db := b\<rparr>, case r of Inl e \<Rightarrow> Inl (of_store_error e) | Inr x \<Rightarrow> Inr x))"

definition api_account :: "web \<Rightarrow> headers \<Rightarrow> string \<Rightarrow> i64 \<Rightarrow> app \<Rightarrow> app \<times> json answer" where
  "api_account W hs k now s =
     and_do (rate_limit W hs now s) (\<lambda>_ s.
       (s, case store_account k (ap_db s) of
             Some blobs \<Rightarrow> Inr (account_json blobs)
           | None \<Rightarrow> Inl (ApiError 404 ''no such account'')))"

definition api_enrol :: "web \<Rightarrow> headers \<Rightarrow> enrol_body \<Rightarrow> i64 \<Rightarrow> app \<Rightarrow> app \<times> json answer" where
  "api_enrol W hs body now s =
     and_do (rate_limit W hs now s) (\<lambda>_ s.
     and_do (s, decode_public_key W (en_public_key body) ''public key'') (\<lambda>key s.
     and_do (s, decode_public_key W (en_account_public_key body) ''account public key'') (\<lambda>ak s.
     and_do (on_db (store_enrol (w_prims W) (en_invite body)
                \<lparr>na_id = en_account_id body, na_salt = en_salt body, na_kdf = en_kdf body,
                 na_wrapped_vault_key = en_wrapped_vault_key body, na_wrapped_account_key = en_wrapped_account_key body,
                 na_public_key = Some ak\<rparr>
                (en_device_id body) key (en_label body) now) s) (\<lambda>_ s.
       (s, Inr (JObj [(''accountId'', JStr (en_account_id body)), (''deviceId'', JStr (en_device_id body))]))))))"

definition api_register_device ::
    "web \<Rightarrow> string \<Rightarrow> string \<Rightarrow> headers \<Rightarrow> bytes \<Rightarrow> i64 \<Rightarrow> app \<Rightarrow> app \<times> json answer" where
  "api_register_device W meth path hs body now s =
     and_do (rate_limit W hs now s) (\<lambda>_ s.
     and_do (s, body_json W of_register body) (\<lambda>q s.
     and_do (s, decode_public_key W (rg_public_key q) ''public key'') (\<lambda>key s.
     and_do
       (if hs ''x-yara-signature'' \<noteq> None then
          and_do (account_signer W meth path hs body now s) (\<lambda>signer s.
            if signer \<noteq> rg_account_id q then (s, Inl (of_rejection BadSignature))
            else on_db (register_device (rg_device_id q) (rg_account_id q) key (rg_label q) now) s)
        else
          (case rg_invite q of
             None \<Rightarrow> (s, Inl (of_rejection BadSignature))
           | Some invite \<Rightarrow>
               on_db (register_device_on_invite (w_prims W) invite (rg_account_id q) (rg_device_id q) key (rg_label q) now) s))
       (\<lambda>_ s. (s, Inr (JObj [(''deviceId'', JStr (rg_device_id q))]))))))"

definition api_revoke_device ::
    "web \<Rightarrow> string \<Rightarrow> string \<Rightarrow> headers \<Rightarrow> string \<Rightarrow> i64 \<Rightarrow> app \<Rightarrow> app \<times> json answer" where
  "api_revoke_device W meth path hs device now s =
     and_do (rate_limit W hs now s) (\<lambda>_ s.
     and_do (account_signer W meth path hs [] now s) (\<lambda>account s.
       let (b, found) = remove_device account device (ap_db s)
       in (s\<lparr>ap_db := b\<rparr>,
           if found then Inr (JObj [(''deviceId'', JStr device), (''revoked'', JBool True)])
           else Inl (ApiError 404 ''no such device''))))"

text \<open>
  A pull reads the items and then, under a second lock, the revision: \<open>between\<close> is what other
  requests do to the database in between.
\<close>

definition api_pull_items ::
    "web \<Rightarrow> (db \<Rightarrow> db) \<Rightarrow> string \<Rightarrow> string \<Rightarrow> headers \<Rightarrow> i64 \<Rightarrow> i64 \<Rightarrow> app \<Rightarrow> app \<times> json answer" where
  "api_pull_items W between meth path hs since now s =
     and_do (authenticate W meth path hs [] now s) (\<lambda>(account, _) s.
       let items = items_since account since (ap_db s);
           s = s\<lparr>ap_db := between (ap_db s)\<rparr>
       in and_do (on_db (\<lambda>b. (b, store_revision account b)) s) (\<lambda>revision s.
            (s, Inr (JObj [(''revision'', i_json revision), (''items'', JArr (map item_record_json items))]))))"

definition api_push_items ::
    "web \<Rightarrow> string \<Rightarrow> string \<Rightarrow> headers \<Rightarrow> bytes \<Rightarrow> i64 \<Rightarrow> app \<Rightarrow> app \<times> json answer" where
  "api_push_items W meth path hs body now s =
     (if MAX_BODY < length body then (s, Inl (ApiError 413 ''that push is too large''))
      else
        and_do (authenticate W meth path hs body now s) (\<lambda>(account, _) s.
        and_do (s, body_json W of_push body) (\<lambda>push s.
        and_do (on_db (store_push account (pu_expected_revision push) (pu_items push) now) s) (\<lambda>revision s.
          (s, Inr (JObj [(''revision'', i_json revision)]))))))"

text \<open>
  The routes: what each handler is given as its method and path is what the route matched, and the
  device of a revocation is the last segment of the path as the router decodes it.
\<close>

datatype call =
    GetAccount headers string
  | PostAccount headers enrol_body
  | PostDevices headers bytes
  | DeleteDevice headers string
  | GetItems headers i64
  | PostItems headers bytes

definition ITEMS_PATH :: string where "ITEMS_PATH = ''/api/v1/items''"
definition DEVICES_PATH :: string where "DEVICES_PATH = ''/api/v1/devices''"

fun router :: "web \<Rightarrow> call \<Rightarrow> i64 \<Rightarrow> app \<Rightarrow> app \<times> json answer" where
  "router W (GetAccount hs k) now s = api_account W hs k now s"
| "router W (PostAccount hs body) now s = api_enrol W hs body now s"
| "router W (PostDevices hs body) now s = api_register_device W ''POST'' DEVICES_PATH hs body now s"
| "router W (DeleteDevice hs seg) now s =
     api_revoke_device W ''DELETE'' (DEVICES_PATH @ ''/'' @ seg) hs (w_segment W seg) now s"
| "router W (GetItems hs since) now s = api_pull_items W id ''GET'' ITEMS_PATH hs since now s"
| "router W (PostItems hs body) now s = api_push_items W ''POST'' ITEMS_PATH hs body now s"

section \<open>The limiter counts\<close>

text \<open>The answers to a run of calls.\<close>

fun limiter_run :: "(string \<times> i64) list \<Rightarrow> rate_limiter \<Rightarrow> rate_limiter \<times> bool list" where
  "limiter_run [] l = (l, [])"
| "limiter_run ((a, now) # qs) l =
     (let (l', ok) = limiter_allow a now l; (l'', oks) = limiter_run qs l' in (l'', ok # oks))"

definition limiter_ok :: "rate_limiter \<Rightarrow> bool" where
  "limiter_ok l \<longleftrightarrow> length (rl_hits l) \<le> MAX_TRACKED \<and> distinct (map fst (rl_hits l))"

lemma length_update: "length (AList.update k v al) = (if k \<in> fst ` set al then length al else Suc (length al))"
  by (induction al) auto

lemma map_of_Some_key: "map_of al k = Some v \<Longrightarrow> k \<in> fst ` set al"
  by (metis map_of_eq_None_iff option.distinct(1))

lemma limiter_ok_allow: "limiter_ok l \<Longrightarrow> limiter_ok (fst (limiter_allow a now l))"
  by (auto simp: limiter_ok_def limiter_allow_def Let_def length_update distinct_update map_of_eq_None_iff MAX_TRACKED_def
      map_of_Some_key split: option.split)

text \<open>How many more calls an address may make in a window.\<close>

definition calls_left :: "string \<Rightarrow> i64 \<Rightarrow> rate_limiter \<Rightarrow> nat" where
  "calls_left a w l =
     (if rl_window l \<noteq> w then 20 else case map_of (rl_hits l) a of None \<Rightarrow> 20 | Some n \<Rightarrow> 20 - unat n)"

lemma calls_left_allow:
  assumes "limiter_window now = w"
  shows "calls_left a w (fst (limiter_allow b now l)) + (if a = b \<and> snd (limiter_allow b now l) then 1 else 0)
      \<le> calls_left a w l"
  using assms
  by (auto simp: calls_left_def limiter_allow_def Let_def update_conv' unat_sat_add UNSIGNED_PER_MINUTE_def word_le_nat_alt
      split: option.split)

definition allowed_to :: "string \<Rightarrow> (string \<times> i64) list \<Rightarrow> rate_limiter \<Rightarrow> nat" where
  "allowed_to a qs l = length (filter (\<lambda>(q, ok). fst q = a \<and> ok) (zip qs (snd (limiter_run qs l))))"

lemma allowed_to_Cons:
  "allowed_to a ((b, now) # qs) l =
    (if a = b \<and> snd (limiter_allow b now l) then 1 else 0) + allowed_to a qs (fst (limiter_allow b now l))"
  by (auto simp: allowed_to_def split: prod.split)

lemma allowed_to_bound:
  "\<forall>(b, now) \<in> set qs. limiter_window now = w \<Longrightarrow> allowed_to a qs l \<le> calls_left a w l"
proof (induction qs arbitrary: l)
  case (Cons q qs)
  obtain b now where q: "q = (b, now)" by (cases q)
  let ?l = "fst (limiter_allow b now l)"
  from q Cons.prems have "limiter_window now = w" by simp
  note calls_left_allow [OF this, of a b l]
  moreover have "allowed_to a qs ?l \<le> calls_left a w ?l" using Cons by simp
  ultimately show ?case unfolding q allowed_to_Cons by linarith
qed (simp add: allowed_to_def)

lemma limiter_run_state: "fst (limiter_run ((a, now) # qs) l) = fst (limiter_run qs (fst (limiter_allow a now l)))"
  by (simp split: prod.split)

lemma limiter_ok_run: "limiter_ok l \<Longrightarrow> limiter_ok (fst (limiter_run qs l))"
proof (induction qs arbitrary: l)
  case (Cons q qs)
  then show ?case by (cases q) (simp only: limiter_run_state limiter_ok_allow)
qed simp

text \<open>
  However calls interleave, no address is let through more than twenty times in one minute, and
  the limiter never tracks more addresses than its cap.
\<close>

theorem unsigned_budget:
  assumes "\<forall>(b, now) \<in> set qs. limiter_window now = w"
  shows "allowed_to a qs l \<le> 20 \<and>
    length (rl_hits (fst (limiter_run qs' limiter_new))) \<le> MAX_TRACKED"
proof
  have "calls_left a w l \<le> 20" by (simp add: calls_left_def split: option.split)
  then show "allowed_to a qs l \<le> 20" using allowed_to_bound [OF assms, of a l] by linarith
  have "limiter_ok limiter_new" by (simp add: limiter_ok_def limiter_new_def)
  from limiter_ok_run [OF this] show "length (rl_hits (fst (limiter_run qs' limiter_new))) \<le> MAX_TRACKED"
    by (simp add: limiter_ok_def)
qed

end
