(* ===== verification/Server_Safety.thy ===== *)
theory Server_Safety
  imports Sync_Api
begin

text \<open>
  What the handlers of the sync server let through: who can change an account, who can read one, and
  that what an honest client signs is accepted.
\<close>

section \<open>Authority\<close>

text \<open>What the server keeps of an account, the time a device was last seen aside.\<close>

definition account_state :: "string \<Rightarrow> db \<Rightarrow> account_row list \<times> device_row list \<times> item_row list" where
  "account_state k b =
     (filter (\<lambda>a. ac_id a = k) (db_accounts b),
      map (\<lambda>d. d\<lparr>dv_last_seen := None\<rparr>) (filter (\<lambda>d. dv_account d = k) (db_devices b)),
      filter (\<lambda>i. it_account i = k) (db_items b))"

text \<open>The headers carry a signature under the key, over this method, path and body.\<close>

definition carries :: "web \<Rightarrow> headers \<Rightarrow> bytes \<Rightarrow> string \<Rightarrow> string \<Rightarrow> bytes \<Rightarrow> bool" where
  "carries W hs key meth path body \<longleftrightarrow>
     (\<exists>t n sig raw. read_signature W hs = Inr (t, n, sig) \<and> p_b64_decode (w_prims W) sig = Some raw \<and>
        w_verify W key
          (canonical (w_prims W) \<lparr>sr_method = meth, sr_path = path, sr_timestamp = t, sr_nonce = n, sr_body = body\<rparr>) raw)"

fun authorised :: "web \<Rightarrow> call \<Rightarrow> i64 \<Rightarrow> db \<Rightarrow> string \<Rightarrow> bool" where
  "authorised W (GetAccount hs j) now b k \<longleftrightarrow> False"
| "authorised W (PostAccount hs body) now b k \<longleftrightarrow>
     k = en_account_id body \<and> find_account k b = None \<and>
     list_ex (spendable (w_prims W) (en_invite body) now) (db_invites b)"
| "authorised W (PostDevices hs body) now b k \<longleftrightarrow>
     (\<exists>q. body_json W of_register body = Inr q \<and> rg_account_id q = k \<and>
        ((\<exists>key. account_key k b = Some key \<and> carries W hs key ''POST'' DEVICES_PATH body) \<or>
         (\<exists>invite. rg_invite q = Some invite \<and> account_key k b = None \<and>
            (\<forall>d \<in> set (db_devices b). dv_account d \<noteq> k) \<and>
            list_ex (spendable (w_prims W) invite now) (db_invites b))))"
| "authorised W (DeleteDevice hs seg) now b k \<longleftrightarrow>
     (\<exists>key. account_key k b = Some key \<and> carries W hs key ''DELETE'' (DEVICES_PATH @ ''/'' @ seg) [])"
| "authorised W (GetItems hs since) now b k \<longleftrightarrow> False"
| "authorised W (PostItems hs body) now b k \<longleftrightarrow>
     (\<exists>d key. device_key k d b = Some key \<and> carries W hs key ''POST'' ITEMS_PATH body)"

section \<open>What the store's operations change\<close>

lemma state_touch [simp]: "account_state k (touch_device d now b) = account_state k b"
proof -
  have "map (\<lambda>d. d\<lparr>dv_last_seen := None\<rparr>) (filter (\<lambda>d. dv_account d = k)
      (map (\<lambda>e. if dv_id e = d then e\<lparr>dv_last_seen := Some now\<rparr> else e) ds)) =
      map (\<lambda>d. d\<lparr>dv_last_seen := None\<rparr>) (filter (\<lambda>d. dv_account d = k) ds)" for ds
    by (induction ds) simp_all
  then show ?thesis by (simp add: account_state_def touch_device_def)
qed

lemma state_spend: "spend_invite P s j now b = Some b' \<Longrightarrow> account_state k b' = account_state k b"
  using spend_invite_keeps [of P s j now b b'] by (simp add: account_state_def)

lemma state_insert_account: "insert_account a now b = Some b' \<Longrightarrow> k \<noteq> na_id a \<Longrightarrow> account_state k b' = account_state k b"
  by (auto simp: insert_account_def account_state_def split: if_splits)

lemma state_insert_device:
  "insert_device d j pk label now b = Some b' \<Longrightarrow> k \<noteq> j \<Longrightarrow> account_state k b' = account_state k b"
  by (auto simp: insert_device_def account_state_def split: if_splits)

lemma state_enrol:
  assumes "store_enrol P s a d pk label now b = (b', r)" and "account_state k b' \<noteq> account_state k b"
  shows "k = na_id a \<and> find_account k b = None \<and> list_ex (spendable P s now) (db_invites b)"
proof -
  have "b' \<noteq> b" using assms(2) by blast
  with assms(1) obtain b1 b2 where b1: "spend_invite P s (na_id a) now b = Some b1"
    and b2: "insert_account a now b1 = Some b2" and b': "insert_device d (na_id a) pk label now b2 = Some b'"
    by (auto simp: store_enrol_def bind_eq_Some_conv split: option.splits)
  have "k = na_id a"
    using assms(2) state_spend [OF b1] state_insert_account [OF b2] state_insert_device [OF b'] by metis
  moreover have "find_account (na_id a) b = None"
    using b2 spend_invite_keeps(1) [OF b1] by (simp add: insert_account_def find_account_def split: if_splits)
  moreover have "list_ex (spendable P s now) (db_invites b)" using b1 by (simp add: spend_invite_def split: if_splits)
  ultimately show ?thesis by simp
qed

lemma state_register:
  "register_device d j pk label now b = (b', r) \<Longrightarrow> k \<noteq> j \<Longrightarrow> account_state k b' = account_state k b"
  by (auto simp: register_device_def split: option.splits dest: state_insert_device)

lemma state_register_on_invite:
  assumes "register_device_on_invite P s j d pk label now b = (b', r)" and "account_state k b' \<noteq> account_state k b"
  shows "k = j \<and> account_key k b = None \<and> (\<forall>d \<in> set (db_devices b). dv_account d \<noteq> k) \<and>
    list_ex (spendable P s now) (db_invites b)"
proof -
  have "b' \<noteq> b" using assms(2) by blast
  with assms(1) obtain b1 row where row: "find_account j b = Some row" "na_public_key (ac_new row) = None"
    and devices: "\<not> list_ex (\<lambda>d. dv_account d = j) (db_devices b)"
    and b1: "spend_invite P s j now b = Some b1" and b': "insert_device d j pk label now b1 = Some b'"
    by (auto simp: register_device_on_invite_def split: option.splits if_splits)
  have "k = j" using assms(2) state_spend [OF b1] state_insert_device [OF b'] by metis
  moreover have "list_ex (spendable P s now) (db_invites b)" using b1 by (simp add: spend_invite_def split: if_splits)
  ultimately show ?thesis using row devices by (auto simp: account_key_def list_ex_iff)
qed

lemma state_remove: "k \<noteq> j \<Longrightarrow> account_state k (fst (remove_device j d b)) = account_state k b"
  by (auto simp: remove_device_def account_state_def intro!: arg_cong [of _ _ "map _"] filter_cong)

lemma state_push: "k \<noteq> j \<Longrightarrow> account_state k (fst (store_push j expected items now b)) = account_state k b"
  by (auto simp: store_push_def account_state_def Let_def fold_upsert_find_other split: option.split
      intro!: filter_map_other)

section \<open>Who can change an account\<close>

lemma rate_limit_db [simp]: "ap_db (fst (rate_limit W hs now s)) = ap_db s"
  by (simp add: rate_limit_def split: prod.split)

lemma check_signature_ok:
  assumes "check_signature W stored meth path body (t, n, sig) now s = (s', Inr ())" and "read_signature W hs = Inr (t, n, sig)"
  shows "ap_db s' = ap_db s \<and> (\<exists>key. stored = Some key \<and> carries W hs key meth path body)"
  using assms(1)
  by (auto simp: check_signature_def public_key_def carries_def assms(2) auth_verify_def Let_def bind_eq_Some_conv
      split: option.splits prod.splits if_splits)

lemma check_signature_db [simp]: "ap_db (fst (check_signature W stored meth path body st now s)) = ap_db s"
  by (auto simp: check_signature_def split: option.split prod.split)

lemma authenticate_ok:
  assumes "authenticate W meth path hs body now s = (s', Inr (k, d))"
  shows "ap_db s' = touch_device d now (ap_db s) \<and>
    (\<exists>key. device_key k d (ap_db s) = Some key \<and> carries W hs key meth path body)"
proof -
  from assms obtain t n sig s1 where st: "read_signature W hs = Inr (t, n, sig)"
    and c: "check_signature W (device_key k d (ap_db s)) meth path body (t, n, sig) now s = (s1, Inr ())"
    and s': "s' = s1\<lparr>ap_db := touch_device d now (ap_db s1)\<rparr>"
    by (auto simp: authenticate_def and_then_Inr split: sum.splits prod.splits)
  from check_signature_ok [OF c st] s' show ?thesis by simp
qed

lemma authenticate_err: "authenticate W meth path hs body now s = (s', Inl e) \<Longrightarrow> ap_db s' = ap_db s"
  using check_signature_db by (auto simp: authenticate_def split: sum.splits prod.splits) (metis fst_conv check_signature_db)

lemma account_signer_ok:
  assumes "account_signer W meth path hs body now s = (s', Inr k)"
  shows "ap_db s' = ap_db s \<and> (\<exists>key. account_key k (ap_db s) = Some key \<and> carries W hs key meth path body)"
proof -
  from assms obtain t n sig where st: "read_signature W hs = Inr (t, n, sig)"
    and c: "check_signature W (account_key k (ap_db s)) meth path body (t, n, sig) now s = (s', Inr ())"
    by (auto simp: account_signer_def and_then_Inr split: sum.splits prod.splits)
  from check_signature_ok [OF c st] show ?thesis .
qed

lemma account_signer_err: "account_signer W meth path hs body now s = (s', Inl e) \<Longrightarrow> ap_db s' = ap_db s"
  using check_signature_db by (auto simp: account_signer_def split: sum.splits prod.splits) (metis fst_conv check_signature_db)

lemma on_db_state: "on_db f s = (s', r) \<Longrightarrow> ap_db s' = fst (f (ap_db s))"
  by (auto simp: on_db_def split: prod.splits)

lemma register_device_changes:
  assumes "api_register_device W meth path hs body now s = (s', r)"
    and "account_state k (ap_db s') \<noteq> account_state k (ap_db s)"
  shows "\<exists>q. body_json W of_register body = Inr q \<and> rg_account_id q = k \<and>
     ((\<exists>key. account_key k (ap_db s) = Some key \<and> carries W hs key meth path body) \<or>
      (\<exists>invite. rg_invite q = Some invite \<and> account_key k (ap_db s) = None \<and>
         (\<forall>d \<in> set (db_devices (ap_db s)). dv_account d \<noteq> k) \<and>
         list_ex (spendable (w_prims W) invite now) (db_invites (ap_db s))))"
proof -
  obtain s1 lim where lim: "rate_limit W hs now s = (s1, lim)" by fastforce
  then have db1: "ap_db s1 = ap_db s" using rate_limit_db by (metis fst_conv)
  have "lim = Inr ()" using assms lim db1 by (cases lim) (auto simp: api_register_device_def and_do_def)
  then obtain q key where q: "body_json W of_register body = Inr q"
    and key: "decode_public_key W (rg_public_key q) ''public key'' = Inr key"
    using assms lim db1 by (auto simp: api_register_device_def and_do_def split: sum.splits)
  show ?thesis
  proof (cases "hs ''x-yara-signature'' = None")
    case True
    with assms lim db1 q key \<open>lim = Inr ()\<close> obtain invite where inv: "rg_invite q = Some invite"
      and b: "ap_db s' = fst (register_device_on_invite (w_prims W) invite (rg_account_id q) (rg_device_id q) key
        (rg_label q) now (ap_db s))"
      by (auto simp: api_register_device_def and_do_def split: option.splits prod.splits sum.splits dest: on_db_state)
    with state_register_on_invite [OF prod.collapse [symmetric]] assms(2) q show ?thesis by metis
  next
    case False
    obtain s2 sg where sg: "account_signer W meth path hs body now s1 = (s2, sg)" by fastforce
    have "\<exists>signer. sg = Inr signer"
      using assms lim db1 q key \<open>lim = Inr ()\<close> False sg account_signer_err [of W meth path hs body now s1 s2]
      by (cases sg) (auto simp: api_register_device_def and_do_def)
    then obtain signer where signer: "sg = Inr signer" by blast
    note ok = account_signer_ok [OF sg [unfolded signer]]
    have "signer = rg_account_id q"
      using assms lim db1 q key \<open>lim = Inr ()\<close> False sg signer ok
      by (auto simp: api_register_device_def and_do_def split: if_splits)
    moreover have "ap_db s' = fst (register_device (rg_device_id q) (rg_account_id q) key (rg_label q) now (ap_db s2))"
      using assms lim db1 q key \<open>lim = Inr ()\<close> False sg signer calculation
      by (auto simp: api_register_device_def and_do_def split: prod.splits sum.splits dest: on_db_state)
    then have "rg_account_id q = k"
      using state_register [OF prod.collapse [symmetric]] assms(2) ok db1 by metis
    ultimately show ?thesis using q ok db1 by auto
  qed
qed

lemma enrol_changes:
  assumes "router W (PostAccount hs body) now s = (s', r)" and "account_state k (ap_db s') \<noteq> account_state k (ap_db s)"
  shows "authorised W (PostAccount hs body) now (ap_db s) k"
proof -
  obtain s1 lim where lim: "rate_limit W hs now s = (s1, lim)" by fastforce
  then have db1: "ap_db s1 = ap_db s" using rate_limit_db by (metis fst_conv)
  have "lim = Inr ()" using assms lim db1 by (cases lim) (auto simp: api_enrol_def and_do_def)
  moreover obtain key where "decode_public_key W (en_public_key body) ''public key'' = Inr key"
    using assms lim db1 calculation
    by (cases "decode_public_key W (en_public_key body) ''public key''") (auto simp: api_enrol_def and_do_def)
  moreover obtain ak where "decode_public_key W (en_account_public_key body) ''account public key'' = Inr ak"
    using assms lim db1 calculation
    by (cases "decode_public_key W (en_account_public_key body) ''account public key''") (auto simp: api_enrol_def and_do_def)
  moreover define a where "a = \<lparr>na_id = en_account_id body, na_salt = en_salt body, na_kdf = en_kdf body,
      na_wrapped_vault_key = en_wrapped_vault_key body, na_wrapped_account_key = en_wrapped_account_key body,
      na_public_key = Some ak\<rparr>"
  ultimately have b: "ap_db s' = fst (store_enrol (w_prims W) (en_invite body) a (en_device_id body) key (en_label body) now (ap_db s))"
    using assms(1) lim db1
    by (auto simp: api_enrol_def and_do_def split: sum.splits prod.splits dest: on_db_state)
  have a: "na_id a = en_account_id body" by (simp add: a_def)
  from state_enrol [OF prod.collapse [symmetric]] assms(2) b a show ?thesis by (metis authorised.simps(2))
qed

lemma revoke_changes:
  assumes "router W (DeleteDevice hs seg) now s = (s', r)" and "account_state k (ap_db s') \<noteq> account_state k (ap_db s)"
  shows "authorised W (DeleteDevice hs seg) now (ap_db s) k"
proof -
  obtain s1 lim where lim: "rate_limit W hs now s = (s1, lim)" by fastforce
  then have db1: "ap_db s1 = ap_db s" using rate_limit_db by (metis fst_conv)
  obtain s2 sg where sg: "account_signer W ''DELETE'' (DEVICES_PATH @ ''/'' @ seg) hs [] now s1 = (s2, sg)" by fastforce
  have "\<exists>account. sg = Inr account \<and> ap_db s' = fst (remove_device account (w_segment W seg) (ap_db s2))"
    using assms lim db1 sg account_signer_err [of W _ _ hs "[]" now s1 s2]
    by (cases sg; cases lim) (auto simp: api_revoke_device_def and_do_def split: prod.splits)
  then obtain account where acc: "sg = Inr account" "ap_db s' = fst (remove_device account (w_segment W seg) (ap_db s2))"
    by blast
  note ok = account_signer_ok [OF sg [unfolded acc(1)]]
  then have "account = k" using state_remove assms(2) acc(2) db1 by metis
  then show ?thesis using ok db1 by simp
qed

lemma push_changes:
  assumes "router W (PostItems hs body) now s = (s', r)" and "account_state k (ap_db s') \<noteq> account_state k (ap_db s)"
  shows "authorised W (PostItems hs body) now (ap_db s) k"
proof -
  obtain s1 who where au: "authenticate W ''POST'' ITEMS_PATH hs body now s = (s1, who)" by fastforce
  show ?thesis
  proof (cases who)
    case (Inl e)
    with assms au authenticate_err show ?thesis
      by (auto simp: api_push_items_def and_do_def split: if_splits)
  next
    case (Inr kd)
    then obtain j d where kd: "who = Inr (j, d)" by (cases kd) auto
    note ok = authenticate_ok [OF au [unfolded kd]]
    have db1: "account_state k (ap_db s1) = account_state k (ap_db s)" using ok by simp
    obtain push where push: "body_json W of_push body = Inr push"
      using assms au kd db1
      by (cases "body_json W of_push body") (auto simp: api_push_items_def and_do_def split: if_splits)
    have b: "ap_db s' = fst (store_push j (pu_expected_revision push) (pu_items push) now (ap_db s1))"
      using assms au kd push
      by (auto simp: api_push_items_def and_do_def split: if_splits sum.splits prod.splits dest: on_db_state)
    have "k = j" using state_push assms(2) b db1 by metis
    with ok show ?thesis by auto
  qed
qed

text \<open>
  C11: nothing that the server keeps of an account changes but by an answer to a request that carries
  the authority for it: a device's signature for its items, the account key's signature or the
  bootstrap invitation for its devices, and an unspent invitation for an account that is new.
\<close>

theorem writes_authorised:
  assumes "router W q now s = (s', r)" and "account_state k (ap_db s') \<noteq> account_state k (ap_db s)"
  shows "authorised W q now (ap_db s) k"
proof (cases q)
  case (GetAccount hs j)
  then show ?thesis using assms rate_limit_db [of W hs now s]
    by (auto simp: api_account_def and_do_def simp del: rate_limit_db split: prod.splits sum.splits)
next
  case (PostAccount hs body)
  with assms show ?thesis using enrol_changes by metis
next
  case (PostDevices hs body)
  then show ?thesis using register_device_changes [of W _ _ hs body now s s' r k] assms by simp
next
  case (DeleteDevice hs seg)
  with assms show ?thesis using revoke_changes by metis
next
  case (GetItems hs since)
  then show ?thesis using assms authenticate_ok authenticate_err
    by (auto simp: api_pull_items_def and_do_def on_db_def Let_def split: prod.splits sum.splits)
next
  case (PostItems hs body)
  with assms show ?thesis using push_changes by metis
qed

section \<open>Who can read one\<close>

text \<open>
  Items are handed out only to a request that a device of the account signed, and the answer is
  that account's items newer than the revision asked about, with its revision.
\<close>

theorem pull_answers_owner:
  assumes "router W (GetItems hs since) now s = (s', Inr j)"
  shows "\<exists>k d key rev. device_key k d (ap_db s) = Some key \<and> carries W hs key ''GET'' ITEMS_PATH [] \<and>
    store_revision k (ap_db s) = Inr rev \<and>
    j = JObj [(''revision'', i_json rev), (''items'', JArr (map item_record_json (items_since k since (ap_db s))))]"
proof -
  obtain s1 who where au: "authenticate W ''GET'' ITEMS_PATH hs [] now s = (s1, who)" by fastforce
  with assms obtain k d where kd: "who = Inr (k, d)"
    by (cases who) (auto simp: api_pull_items_def and_do_def)
  note ok = authenticate_ok [OF au [unfolded kd]]
  have db: "items_since k since (touch_device d now b) = items_since k since b"
    "store_revision k (touch_device d now b) = store_revision k b" for b
    by (simp_all add: items_since_def store_revision_def find_account_def touch_device_def)
  from assms au kd obtain rev where rev: "store_revision k (ap_db s1) = Inr rev"
    "j = JObj [(''revision'', i_json rev), (''items'', JArr (map item_record_json (items_since k since (ap_db s1))))]"
    by (auto simp: api_pull_items_def and_do_def on_db_def Let_def split: sum.splits)
  have "store_revision k (ap_db s) = Inr rev" "items_since k since (ap_db s1) = items_since k since (ap_db s)"
    using rev(1) ok db by auto
  with ok rev(2) show ?thesis by auto
qed

section \<open>What an honest client sends is accepted\<close>

text \<open>The headers a client puts on a request, as \<open>map_of\<close> of the pairs it adds.\<close>

definition sent_headers :: "signed_headers \<Rightarrow> headers" where
  "sent_headers h = map_of (signed_pairs h)"

lemma authenticate_sent:
  assumes b64: "b64_faithful (w_prims W)"
    and readable: "\<forall>v \<in> snd ` set (signed_pairs (sign_request (w_prims W) q sign)). w_to_str W v = Some v"
    and ids: "rs_account_id q \<noteq> []" "rs_device_id q \<noteq> []" "CHR ''/'' \<notin> set (rs_account_id q)"
      "trim (rs_account_id q @ ''/'' @ rs_device_id q) = rs_account_id q @ ''/'' @ rs_device_id q"
    and shape: "rs_method q \<noteq> []" "starts_with (rs_path q) ''/''" "AUTH_NONCE_LEN \<le> length (rs_nonce q)"
    and fresh: "i64_abs (now - rs_timestamp q) \<le>s CLOCK_SKEW_SECS" "nonce_prune now (ap_nonces s) (rs_nonce q) = None"
    and key: "device_key (rs_account_id q) (rs_device_id q) (ap_db s) = Some key" "public_key W key = Some key"
    and sign: "\<And>msg. length (sign msg) = 64 \<and> w_verify W key msg (sign msg)"
  shows "authenticate W (rs_method q) (rs_path q) (sent_headers (sign_request (w_prims W) q sign)) (rs_body q) now s =
    (s\<lparr>ap_nonces := (nonce_prune now (ap_nonces s))(rs_nonce q \<mapsto> now),
       ap_db := touch_device (rs_device_id q) now (ap_db s)\<rparr>, Inr (rs_account_id q, rs_device_id q))"
proof -
  let ?h = "sign_request (w_prims W) q sign" and ?hs = "sent_headers (sign_request (w_prims W) q sign)"
  let ?r = "\<lparr>sr_method = rs_method q, sr_path = rs_path q, sr_timestamp = rs_timestamp q, sr_nonce = rs_nonce q, sr_body = rs_body q\<rparr>"
  have "split_once (CHR ''/'') (rs_account_id q @ CHR ''/'' # rs_device_id q) = Some (rs_account_id q, rs_device_id q)"
    using ids(3) by (simp add: split_once_Some)
  then have who: "Option.bind (header W ?hs ''authorization'') parse_authorization = Some (rs_account_id q, rs_device_id q)"
    using readable ids by (simp add: header_def sent_headers_def signed_pairs_def sign_request_def parse_authorization_def strip_prefix_def
        starts_with_def)
  have stamp: "read_signature W ?hs = Inr (rs_timestamp q, rs_nonce q, sh_signature ?h)"
    using readable by (simp add: read_signature_def header_def sent_headers_def signed_pairs_def sign_request_def parse_show_i64)
  have canon: "client_canonical (w_prims W) (rs_method q) (rs_path q) (rs_timestamp q) (rs_nonce q) (rs_body q) = canonical (w_prims W) ?r"
    using client_canonical_eq [of "w_prims W" ?r] by simp
  have raw: "p_b64_decode (w_prims W) (sh_signature ?h) = Some (sign (canonical (w_prims W) ?r))"
    using b64 by (simp add: sign_request_def canon b64_faithful_def)
  have "snd (auth_verify W ?r (sh_signature ?h) key (ap_nonces s) now) = Inr ()"
    unfolding auth_verify_ok using shape fresh raw sign by auto
  with auth_verify_ok_cache [OF this]
  have "auth_verify W ?r (sh_signature ?h) key (ap_nonces s) now = ((nonce_prune now (ap_nonces s))(rs_nonce q \<mapsto> now), Inr ())"
    by (simp add: prod_eq_iff)
  then have "check_signature W (device_key (rs_account_id q) (rs_device_id q) (ap_db s)) (rs_method q) (rs_path q) (rs_body q)
      (rs_timestamp q, rs_nonce q, sh_signature ?h) now s =
      (s\<lparr>ap_nonces := (nonce_prune now (ap_nonces s))(rs_nonce q \<mapsto> now)\<rparr>, Inr ())"
    by (simp add: check_signature_def key)
  then show ?thesis by (simp add: authenticate_def who stamp)
qed

text \<open>
  C15: a push that a registered device signs, within the window, with a new nonce and with the revision
  the account is at, is answered with the next revision, and its items are stored.
\<close>

theorem honest_push_accepted:
  assumes b64: "b64_faithful (w_prims W)"
    and readable: "\<forall>v \<in> snd ` set (signed_pairs (sign_request (w_prims W) q sign)). w_to_str W v = Some v"
    and ids: "rs_account_id q \<noteq> []" "rs_device_id q \<noteq> []" "CHR ''/'' \<notin> set (rs_account_id q)"
      "trim (rs_account_id q @ ''/'' @ rs_device_id q) = rs_account_id q @ ''/'' @ rs_device_id q"
    and shape: "rs_method q = ''POST''" "rs_path q = ITEMS_PATH" "AUTH_NONCE_LEN \<le> length (rs_nonce q)"
    and fresh: "i64_abs (now - rs_timestamp q) \<le>s CLOCK_SKEW_SECS" "nonce_prune now (ap_nonces s) (rs_nonce q) = None"
    and key: "device_key (rs_account_id q) (rs_device_id q) (ap_db s) = Some key" "public_key W key = Some key"
    and sign: "\<And>msg. length (sign msg) = 64 \<and> w_verify W key msg (sign msg)"
    and body: "length (rs_body q) \<le> MAX_BODY" "body_json W of_push (rs_body q) = Inr push"
    and row: "find_account (rs_account_id q) (ap_db s) = Some row" "pu_expected_revision push = ac_revision row"
  shows "\<exists>s'. router W (PostItems (sent_headers (sign_request (w_prims W) q sign)) (rs_body q)) now s =
      (s', Inr (JObj [(''revision'', i_json (ac_revision row + 1))])) \<and>
    db_items (ap_db s') = fold (upsert_item (rs_account_id q) (ac_revision row + 1) now) (pu_items push) (db_items (ap_db s))"
proof -
  note au = authenticate_sent [OF b64 readable ids _ _ shape(3) fresh key sign]
  have "find_account (rs_account_id q) (touch_device (rs_device_id q) now (ap_db s)) = Some row"
    "db_items (touch_device (rs_device_id q) now (ap_db s)) = db_items (ap_db s)"
    using row(1) by (simp_all add: find_account_def touch_device_def)
  then show ?thesis
    using au body row(2)
    by (simp add: api_push_items_def shape and_do_def on_db_def store_push_def Let_def ITEMS_PATH_def starts_with_def)
qed

section \<open>Two things the handlers give away\<close>

text \<open>
  A stale stamp is answered with its own message, and only once a key was found to check: so, with no
  valid signature, the answer tells whether the account has the device.
\<close>

theorem stale_stamp_tells_devices:
  assumes "Option.bind (header W hs ''authorization'') parse_authorization = Some (k, d)"
    and "read_signature W hs = Inr (t, n, sig)" and "AUTH_NONCE_LEN \<le> length n" and "CLOCK_SKEW_SECS <s i64_abs (now - t)"
  shows "snd (authenticate W ''GET'' ITEMS_PATH hs [] now s) =
    Inl (of_rejection (if Option.bind (device_key k d (ap_db s)) (public_key W) = None then BadSignature else StaleTimestamp))"
  using assms
  by (auto simp: authenticate_def check_signature_def auth_verify_def ITEMS_PATH_def starts_with_def split: option.split)

lemma items_since_Nil:
  "items_since k r b = [] \<longleftrightarrow> (\<forall>i \<in> set (db_items b). it_account i = k \<longrightarrow> ir_revision (it_record i) \<le>s r)"
proof -
  have "items_since k r b = [] \<longleftrightarrow> set (items_since k r b) = {}" by simp
  also have "\<dots> \<longleftrightarrow> (\<forall>i \<in> set (db_items b). it_account i = k \<longrightarrow> ir_revision (it_record i) \<le>s r)"
    by (auto simp: items_since_def word_sless_alt word_sle_eq)
  finally show ?thesis .
qed

text \<open>
  A pull takes the items and the revision under two locks. A push that lands in between is missed for
  good: the client is told it is at the revision of the push without having its items, and a pull
  from that revision does not bring them.
\<close>

theorem pull_can_miss:
  assumes au: "authenticate W ''GET'' ITEMS_PATH hs [] now s = (s1, Inr (k, d))"
    and row: "find_account k (ap_db s1) = Some row" "sint (ac_revision row) < 2 ^ 63 - 1"
    and old: "\<forall>i \<in> set (db_items (ap_db s1)). it_account i = k \<longrightarrow> ir_revision (it_record i) \<le>s ac_revision row"
  shows "snd (api_pull_items W (\<lambda>b. fst (store_push k (ac_revision row) items now' b)) ''GET'' ITEMS_PATH hs (ac_revision row) now s) =
      Inr (JObj [(''revision'', i_json (ac_revision row + 1)), (''items'', JArr [])]) \<and>
    items_since k (ac_revision row + 1) (fst (store_push k (ac_revision row) items now' (ap_db s1))) = []"
proof
  have none: "items_since k (ac_revision row) (ap_db s1) = []"
    using old by (simp add: items_since_Nil)
  let ?b = "fst (store_push k (ac_revision row) items now' (ap_db s1))"
  have "find_account k ?b = Some (row\<lparr>ac_revision := ac_revision row + 1\<rparr>)"
    using find_account_push [OF row(1)] by (simp add: store_push_def row Let_def)
  then show "snd (api_pull_items W (\<lambda>b. fst (store_push k (ac_revision row) items now' b)) ''GET'' ITEMS_PATH hs
      (ac_revision row) now s) = Inr (JObj [(''revision'', i_json (ac_revision row + 1)), (''items'', JArr [])])"
    using none by (simp add: api_pull_items_def and_do_def au on_db_def Let_def store_revision_def)
  have "ir_revision (it_record i) \<le>s ac_revision row + 1" if i: "i \<in> set (db_items ?b)" "it_account i = k" for i
  proof -
    have "i \<in> set (db_items (ap_db s1)) \<or> ir_revision (it_record i) = ac_revision row + 1"
      using i(1)
      by (auto simp: store_push_def row Let_def stored_item_def dest!: fold_upsert_rows)
    with old i(2) sint_next [OF row(2)] show ?thesis by (auto simp: word_sle_eq)
  qed
  then show "items_since k (ac_revision row + 1) ?b = []"
    by (simp add: items_since_Nil)
qed

section \<open>Witnesses\<close>

definition sample_pushed :: item_record where
  "sample_pushed = \<lparr>ir_id = ''i'', ir_revision = 0, ir_ciphertext = Some ''x'', ir_deleted = False, ir_proof = None\<rparr>"

definition sample_push :: json where
  "sample_push = JObj [(''expectedRevision'', JNum 0), (''items'', JArr [JObj [(''id'', JStr ''i''), (''ciphertext'', JStr ''x'')]])]"

abbreviation sample_server :: web where "sample_server \<equiv> sample_web sample_push JNull"

definition sample_row :: account_row where
  "sample_row = \<lparr>ac_new = sample_account ''a'', ac_revision = 0, ac_created_at = 5\<rparr>"

definition sample_state :: app where
  "sample_state = app_start (db_empty\<lparr>db_accounts := [sample_row],
     db_devices := [\<lparr>dv_id = ''d'', dv_account = ''a'', dv_public_key = sample_key, dv_label = None, dv_created_at = 5, dv_last_seen = None\<rparr>]\<rparr>)"

definition sample_call :: "string \<Rightarrow> bytes \<Rightarrow> request_to_sign" where
  "sample_call meth body = \<lparr>rs_account_id = ''a'', rs_device_id = ''d'', rs_method = meth, rs_path = ITEMS_PATH, rs_body = body,
     rs_timestamp = 1000, rs_nonce = ''0123456789abcdef''\<rparr>"

definition sample_sign :: "bytes \<Rightarrow> bytes" where "sample_sign m = sample_key @ sample_key"

lemma sample_sign_ok: "length (sample_sign msg) = 64 \<and> w_verify sample_server sample_key msg (sample_sign msg)"
  by (simp add: sample_sign_def sample_web_def sample_key_def)

lemma sample_sent: "\<forall>v \<in> snd ` set (signed_pairs h). w_to_str sample_server v = Some v"
  by (simp add: sample_web_def)

lemma sample_b64: "b64_faithful (w_prims sample_server)"
  by (simp add: sample_web_def sample_prims_ok)

lemma sample_device: "device_key ''a'' ''d'' (ap_db sample_state) = Some sample_key" "public_key sample_server sample_key = Some sample_key"
  by (simp_all add: sample_state_def app_start_def device_key_def public_key_def sample_key_def sample_web_def)

lemma sample_ids: "trim ''a/d'' = ''a/d''"
  by code_simp

lemma sample_fresh: "i64_abs (1030 - 1000) \<le>s CLOCK_SKEW_SECS" "nonce_prune 1030 (ap_nonces sample_state) n = None"
  by (simp_all add: i64_abs_def CLOCK_SKEW_SECS_def word_sless_alt word_sle_eq nonce_prune_def sample_state_def app_start_def)

lemma honest_push_accepted_witness:
  "\<exists>s'. router sample_server (PostItems (sent_headers (sign_request (w_prims sample_server) (sample_call ''POST'' ''1'') sample_sign)) ''1'')
      1030 sample_state = (s', Inr (JObj [(''revision'', i_json 1)])) \<and>
    db_items (ap_db s') = [\<lparr>it_account = ''a'', it_record = stored_item 1 sample_pushed, it_updated_at = 1030\<rparr>]"
proof -
  have push: "body_json sample_server of_push ''1'' = Inr \<lparr>pu_expected_revision = 0, pu_items = [sample_pushed]\<rparr>"
    by (simp add: body_json_def sample_web_def sample_prims_def sample_push_def of_push_def req_def dflt_def of_item_record_def
        of_nullable_def sample_pushed_def)
  have row: "find_account ''a'' (ap_db sample_state) = Some sample_row"
    by (simp add: find_account_def sample_state_def app_start_def sample_row_def sample_account_def)
  have "db_items (ap_db sample_state) = []" by (simp add: sample_state_def app_start_def db_empty_def)
  with honest_push_accepted [OF sample_b64 sample_sent, of "sample_call ''POST'' ''1''" 1030 sample_state sample_key sample_sign
      "\<lparr>pu_expected_revision = 0, pu_items = [sample_pushed]\<rparr>" sample_row]
    push row sample_sign_ok sample_device sample_ids sample_fresh
  show ?thesis
    by (simp add: sample_call_def AUTH_NONCE_LEN_def MAX_BODY_def sample_row_def upsert_item_def)
qed

lemma pull_answers_owner_witness:
  "\<exists>k d key. device_key k d (ap_db sample_state) = Some key \<and>
    carries sample_server (sent_headers (sign_request (w_prims sample_server) (sample_call ''GET'' []) sample_sign)) key ''GET'' ITEMS_PATH []"
proof -
  let ?hs = "sent_headers (sign_request (w_prims sample_server) (sample_call ''GET'' []) sample_sign)"
  have "\<exists>s'. authenticate sample_server ''GET'' ITEMS_PATH ?hs [] 1030 sample_state = (s', Inr (''a'', ''d'')) \<and>
      ap_db s' = touch_device ''d'' 1030 (ap_db sample_state)"
    using authenticate_sent [OF sample_b64 sample_sent, of "sample_call ''GET'' []" 1030 sample_state sample_key sample_sign]
      sample_sign_ok sample_device sample_ids sample_fresh
    by (simp add: sample_call_def AUTH_NONCE_LEN_def ITEMS_PATH_def starts_with_def)
  then have "\<exists>s' j. router sample_server (GetItems ?hs 0) 1030 sample_state = (s', Inr j)"
    by (auto simp: api_pull_items_def and_do_def on_db_def Let_def store_revision_def find_account_def touch_device_def
        sample_state_def app_start_def sample_row_def sample_account_def)
  then obtain s' j where "router sample_server (GetItems ?hs 0) 1030 sample_state = (s', Inr j)" by blast
  from pull_answers_owner [OF this] show ?thesis by blast
qed

lemma unsigned_budget_witness: "allowed_to ''x'' [(''x'', 61), (''x'', 62), (''y'', 63)] limiter_new \<le> 20"
  using unsigned_budget [of "[(''x'', 61), (''x'', 62), (''y'', 63)]" 1 "''x''" limiter_new "[]"]
  by (simp add: limiter_window_def signed_divide_int_def)

definition sample_enrol :: enrol_body where
  "sample_enrol = \<lparr>en_account_id = ''a'', en_salt = ''s'', en_kdf = ''k'', en_wrapped_vault_key = ''v'',
     en_wrapped_account_key = ''w'', en_account_public_key = sample_key, en_device_id = ''d'', en_public_key = sample_key,
     en_label = None, en_invite = ''c1''\<rparr>"

lemma sample_enrols:
  "snd (store_enrol (w_prims sample_server) ''c1'' (sample_account ''a''\<lparr>na_public_key := Some sample_key\<rparr>) ''d'' sample_key None 20
      sample_invited) = Inr ()"
  by (simp add: sample_db_simps sample_trim sample_web_def)

lemma writes_authorised_witness:
  "authorised sample_server (PostAccount Map.empty sample_enrol) 20 sample_invited ''a''"
proof -
  let ?W = sample_server and ?s = "app_start sample_invited"
  obtain b where b: "store_enrol (w_prims ?W) ''c1'' (sample_account ''a''\<lparr>na_public_key := Some sample_key\<rparr>) ''d'' sample_key None 20
      sample_invited = (b, Inr ())"
    using sample_enrols by (metis prod.collapse)
  have "decode_public_key ?W sample_key what = Inr sample_key" for what
    by (simp add: decode_public_key_def sample_web_def sample_prims_def sample_key_def)
  with b have "\<exists>s' r. router ?W (PostAccount Map.empty sample_enrol) 20 ?s = (s', r) \<and> ap_db s' = b"
    by (simp add: api_enrol_def and_do_def rate_limit_def limiter_allow_def limiter_new_def app_start_def on_db_def Let_def
        sample_enrol_def sample_account_def MAX_TRACKED_def)
  moreover have "account_state ''a'' b \<noteq> account_state ''a'' sample_invited"
  proof -
    have "find_account ''a'' b \<noteq> None"
      using b by (auto simp: store_enrol_def bind_eq_Some_conv insert_account_def insert_device_def find_account_None
          sample_account_def simp del: not_None_eq split: option.splits if_splits)
    then have "filter (\<lambda>c. ac_id c = ''a'') (db_accounts b) \<noteq> []"
      by (auto simp: find_account_None filter_empty_conv)
    then show ?thesis by (auto simp: account_state_def sample_invited_def create_invite_def db_empty_def)
  qed
  ultimately show ?thesis using writes_authorised [of ?W "PostAccount Map.empty sample_enrol" 20 ?s _ _ "''a''"]
    by (auto simp: app_start_def)
qed

end
