(* ===== verification/Sync_Client.thy ===== *)
theory Sync_Client
  imports Sync_Auth
begin

text \<open>
  The client side of sync (\<open>crates/yara-sync-client\<close>): which side wins when both changed an item
  (\<open>merge.rs\<close>), the proofs of deletions (\<open>deletes.rs\<close>), and what each request sends and how its answer
  is read (\<open>client.rs\<close>). The HTTP exchange itself is not modelled: a request is its method, path,
  headers and body, an answer its status and the JSON of its body.
\<close>

section \<open>Deciding\<close>

record local_item =
  li_id :: uuid
  li_updated_at :: u64
  li_deleted :: bool

definition local_present :: "uuid \<Rightarrow> u64 \<Rightarrow> local_item" where
  "local_present k at = \<lparr>li_id = k, li_updated_at = at, li_deleted = False\<rparr>"

definition local_deleted :: "uuid \<Rightarrow> u64 \<Rightarrow> local_item" where
  "local_deleted k at = \<lparr>li_id = k, li_updated_at = at, li_deleted = True\<rparr>"

record remote_item =
  ri_id :: uuid
  ri_updated_at :: u64
  ri_deleted :: bool

datatype merge_resolution = ApplyRemote | KeepLocal | ApplyDelete | BothChanged (remote_wins: bool)

definition reconcile :: "local_item option \<Rightarrow> remote_item \<Rightarrow> u64 \<Rightarrow> merge_resolution" where
  "reconcile mine remote last_sync_at =
     (case mine of
        None \<Rightarrow> if ri_deleted remote then ApplyDelete else ApplyRemote
      | Some l \<Rightarrow>
          (case (last_sync_at < li_updated_at l, li_deleted l, ri_deleted remote) of
             (_, True, True) \<Rightarrow> KeepLocal
           | (True, True, False) \<Rightarrow> KeepLocal
           | (False, True, False) \<Rightarrow> ApplyRemote
           | (False, False, True) \<Rightarrow> ApplyDelete
           | (False, False, False) \<Rightarrow> ApplyRemote
           | (True, False, True) \<Rightarrow> KeepLocal
           | (True, False, False) \<Rightarrow> BothChanged (li_updated_at l < ri_updated_at remote)))"

definition to_push :: "local_item list \<Rightarrow> u64 \<Rightarrow> local_item list" where
  "to_push ls last_sync_at = filter (\<lambda>l. last_sync_at < li_updated_at l) ls"

section \<open>The wire\<close>

datatype client_error =
    ClUnreachable | ClUnauthenticated | ClConflict | ClNoAccount | ClRefused string | ClCrypto error

record sync_item =
  si_id :: string
  si_revision :: i64
  si_ciphertext :: "string option"
  si_deleted :: bool
  si_proof :: "string option"

record item_page =
  pg_revision :: i64
  pg_items :: "sync_item list"

record client_account =
  cl_salt :: string
  cl_kdf :: string
  cl_wrapped_vault_key :: string
  cl_wrapped_account_key :: string
  cl_revision :: i64

record enrolment =
  eb_account_id :: string
  eb_salt :: string
  eb_kdf :: string
  eb_wrapped_vault_key :: string
  eb_wrapped_account_key :: string
  eb_account_public_key :: bytes
  eb_device_id :: string
  eb_public_key :: bytes
  eb_label :: "string option"
  eb_invite :: string

definition sync_item_json :: "sync_item \<Rightarrow> json" where
  "sync_item_json r = JObj
     ([(''id'', JStr (si_id r)), (''revision'', i_json (si_revision r))]
      @ skip_none ''ciphertext'' JStr (si_ciphertext r) @ [(''deleted'', JBool (si_deleted r))]
      @ skip_none ''proof'' JStr (si_proof r))"

definition of_sync_item :: "json \<Rightarrow> sync_item result" where
  "of_sync_item v = and_then (of_obj v) (\<lambda>kvs.
     and_then (req of_str (vals ''id'' kvs)) (\<lambda>k.
     and_then (dflt 0 of_i (vals ''revision'' kvs)) (\<lambda>rev.
     and_then (dflt None (of_nullable of_str) (vals ''ciphertext'' kvs)) (\<lambda>c.
     and_then (dflt False of_bool (vals ''deleted'' kvs)) (\<lambda>d.
     and_then (dflt None (of_nullable of_str) (vals ''proof'' kvs)) (\<lambda>p.
       Inr \<lparr>si_id = k, si_revision = rev, si_ciphertext = c, si_deleted = d, si_proof = p\<rparr>))))))"

definition of_item_page :: "json \<Rightarrow> item_page result" where
  "of_item_page v = and_then (of_obj v) (\<lambda>kvs.
     and_then (req of_i (vals ''revision'' kvs)) (\<lambda>r.
     and_then (req (of_arr of_sync_item) (vals ''items'' kvs)) (\<lambda>items.
       Inr \<lparr>pg_revision = r, pg_items = items\<rparr>)))"

definition of_account :: "json \<Rightarrow> client_account result" where
  "of_account v = and_then (of_obj v) (\<lambda>kvs.
     and_then (req of_str (vals ''salt'' kvs)) (\<lambda>salt.
     and_then (req of_str (vals ''kdf'' kvs)) (\<lambda>kdf.
     and_then (req of_str (vals ''wrappedVaultKey'' kvs)) (\<lambda>vk.
     and_then (req of_str (vals ''wrappedAccountKey'' kvs)) (\<lambda>ak.
     and_then (req of_i (vals ''revision'' kvs)) (\<lambda>r.
       Inr \<lparr>cl_salt = salt, cl_kdf = kdf, cl_wrapped_vault_key = vk, cl_wrapped_account_key = ak, cl_revision = r\<rparr>))))))"

definition of_pushed :: "json \<Rightarrow> i64 result" where
  "of_pushed v = and_then (of_obj v) (\<lambda>kvs. req of_i (vals ''revision'' kvs))"

definition client_push_json :: "i64 \<Rightarrow> sync_item list \<Rightarrow> json" where
  "client_push_json expected items =
     JObj [(''expectedRevision'', i_json expected), (''items'', JArr (map sync_item_json items))]"

definition client_register_json ::
    "prims \<Rightarrow> string \<Rightarrow> string \<Rightarrow> bytes \<Rightarrow> string option \<Rightarrow> string option \<Rightarrow> json" where
  "client_register_json P account device pk label invite = JObj
     ([(''accountId'', JStr account), (''deviceId'', JStr device), (''publicKey'', JStr (p_b64_encode P pk))]
      @ skip_none ''label'' JStr label @ skip_none ''invite'' JStr invite)"

definition enrolment_body :: "prims \<Rightarrow> enrolment \<Rightarrow> json" where
  "enrolment_body P e = JObj
     [(''accountId'', JStr (eb_account_id e)), (''salt'', JStr (eb_salt e)), (''kdf'', JStr (eb_kdf e)),
      (''wrappedVaultKey'', JStr (eb_wrapped_vault_key e)), (''wrappedAccountKey'', JStr (eb_wrapped_account_key e)),
      (''accountPublicKey'', JStr (p_b64_encode P (eb_account_public_key e))), (''deviceId'', JStr (eb_device_id e)),
      (''publicKey'', JStr (p_b64_encode P (eb_public_key e))), (''label'', nullable JStr (eb_label e)),
      (''invite'', JStr (eb_invite e))]"

record client =
  cn_base :: string
  cn_account_id :: string
  cn_device_id :: string
  cn_device_key :: bytes

definition trim_end_slash :: "string \<Rightarrow> string" where
  "trim_end_slash s = rev (dropWhile (\<lambda>c. c = CHR ''/'') (rev s))"

definition client_new :: "string \<Rightarrow> string \<Rightarrow> string \<Rightarrow> bytes \<Rightarrow> client" where
  "client_new base account device key =
     \<lparr>cn_base = trim_end_slash base, cn_account_id = account, cn_device_id = device, cn_device_key = key\<rparr>"

record http_request =
  rq_method :: string
  rq_url :: string
  rq_headers :: "(string \<times> string) list"
  rq_body :: bytes

text \<open>The headers of a signed request: \<open>sign\<close> is Ed25519 under the device key, \<open>random\<close> the nonce's bytes.\<close>

definition client_headers ::
    "prims \<Rightarrow> (bytes \<Rightarrow> bytes \<Rightarrow> bytes) \<Rightarrow> client \<Rightarrow> string \<Rightarrow> string \<Rightarrow> bytes \<Rightarrow> i64 \<Rightarrow> bytes \<Rightarrow> (string \<times> string) list" where
  "client_headers P sign c meth path body now random =
     signed_pairs (sign_request P
       \<lparr>rs_account_id = cn_account_id c, rs_device_id = cn_device_id c, rs_method = meth, rs_path = path, rs_body = body,
        rs_timestamp = now, rs_nonce = fresh_nonce P random\<rparr> (sign (cn_device_key c)))"

definition client_pull_request ::
    "prims \<Rightarrow> (bytes \<Rightarrow> bytes \<Rightarrow> bytes) \<Rightarrow> client \<Rightarrow> i64 \<Rightarrow> i64 \<Rightarrow> bytes \<Rightarrow> http_request" where
  "client_pull_request P sign c since now random =
     \<lparr>rq_method = ''GET'', rq_url = cn_base c @ ''/api/v1/items?since='' @ show_i64 since,
      rq_headers = client_headers P sign c ''GET'' ''/api/v1/items'' [] now random, rq_body = []\<rparr>"

definition client_push_request ::
    "prims \<Rightarrow> (bytes \<Rightarrow> bytes \<Rightarrow> bytes) \<Rightarrow> client \<Rightarrow> i64 \<Rightarrow> sync_item list \<Rightarrow> i64 \<Rightarrow> bytes \<Rightarrow> http_request" where
  "client_push_request P sign c expected items now random =
     (let body = p_json_print P (client_push_json expected items)
      in \<lparr>rq_method = ''POST'', rq_url = cn_base c @ ''/api/v1/items'',
          rq_headers = (''content-type'', ''application/json'') #
            client_headers P sign c ''POST'' ''/api/v1/items'' body now random,
          rq_body = body\<rparr>)"

definition client_register_as_account ::
    "prims \<Rightarrow> string \<Rightarrow> string \<Rightarrow> string \<Rightarrow> bytes \<Rightarrow> string option \<Rightarrow> (bytes \<Rightarrow> bytes) \<Rightarrow> i64 \<Rightarrow> bytes \<Rightarrow> http_request" where
  "client_register_as_account P base account device pk label sign now random =
     (let body = p_json_print P (client_register_json P account device pk label None);
          h = sign_as_account P account ''POST'' ''/api/v1/devices'' body now (fresh_nonce P random) sign
      in \<lparr>rq_method = ''POST'', rq_url = trim_end_slash base @ ''/api/v1/devices'',
          rq_headers = (''content-type'', ''application/json'') # signed_pairs h, rq_body = body\<rparr>)"

definition of_api_error :: "json \<Rightarrow> string result" where
  "of_api_error v = and_then (of_obj v) (\<lambda>kvs. req of_str (vals ''error'' kvs))"

text \<open>An answer: \<open>None\<close> for a body that is not JSON; \<open>status_text\<close> is how a status prints.\<close>

definition interpret_answer :: "(nat \<Rightarrow> string) \<Rightarrow> (json \<Rightarrow> 'a result) \<Rightarrow> nat \<times> json option \<Rightarrow> client_error + 'a" where
  "interpret_answer status_text f answer =
     (case answer of (status, body) \<Rightarrow>
        if 200 \<le> status \<and> status < 300 then
          (case and_then (ok_or Serde body) f of Inr x \<Rightarrow> Inr x | Inl _ \<Rightarrow> Inl (ClRefused ''the sync service returned something unreadable''))
        else
          Inl (if status = 401 then ClUnauthenticated
               else if status = 409 then ClConflict
               else if status = 404 then ClNoAccount
               else ClRefused (case and_then (ok_or Serde body) of_api_error of
                      Inr m \<Rightarrow> m | Inl _ \<Rightarrow> status_text status)))"

section \<open>Deletions\<close>

definition seal_proof :: "prims \<Rightarrow> bytes \<Rightarrow> unlocked_vault \<Rightarrow> tombstone \<Rightarrow> client_error + string" where
  "seal_proof P nonce v t =
     (case seal_deletion P nonce v t of
        Inl e \<Rightarrow> Inl (ClCrypto e)
      | Inr s \<Rightarrow> Inr (p_json_print P (sealed_json P s)))"

definition proven_deletion :: "prims \<Rightarrow> unlocked_vault \<Rightarrow> uuid \<Rightarrow> sync_item \<Rightarrow> tombstone option" where
  "proven_deletion P v k r =
     (if \<not> si_deleted r then None
      else Option.bind (si_proof r) (\<lambda>p.
        case and_then (ok_or Serde (p_json_parse P p)) (of_sealed P) of
          Inl e \<Rightarrow> None
        | Inr s \<Rightarrow> (case open_deletion P v k s of Inl e \<Rightarrow> None | Inr t \<Rightarrow> Some t)))"

section \<open>The rules\<close>

text \<open>
  What this machine did since its last sync wins; where it was quiet the remote is taken; both
  versions meet only when both sides changed the item.
\<close>

lemma reconcile_iff:
  "reconcile (Some l) r since = ApplyDelete \<longleftrightarrow> li_updated_at l \<le> since \<and> \<not> li_deleted l \<and> ri_deleted r"
  "reconcile (Some l) r since = ApplyRemote \<longleftrightarrow> li_updated_at l \<le> since \<and> \<not> ri_deleted r"
  "reconcile (Some l) r since = BothChanged w \<longleftrightarrow>
    since < li_updated_at l \<and> \<not> li_deleted l \<and> \<not> ri_deleted r \<and> w = (li_updated_at l < ri_updated_at r)"
  "reconcile None r since = (if ri_deleted r then ApplyDelete else ApplyRemote)"
  by (auto simp: reconcile_def not_le not_less split: bool.split)

end
