(* ===== verification/Sync_Wire.thy ===== *)
theory Sync_Wire
  imports Sync_Api Sync_Client
begin

text \<open>
  The two ends of the sync protocol against each other: what the client writes is what the server's
  handlers read, and what they answer is what the client reads. The two crates share no type.
\<close>

section \<open>Records\<close>

definition as_record :: "sync_item \<Rightarrow> item_record" where
  "as_record r = \<lparr>ir_id = si_id r, ir_revision = si_revision r, ir_ciphertext = si_ciphertext r, ir_deleted = si_deleted r,
     ir_proof = si_proof r\<rparr>"

definition as_sync_item :: "item_record \<Rightarrow> sync_item" where
  "as_sync_item r = \<lparr>si_id = ir_id r, si_revision = ir_revision r, si_ciphertext = ir_ciphertext r, si_deleted = ir_deleted r,
     si_proof = ir_proof r\<rparr>"

lemma sync_item_to_server [json_rt]: "of_item_record (sync_item_json r) = Inr (as_record r)"
  by (simp add: of_item_record_def sync_item_json_def as_record_def of_skip_none json_rt)

lemma record_to_client [json_rt]: "of_sync_item (item_record_json r) = Inr (as_sync_item r)"
  by (simp add: of_sync_item_def item_record_json_def as_sync_item_def of_skip_none json_rt)

lemma map_result_as: "(\<And>x. f (g x) = Inr (h x)) \<Longrightarrow> map_result f (map g xs) = Inr (map h xs)"
  by (induction xs) simp_all

lemma push_to_server:
  "of_push (client_push_json e items) = Inr \<lparr>pu_expected_revision = e, pu_items = map as_record items\<rparr>"
  by (simp add: of_push_def client_push_json_def json_rt map_result_as [where h = as_record])

lemma page_to_client:
  "of_item_page (JObj [(''revision'', i_json r), (''items'', JArr (map item_record_json items))]) =
    Inr \<lparr>pg_revision = r, pg_items = map as_sync_item items\<rparr>"
  by (simp add: of_item_page_def json_rt map_result_as [where h = as_sync_item])

definition enrolled_as :: "prims \<Rightarrow> enrolment \<Rightarrow> enrol_body" where
  "enrolled_as P e = \<lparr>en_account_id = eb_account_id e, en_salt = eb_salt e, en_kdf = eb_kdf e,
     en_wrapped_vault_key = eb_wrapped_vault_key e, en_wrapped_account_key = eb_wrapped_account_key e,
     en_account_public_key = p_b64_encode P (eb_account_public_key e), en_device_id = eb_device_id e,
     en_public_key = p_b64_encode P (eb_public_key e), en_label = eb_label e, en_invite = eb_invite e\<rparr>"

lemma enrolment_to_server: "of_enrol (enrolment_body P e) = Inr (enrolled_as P e)"
  by (simp add: of_enrol_def enrolment_body_def enrolled_as_def of_nullable_nullable)

lemma register_to_server:
  "of_register (client_register_json P account device pk label invite) =
    Inr \<lparr>rg_account_id = account, rg_device_id = device, rg_public_key = p_b64_encode P pk, rg_label = label, rg_invite = invite\<rparr>"
  by (simp add: of_register_def client_register_json_def of_skip_none)

lemma account_to_client:
  "of_account (account_json a) = Inr \<lparr>cl_salt = ab_salt a, cl_kdf = ab_kdf a, cl_wrapped_vault_key = ab_wrapped_vault_key a,
     cl_wrapped_account_key = ab_wrapped_account_key a, cl_revision = ab_revision a\<rparr>"
  by (simp add: of_account_def account_json_def json_rt)

text \<open>
  Every body one side of the protocol writes, the other reads back field for field: an enrolment,
  a device registration, a push and its items from client to server, and the account's blobs, a page
  of items and the new revision from server to client.
\<close>

theorem sync_wire_roundtrip:
  "of_enrol (enrolment_body P e) = Inr (enrolled_as P e) \<and>
   of_register (client_register_json P account device pk label invite) =
     Inr \<lparr>rg_account_id = account, rg_device_id = device, rg_public_key = p_b64_encode P pk, rg_label = label, rg_invite = invite\<rparr> \<and>
   of_push (client_push_json r items) = Inr \<lparr>pu_expected_revision = r, pu_items = map as_record items\<rparr> \<and>
   of_account (account_json a) = Inr \<lparr>cl_salt = ab_salt a, cl_kdf = ab_kdf a, cl_wrapped_vault_key = ab_wrapped_vault_key a,
     cl_wrapped_account_key = ab_wrapped_account_key a, cl_revision = ab_revision a\<rparr> \<and>
   of_item_page (JObj [(''revision'', i_json r), (''items'', JArr (map item_record_json stored))]) =
     Inr \<lparr>pg_revision = r, pg_items = map as_sync_item stored\<rparr> \<and>
   of_pushed (JObj [(''revision'', i_json r)]) = Inr r"
  by (simp add: enrolment_to_server register_to_server push_to_server account_to_client page_to_client of_pushed_def json_rt)

section \<open>A client against the server\<close>

text \<open>
  What a pull that the server answers leaves the client with, and what a refusal becomes.
\<close>

definition http_answer :: "json answer \<Rightarrow> nat \<times> json option" where
  "http_answer a = (case a of Inr j \<Rightarrow> (200, Some j) | Inl e \<Rightarrow> (api_status e, Some (JObj [(''error'', JStr (api_text e))])))"

lemma read_answer:
  "interpret_answer st f (http_answer (Inr j)) =
    (case f j of Inr x \<Rightarrow> Inr x | Inl _ \<Rightarrow> Inl (ClRefused ''the sync service returned something unreadable''))"
  "interpret_answer st f (http_answer (Inl (of_rejection rej))) = Inl ClUnauthenticated"
  "interpret_answer st f (http_answer (Inl (of_store_error (PushConflict r)))) = Inl ClConflict"
  "interpret_answer st f (http_answer (Inl (of_store_error NoAccount))) = Inl ClNoAccount"
  "interpret_answer st f (http_answer (Inl (of_store_error BadInvite))) = Inl (ClRefused ''that invite is not usable'')"
  by (simp_all add: interpret_answer_def http_answer_def of_rejection_def of_api_error_def)

end
