(* ===== verification/Server_Pull.thy ===== *)
theory Server_Pull
  imports Server_Safety Sync_Wire
begin

text \<open>
  What a device learns from two pulls of its account in a row, the handlers of every other request
  running before, between and inside them. A pull (\<open>pull_items\<close> of crates/yara-sync/src/api.rs) reads
  the items under one lock and the revision under another; \<open>pull_can_miss\<close> of \<open>Server_Safety\<close> shows
  what a push to the account loses when it lands between the two, so the property here is about pulls
  that no such push divides.
\<close>

section \<open>What the handlers do to the database\<close>

text \<open>
  The handlers' operations on the tables, each under one lock, the ones of a push apart: the commands of
  the administrator (\<open>purge\<close>, \<open>delete-account\<close>) are no handlers.
\<close>

inductive quiet_step :: "db \<Rightarrow> db \<Rightarrow> bool" where
  quiet_touch: "quiet_step b (touch_device d now b)"
| quiet_enrol: "store_enrol P s a d pk label now b = (b', r) \<Longrightarrow> quiet_step b b'"
| quiet_register: "register_device d j pk label now b = (b', r) \<Longrightarrow> quiet_step b b'"
| quiet_bootstrap: "register_device_on_invite P s j d pk label now b = (b', r) \<Longrightarrow> quiet_step b b'"
| quiet_remove: "remove_device j d b = (b', found) \<Longrightarrow> quiet_step b b'"

text \<open>What handlers running in any order do, with the accounts to which a push was accepted, in order.\<close>

inductive served :: "string list \<Rightarrow> db \<Rightarrow> db \<Rightarrow> bool" where
  served_none: "served [] b b"
| served_quiet: "served ps b b1 \<Longrightarrow> quiet_step b1 b2 \<Longrightarrow> served ps b b2"
| served_push: "served ps b b1 \<Longrightarrow> store_push j expected items now b1 = (b2, Inr n) \<Longrightarrow> served (ps @ [j]) b b2"

lemma quiet_db_step: "quiet_step b b' \<Longrightarrow> db_step b b'"
  by (induction rule: quiet_step.induct) (auto intro: db_step.intros)

lemma quiet_items: "quiet_step b b' \<Longrightarrow> db_items b' = db_items b"
  by (induction rule: quiet_step.induct)
    (auto simp: touch_device_def store_enrol_def register_device_def register_device_on_invite_def remove_device_def
      insert_account_def insert_device_def bind_eq_Some_conv split: option.splits if_splits dest: spend_invite_keeps(3))

lemma find_account_appended:
  "find_account k b = Some row \<Longrightarrow> find_account k (b\<lparr>db_accounts := db_accounts b @ rows\<rparr>) = Some row"
  by (simp add: find_account_def find_append)

lemma spend_find_account: "spend_invite P s j now b = Some b' \<Longrightarrow> find_account k b' = find_account k b"
  using spend_invite_keeps(1) by (simp add: find_account_def)

lemma insert_find_account: "insert_account a now b = Some b' \<Longrightarrow> find_account k b = Some row \<Longrightarrow> find_account k b' = Some row"
  by (auto simp: insert_account_def find_account_appended split: if_splits)

lemma device_find_account: "insert_device d j pk label now b = Some b' \<Longrightarrow> find_account k b' = find_account k b"
  by (auto simp: insert_device_def find_account_def split: if_splits)

lemma quiet_account: "quiet_step b b' \<Longrightarrow> find_account k b = Some row \<Longrightarrow> find_account k b' = Some row"
proof (induction rule: quiet_step.induct)
  case (quiet_touch b d now)
  then show ?case by (simp add: find_account_def touch_device_def)
next
  case (quiet_enrol P s a d pk label now b b' r)
  have "find_account k b2 = Some row" if "spend_invite P s (na_id a) now b = Some b1" "insert_account a now b1 = Some b2" for b1 b2
    using insert_find_account [OF that(2)] spend_find_account [OF that(1)] quiet_enrol.prems by simp
  with quiet_enrol show ?case
    by (auto simp: store_enrol_def bind_eq_Some_conv device_find_account split: option.splits)
next
  case (quiet_register d j pk label now b b' r)
  then show ?case by (auto simp: register_device_def device_find_account split: option.splits)
next
  case (quiet_bootstrap P s j d pk label now b b' r)
  then show ?case
    by (auto simp: register_device_on_invite_def spend_find_account device_find_account split: option.splits if_splits)
next
  case (quiet_remove j d b b' found)
  then show ?case by (auto simp: remove_device_def find_account_def)
qed

text \<open>Every request the router answers is such a run.\<close>

lemma served_trans:
  assumes "served qs b1 b2" and "served ps b b1"
  shows "served (ps @ qs) b b2"
  using assms by (induction rule: served.induct) (auto intro: served_quiet served_push simp flip: append_assoc)

lemma served_touch: "served [] b (touch_device d now b)"
  by (blast intro: served.intros quiet_touch)

lemma on_db_served:
  assumes "on_db f s = (s', r)" and "\<And>b b' x. f b = (b', x) \<Longrightarrow> quiet_step b b'"
  shows "served [] (ap_db s) (ap_db s')"
  using assms on_db_state [OF assms(1)] by (metis prod.collapse served_none served_quiet)

lemma authenticate_served: "authenticate W meth path hs body now s = (s', who) \<Longrightarrow> served [] (ap_db s) (ap_db s')"
  using authenticate_ok authenticate_err served_touch served_none by (metis old.sum.exhaust surj_pair)

lemma signer_served: "account_signer W meth path hs body now s = (s', who) \<Longrightarrow> ap_db s' = ap_db s"
  using account_signer_ok account_signer_err by (metis old.sum.exhaust)

lemma limit_db: "rate_limit W hs now s = (s', r) \<Longrightarrow> ap_db s' = ap_db s"
  using rate_limit_db by (metis fst_conv)

lemma and_do_served:
  assumes "and_do m f = (s', r)" and "m = (s1, x)" and "served ps b (ap_db s1)"
    and "\<And>y. x = Inr y \<Longrightarrow> f y s1 = (s', r) \<Longrightarrow> \<exists>qs. served qs (ap_db s1) (ap_db s')"
  shows "\<exists>qs. served qs b (ap_db s')"
  using assms by (cases x) (auto simp: and_do_def intro: served_trans)

lemma store_push_err: "store_push j expected items now b = (b', Inl e) \<Longrightarrow> b' = b"
  by (auto simp: store_push_def Let_def split: option.splits if_splits)

lemma push_served: "store_push j expected items now b = (b', r) \<Longrightarrow> \<exists>ps. served ps b b'"
  using served_push [OF served_none] served_none store_push_err by (cases r) metis+

lemma on_push_served: "on_db (store_push j expected items now) s = (s', r) \<Longrightarrow> \<exists>ps. served ps (ap_db s) (ap_db s')"
  using on_db_state push_served by (metis prod.collapse)

lemma on_db_quiet:
  assumes "on_db f s = (s', r)" and "\<And>b. quiet_step b (fst (f b))"
  shows "\<exists>ps. served ps (ap_db s) (ap_db s')"
  using on_db_state [OF assms(1)] assms(2) served_none served_quiet by metis

lemma on_quiet_served:
  "on_db (store_enrol P invite a d pk label now) s = (s', r) \<Longrightarrow> \<exists>ps. served ps (ap_db s) (ap_db s')"
  "on_db (register_device d j pk label now) s = (s', r) \<Longrightarrow> \<exists>ps. served ps (ap_db s) (ap_db s')"
  "on_db (register_device_on_invite P invite j d pk label now) s = (s', r) \<Longrightarrow> \<exists>ps. served ps (ap_db s) (ap_db s')"
  by (erule on_db_quiet, rule quiet_enrol quiet_register quiet_bootstrap, rule prod.collapse [symmetric])+

lemma remove_served: "remove_device j d b = (b', found) \<Longrightarrow> \<exists>ps. served ps b b'"
  using quiet_remove served_none served_quiet by meson

lemma register_api_served:
  assumes "api_register_device W meth path hs body now s = (s', r)"
  shows "\<exists>ps. served ps (ap_db s) (ap_db s')"
proof -
  obtain s1 lim where lim: "rate_limit W hs now s = (s1, lim)" by fastforce
  obtain s2 sg where sg: "account_signer W meth path hs body now s1 = (s2, sg)" by fastforce
  note db = limit_db [OF lim] signer_served [OF sg]
  show ?thesis
    using assms lim sg db served_none
    by (fastforce simp: api_register_device_def and_do_def
        split: prod.splits sum.splits if_splits option.splits dest: on_quiet_served)
qed

lemma router_served:
  assumes "router W q now s = (s', r)"
  shows "\<exists>ps. served ps (ap_db s) (ap_db s')"
proof (cases q)
  case (GetAccount hs j)
  then show ?thesis using assms limit_db
    by (auto simp: api_account_def and_do_def intro: served_none split: prod.splits sum.splits)
next
  case (PostAccount hs body)
  obtain s1 lim where lim: "rate_limit W hs now s = (s1, lim)" by fastforce
  from limit_db [OF lim] lim PostAccount show ?thesis using assms served_none
    by (fastforce simp: api_enrol_def and_do_def split: prod.splits sum.splits dest: on_quiet_served(1))
next
  case (PostDevices hs body)
  then show ?thesis using assms register_api_served by simp
next
  case (DeleteDevice hs seg)
  then show ?thesis using assms limit_db signer_served
    by (auto simp: api_revoke_device_def and_do_def intro: served_none split: prod.splits sum.splits dest: remove_served)
next
  case (GetItems hs since)
  then show ?thesis using assms
    by (auto simp: api_pull_items_def and_do_def on_db_def Let_def split: prod.splits sum.splits dest: authenticate_served)
next
  case (PostItems hs body)
  obtain s1 who where au: "authenticate W ''POST'' ITEMS_PATH hs body now s = (s1, who)" by fastforce
  have "\<exists>qs. served qs (ap_db s1) (ap_db s')" if "\<not> MAX_BODY < length body"
    using assms au that PostItems served_none
    by (auto simp: api_push_items_def and_do_def split: prod.splits sum.splits dest: on_push_served)
  then show ?thesis
    using assms PostItems served_trans [OF _ authenticate_served [OF au]] served_none
    by (cases "MAX_BODY < length body") (auto simp: api_push_items_def)
qed

section \<open>What a page brings\<close>

lemma find_item_items: "db_items b' = db_items b \<Longrightarrow> find_item k x b' = find_item k x b"
  by (simp add: find_item_def)

lemma since_inv_served:
  assumes "served ps b b'" and "since_inv k r b0 n b" and "sint r + int (n + length ps) < 2 ^ 63"
  shows "since_inv k r b0 (n + length ps) b'"
  using assms
proof (induction rule: served.induct)
  case (served_quiet ps b b1 b2)
  then have inv: "since_inv k r b0 (n + length ps) b1" by simp
  moreover have "db_wf b2" using inv db_wf_step [OF quiet_db_step [OF served_quiet.hyps(2)]] by (simp add: since_inv_def)
  ultimately show ?case
    using quiet_account [OF served_quiet.hyps(2)] find_item_items [OF quiet_items [OF served_quiet.hyps(2)]]
    by (fastforce simp: since_inv_def)
next
  case (served_push ps b b1 j expected items now b2 m)
  then have inv: "since_inv k r b0 (n + length ps) b1" by simp
  from since_inv_push [OF inv _ served_push.hyps(2)] served_push.prems(2) show ?case by simp
qed simp

text \<open>What a run without a push to the account leaves of it.\<close>

lemma push_elsewhere:
  assumes "store_push j expected items now b = (b', r)" and "k \<noteq> j"
  shows "find_account k b' = find_account k b" and "find_item k x b' = find_item k x b"
proof -
  have part: "find P xs = find P (filter Q xs)" if "\<And>y. P y \<Longrightarrow> Q y" for P Q and xs :: "'z list"
    using that by (induction xs) auto
  have st: "account_state k b' = account_state k b" using state_push [OF assms(2)] assms(1) by (metis fst_conv)
  have "find_account k c = find (\<lambda>a. ac_id a = k) (filter (\<lambda>a. ac_id a = k) (db_accounts c))" for c
    unfolding find_account_def by (rule part)
  with st show "find_account k b' = find_account k b" by (simp add: account_state_def)
  have "find_item k x c = find (\<lambda>i. it_account i = k \<and> it_id i = x) (filter (\<lambda>i. it_account i = k) (db_items c))" for c
    unfolding find_item_def by (rule part) simp
  with st show "find_item k x b' = find_item k x b" by (simp add: account_state_def)
qed

lemma calm_run:
  assumes "served ps b b'" and "k \<notin> set ps" and "find_account k b = Some row"
  shows "find_account k b' = Some row \<and> (\<forall>x. find_item k x b' = find_item k x b)"
  using assms
proof (induction rule: served.induct)
  case (served_quiet ps b b1 b2)
  then show ?case using quiet_account find_item_items [OF quiet_items] by simp
next
  case (served_push ps b b1 j expected items now b2 n)
  then show ?case using push_elsewhere [OF served_push.hyps(2)] by simp
qed simp

lemma served_wf: "served ps b b' \<Longrightarrow> db_wf b \<Longrightarrow> db_wf b'"
  by (induction rule: served.induct) (auto dest: wf_push db_wf_step [OF quiet_db_step])

text \<open>No item of the account carries a revision that the account has not reached.\<close>

definition revisions_reached :: "string \<Rightarrow> db \<Rightarrow> bool" where
  "revisions_reached k b \<longleftrightarrow> (\<exists>row. find_account k b = Some row \<and>
     (\<forall>i \<in> set (db_items b). it_account i = k \<longrightarrow> ir_revision (it_record i) \<le>s ac_revision row))"

lemma reached_push:
  assumes "revisions_reached k b" and "store_push j expected items now b = (b', Inr n)"
    and "find_account k b = Some row" and "sint (ac_revision row) < 2 ^ 63 - 1"
  shows "revisions_reached k b' \<and>
    (\<exists>row'. find_account k b' = Some row' \<and> sint (ac_revision row') \<le> sint (ac_revision row) + 1)"
proof (cases "b' = b")
  case True
  then show ?thesis using assms by auto
next
  case False
  then obtain r where r: "find_account j b = Some r" and b': "b' = pushed j (ac_revision r + 1) items now b"
    using store_push_pushed [OF assms(2)] by blast
  have acc: "find_account k b' = Some (if k = j then row\<lparr>ac_revision := ac_revision r + 1\<rparr> else row)"
    using find_account_push [OF assms(3)] by (simp add: b' pushed_def)
  have r_row: "k = j \<Longrightarrow> r = row" using r assms(3) by simp
  have old: "ir_revision (it_record i) \<le>s ac_revision row" if "i \<in> set (db_items b)" "it_account i = k" for i
    using assms(1,3) that by (auto simp: revisions_reached_def)
  have "sint (ir_revision (it_record i)) \<le> sint (if k = j then ac_revision r + 1 else ac_revision row)"
    if i: "i \<in> set (db_items b')" "it_account i = k" for i
    using fold_upsert_rows [OF i(1) [unfolded b' pushed_def, simplified]] old i(2) r_row sint_next [OF assms(4)]
    by (fastforce simp: word_sle_eq stored_item_def)
  with acc show ?thesis using r_row sint_next [OF assms(4)]
    by (auto simp: revisions_reached_def word_sle_eq split: if_splits)
qed

lemma reached_served:
  assumes "served ps b b'" and "revisions_reached k b" and "find_account k b = Some row"
    and "sint (ac_revision row) + int (length ps) < 2 ^ 63"
  shows "revisions_reached k b' \<and>
    (\<exists>row'. find_account k b' = Some row' \<and> sint (ac_revision row') \<le> sint (ac_revision row) + int (length ps))"
  using assms
proof (induction rule: served.induct)
  case (served_quiet ps b b1 b2)
  then obtain row1 where row1: "find_account k b1 = Some row1" "sint (ac_revision row1) \<le> sint (ac_revision row) + int (length ps)"
    and r1: "revisions_reached k b1" by blast
  from r1 row1 show ?case
    using quiet_account [OF served_quiet.hyps(2) row1(1)] quiet_items [OF served_quiet.hyps(2)]
    by (auto simp: revisions_reached_def)
next
  case (served_push ps b b1 j expected items now b2 n)
  then obtain row1 where row1: "find_account k b1 = Some row1" "sint (ac_revision row1) \<le> sint (ac_revision row) + int (length ps)"
    and r1: "revisions_reached k b1" by auto
  from reached_push [OF r1 served_push.hyps(2) row1(1)] row1(2) served_push.prems(3) show ?case by fastforce
qed auto

section \<open>Two pulls in a row\<close>

lemma pull_reads:
  assumes "api_pull_items W f ''GET'' ITEMS_PATH hs since now s = (s', Inr j)"
    and "Option.bind (header W hs ''authorization'') parse_authorization = Some (k, d)"
    and "of_item_page j = Inr pg"
  shows "ap_db s' = f (touch_device d now (ap_db s)) \<and> store_revision k (ap_db s') = Inr (pg_revision pg) \<and>
    pg_items pg = map as_sync_item (items_since k since (touch_device d now (ap_db s)))"
proof -
  obtain s1 who where au: "authenticate W ''GET'' ITEMS_PATH hs [] now s = (s1, who)" by fastforce
  with assms(1) obtain kd where who: "who = Inr kd" by (cases who) (auto simp: api_pull_items_def and_do_def)
  have kd: "kd = (k, d)"
    using au who assms(2) by (auto simp: authenticate_def and_then_def ok_or_def split: sum.splits prod.splits option.splits)
  note db = authenticate_ok [OF au [unfolded who kd]]
  from assms(1) au who kd obtain rev where rev: "store_revision k (f (ap_db s1)) = Inr rev" "ap_db s' = f (ap_db s1)"
    "j = JObj [(''revision'', i_json rev), (''items'', JArr (map item_record_json (items_since k since (ap_db s1))))]"
    by (auto simp: api_pull_items_def and_do_def on_db_def Let_def split: sum.splits)
  with assms(3) db show ?thesis using page_to_client by auto
qed

text \<open>What the other handlers do inside a pull, when none of them accepts a push to the account.\<close>

definition undivided :: "string \<Rightarrow> (db \<Rightarrow> db) \<Rightarrow> bool" where
  "undivided k between \<longleftrightarrow> (\<forall>b. \<exists>ps. served ps b (between b) \<and> k \<notin> set ps)"

lemma undivided_pull:
  assumes "undivided k f" and "db_wf (ap_db s)" and "find_account k (ap_db s) = Some row"
    and "ap_db s' = f (touch_device d now (ap_db s))"
  shows "db_wf (ap_db s')" and "find_account k (ap_db s') = Some row"
    and "find_item k x (ap_db s') = find_item k x (ap_db s)"
proof -
  let ?b = "touch_device d now (ap_db s)"
  obtain ps where ps: "served ps ?b (ap_db s')" "k \<notin> set ps" using assms(1,4) by (auto simp: undivided_def)
  have t: "quiet_step (ap_db s) ?b" by (rule quiet_touch)
  show "db_wf (ap_db s')" using served_wf [OF ps(1)] db_wf_step [OF quiet_db_step [OF t] assms(2)] by blast
  show "find_account k (ap_db s') = Some row" "find_item k x (ap_db s') = find_item k x (ap_db s)"
    using calm_run [OF ps quiet_account [OF t assms(3)]] find_item_items [OF quiet_items [OF t]] by auto
qed

lemma page_find:
  assumes "db_wf b"
  shows "find (\<lambda>i. si_id i = x) (map as_sync_item (items_since k r b)) =
    (case find_item k x b of None \<Rightarrow> None
     | Some i \<Rightarrow> if r <s ir_revision (it_record i) then Some (as_sync_item (it_record i)) else None)"
proof -
  have "find (\<lambda>i. si_id i = x) (map as_sync_item rs) = map_option as_sync_item (find (\<lambda>r. ir_id r = x) rs)" for rs
    by (induction rs) (auto simp: as_sync_item_def)
  then show ?thesis by (simp add: items_since_find [OF assms] split: option.split)
qed

text \<open>
  C19: a device that pulls its account twice in a row, the second time from the revision that the first
  answer gave, is given each change made to the account up to the second pull: whichever requests
  were served in between and while the pulls ran, by whom and to which accounts, an id that is on
  the second page is there once, with the record that the server holds and a revision the first
  answer had not reached, and under an id that is not on the page the server holds what it held at
  the first pull. The revision of the page is the one the account is at, and no item is beyond it,
  so the next pull starts from the same footing. The exceptions: a push to the account accepted
  between the two reads of one pull (\<open>undivided\<close>; what that loses is \<open>pull_can_miss\<close>), and the
  commands of the server's administrator, which take tombstones and accounts away.
\<close>

theorem pulls_bring_changes:
  assumes start: "db_wf (ap_db s0)" "revisions_reached k (ap_db s0)"
    and who: "Option.bind (header W hs1 ''authorization'') parse_authorization = Some (k, d1)"
      "Option.bind (header W hs2 ''authorization'') parse_authorization = Some (k, d2)"
    and first: "api_pull_items W f1 ''GET'' ITEMS_PATH hs1 since now1 s0 = (s1, Inr j1)" "of_item_page j1 = Inr p1"
    and served: "served ps (ap_db s1) (ap_db s2)" "sint (pg_revision p1) + int (length ps) < 2 ^ 63"
    and second: "api_pull_items W f2 ''GET'' ITEMS_PATH hs2 (pg_revision p1) now2 s2 = (s3, Inr j2)" "of_item_page j2 = Inr p2"
    and undivided: "undivided k f1" "undivided k f2"
  shows "(\<forall>x. case find (\<lambda>i. si_id i = x) (pg_items p2) of
        Some i \<Rightarrow> pg_revision p1 <s si_revision i \<and>
          (\<exists>row. find_item k x (ap_db s3) = Some row \<and> i = as_sync_item (it_record row))
      | None \<Rightarrow> find_item k x (ap_db s3) = find_item k x (ap_db s0)) \<and>
    distinct (map si_id (pg_items p2)) \<and>
    store_revision k (ap_db s3) = Inr (pg_revision p2) \<and> revisions_reached k (ap_db s3)"
proof -
  let ?r = "pg_revision p1" let ?b2 = "touch_device d2 now2 (ap_db s2)"
  obtain row where row: "find_account k (ap_db s0) = Some row"
    and old: "\<forall>i \<in> set (db_items (ap_db s0)). it_account i = k \<longrightarrow> ir_revision (it_record i) \<le>s ac_revision row"
    using start(2) by (auto simp: revisions_reached_def)
  note r1 = pull_reads [OF first(1) who(1) first(2)] and r2 = pull_reads [OF second(1) who(2) second(2)]
  note u1 = undivided_pull [OF undivided(1) start(1) row r1 [THEN conjunct1]]
  have rev: "ac_revision row = ?r" using r1 [THEN conjunct2, THEN conjunct1] u1(2) by (simp add: store_revision_def)
  have reached1: "revisions_reached k (ap_db s1)"
  proof -
    have "ir_revision (it_record i) \<le>s ac_revision row" if "i \<in> set (db_items (ap_db s1))" "it_account i = k" for i
      using find_item_member [OF u1(1)] u1(3) that old find_item_Some by metis
    then show ?thesis using u1(2) by (auto simp: revisions_reached_def)
  qed
  have "since_inv k ?r (ap_db s0) 0 (ap_db s1)"
    using u1 old rev
    by (auto simp: since_inv_def word_sless_alt word_sle_eq split: option.splits dest: find_item_Some)
  from since_inv_served [OF served(1) this] served(2) have inv: "since_inv k ?r (ap_db s0) (length ps) (ap_db s2)" by simp
  obtain row2 where row2: "find_account k (ap_db s2) = Some row2" and reached2: "revisions_reached k (ap_db s2)"
    using reached_served [OF served(1) reached1 u1(2)] served(2) rev by auto
  have wf2: "db_wf (ap_db s2)" using inv by (simp add: since_inv_def)
  have t: "quiet_step (ap_db s2) ?b2" by (rule quiet_touch)
  have wfb: "db_wf ?b2" using db_wf_step [OF quiet_db_step [OF t] wf2] .
  have same: "find_item k x ?b2 = find_item k x (ap_db s2)" for x using find_item_items [OF quiet_items [OF t]] .
  note u2 = undivided_pull [OF undivided(2) wf2 row2 r2 [THEN conjunct1]]
  have held: "case find_item k x (ap_db s2) of None \<Rightarrow> find_item k x (ap_db s0) = None
      | Some i \<Rightarrow> if ?r <s ir_revision (it_record i) then True else find_item k x (ap_db s0) = Some i" for x
    using inv unfolding since_inv_def by blast
  have "case find (\<lambda>i. si_id i = x) (pg_items p2) of
        Some i \<Rightarrow> ?r <s si_revision i \<and> (\<exists>row. find_item k x (ap_db s3) = Some row \<and> i = as_sync_item (it_record row))
      | None \<Rightarrow> find_item k x (ap_db s3) = find_item k x (ap_db s0)" for x
    using held [of x] page_find [OF wfb, of x k ?r] r2 [THEN conjunct2] u2(3) [of x] same [of x]
    by (auto simp: as_sync_item_def split: option.splits if_splits)
  moreover have "distinct (map si_id (pg_items p2))"
    using items_since_distinct [OF wfb, of k ?r] r2 by (simp add: comp_def as_sync_item_def)
  moreover have "revisions_reached k (ap_db s3)"
  proof -
    have "ir_revision (it_record i) \<le>s ac_revision row2" if "i \<in> set (db_items (ap_db s3))" "it_account i = k" for i
      using find_item_member [OF u2(1)] u2(3) that reached2 row2 find_item_Some unfolding revisions_reached_def
      by (metis option.inject)
    then show ?thesis using u2(2) by (auto simp: revisions_reached_def)
  qed
  ultimately show ?thesis using r2 by blast
qed

section \<open>Witness\<close>

abbreviation sample_get :: headers where
  "sample_get \<equiv> sent_headers (sign_request (w_prims sample_server) (sample_call ''GET'' []) sample_sign)"

lemma sample_get_authenticates:
  assumes "device_key ''a'' ''d'' b = Some sample_key"
  shows "\<exists>ns. authenticate sample_server ''GET'' ITEMS_PATH sample_get [] 1030 (app_start b) =
    ((app_start b)\<lparr>ap_nonces := ns, ap_db := touch_device ''d'' 1030 b\<rparr>, Inr (''a'', ''d''))"
  using authenticate_sent [OF sample_b64 sample_sent, of "sample_call ''GET'' []" 1030 "app_start b" sample_key sample_sign]
    sample_sign_ok sample_device(2) sample_ids sample_fresh assms
  by (simp add: sample_call_def AUTH_NONCE_LEN_def ITEMS_PATH_def starts_with_def app_start_def sample_state_def)

lemma sample_get_who: "Option.bind (header sample_server sample_get ''authorization'') parse_authorization = Some (''a'', ''d'')"
  using sample_get_authenticates [of "ap_db sample_state"] sample_device(1)
  by (auto simp: authenticate_def and_then_def ok_or_def split: sum.splits prod.splits option.splits)

lemma sample_get_answer:
  assumes "device_key ''a'' ''d'' b = Some sample_key" and "find_account ''a'' b = Some row"
  shows "\<exists>s. api_pull_items sample_server id ''GET'' ITEMS_PATH sample_get since 1030 (app_start b) =
    (s, Inr (JObj [(''revision'', i_json (ac_revision row)), (''items'', JArr (map item_record_json (items_since ''a'' since (touch_device ''d'' 1030 b))))])) \<and>
    ap_db s = touch_device ''d'' 1030 b"
proof -
  obtain ns where "authenticate sample_server ''GET'' ITEMS_PATH sample_get [] 1030 (app_start b) =
    ((app_start b)\<lparr>ap_nonces := ns, ap_db := touch_device ''d'' 1030 b\<rparr>, Inr (''a'', ''d''))"
    using sample_get_authenticates [OF assms(1)] by blast
  moreover have "store_revision ''a'' (touch_device ''d'' 1030 b) = Inr (ac_revision row)"
    using assms(2) by (simp add: store_revision_def find_account_def touch_device_def)
  ultimately show ?thesis by (simp add: api_pull_items_def and_do_def on_db_def Let_def)
qed

text \<open>The account's first item is pushed between two pulls, and the second brings it.\<close>

lemma pulls_bring_changes_witness:
  "\<exists>s j p i. api_pull_items sample_server id ''GET'' ITEMS_PATH sample_get 0 1030
      (app_start (fst (store_push ''a'' 0 [sample_pushed] 1030 (touch_device ''d'' 1030 (ap_db sample_state))))) = (s, Inr j) \<and>
    of_item_page j = Inr p \<and> find (\<lambda>i. si_id i = ''i'') (pg_items p) = Some i \<and> si_ciphertext i = Some ''x''"
proof -
  let ?b0 = "ap_db sample_state" let ?b1 = "touch_device ''d'' 1030 ?b0" let ?b2 = "fst (store_push ''a'' 0 [sample_pushed] 1030 ?b1)"
  let ?row = "sample_row\<lparr>ac_revision := 1\<rparr>"
  have s0: "sample_state = app_start ?b0" by (simp add: sample_state_def app_start_def)
  have acc0: "find_account ''a'' ?b0 = Some sample_row" and none: "db_items ?b0 = []"
    by (simp_all add: sample_state_def app_start_def find_account_def sample_row_def sample_account_def db_empty_def)
  have wf: "db_wf ?b0"
    by (simp add: sample_state_def app_start_def db_wf_def db_empty_def sample_row_def sample_account_def)
  have acc1: "find_account ''a'' ?b1 = Some sample_row" using quiet_account [OF quiet_touch acc0] .
  have push: "store_push ''a'' 0 [sample_pushed] 1030 ?b1 = (?b2, Inr 1)"
    by (simp add: store_push_def acc1 Let_def) (simp add: sample_row_def)
  have acc2: "find_account ''a'' ?b2 = Some ?row"
    using find_account_push [OF acc1] by (simp add: store_push_def acc1 Let_def) (simp add: sample_row_def)
  have key2: "device_key ''a'' ''d'' ?b2 = Some sample_key"
    using sample_device(1) by (simp add: store_push_def acc1 Let_def device_key_def sample_row_def)
      (simp add: sample_state_def app_start_def touch_device_def)
  obtain s1 where s1: "api_pull_items sample_server id ''GET'' ITEMS_PATH sample_get 0 1030 sample_state =
      (s1, Inr (JObj [(''revision'', i_json 0), (''items'', JArr (map item_record_json (items_since ''a'' 0 ?b1)))]))"
    and db1: "ap_db s1 = ?b1"
    using sample_get_answer [OF sample_device(1) acc0, of 0] unfolding s0 [symmetric] by (auto simp: sample_row_def)
  obtain s j where s: "api_pull_items sample_server id ''GET'' ITEMS_PATH sample_get 0 1030 (app_start ?b2) = (s, Inr j)"
    and j: "j = JObj [(''revision'', i_json (ac_revision ?row)), (''items'', JArr (map item_record_json (items_since ''a'' 0 (touch_device ''d'' 1030 ?b2))))]"
    and db: "ap_db s = touch_device ''d'' 1030 ?b2"
    using sample_get_answer [OF key2 acc2, of 0] by auto
  let ?p = "\<lparr>pg_revision = 1, pg_items = map as_sync_item (items_since ''a'' 0 (touch_device ''d'' 1030 ?b2))\<rparr>"
  have p: "of_item_page j = Inr ?p" by (simp add: j page_to_client)
  have reached: "revisions_reached ''a'' ?b0" using acc0 none by (auto simp: revisions_reached_def)
  have run: "served [''a''] (ap_db s1) (ap_db (app_start ?b2))"
    using served_push [OF served_none push] by (simp add: db1 app_start_def)
  have calm: "undivided ''a'' id" by (fastforce simp: undivided_def intro: exI [of _ "[]"] served_none)
  have r2: "api_pull_items sample_server id ''GET'' ITEMS_PATH sample_get
      (pg_revision \<lparr>pg_revision = 0, pg_items = map as_sync_item (items_since ''a'' 0 ?b1)\<rparr>) 1030 (app_start ?b2) = (s, Inr j)"
    using s by simp
  note page = pulls_bring_changes [OF wf reached sample_get_who sample_get_who s1 page_to_client run _ r2 p calm calm,
      THEN conjunct1, rule_format, of "''i''"]
  have row: "find_item ''a'' ''i'' (ap_db s) = Some \<lparr>it_account = ''a'', it_record = stored_item 1 sample_pushed, it_updated_at = 1030\<rparr>"
    and old: "find_item ''a'' ''i'' ?b0 = None"
    by (simp add: db find_item_items [OF quiet_items [OF quiet_touch]] store_push_def acc1 Let_def find_item_def)
      (simp_all add: none find_item_def touch_device_def upsert_item_def sample_row_def stored_item_def sample_pushed_def)
  from page row old have "\<exists>i. find (\<lambda>i. si_id i = ''i'') (pg_items ?p) = Some i \<and> si_ciphertext i = Some ''x''"
    by (auto simp: as_sync_item_def stored_item_def sample_pushed_def split: option.splits)
  with s p show ?thesis by blast
qed

end
