(* ===== verification/Sync_Engine.thy ===== *)
theory Sync_Engine
  imports Sync_Client App_State Recovery_Kit
begin

text \<open>
  Sync from the application's side (\<open>apps/desktop/src-tauri/src/sync.rs\<close>): a round pulls, decides each
  record, pushes what changed here and remembers how far it came. The server's answers are arbitrary.
  While a request is out anything may happen to the state; between the steps in between nothing does.
\<close>

section \<open>One record\<close>

record sync_report =
  rp_pulled :: nat
  rp_pushed :: nat
  rp_conflicts :: nat
  rp_unproven_deletes :: nat
  rp_revision :: i64

definition decode_item :: "prims \<Rightarrow> unlocked_vault \<Rightarrow> uuid \<Rightarrow> sync_item \<Rightarrow> item option" where
  "decode_item P v k r =
     Option.bind (si_ciphertext r) (\<lambda>c.
       case and_then (ok_or Serde (p_json_parse P c)) (of_sealed P) of
         Inl e \<Rightarrow> None
       | Inr s \<Rightarrow> (case open_item P v k s of Inl e \<Rightarrow> None | Inr i \<Rightarrow> Some i))"

definition held_here :: "vault_data \<Rightarrow> uuid \<Rightarrow> local_item option" where
  "held_here d k =
     (case vget d k of
        Some i \<Rightarrow> Some (local_present k (item_updated_at i))
      | None \<Rightarrow> map_option (\<lambda>g. local_deleted k (t_deleted_at g)) (find_tombstone d k))"

definition offered :: "uuid \<Rightarrow> tombstone option \<Rightarrow> item option \<Rightarrow> remote_item" where
  "offered k proof theirs =
     \<lparr>ri_id = k,
      ri_updated_at = (case proof of Some g \<Rightarrow> t_deleted_at g
                       | None \<Rightarrow> (case theirs of Some i \<Rightarrow> item_updated_at i | None \<Rightarrow> 0)),
      ri_deleted = (proof \<noteq> None)\<rparr>"

text \<open>\<open>draw\<close> is the random ids the round draws, the next one by its position.\<close>

record sync_run =
  sx_vault :: unlocked_vault
  sx_used :: nat
  sx_report :: sync_report

definition on_data :: "(vault_data \<Rightarrow> vault_data) \<Rightarrow> sync_run \<Rightarrow> sync_run" where
  "on_data f x = x\<lparr>sx_vault := (sx_vault x)\<lparr>uv_data := f (uv_data (sx_vault x))\<rparr>\<rparr>"

definition count_pulled :: "sync_run \<Rightarrow> sync_run" where
  "count_pulled x = x\<lparr>sx_report := (sx_report x)\<lparr>rp_pulled := rp_pulled (sx_report x) + 1\<rparr>\<rparr>"

definition count_conflict :: "sync_run \<Rightarrow> sync_run" where
  "count_conflict x = x\<lparr>sx_report := (sx_report x)\<lparr>rp_conflicts := rp_conflicts (sx_report x) + 1\<rparr>\<rparr>"

definition count_unproven :: "sync_run \<Rightarrow> sync_run" where
  "count_unproven x = x\<lparr>sx_report := (sx_report x)\<lparr>rp_unproven_deletes := rp_unproven_deletes (sx_report x) + 1\<rparr>\<rparr>"

definition beside :: "(nat \<Rightarrow> uuid) \<Rightarrow> string \<Rightarrow> item \<Rightarrow> sync_run \<Rightarrow> sync_run" where
  "beside draw suffix i x =
     (on_data (upsert (i\<lparr>item_id := draw (sx_used x), item_name := item_name i @ suffix\<rparr>)) x)\<lparr>sx_used := sx_used x + 1\<rparr>"

definition settle :: "(nat \<Rightarrow> uuid) \<Rightarrow> u64 \<Rightarrow> uuid \<Rightarrow> item option \<Rightarrow> merge_resolution \<Rightarrow> sync_run \<Rightarrow> sync_run" where
  "settle draw now k theirs decision x =
     (case decision of
        ApplyRemote \<Rightarrow> (case theirs of None \<Rightarrow> x | Some i \<Rightarrow> count_pulled (on_data (upsert i) x))
      | ApplyDelete \<Rightarrow> count_pulled (on_data (discard now k) x)
      | KeepLocal \<Rightarrow> x
      | BothChanged wins \<Rightarrow>
          (case theirs of
             None \<Rightarrow> count_conflict x
           | Some i \<Rightarrow>
               if wins then
                 (let x1 = count_conflict x;
                      x2 = (case vget (uv_data (sx_vault x1)) k of
                              None \<Rightarrow> x1 | Some mine \<Rightarrow> beside draw '' (this machine)'' mine x1)
                  in count_pulled (on_data (upsert i) x2))
               else count_pulled (beside draw '' (other machine)'' i (count_conflict x))))"

definition apply_record :: "prims \<Rightarrow> (nat \<Rightarrow> uuid) \<Rightarrow> u64 \<Rightarrow> u64 \<Rightarrow> sync_item \<Rightarrow> sync_run \<Rightarrow> sync_run" where
  "apply_record P draw now last_synced_at r x =
     (case p_uuid_parse P (si_id r) of
        None \<Rightarrow> x
      | Some k \<Rightarrow>
          (let v = sx_vault x; proof = proven_deletion P v k r
           in if si_deleted r \<and> proof = None then count_unproven x
              else
                (let theirs = decode_item P v k r
                 in settle draw now k theirs
                      (reconcile (held_here (uv_data v) k) (offered k proof theirs) last_synced_at) x)))"

section \<open>What is pushed\<close>

definition local_items :: "vault_data \<Rightarrow> local_item list" where
  "local_items d = map (\<lambda>i. local_present (item_id i) (item_updated_at i)) (vd_items d)
     @ map (\<lambda>g. local_deleted (t_id g) (t_deleted_at g)) (vd_tombstones d)"

definition of_client_error :: "client_error \<Rightarrow> app_error" where
  "of_client_error e =
     (case e of
        ClUnreachable \<Rightarrow> AppError ''could not reach the sync service''
      | ClUnauthenticated \<Rightarrow> AppError ''the sync service did not accept this device''
      | ClConflict \<Rightarrow> AppError ''the vault moved on; pull and retry''
      | ClNoAccount \<Rightarrow> AppError ''no such account''
      | ClRefused m \<Rightarrow> AppError (''the sync service said: '' @ m)
      | ClCrypto c \<Rightarrow> CoreError c)"

definition outgoing_record ::
    "prims \<Rightarrow> bytes \<Rightarrow> unlocked_vault \<Rightarrow> local_item \<Rightarrow> sync_item option app_result" where
  "outgoing_record P nonce v change =
     (if li_deleted change then
        (case find_tombstone (uv_data v) (li_id change) of
           None \<Rightarrow> Inr None
         | Some grave \<Rightarrow>
             (case seal_proof P nonce v grave of
                Inl e \<Rightarrow> Inl (of_client_error e)
              | Inr p \<Rightarrow> Inr (Some \<lparr>si_id = p_uuid_print P (li_id change), si_revision = 0, si_ciphertext = None,
                                  si_deleted = True, si_proof = Some p\<rparr>)))
      else
        (case vget (uv_data v) (li_id change) of
           None \<Rightarrow> Inr None
         | Some i \<Rightarrow>
             (case seal_item P nonce v i of
                Inl e \<Rightarrow> Inl (CoreError e)
              | Inr s \<Rightarrow> Inr (Some \<lparr>si_id = p_uuid_print P (li_id change), si_revision = 0,
                                  si_ciphertext = Some (p_json_print P (sealed_json P s)),
                                  si_deleted = False, si_proof = None\<rparr>))))"

fun outgoing_records ::
    "prims \<Rightarrow> (nat \<Rightarrow> bytes) \<Rightarrow> unlocked_vault \<Rightarrow> local_item list \<Rightarrow> sync_item list app_result" where
  "outgoing_records P nonces v [] = Inr []"
| "outgoing_records P nonces v (c # cs) =
     and_then (outgoing_record P (nonces (length cs)) v c) (\<lambda>r.
     and_then (outgoing_records P nonces v cs) (\<lambda>rs.
       Inr (case r of None \<Rightarrow> rs | Some x \<Rightarrow> x # rs)))"

definition outgoing :: "prims \<Rightarrow> (nat \<Rightarrow> bytes) \<Rightarrow> u64 \<Rightarrow> unlocked_vault \<Rightarrow> sync_item list app_result" where
  "outgoing P nonces last_synced_at v =
     outgoing_records P nonces v (to_push (local_items (uv_data v)) last_synced_at)"

section \<open>A round\<close>

text \<open>
  What a round does not decide: the server's answers, what happens to the state while it waits for
  them, the random ids and nonces, and the clock.
\<close>

record sync_env =
  se_pull :: "client_error + item_page"
  se_push :: "client_error + i64"
  se_pulling :: "app_state \<Rightarrow> app_state"
  se_pushing :: "app_state \<Rightarrow> app_state"
  se_uuids :: "nat \<Rightarrow> uuid"
  se_nonces :: "nat \<Rightarrow> bytes"
  se_save_nonce :: bytes
  se_now :: u64
  se_end :: u64

definition remember_round :: "i64 \<Rightarrow> u64 \<Rightarrow> unlocked_vault \<Rightarrow> unlocked_vault" where
  "remember_round revision at v =
     (case vd_sync (uv_data v) of
        None \<Rightarrow> v
      | Some y \<Rightarrow> v\<lparr>uv_data := set_sync_state (Some (y\<lparr>ss_last_revision := revision, ss_last_synced_at := at\<rparr>)) (uv_data v)\<rparr>)"

text \<open>The records in order, each under the vault's lock; a locked vault ends the round.\<close>

fun apply_records ::
    "prims \<Rightarrow> sync_env \<Rightarrow> u64 \<Rightarrow> sync_item list \<Rightarrow> nat \<times> sync_report \<Rightarrow> app_state \<Rightarrow> app_state \<times> (nat \<times> sync_report) app_result" where
  "apply_records P env last_synced_at [] (n, rep) s = (s, Inr (n, rep))"
| "apply_records P env last_synced_at (r # rs) (n, rep) s =
     (if p_uuid_parse P (si_id r) = None then apply_records P env last_synced_at rs (n, rep) s
      else and_do
        (with_vault_mut (\<lambda>v.
           let x = apply_record P (se_uuids env) (se_now env) last_synced_at r
             \<lparr>sx_vault = v, sx_used = n, sx_report = rep\<rparr>
           in (sx_vault x, Inr (sx_used x, sx_report x))) s)
        (\<lambda>nr. apply_records P env last_synced_at rs nr))"

definition from_client :: "client_error + 'a \<Rightarrow> 'a app_result" where
  "from_client m = (case m of Inl e \<Rightarrow> Inl (of_client_error e) | Inr x \<Rightarrow> Inr x)"

definition push_round :: "prims \<Rightarrow> sync_env \<Rightarrow> u64 \<Rightarrow> i64 \<Rightarrow> sync_report \<Rightarrow> app_state \<Rightarrow> app_state \<times> sync_report app_result" where
  "push_round P env last_synced_at pulled rep s =
     and_do (s, with_vault (outgoing P (se_nonces env) last_synced_at) s) (\<lambda>records s.
     and_do (if records = [] then (s, Inr pulled) else (se_pushing env s, from_client (se_push env))) (\<lambda>revision s.
     and_do (with_vault_mut (\<lambda>v. (remember_round revision (se_end env) v, Inr ())) s) (\<lambda>_ s.
     and_do (save_vault P (se_save_nonce env) s) (\<lambda>_ s.
       (s, Inr (rep\<lparr>rp_pushed := length records, rp_revision := revision\<rparr>))))))"

definition fresh_report :: "i64 \<Rightarrow> sync_report" where
  "fresh_report r = \<lparr>rp_pulled = 0, rp_pushed = 0, rp_conflicts = 0, rp_unproven_deletes = 0, rp_revision = r\<rparr>"

definition device_seed :: "prims \<Rightarrow> sync_state \<Rightarrow> bytes app_result" where
  "device_seed P sync =
     (case p_b64_decode P (ss_device_seed sync) of
        None \<Rightarrow> Inl (AppError ''the stored device key is unreadable'')
      | Some seed \<Rightarrow> (case keypair_from_seed seed of Inl e \<Rightarrow> Inl (CoreError e) | Inr key \<Rightarrow> Inr key))"

definition sync_now :: "prims \<Rightarrow> sync_env \<Rightarrow> app_state \<Rightarrow> app_state \<times> sync_report app_result" where
  "sync_now P env s =
     and_do (s, with_vault (\<lambda>v. ok_or (AppError ''this vault is not syncing'') (vd_sync (uv_data v))) s) (\<lambda>sync s.
     and_do (s, device_seed P sync) (\<lambda>_ s.
     and_do (se_pulling env s, from_client (se_pull env)) (\<lambda>page s.
     and_do (apply_records P env (ss_last_synced_at sync) (pg_items page) (0, fresh_report (pg_revision page)) s) (\<lambda>nr s.
       push_round P env (ss_last_synced_at sync) (pg_revision page) (snd nr) s))))"

definition sync_forget :: "prims \<Rightarrow> bytes \<Rightarrow> app_state \<Rightarrow> app_state \<times> unit app_result" where
  "sync_forget P nonce s =
     and_do (with_vault_mut (\<lambda>v. (v\<lparr>uv_data := set_sync_state None (uv_data v)\<rparr>, Inr ())) s) (\<lambda>_. save_vault P nonce)"

record sync_status =
  sy_enrolled :: bool
  sy_base_url :: "string option"
  sy_account_id :: "string option"
  sy_device_id :: "string option"
  sy_last_synced_at :: "u64 option"

definition sync_status_of :: "app_state \<Rightarrow> sync_status app_result" where
  "sync_status_of s = with_vault (\<lambda>v. Inr
     (case vd_sync (uv_data v) of
        Some y \<Rightarrow> \<lparr>sy_enrolled = True, sy_base_url = Some (ss_base_url y), sy_account_id = Some (ss_account_id y),
                   sy_device_id = Some (ss_device_id y),
                   sy_last_synced_at = (if 0 < ss_last_synced_at y then Some (ss_last_synced_at y) else None)\<rparr>
      | None \<Rightarrow> \<lparr>sy_enrolled = False, sy_base_url = None, sy_account_id = None, sy_device_id = None,
                 sy_last_synced_at = None\<rparr>)) s"

end
