(* ===== verification/Sync_Safety.thy ===== *)
theory Sync_Safety
  imports Sync_Engine
begin

text \<open>
  What a sync round cannot do to a vault, whatever the server answers: lose what was edited here,
  delete without a proof, bring back what was deleted here.
\<close>

section \<open>Assumptions on what is not the server's\<close>

text \<open>
  A body that opens under the vault key for an id was sealed for an item of that id: only the
  account's own machines hold the key, and \<open>seal_item\<close> binds the item's own id.
\<close>

definition authentic :: "prims \<Rightarrow> unlocked_vault \<Rightarrow> sync_item list \<Rightarrow> bool" where
  "authentic P v rs \<longleftrightarrow> (\<forall>r \<in> set rs. \<forall>k i. decode_item P v k r = Some i \<longrightarrow> item_id i = k)"

text \<open>The random ids the round draws are new: to the vault, to the page, and to one another.\<close>

definition fresh_ids :: "prims \<Rightarrow> (nat \<Rightarrow> uuid) \<Rightarrow> nat \<Rightarrow> vault_data \<Rightarrow> sync_item list \<Rightarrow> bool" where
  "fresh_ids P draw m d rs \<longleftrightarrow> inj_on draw {..<m} \<and>
     (\<forall>n < m. vget d (draw n) = None \<and> find_tombstone d (draw n) = None \<and>
        (\<forall>r \<in> set rs. p_uuid_parse P (si_id r) \<noteq> Some (draw n)))"

abbreviation sx_data :: "sync_run \<Rightarrow> vault_data" where "sx_data x \<equiv> uv_data (sx_vault x)"

definition apply_all :: "prims \<Rightarrow> (nat \<Rightarrow> uuid) \<Rightarrow> u64 \<Rightarrow> u64 \<Rightarrow> sync_item list \<Rightarrow> sync_run \<Rightarrow> sync_run" where
  "apply_all P draw now since rs x = fold (apply_record P draw now since) rs x"

section \<open>The effect of one record\<close>

lemma on_data_simps [simp]:
  "sx_data (on_data f x) = f (sx_data x)" "sx_used (on_data f x) = sx_used x"
  "uv_vault_key (sx_vault (on_data f x)) = uv_vault_key (sx_vault x)"
  by (simp_all add: on_data_def)

lemma count_simps [simp]:
  "sx_vault (count_pulled x) = sx_vault x" "sx_used (count_pulled x) = sx_used x"
  "sx_vault (count_conflict x) = sx_vault x" "sx_used (count_conflict x) = sx_used x"
  "sx_vault (count_unproven x) = sx_vault x" "sx_used (count_unproven x) = sx_used x"
  by (simp_all add: count_pulled_def count_conflict_def count_unproven_def)

lemma beside_simps [simp]:
  "sx_data (beside draw suffix i x) = upsert (i\<lparr>item_id := draw (sx_used x), item_name := item_name i @ suffix\<rparr>) (sx_data x)"
  "sx_used (beside draw suffix i x) = sx_used x + 1"
  "uv_vault_key (sx_vault (beside draw suffix i x)) = uv_vault_key (sx_vault x)"
  by (simp_all add: beside_def on_data_def)

lemma settle_key [simp]:
  "uv_vault_key (sx_vault (settle draw now k theirs d x)) = uv_vault_key (sx_vault x)"
  by (auto simp: settle_def Let_def split: merge_resolution.split option.split)

lemma apply_record_key [simp]:
  "uv_vault_key (sx_vault (apply_record P draw now since r x)) = uv_vault_key (sx_vault x)"
  by (simp add: apply_record_def Let_def split: option.split)

lemma key_cong:
  assumes "uv_vault_key v = uv_vault_key v'"
  shows "decode_item P v = decode_item P v'" "proven_deletion P v = proven_deletion P v'"
proof -
  have opens: "open_item P v = open_item P v'" "open_deletion P v = open_deletion P v'"
    using assms by (simp_all add: open_item_def open_deletion_def fun_eq_iff)
  show "decode_item P v = decode_item P v'" "proven_deletion P v = proven_deletion P v'"
    unfolding decode_item_def [abs_def] proven_deletion_def [abs_def] opens by (rule refl)+
qed

definition renamed :: "uuid \<Rightarrow> string \<Rightarrow> item \<Rightarrow> item" where
  "renamed k suffix i = i\<lparr>item_id := k, item_name := item_name i @ suffix\<rparr>"

text \<open>Not changed here since the last sync: neither edited nor deleted.\<close>

definition quiet_here :: "vault_data \<Rightarrow> u64 \<Rightarrow> uuid \<Rightarrow> bool" where
  "quiet_here d since k \<longleftrightarrow> (case held_here d k of None \<Rightarrow> True | Some l \<Rightarrow> li_updated_at l \<le> since)"

lemma discard_wf: "vault_wf d \<Longrightarrow> vault_wf (discard now k d)"
  using remove_item_cases [of d k now] by (auto simp: discard_def intro: wf_intros)

lemma vget_discard: "vault_wf d \<Longrightarrow> vget (discard now k d) = (vget d)(k := None)"
  using remove_item_cases [of d k now] by (auto simp: discard_def vget_remove)

text \<open>What each decision says of the item held.\<close>

lemma decision_means:
  "reconcile (held_here d k) (offered k proof theirs) since = ApplyRemote \<Longrightarrow> quiet_here d since k"
  "reconcile (held_here d k) (offered k proof theirs) since = ApplyDelete \<Longrightarrow> quiet_here d since k \<and> proof \<noteq> None"
  by (cases "held_here d k"; force simp: quiet_here_def reconcile_iff offered_def split: if_splits)+

lemma both_changed_means:
  assumes "reconcile (held_here d k) (offered k proof theirs) since = BothChanged w"
  shows "\<exists>i. vget d k = Some i \<and> since < item_updated_at i \<and>
    w = (item_updated_at i < (case theirs of Some j \<Rightarrow> item_updated_at j | None \<Rightarrow> 0))"
proof -
  obtain l where l: "held_here d k = Some l" "since < li_updated_at l" "\<not> li_deleted l" "proof = None"
    "w = (li_updated_at l < ri_updated_at (offered k proof theirs))"
    using assms by (cases "held_here d k") (auto simp: reconcile_iff offered_def split: if_splits)
  then obtain i where "vget d k = Some i" "l = local_present k (item_updated_at i)"
    by (auto simp: held_here_def local_deleted_def split: option.splits)
  with l show ?thesis by (simp add: local_present_def offered_def)
qed

lemma apply_record_effect:
  fixes x :: sync_run and draw :: "nat \<Rightarrow> uuid" and now since :: u64
  assumes wf: "vault_wf (sx_data x)" and parse: "p_uuid_parse P (si_id r) = Some k"
  defines "x' \<equiv> apply_record P draw now since r x"
  obtains (same) "sx_data x' = sx_data x" "sx_used x' = sx_used x"
  | (taken) j where "sx_data x' = upsert j (sx_data x)" "sx_used x' = sx_used x" "decode_item P (sx_vault x) k r = Some j"
      "quiet_here (sx_data x) since k"
  | (deleted) "sx_data x' = discard now k (sx_data x)" "sx_used x' = sx_used x" "proven_deletion P (sx_vault x) k r \<noteq> None"
      "quiet_here (sx_data x) since k"
  | (mine_beside) i j where "sx_data x' = upsert j (upsert (renamed (draw (sx_used x)) '' (this machine)'' i) (sx_data x))"
      "sx_used x' = sx_used x + 1" "vget (sx_data x) k = Some i" "since < item_updated_at i"
      "decode_item P (sx_vault x) k r = Some j" "item_updated_at i < item_updated_at j"
  | (theirs_beside) i j where "sx_data x' = upsert (renamed (draw (sx_used x)) '' (other machine)'' j) (sx_data x)"
      "sx_used x' = sx_used x + 1" "vget (sx_data x) k = Some i" "since < item_updated_at i"
      "decode_item P (sx_vault x) k r = Some j"
proof -
  let ?proof = "proven_deletion P (sx_vault x) k r" and ?theirs = "decode_item P (sx_vault x) k r"
  let ?decision = "reconcile (held_here (sx_data x) k) (offered k ?proof ?theirs) since"
  show ?thesis
  proof (cases "si_deleted r \<and> ?proof = None")
    case True
    then show ?thesis by (intro same) (simp_all add: x'_def apply_record_def parse Let_def)
  next
    case False
    then have x': "x' = settle draw now k ?theirs ?decision x"
      unfolding x'_def apply_record_def parse Let_def option.case by (simp only: if_False)
    show ?thesis
    proof (cases ?decision)
      case ApplyRemote
      with decision_means(1) [OF this] show ?thesis
        by (cases ?theirs) (auto intro: same taken simp: x' settle_def)
    next
      case KeepLocal
      then show ?thesis by (intro same) (simp_all add: x' settle_def)
    next
      case ApplyDelete
      with decision_means(2) [OF this] show ?thesis by (intro deleted) (simp_all add: x' settle_def)
    next
      case (BothChanged w)
      from both_changed_means [OF this] obtain i where i: "vget (sx_data x) k = Some i" "since < item_updated_at i"
        "w = (item_updated_at i < (case ?theirs of Some j \<Rightarrow> item_updated_at j | None \<Rightarrow> 0))" by blast
      show ?thesis
      proof (cases ?theirs)
        case None
        with BothChanged show ?thesis by (intro same) (simp_all add: x' settle_def)
      next
        case (Some j)
        show ?thesis
        proof (cases w)
          case True
          with BothChanged Some i show ?thesis by (intro mine_beside [of j i]) (simp_all add: x' settle_def renamed_def)
        next
          case False
          with BothChanged Some i show ?thesis by (intro theirs_beside [of j i]) (simp_all add: x' settle_def renamed_def)
        qed
      qed
    qed
  qed
qed

section \<open>Through a page\<close>

lemma apply_record_skip: "p_uuid_parse P (si_id r) = None \<Longrightarrow> apply_record P draw now since r x = x"
  by (simp add: apply_record_def)

lemma apply_record_wf: "vault_wf (sx_data x) \<Longrightarrow> vault_wf (sx_data (apply_record P draw now since r x))"
proof (cases "p_uuid_parse P (si_id r)")
  case (Some k)
  assume wf: "vault_wf (sx_data x)"
  from wf Some show ?thesis
    by (cases rule: apply_record_effect [where draw = draw and now = now and since = since])
      (simp_all add: wf wf_upsert discard_wf)
qed (simp add: apply_record_skip)

lemma apply_record_used: "vault_wf (sx_data x) \<Longrightarrow> sx_used (apply_record P draw now since r x) \<le> Suc (sx_used x)"
proof (cases "p_uuid_parse P (si_id r)")
  case (Some k)
  assume wf: "vault_wf (sx_data x)"
  from wf Some show ?thesis
    by (cases rule: apply_record_effect [where draw = draw and now = now and since = since]) simp_all
qed (simp add: apply_record_skip)

text \<open>
  What holds of a run and is kept by every record of the page holds at its end: the induction that the
  results below share. The counter stays below the number of records.
\<close>

lemma apply_all_induct:
  assumes start: "vault_wf (sx_data x)" "sx_used x = 0" "Q x"
    and step: "\<And>x r. r \<in> set rs \<Longrightarrow> vault_wf (sx_data x) \<Longrightarrow> uv_vault_key (sx_vault x) = key \<Longrightarrow>
      sx_used x < length rs \<Longrightarrow> Q x \<Longrightarrow> Q (apply_record P draw now since r x)"
    and key: "uv_vault_key (sx_vault x) = key"
  shows "Q (apply_all P draw now since rs x) \<and> vault_wf (sx_data (apply_all P draw now since rs x))"
proof -
  have "Q (fold (apply_record P draw now since) qs x) \<and> vault_wf (sx_data (fold (apply_record P draw now since) qs x)) \<and>
      uv_vault_key (sx_vault (fold (apply_record P draw now since) qs x)) = key"
    if "set qs \<subseteq> set rs" "sx_used x + length qs \<le> length rs" "vault_wf (sx_data x)" "uv_vault_key (sx_vault x) = key" "Q x" for qs x
    using that
  proof (induction qs arbitrary: x)
    case (Cons q qs)
    let ?x = "apply_record P draw now since q x"
    have "vault_wf (sx_data ?x)" "uv_vault_key (sx_vault ?x) = key" "sx_used ?x + length qs \<le> length rs" "Q ?x"
      using Cons.prems apply_record_wf [of x P draw now since q] apply_record_used [of x P draw now since q]
        step [of q x] by auto
    with Cons show ?case by simp
  qed simp
  from this [of rs x] start key show ?thesis by (simp add: apply_all_def)
qed

section \<open>What is edited here survives\<close>

definition kept :: "(nat \<Rightarrow> uuid) \<Rightarrow> nat \<Rightarrow> item \<Rightarrow> vault_data \<Rightarrow> bool" where
  "kept draw m i d \<longleftrightarrow> vget d (item_id i) = Some i \<or>
     (\<exists>n < m. vget d (draw n) = Some (renamed (draw n) '' (this machine)'' i))"

lemma kept_discard:
  assumes "kept draw u i d" and "vault_wf d" and "vget d (item_id i) = Some i \<Longrightarrow> item_id i \<noteq> k" and "\<And>n. n < u \<Longrightarrow> draw n \<noteq> k"
  shows "kept draw u i (discard now k d)"
  using assms by (auto simp: kept_def vget_discard)

lemma kept_step:
  assumes auth: "authentic P v rs" and fresh: "fresh_ids P draw (length rs) d rs"
    and held: "vget d (item_id i) = Some i" and edited: "since < item_updated_at i"
    and r: "r \<in> set rs" and wf: "vault_wf (sx_data x)" and key: "uv_vault_key (sx_vault x) = uv_vault_key v"
    and room: "sx_used x < length rs" and kept: "kept draw (sx_used x) i (sx_data x)"
  shows "kept draw (sx_used (apply_record P draw now since r x)) i (sx_data (apply_record P draw now since r x))"
proof (cases "p_uuid_parse P (si_id r)")
  case None
  with kept show ?thesis by (simp add: apply_record_skip)
next
  case (Some k)
  let ?u = "sx_used x" and ?d = "sx_data x"
  have dec: "item_id j = k" if "decode_item P (sx_vault x) k r = Some j" for j
    using that auth r key_cong(1) [OF key] by (auto simp: authentic_def)
  have k: "draw n \<noteq> k" if "n < length rs" for n
    using that fresh r Some by (auto simp: fresh_ids_def)
  have i: "draw n \<noteq> item_id i" if "n < length rs" for n
    using that fresh held by (auto simp: fresh_ids_def)
  have apart: "draw n \<noteq> draw ?u" if "n < ?u" for n
    using that fresh room by (auto simp: fresh_ids_def inj_on_def)
  have quiet: "vget ?d k \<noteq> Some i" if "quiet_here ?d since k"
    using that edited by (auto simp: quiet_here_def held_here_def local_present_def)
  have mine: "k = item_id i" if "vget ?d (item_id i) = Some i" "vget ?d k = Some i"
    using that wf vget_iff by metis
  from wf Some show ?thesis
  proof (cases rule: apply_record_effect [where draw = draw and now = now and since = since])
    case same
    with kept show ?thesis by (simp add: kept_def)
  next
    case (taken j)
    then show ?thesis using kept quiet k dec room by (auto simp: kept_def vget_upsert)
  next
    case deleted
    have "item_id i \<noteq> k" if "vget ?d (item_id i) = Some i" using that quiet deleted by auto
    with kept_discard [OF kept wf this, of now] k room deleted(1,2) show ?thesis by auto
  next
    case (mine_beside i' j)
    then show ?thesis using kept k dec room apart i
      by (auto simp: kept_def vget_upsert renamed_def less_Suc_eq) (metis less_trans)+
  next
    case (theirs_beside i' j)
    then show ?thesis using kept k room apart i [OF room]
      by (auto simp: kept_def vget_upsert renamed_def less_Suc_eq)
  qed
qed

section \<open>Nothing is deleted without a proof\<close>

text \<open>The server's page proves no deletion of the id: it may still claim one.\<close>

definition unproven :: "prims \<Rightarrow> unlocked_vault \<Rightarrow> sync_item list \<Rightarrow> uuid \<Rightarrow> bool" where
  "unproven P v rs k \<longleftrightarrow> (\<forall>r \<in> set rs. p_uuid_parse P (si_id r) = Some k \<longrightarrow> proven_deletion P v k r = None)"

lemma present_step:
  assumes unproven: "unproven P v rs k" and r: "r \<in> set rs" and wf: "vault_wf (sx_data x)"
    and key: "uv_vault_key (sx_vault x) = uv_vault_key v" and present: "vget (sx_data x) k \<noteq> None"
  shows "vget (sx_data (apply_record P draw now since r x)) k \<noteq> None"
proof (cases "p_uuid_parse P (si_id r)")
  case None
  with present show ?thesis by (simp add: apply_record_skip)
next
  case (Some j)
  from wf Some show ?thesis
  proof (cases rule: apply_record_effect [where draw = draw and now = now and since = since])
    case deleted
    then have "j \<noteq> k" using unproven r Some key_cong(2) [OF key] by (auto simp: unproven_def)
    with deleted present wf show ?thesis by (simp add: vget_discard)
  qed (use present in \<open>auto simp: vget_upsert\<close>)
qed

section \<open>What is deleted here stays deleted\<close>

lemma find_tombstone_upsert: "k \<noteq> item_id i \<Longrightarrow> find_tombstone (upsert i d) k = find_tombstone d k"
  unfolding find_tombstone_def upsert_tombstones by (rule find_filter_key)

lemma graves_upsert: "length (vd_tombstones (upsert i d)) \<le> length (vd_tombstones d)"
  by (simp add: upsert_tombstones)

lemma find_keep: "k \<noteq> t_id x \<Longrightarrow> find (\<lambda>t. t_id t = k) (ts @ [x]) = find (\<lambda>t. t_id t = k) ts"
  by (simp add: find_append split: option.split)

lemma find_tombstone_discard:
  assumes other: "k \<noteq> j" and grave: "find_tombstone d k = Some t" and young: "sat_sub now (t_deleted_at t) \<le> TOMBSTONE_RETENTION"
    and room: "length (vd_tombstones d) < TOMBSTONE_CAPACITY"
  shows "find_tombstone (discard now j d) k = Some t"
    and "length (vd_tombstones (discard now j d)) \<le> Suc (length (vd_tombstones d))"
proof -
  let ?old = "filter (\<lambda>t. sat_sub now (t_deleted_at t) \<le> TOMBSTONE_RETENTION) (filter (\<lambda>t. t_id t \<noteq> j) (vd_tombstones d))"
  have len: "length ?old \<le> length (vd_tombstones d)" by (meson le_trans length_filter_le)
  have keep: "find (\<lambda>t. t_id t = k) (filter Q ts) = Some t" if "find (\<lambda>t. t_id t = k) ts = Some t" "Q t" for Q ts
    using that by (induction ts) auto
  then have "find (\<lambda>t. t_id t = k) ?old = Some t"
    using keep [of "vd_tombstones d" "\<lambda>x. t_id x \<noteq> j \<and> sat_sub now (t_deleted_at x) \<le> TOMBSTONE_RETENTION"] grave other young
      find_Some_set [of "\<lambda>t. t_id t = k" "vd_tombstones d" t] by (simp add: find_tombstone_def)
  moreover have "vd_tombstones (discard now j d) = vd_tombstones d \<or>
      vd_tombstones (discard now j d) = ?old @ [\<lparr>t_id = j, t_deleted_at = now\<rparr>]"
  proof -
    have "keep_last TOMBSTONE_CAPACITY (?old @ [y]) = ?old @ [y]" for y
      using le_less_trans [OF len room] by (intro keep_last_id) simp
    moreover have "vd_tombstones (discard now j d) = vd_tombstones d \<or>
        vd_tombstones (discard now j d) = keep_last TOMBSTONE_CAPACITY (?old @ [\<lparr>t_id = j, t_deleted_at = now\<rparr>])"
    proof (cases "remove_item now j d")
      case (Inr p)
      then obtain d' i where "remove_item now j d = Inr (d', i)" by (cases p) auto
      then show ?thesis by (simp add: discard_def) (simp add: remove_item_Inr record_tombstone_tombstones)
    qed (simp add: discard_def)
    ultimately show ?thesis by metis
  qed
  ultimately show "find_tombstone (discard now j d) k = Some t"
    and "length (vd_tombstones (discard now j d)) \<le> Suc (length (vd_tombstones d))"
    using grave other len by (auto simp: find_tombstone_def find_keep)
qed

definition buried :: "u64 \<Rightarrow> u64 \<Rightarrow> uuid \<Rightarrow> nat \<Rightarrow> vault_data \<Rightarrow> bool" where
  "buried now since k left d \<longleftrightarrow> vget d k = None \<and> length (vd_tombstones d) + left \<le> TOMBSTONE_CAPACITY \<and>
     (\<exists>t. find_tombstone d k = Some t \<and> since < t_deleted_at t \<and> sat_sub now (t_deleted_at t) \<le> TOMBSTONE_RETENTION)"

lemma buried_step:
  assumes auth: "authentic P v rs" and fresh: "\<And>n. n < length rs \<Longrightarrow> draw n \<noteq> k"
    and r: "r \<in> set rs" and wf: "vault_wf (sx_data x)" and key: "uv_vault_key (sx_vault x) = uv_vault_key v"
    and room: "sx_used x < length rs" and buried: "buried now since k (Suc left) (sx_data x)"
  shows "buried now since k left (sx_data (apply_record P draw now since r x))"
proof (cases "p_uuid_parse P (si_id r)")
  case None
  with buried show ?thesis by (auto simp: apply_record_skip buried_def)
next
  case (Some j)
  let ?d = "sx_data x"
  from buried obtain t where gone: "vget ?d k = None" and space: "Suc (length (vd_tombstones ?d) + left) \<le> TOMBSTONE_CAPACITY"
    and t: "find_tombstone ?d k = Some t" "since < t_deleted_at t" "sat_sub now (t_deleted_at t) \<le> TOMBSTONE_RETENTION"
    by (auto simp: buried_def)
  have dec: "item_id i = j" if "decode_item P (sx_vault x) j r = Some i" for i
    using that auth r key_cong(1) [OF key] by (auto simp: authentic_def)
  have noisy: "j \<noteq> k" if "quiet_here ?d since j"
    using that gone t by (auto simp: quiet_here_def held_here_def local_deleted_def)
  have ups: "buried now since k left (upsert i d)" if "buried now since k left d" "item_id i \<noteq> k" for i d
    using that graves_upsert [of i d] by (auto simp: buried_def vget_upsert find_tombstone_upsert)
  have now: "buried now since k left ?d" using gone space t by (auto simp: buried_def)
  from wf Some show ?thesis
  proof (cases rule: apply_record_effect [where draw = draw and now = now and since = since])
    case same
    with now show ?thesis by simp
  next
    case (taken i)
    with ups [OF now, of i] dec noisy show ?thesis by auto
  next
    case deleted
    have "length (vd_tombstones ?d) < TOMBSTONE_CAPACITY" using space by simp
    from find_tombstone_discard [OF _ t(1,3) this, of j] deleted noisy gone space t wf show ?thesis
      by (auto simp: buried_def vget_discard)
  next
    case (mine_beside i i')
    moreover have "j \<noteq> k" using gone mine_beside by auto
    ultimately show ?thesis using ups [OF ups [OF now]] fresh [OF room] dec by (auto simp: renamed_def)
  next
    case (theirs_beside i i')
    with ups [OF now] fresh [OF room] show ?thesis by (auto simp: renamed_def)
  qed
qed

section \<open>A whole round\<close>

text \<open>The vault a round leaves, when its pull is answered with a page: the page applied, the rest a note of how far it came.\<close>

lemma apply_records_all:
  assumes "as_vault s = Some v"
  shows "apply_records P env since rs (n, rep) s =
    (let x = apply_all P (se_uuids env) (se_now env) since rs \<lparr>sx_vault = v, sx_used = n, sx_report = rep\<rparr>
     in (s\<lparr>as_vault := Some (sx_vault x)\<rparr>, Inr (sx_used x, sx_report x)))"
  using assms
proof (induction rs arbitrary: s v n rep)
  case Nil
  then show ?case by (simp add: apply_all_def)
next
  case (Cons r rs)
  show ?case
  proof (cases "p_uuid_parse P (si_id r)")
    case None
    with Cons show ?thesis by (simp add: apply_all_def apply_record_skip)
  next
    case (Some k)
    let ?x = "apply_record P (se_uuids env) (se_now env) since r \<lparr>sx_vault = v, sx_used = n, sx_report = rep\<rparr>"
    have "\<lparr>sx_vault = sx_vault ?x, sx_used = sx_used ?x, sx_report = sx_report ?x\<rparr> = ?x" by simp
    with Some Cons.IH [of "s\<lparr>as_vault := Some (sx_vault ?x)\<rparr>" "sx_vault ?x" "sx_used ?x" "sx_report ?x"] Cons.prems
    show ?thesis by (simp add: with_vault_mut_def apply_all_def Let_def del: sync_run.surjective)
  qed
qed

lemma save_vault_keeps: "as_vault (fst (save_vault P nonce s)) = as_vault s"
  by (simp add: save_vault_def persist_def lift_disk_def split: option.split prod.split)

lemma remember_items [simp]:
  "vget (uv_data (remember_round r at v)) = vget (uv_data v)"
  "find_tombstone (uv_data (remember_round r at v)) = find_tombstone (uv_data v)"
  by (auto simp: remember_round_def set_sync_state_def vget_def find_tombstone_def fun_eq_iff split: option.split)

definition same_items :: "vault_data \<Rightarrow> vault_data \<Rightarrow> bool" where
  "same_items d d' \<longleftrightarrow> vget d = vget d' \<and> find_tombstone d = find_tombstone d'"

lemma push_round_items:
  assumes "push_round P env since pulled rep s = (s', r)" and "as_vault s = Some v" and "\<And>t. se_pushing env t = t"
  shows "\<exists>v'. as_vault s' = Some v' \<and> same_items (uv_data v') (uv_data v)"
  using assms(1) unfolding push_round_def
proof (cases rule: and_do_cases)
  case failed
  with assms(2) show ?thesis by (auto simp: same_items_def)
next
  case (went_on records s1)
  then have s1: "s1 = s" by simp
  from went_on(2) show ?thesis
  proof (cases rule: and_do_cases)
    case failed
    with assms(2,3) s1 show ?thesis by (auto simp: same_items_def split: if_splits)
  next
    case (went_on revision s2)
    then have s2: "s2 = s" using s1 assms(3) by (auto split: if_splits)
    have "with_vault_mut (\<lambda>v. (remember_round revision (se_end env) v, Inr ())) s2 =
        (s\<lparr>as_vault := Some (remember_round revision (se_end env) v)\<rparr>, Inr () :: unit app_result)"
      using s2 assms(2) by (simp add: with_vault_mut_def)
    with went_on(2) have "as_vault s' = Some (remember_round revision (se_end env) v)"
      using save_vault_keeps [of P "se_save_nonce env" "s\<lparr>as_vault := Some (remember_round revision (se_end env) v)\<rparr>"]
      by (auto elim!: and_do_cases)
    then show ?thesis by (simp add: same_items_def)
  qed
qed

lemma sync_now_items:
  assumes "sync_now P env s = (s', r)" and "as_vault s = Some v0" "vd_sync (uv_data v0) = Some sync"
    and "device_seed P sync = Inr seed" and "se_pull env = Inr page"
    and "as_vault (se_pulling env s) = Some v" and "\<And>t. se_pushing env t = t"
  shows "\<exists>v' rep. as_vault s' = Some v' \<and>
    same_items (uv_data v') (sx_data (apply_all P (se_uuids env) (se_now env) (ss_last_synced_at sync) (pg_items page)
      \<lparr>sx_vault = v, sx_used = 0, sx_report = rep\<rparr>))"
proof -
  let ?rep = "fresh_report (pg_revision page)"
  let ?x = "apply_all P (se_uuids env) (se_now env) (ss_last_synced_at sync) (pg_items page)
      \<lparr>sx_vault = v, sx_used = 0, sx_report = ?rep\<rparr>"
  have "push_round P env (ss_last_synced_at sync) (pg_revision page) (sx_report ?x)
      (se_pulling env s\<lparr>as_vault := Some (sx_vault ?x)\<rparr>) = (s', r)"
    using assms(1-6) apply_records_all [OF assms(6), of P env "ss_last_synced_at sync" "pg_items page" 0 ?rep]
    by (simp add: sync_now_def with_vault_def from_client_def Let_def)
  from push_round_items [OF this _ assms(7)] show ?thesis by auto
qed

text \<open>A round under way: the vault is unlocked, syncing, and the pull came back with a page.\<close>

definition round_at :: "prims \<Rightarrow> sync_env \<Rightarrow> app_state \<Rightarrow> unlocked_vault \<Rightarrow> sync_state \<Rightarrow> item_page \<Rightarrow> bool" where
  "round_at P env s v sync page \<longleftrightarrow>
     (\<exists>v0. as_vault s = Some v0 \<and> vd_sync (uv_data v0) = Some sync) \<and> (\<exists>seed. device_seed P sync = Inr seed) \<and>
     se_pull env = Inr page \<and> as_vault (se_pulling env s) = Some v \<and> vault_wf (uv_data v) \<and> (\<forall>t. se_pushing env t = t)"

text \<open>
  C9: whatever the server answers, however the rest of the round goes, an item edited here since the
  last sync is still in the vault afterwards: as it was, or as a copy beside the version that won,
  the same but for its id and the note in its name.
\<close>

theorem sync_keeps_edits:
  assumes "sync_now P env s = (s', r)" and "round_at P env s v sync page"
    and "authentic P v (pg_items page)" and "fresh_ids P (se_uuids env) (length (pg_items page)) (uv_data v) (pg_items page)"
    and "vget (uv_data v) (item_id i) = Some i" and "ss_last_synced_at sync < item_updated_at i"
  shows "\<exists>v'. as_vault s' = Some v' \<and>
    (vget (uv_data v') (item_id i) = Some i \<or>
     (\<exists>k. vget (uv_data v') k = Some (i\<lparr>item_id := k, item_name := item_name i @ '' (this machine)''\<rparr>)))"
proof -
  obtain v' rep where v': "as_vault s' = Some v'"
    and items: "same_items (uv_data v') (sx_data (apply_all P (se_uuids env) (se_now env) (ss_last_synced_at sync) (pg_items page)
      \<lparr>sx_vault = v, sx_used = 0, sx_report = rep\<rparr>))"
    using sync_now_items [OF assms(1)] assms(2) unfolding round_at_def by blast
  let ?x = "\<lparr>sx_vault = v, sx_used = 0, sx_report = rep\<rparr>"
  let ?y = "apply_all P (se_uuids env) (se_now env) (ss_last_synced_at sync) (pg_items page) ?x"
  have "kept (se_uuids env) (sx_used ?y) i (sx_data ?y) \<and> vault_wf (sx_data ?y)"
    by (rule apply_all_induct [where key = "uv_vault_key v"])
      (use assms kept_step [OF assms(3-6)] in \<open>auto simp: kept_def round_at_def\<close>)
  with v' items show ?thesis by (auto simp: kept_def same_items_def renamed_def)
qed

text \<open>
  C10: an item is still in the vault after a round, whatever the server answers, unless the page carries
  a deletion of it that opens under the vault key.
\<close>

theorem sync_needs_proof:
  assumes "sync_now P env s = (s', r)" and "round_at P env s v sync page"
    and "unproven P v (pg_items page) k" and "vget (uv_data v) k \<noteq> None"
  shows "\<exists>v'. as_vault s' = Some v' \<and> vget (uv_data v') k \<noteq> None"
proof -
  obtain v' rep where v': "as_vault s' = Some v'"
    and items: "same_items (uv_data v') (sx_data (apply_all P (se_uuids env) (se_now env) (ss_last_synced_at sync) (pg_items page)
      \<lparr>sx_vault = v, sx_used = 0, sx_report = rep\<rparr>))"
    using sync_now_items [OF assms(1)] assms(2) unfolding round_at_def by blast
  let ?y = "apply_all P (se_uuids env) (se_now env) (ss_last_synced_at sync) (pg_items page)
      \<lparr>sx_vault = v, sx_used = 0, sx_report = rep\<rparr>"
  have "vget (sx_data ?y) k \<noteq> None \<and> vault_wf (sx_data ?y)"
    by (rule apply_all_induct [where key = "uv_vault_key v"])
      (use assms present_step [OF assms(3)] in \<open>auto simp: round_at_def\<close>)
  with v' items show ?thesis by (auto simp: same_items_def)
qed

text \<open>
  C16: what was deleted here since the last sync is not brought back by a round, whatever the server
  offers under its id, as long as the record of the deletion is within its retention and there is
  room for the deletions of the page.
\<close>

theorem sync_keeps_deletions:
  assumes "sync_now P env s = (s', r)" and "round_at P env s v sync page"
    and "authentic P v (pg_items page)" and "\<forall>n < length (pg_items page). se_uuids env n \<noteq> k"
    and "vget (uv_data v) k = None" and "find_tombstone (uv_data v) k = Some t"
    and "ss_last_synced_at sync < t_deleted_at t" and "sat_sub (se_now env) (t_deleted_at t) \<le> TOMBSTONE_RETENTION"
    and "length (vd_tombstones (uv_data v)) + length (pg_items page) \<le> TOMBSTONE_CAPACITY"
  shows "\<exists>v'. as_vault s' = Some v' \<and> vget (uv_data v') k = None \<and> find_tombstone (uv_data v') k \<noteq> None"
proof -
  obtain v' rep where v': "as_vault s' = Some v'"
    and items: "same_items (uv_data v') (sx_data (apply_all P (se_uuids env) (se_now env) (ss_last_synced_at sync) (pg_items page)
      \<lparr>sx_vault = v, sx_used = 0, sx_report = rep\<rparr>))"
    using sync_now_items [OF assms(1)] assms(2) unfolding round_at_def by blast
  let ?step = "apply_record P (se_uuids env) (se_now env) (ss_last_synced_at sync)"
  have "buried (se_now env) (ss_last_synced_at sync) k 0 (sx_data (fold ?step qs x))"
    if "set qs \<subseteq> set (pg_items page)" "sx_used x + length qs \<le> length (pg_items page)" "vault_wf (sx_data x)"
      "uv_vault_key (sx_vault x) = uv_vault_key v" "buried (se_now env) (ss_last_synced_at sync) k (length qs) (sx_data x)" for qs x
    using that
  proof (induction qs arbitrary: x)
    case (Cons q qs)
    have "buried (se_now env) (ss_last_synced_at sync) k (length qs) (sx_data (?step q x))"
      using Cons.prems assms(3,4) by (intro buried_step [of P v "pg_items page"]) auto
    with Cons apply_record_wf [of x P "se_uuids env" "se_now env" "ss_last_synced_at sync" q]
      apply_record_used [of x P "se_uuids env" "se_now env" "ss_last_synced_at sync" q] show ?case by simp
  qed simp
  from this [of "pg_items page" "\<lparr>sx_vault = v, sx_used = 0, sx_report = rep\<rparr>"] assms(2,5-9)
  have "buried (se_now env) (ss_last_synced_at sync) k 0 (sx_data (apply_all P (se_uuids env) (se_now env) (ss_last_synced_at sync)
      (pg_items page) \<lparr>sx_vault = v, sx_used = 0, sx_report = rep\<rparr>))"
    by (simp add: apply_all_def buried_def round_at_def)
  with v' items show ?thesis by (auto simp: same_items_def buried_def)
qed

section \<open>Witnesses\<close>

definition hostile_page :: item_page where
  "hostile_page = \<lparr>pg_revision = 4, pg_items =
     [\<lparr>si_id = uuid_bytes 7, si_revision = 4, si_ciphertext = None, si_deleted = True, si_proof = None\<rparr>,
      \<lparr>si_id = uuid_bytes 9, si_revision = 4, si_ciphertext = None, si_deleted = True, si_proof = None\<rparr>]\<rparr>"

definition sample_sync :: sync_state where
  "sample_sync = \<lparr>ss_base_url = ''u'', ss_account_id = ''a'', ss_device_id = ''d'', ss_device_seed = replicate 32 (CHR ''k''),
     ss_last_revision = 3, ss_last_synced_at = 0\<rparr>"

definition syncing_vault :: unlocked_vault where
  "syncing_vault = sample_vault\<lparr>uv_data := sample_data\<lparr>vd_sync := Some sample_sync, vd_tombstones := [\<lparr>t_id = 9, t_deleted_at = 50\<rparr>]\<rparr>\<rparr>"

definition sample_env :: sync_env where
  "sample_env = \<lparr>se_pull = Inr hostile_page, se_push = Inl ClConflict, se_pulling = id, se_pushing = id,
     se_uuids = (\<lambda>n. if n = 0 then 100 else 101), se_nonces = (\<lambda>_. []), se_save_nonce = [], se_now = 60, se_end = 61\<rparr>"

definition sample_round :: app_state where
  "sample_round = sample_app (Some syncing_vault) \<lparr>d_files = Map.empty, d_faults = [], d_dead = False\<rparr>"

abbreviation round_prims :: prims where "round_prims \<equiv> sample_prims JNull JNull"

lemma sample_round_at: "round_at round_prims sample_env sample_round syncing_vault sample_sync hostile_page"
proof -
  have "vault_wf (uv_data syncing_vault)"
    by (simp add: vault_wf_def syncing_vault_def sample_data_def vault_data_default_def sample_item_def item_new_def
        TOMBSTONE_CAPACITY_def)
  then show ?thesis
    by (simp add: round_at_def sample_env_def sample_round_def sample_app_def syncing_vault_def device_seed_def
        sample_prims_def sample_sync_def keypair_from_seed_def)
qed

lemma sample_page_parse: "p_uuid_parse round_prims (uuid_bytes u) = Some u"
  using sample_prims_ok(6) by (simp add: uuid_faithful_def sample_prims_def)

lemma hostile_length: "length (pg_items hostile_page) = 2"
  by (simp add: hostile_page_def)

lemma all_below_two: "(\<forall>n < 2. Q n) \<longleftrightarrow> Q 0 \<and> Q (1::nat)"
  by (auto simp: numeral_2_eq_2 less_Suc_eq)

lemma sample_authentic: "authentic round_prims syncing_vault (pg_items hostile_page)"
  by (simp add: authentic_def hostile_page_def decode_item_def)

lemma sample_vget: "vget (uv_data syncing_vault) 7 = Some sample_item" "vget (uv_data syncing_vault) 9 = None"
  "find_tombstone (uv_data syncing_vault) 9 = Some \<lparr>t_id = 9, t_deleted_at = 50\<rparr>"
  by (simp_all add: vget_def find_tombstone_def syncing_vault_def sample_data_def sample_item_def item_new_def)

lemma sync_keeps_edits_witness:
  "\<exists>s' r v'. sync_now round_prims sample_env sample_round = (s', r) \<and> as_vault s' = Some v' \<and>
    (vget (uv_data v') 7 = Some sample_item \<or>
     (\<exists>k. vget (uv_data v') k = Some (sample_item\<lparr>item_id := k, item_name := item_name sample_item @ '' (this machine)''\<rparr>)))"
proof -
  obtain s' r where r: "sync_now round_prims sample_env sample_round = (s', r)" by fastforce
  have "fresh_ids round_prims (se_uuids sample_env) (length (pg_items hostile_page)) (uv_data syncing_vault) (pg_items hostile_page)"
    unfolding fresh_ids_def hostile_length all_below_two
    by (simp add: hostile_page_def sample_env_def sample_page_parse inj_on_def vget_def find_tombstone_def syncing_vault_def
        sample_data_def sample_item_def item_new_def)
  from sync_keeps_edits [OF r sample_round_at sample_authentic this, of sample_item] r
  show ?thesis by (auto simp: sample_vget sample_item_def item_new_def sample_sync_def word_less_nat_alt)
qed

lemma sync_needs_proof_witness:
  "\<exists>s' r v'. sync_now round_prims sample_env sample_round = (s', r) \<and> as_vault s' = Some v' \<and> vget (uv_data v') 7 \<noteq> None"
proof -
  obtain s' r where r: "sync_now round_prims sample_env sample_round = (s', r)" by fastforce
  have "unproven round_prims syncing_vault (pg_items hostile_page) 7"
    by (simp add: unproven_def hostile_page_def proven_deletion_def)
  from sync_needs_proof [OF r sample_round_at this] r show ?thesis by (auto simp: sample_vget)
qed

lemma sync_keeps_deletions_witness:
  "\<exists>s' r v'. sync_now round_prims sample_env sample_round = (s', r) \<and> as_vault s' = Some v' \<and> vget (uv_data v') 9 = None"
proof -
  obtain s' r where r: "sync_now round_prims sample_env sample_round = (s', r)" by fastforce
  have fresh: "\<forall>n < length (pg_items hostile_page). se_uuids sample_env n \<noteq> 9"
    unfolding hostile_length all_below_two by (simp add: sample_env_def)
  show ?thesis
    using sync_keeps_deletions [OF r sample_round_at sample_authentic fresh sample_vget(2,3)] r
    by (auto simp: sample_sync_def sample_env_def TOMBSTONE_RETENTION_def TOMBSTONE_CAPACITY_def hostile_page_def syncing_vault_def
        sat_sub_def word_le_nat_alt word_less_nat_alt)
qed

end
