(* ===== verification/Sync_Outgoing.thy ===== *)
theory Sync_Outgoing
  imports Sync_Safety
begin

text \<open>
  What a round pushes: every change since the last sync, in a form that any machine with the vault
  key reads back; and which changes a round leaves out.
\<close>

section \<open>Everything changed here is pushed\<close>

lemma outgoing_records_member:
  assumes "outgoing_records P nonces v cs = Inr recs" and "c \<in> set cs"
  shows "\<exists>n r. outgoing_record P (nonces n) v c = Inr r \<and> (\<forall>x. r = Some x \<longrightarrow> x \<in> set recs)"
  using assms
proof (induction cs arbitrary: recs)
  case (Cons d cs)
  from Cons.prems(1) obtain r rs where r: "outgoing_record P (nonces (length cs)) v d = Inr r"
    and rs: "outgoing_records P nonces v cs = Inr rs" and recs: "recs = (case r of None \<Rightarrow> rs | Some x \<Rightarrow> x # rs)"
    by (auto simp: and_then_Inr)
  show ?case
  proof (cases "c = d")
    case True
    with r recs show ?thesis by (auto split: option.splits)
  next
    case False
    with Cons.IH [OF rs] Cons.prems(2) recs show ?thesis by (fastforce split: option.splits)
  qed
qed simp

definition wire_ok :: "prims \<Rightarrow> (nat \<Rightarrow> bytes) \<Rightarrow> unlocked_vault \<Rightarrow> bool" where
  "wire_ok P nonces v \<longleftrightarrow> aead_correct P \<and> b64_faithful P \<and> uuid_faithful P \<and> (\<forall>j. json_faithful P j) \<and>
     length (key_expose (uv_vault_key v)) = KEY_LEN \<and> (\<forall>n. length (nonces n) = NONCE_LEN)"

lemma outgoing_item_reads:
  assumes ok: "wire_ok P nonces v" and key: "uv_vault_key w = uv_vault_key v"
    and s: "seal_item P (nonces n) v i = Inr s"
  shows "decode_item P w (item_id i) \<lparr>si_id = k, si_revision = r, si_ciphertext = Some (p_json_print P (sealed_json P s)),
    si_deleted = d, si_proof = p\<rparr> = Some i"
proof -
  have "open_sealed P (uv_vault_key v) s (uuid_bytes (item_id i)) = Inr (p_json_print P (item_json P i))"
    using s ok unfolding seal_item_def wire_ok_def by (intro open_seal [of P _ "nonces n"]) auto
  then have "open_item P w (item_id i) s = Inr i"
    using ok by (simp add: open_item_def key parse_json_print item_rt wire_ok_def)
  then show ?thesis
    using ok by (simp add: decode_item_def wire_ok_def json_faithful_def sealed_rt)
qed

lemma outgoing_deletion_reads:
  assumes ok: "wire_ok P nonces v" and key: "uv_vault_key w = uv_vault_key v"
    and s: "seal_proof P (nonces n) v t = Inr p"
  shows "proven_deletion P w (t_id t) \<lparr>si_id = k, si_revision = r, si_ciphertext = c, si_deleted = True, si_proof = Some p\<rparr> = Some t"
proof -
  from s obtain q where q: "seal_deletion P (nonces n) v t = Inr q" "p = p_json_print P (sealed_json P q)"
    by (auto simp: seal_proof_def split: sum.splits)
  have "open_sealed P (uv_vault_key v) q (deletion_aad (t_id t)) = Inr (p_json_print P (tombstone_json P t))"
    using q(1) ok unfolding seal_deletion_def wire_ok_def by (intro open_seal [of P _ "nonces n"]) auto
  then have "open_deletion P w (t_id t) q = Inr t"
    using ok by (simp add: open_deletion_def key parse_json_print tombstone_rt wire_ok_def)
  then show ?thesis
    using ok by (simp add: proven_deletion_def q(2) wire_ok_def json_faithful_def sealed_rt)
qed

text \<open>
  A push leaves nothing out: every item edited and every deletion made since the last sync is in
  it, under its own id, and reads back on any machine that holds the vault key, the item as it is and
  the deletion as proven.
\<close>

theorem pushed_reads_back:
  assumes "outgoing P nonces since v = Inr recs" and "wire_ok P nonces v" and "vault_wf (uv_data v)"
    and "uv_vault_key w = uv_vault_key v"
  shows "(\<forall>i \<in> set (vd_items (uv_data v)). since < item_updated_at i \<longrightarrow>
      (\<exists>r \<in> set recs. p_uuid_parse P (si_id r) = Some (item_id i) \<and> \<not> si_deleted r \<and> decode_item P w (item_id i) r = Some i)) \<and>
    (\<forall>t \<in> set (vd_tombstones (uv_data v)). since < t_deleted_at t \<longrightarrow>
      (\<exists>r \<in> set recs. p_uuid_parse P (si_id r) = Some (t_id t) \<and> proven_deletion P w (t_id t) r = Some t))"
proof (intro conjI ballI impI)
  let ?d = "uv_data v"
  have uuid: "p_uuid_parse P (p_uuid_print P k) = Some k" for k using assms(2) by (simp add: wire_ok_def uuid_faithful_def)
  fix i assume i: "i \<in> set (vd_items ?d)" "since < item_updated_at i"
  then have "local_present (item_id i) (item_updated_at i) \<in> set (to_push (local_items ?d) since)"
    by (auto simp: to_push_def local_items_def local_present_def)
  from outgoing_records_member [OF assms(1) [unfolded outgoing_def] this] obtain n r where
    r: "outgoing_record P (nonces n) v (local_present (item_id i) (item_updated_at i)) = Inr r"
    and recs: "\<And>x. r = Some x \<Longrightarrow> x \<in> set recs" by blast
  have "vget ?d (item_id i) = Some i" using i(1) assms(3) by (simp add: vget_iff)
  with r obtain s where s: "seal_item P (nonces n) v i = Inr s"
    and x: "r = Some \<lparr>si_id = p_uuid_print P (item_id i), si_revision = 0, si_ciphertext = Some (p_json_print P (sealed_json P s)),
      si_deleted = False, si_proof = None\<rparr>"
    by (auto simp: outgoing_record_def local_present_def split: sum.splits)
  from recs [OF x] outgoing_item_reads [OF assms(2,4) s] uuid
  show "\<exists>r \<in> set recs. p_uuid_parse P (si_id r) = Some (item_id i) \<and> \<not> si_deleted r \<and> decode_item P w (item_id i) r = Some i"
    by (intro bexI) auto
next
  let ?d = "uv_data v"
  have uuid: "p_uuid_parse P (p_uuid_print P k) = Some k" for k using assms(2) by (simp add: wire_ok_def uuid_faithful_def)
  fix t assume t: "t \<in> set (vd_tombstones ?d)" "since < t_deleted_at t"
  then have "local_deleted (t_id t) (t_deleted_at t) \<in> set (to_push (local_items ?d) since)"
    by (auto simp: to_push_def local_items_def local_deleted_def)
  from outgoing_records_member [OF assms(1) [unfolded outgoing_def] this] obtain n r where
    r: "outgoing_record P (nonces n) v (local_deleted (t_id t) (t_deleted_at t)) = Inr r"
    and recs: "\<And>x. r = Some x \<Longrightarrow> x \<in> set recs" by blast
  have "find_tombstone ?d (t_id t) = Some t"
    unfolding find_tombstone_def using t(1) assms(3) by (simp add: find_key_iff vault_wf_def)
  with r obtain p where p: "seal_proof P (nonces n) v t = Inr p"
    and x: "r = Some \<lparr>si_id = p_uuid_print P (t_id t), si_revision = 0, si_ciphertext = None, si_deleted = True, si_proof = Some p\<rparr>"
    by (auto simp: outgoing_record_def local_deleted_def split: sum.splits)
  from recs [OF x] outgoing_deletion_reads [OF assms(2,4) p] uuid
  show "\<exists>r \<in> set recs. p_uuid_parse P (si_id r) = Some (t_id t) \<and> proven_deletion P w (t_id t) r = Some t"
    by (intro bexI) auto
qed

section \<open>What a round forgets\<close>

text \<open>
  A round ends by noting the time as the moment of the last sync. Whatever the vault holds then counts
  as synced, an edit made while the push was out included: the next round pushes only what is later.
\<close>

theorem late_edits_are_forgotten:
  assumes "vd_sync (uv_data v) = Some y" and "i \<in> set (vd_items (uv_data v))" and "item_updated_at i \<le> at"
  shows "\<exists>y'. vd_sync (uv_data (remember_round r at v)) = Some y' \<and>
    i \<in> set (vd_items (uv_data (remember_round r at v))) \<and>
    (\<forall>l \<in> set (to_push (local_items (uv_data (remember_round r at v))) (ss_last_synced_at y')). item_updated_at i < li_updated_at l)"
  using assms by (auto simp: remember_round_def set_sync_state_def to_push_def)

section \<open>Witness\<close>

lemma total_prims_ok: "wire_ok total_prims (\<lambda>_. replicate NONCE_LEN (CHR ''n'')) syncing_vault"
  using sample_prims_ok(1,5,6) [of JNull JNull]
  by (simp add: wire_ok_def total_prims_def aead_correct_def b64_faithful_def uuid_faithful_def json_faithful_def
      syncing_vault_def sample_vault_def)

lemma total_push: "\<exists>recs. outgoing total_prims (\<lambda>_. replicate NONCE_LEN (CHR ''n'')) 0 syncing_vault = Inr recs"
proof -
  let ?P = total_prims and ?n = "\<lambda>_ :: nat. replicate NONCE_LEN (CHR ''n'')"
  have "\<exists>s. seal ?P (?n 0) k p a = Inr s" for k p a
    by (simp add: seal_def total_prims_def sample_prims_def)
  then have "\<exists>s. seal_item ?P (?n 0) syncing_vault i = Inr s" "\<exists>s. seal_proof ?P (?n 0) syncing_vault t = Inr s" for i t
    by (auto simp: seal_item_def seal_proof_def seal_deletion_def split: sum.split) (metis sum.distinct(1))
  then have "\<exists>x. outgoing_record ?P (?n 0) syncing_vault c = Inr x" for c
    by (auto simp: outgoing_record_def split: option.split sum.split) (metis sum.distinct(1))+
  then have "\<exists>recs. outgoing_records ?P ?n syncing_vault cs = Inr recs" for cs
    by (induction cs) (simp_all, metis and_then_simps(2))
  then show ?thesis unfolding outgoing_def by blast
qed

lemma syncing_wf: "vault_wf (uv_data syncing_vault)"
  using sample_round_at by (simp add: round_at_def)

lemma pushed_reads_back_witness:
  "\<exists>recs. outgoing total_prims (\<lambda>_. replicate NONCE_LEN (CHR ''n'')) 0 syncing_vault = Inr recs \<and>
    (\<exists>r \<in> set recs. p_uuid_parse total_prims (si_id r) = Some 7 \<and> decode_item total_prims syncing_vault 7 r = Some sample_item) \<and>
    (\<exists>r \<in> set recs. proven_deletion total_prims syncing_vault 9 r = Some \<lparr>t_id = 9, t_deleted_at = 50\<rparr>)"
proof -
  obtain recs where recs: "outgoing total_prims (\<lambda>_. replicate NONCE_LEN (CHR ''n'')) 0 syncing_vault = Inr recs"
    using total_push by blast
  from pushed_reads_back [OF recs total_prims_ok syncing_wf refl] recs
  show ?thesis
    by (auto simp: syncing_vault_def sample_data_def sample_item_def item_new_def word_less_nat_alt)
qed

end
