(* ===== verification/Sync_Between.thy ===== *)
theory Sync_Between
  imports Sync_Outgoing Sync_Wire
begin

text \<open>
  Two machines and the server between them: what one pushes, the other has after its round. The parts
  are those of the development: \<open>outgoing\<close> on the first machine, the bodies both ends agree on, the
  database, and \<open>sync_now\<close> on the second.
\<close>

section \<open>What a push says of one id\<close>

lemma outgoing_records_from:
  assumes "outgoing_records P nonces v cs = Inr recs" and "r \<in> set recs"
  shows "\<exists>n. \<exists>c \<in> set cs. outgoing_record P (nonces n) v c = Inr (Some r)"
  using assms
proof (induction cs arbitrary: recs)
  case (Cons d cs)
  then obtain x rs where x: "outgoing_record P (nonces (length cs)) v d = Inr x"
    and rs: "outgoing_records P nonces v cs = Inr rs" and recs: "recs = (case x of None \<Rightarrow> rs | Some y \<Rightarrow> y # rs)"
    by (auto simp: and_then_Inr)
  show ?case
  proof (cases "x = Some r")
    case True
    with x show ?thesis by auto
  next
    case False
    with recs Cons.prems(2) have "r \<in> set rs" by (auto split: option.splits)
    with Cons.IH [OF rs] show ?thesis by auto
  qed
qed simp

lemma outgoing_record_id: "outgoing_record P nonce v c = Inr (Some r) \<Longrightarrow> si_id r = p_uuid_print P (li_id c)"
  by (auto simp: outgoing_record_def split: if_splits option.splits sum.splits)

text \<open>A record an honest machine pushed opens under no other id than its own.\<close>

lemma pushed_authentic:
  assumes "outgoing P nonces since v = Inr recs" and ok: "wire_ok P nonces v" and "aead_binding P"
    and key: "uv_vault_key w = uv_vault_key v" and r: "r \<in> set recs" and i: "decode_item P w k r = Some i"
  shows "item_id i = k"
proof -
  obtain n c where c: "outgoing_record P (nonces n) v c = Inr (Some r)"
    using outgoing_records_from [OF assms(1) [unfolded outgoing_def] r] by blast
  with i obtain j s where j: "vget (uv_data v) (li_id c) = Some j" and s: "seal_item P (nonces n) v j = Inr s"
    and x: "r = \<lparr>si_id = p_uuid_print P (li_id c), si_revision = 0, si_ciphertext = Some (p_json_print P (sealed_json P s)),
      si_deleted = False, si_proof = None\<rparr>"
    by (auto simp: outgoing_record_def decode_item_def split: if_splits option.splits sum.splits)
  have id: "item_id j = li_id c" using j by (auto simp: vget_def dest: find_Some_set)
  have "item_id j = k"
  proof (rule ccontr)
    assume "item_id j \<noteq> k"
    then have "open_sealed P (uv_vault_key v) s (uuid_bytes k) = Inl Decrypt"
      using s ok unfolding seal_item_def wire_ok_def
      by (intro open_seal_other [OF assms(3), where k = "uv_vault_key v" and n = "nonces n"]) (auto simp: uuid_bytes_inj)
    with i ok show False
      by (simp add: x decode_item_def open_item_def key wire_ok_def json_faithful_def sealed_rt)
  qed
  with outgoing_item_reads [OF ok key s] i id show ?thesis by (auto simp: x)
qed

lemma wf_apart: "vault_wf d \<Longrightarrow> i \<in> set (vd_items d) \<Longrightarrow> t \<in> set (vd_tombstones d) \<Longrightarrow> item_id i \<noteq> t_id t"
  by (auto simp: vault_wf_def)

text \<open>Every record pushed under the id of an item carries that item, and no deletion.\<close>

definition carries_item :: "prims \<Rightarrow> unlocked_vault \<Rightarrow> item \<Rightarrow> sync_item \<Rightarrow> bool" where
  "carries_item P w i r \<longleftrightarrow> si_id r = p_uuid_print P (item_id i) \<and> \<not> si_deleted r \<and> si_proof r = None \<and>
     decode_item P w (item_id i) r = Some i"

definition carries_deletion :: "prims \<Rightarrow> unlocked_vault \<Rightarrow> tombstone \<Rightarrow> sync_item \<Rightarrow> bool" where
  "carries_deletion P w t r \<longleftrightarrow> si_id r = p_uuid_print P (t_id t) \<and> si_deleted r \<and> si_ciphertext r = None \<and>
     proven_deletion P w (t_id t) r = Some t"

lemma pushed_item_only:
  assumes "outgoing P nonces since v = Inr recs" and ok: "wire_ok P nonces v" and wf: "vault_wf (uv_data v)"
    and key: "uv_vault_key w = uv_vault_key v" and i: "i \<in> set (vd_items (uv_data v))"
    and r: "r \<in> set recs" "si_id r = p_uuid_print P (item_id i)"
  shows "carries_item P w i r"
proof -
  obtain n c where c: "c \<in> set (to_push (local_items (uv_data v)) since)" "outgoing_record P (nonces n) v c = Inr (Some r)"
    using outgoing_records_from [OF assms(1) [unfolded outgoing_def] r(1)] by blast
  have "li_id c = item_id i"
    using outgoing_record_id [OF c(2)] r(2) ok by (metis option.inject uuid_faithful_def wire_ok_def)
  moreover from this have "\<not> li_deleted c"
    using c(1) wf_apart [OF wf i] by (fastforce simp: to_push_def local_items_def local_present_def local_deleted_def)
  moreover have "vget (uv_data v) (item_id i) = Some i" using i wf by (simp add: vget_iff)
  ultimately obtain s where s: "seal_item P (nonces n) v i = Inr s"
    "r = \<lparr>si_id = p_uuid_print P (item_id i), si_revision = 0, si_ciphertext = Some (p_json_print P (sealed_json P s)),
      si_deleted = False, si_proof = None\<rparr>"
    using c(2) by (auto simp: outgoing_record_def split: sum.splits)
  then show ?thesis using outgoing_item_reads [OF ok key s(1)] by (simp add: carries_item_def)
qed

lemma pushed_deletion_only:
  assumes "outgoing P nonces since v = Inr recs" and ok: "wire_ok P nonces v" and wf: "vault_wf (uv_data v)"
    and key: "uv_vault_key w = uv_vault_key v" and t: "t \<in> set (vd_tombstones (uv_data v))"
    and r: "r \<in> set recs" "si_id r = p_uuid_print P (t_id t)"
  shows "carries_deletion P w t r"
proof -
  obtain n c where c: "c \<in> set (to_push (local_items (uv_data v)) since)" "outgoing_record P (nonces n) v c = Inr (Some r)"
    using outgoing_records_from [OF assms(1) [unfolded outgoing_def] r(1)] by blast
  have "li_id c = t_id t"
    using outgoing_record_id [OF c(2)] r(2) ok by (metis option.inject uuid_faithful_def wire_ok_def)
  moreover from this have "li_deleted c"
    using c(1) wf_apart [OF wf _ t] by (fastforce simp: to_push_def local_items_def local_present_def local_deleted_def)
  moreover have "find_tombstone (uv_data v) (t_id t) = Some t"
    using t wf by (simp add: find_tombstone_def find_key_iff vault_wf_def)
  ultimately obtain p where p: "seal_proof P (nonces n) v t = Inr p"
    "r = \<lparr>si_id = p_uuid_print P (t_id t), si_revision = 0, si_ciphertext = None, si_deleted = True, si_proof = Some p\<rparr>"
    using c(2) by (auto simp: outgoing_record_def split: sum.splits)
  then show ?thesis using outgoing_deletion_reads [OF ok key p(1)] by (simp add: carries_deletion_def)
qed

lemma pushed_some:
  assumes "outgoing P nonces since v = Inr recs" and wf: "vault_wf (uv_data v)"
    and c: "c \<in> set (to_push (local_items (uv_data v)) since)"
  shows "\<exists>r \<in> set recs. si_id r = p_uuid_print P (li_id c)"
proof -
  from outgoing_records_member [OF assms(1) [unfolded outgoing_def] c] obtain n x
    where x: "outgoing_record P (nonces n) v c = Inr x" "\<And>r. x = Some r \<Longrightarrow> r \<in> set recs" by blast
  from c wf have "if li_deleted c then find_tombstone (uv_data v) (li_id c) \<noteq> None else vget (uv_data v) (li_id c) \<noteq> None"
    by (fastforce simp: to_push_def local_items_def local_present_def local_deleted_def vget_def find_tombstone_def find_None_iff)
  with x(1) obtain r where "x = Some r" by (auto simp: outgoing_record_def split: if_splits sum.splits)
  with x show ?thesis using outgoing_record_id by blast
qed

section \<open>What the server keeps of it\<close>

lemma upsert_find_other:
  assumes "c = a \<Longrightarrow> k \<noteq> ir_id r"
  shows "find (\<lambda>i. it_account i = a \<and> it_id i = k) (upsert_item c n now r rows) =
    find (\<lambda>i. it_account i = a \<and> it_id i = k) rows"
proof -
  let ?row = "\<lparr>it_account = c, it_record = stored_item n r, it_updated_at = now\<rparr>"
  have row: "\<not> (it_account ?row = a \<and> it_id ?row = k)" using assms by (auto simp: stored_item_def)
  have "find (\<lambda>i. it_account i = a \<and> it_id i = k)
      (map (\<lambda>i. if it_account i = c \<and> it_id i = ir_id r then ?row else i) xs) =
      find (\<lambda>i. it_account i = a \<and> it_id i = k) xs" for xs
    using assms row by (induction xs) auto
  moreover have "find (\<lambda>i. it_account i = a \<and> it_id i = k) (rows @ [?row]) =
      find (\<lambda>i. it_account i = a \<and> it_id i = k) rows"
    using assms by (auto simp: find_append stored_item_def split: option.split)
  ultimately show ?thesis by (simp add: upsert_item_def Let_def)
qed

lemma upsert_find_same:
  "find (\<lambda>i. it_account i = a \<and> it_id i = ir_id r) (upsert_item a n now r rows) =
    Some \<lparr>it_account = a, it_record = stored_item n r, it_updated_at = now\<rparr>"
proof -
  let ?row = "\<lparr>it_account = a, it_record = stored_item n r, it_updated_at = now\<rparr>"
  have row: "it_account ?row = a" "it_id ?row = ir_id r" by (simp_all add: stored_item_def)
  have "list_ex (\<lambda>i. it_account i = a \<and> it_id i = ir_id r) xs \<Longrightarrow>
      find (\<lambda>i. it_account i = a \<and> it_id i = ir_id r)
        (map (\<lambda>i. if it_account i = a \<and> it_id i = ir_id r then ?row else i) xs) = Some ?row" for xs
    using row by (induction xs) auto
  moreover have "\<not> list_ex (\<lambda>i. it_account i = a \<and> it_id i = ir_id r) rows \<Longrightarrow>
      find (\<lambda>i. it_account i = a \<and> it_id i = ir_id r) (rows @ [?row]) = Some ?row"
    using row by (auto simp: find_append list_ex_iff find_None_iff split: option.split dest!: find_Some_set)
  ultimately show ?thesis by (simp add: upsert_item_def Let_def)
qed

lemma fold_upsert_stored:
  "r \<in> set rs \<Longrightarrow> \<exists>q \<in> set rs. ir_id q = ir_id r \<and>
    find (\<lambda>i. it_account i = a \<and> it_id i = ir_id r) (fold (upsert_item a n now) rs rows) =
      Some \<lparr>it_account = a, it_record = stored_item n q, it_updated_at = now\<rparr>"
proof (induction rs arbitrary: r rows rule: rev_induct)
  case (snoc q rs)
  show ?case
  proof (cases "ir_id q = ir_id r")
    case True
    then show ?thesis using upsert_find_same [of a q n now] by (intro bexI [of _ q]) auto
  next
    case False
    with snoc.prems have "r \<in> set rs" by auto
    from snoc.IH [OF this, of rows] show ?thesis using False upsert_find_other [of a a "ir_id r" q n now] by fastforce
  qed
qed simp

lemma push_stored:
  assumes "store_push a e items now b = (b', Inr n)" and "r \<in> set items"
  shows "\<exists>q \<in> set items. ir_id q = ir_id r \<and>
    find_item a (ir_id r) b' = Some \<lparr>it_account = a, it_record = stored_item n q, it_updated_at = now\<rparr>"
proof -
  from assms(1) have "db_items b' = fold (upsert_item a n now) items (db_items b)"
    by (auto simp: store_push_def Let_def split: option.splits if_splits)
  then show ?thesis using fold_upsert_stored [OF assms(2), of a n now "db_items b"] by (simp add: find_item_def)
qed

text \<open>The pushes in between leave the id alone: they are of other accounts or of other ids.\<close>

definition leaves_alone :: "string \<Rightarrow> string \<Rightarrow> (string \<times> i64 \<times> item_record list \<times> i64) list \<Rightarrow> bool" where
  "leaves_alone a k ps \<longleftrightarrow> (\<forall>(c, e, items, now) \<in> set ps. c = a \<longrightarrow> k \<notin> ir_id ` set items)"

lemma push_other:
  assumes "c = a \<Longrightarrow> k \<notin> ir_id ` set items"
  shows "find_item a k (fst (store_push c e items now b)) = find_item a k b"
proof -
  have "find (\<lambda>i. it_account i = a \<and> it_id i = k) (fold (upsert_item c n now) items rows) =
      find (\<lambda>i. it_account i = a \<and> it_id i = k) rows" for n rows
    using assms
  proof (induction items arbitrary: rows)
    case (Cons r items)
    then show ?case using upsert_find_other [of c a k r n now rows] by (cases "c = a") simp_all
  qed simp
  then show ?thesis by (simp add: store_push_def find_item_def Let_def split: option.split)
qed

lemma pushes_other: "leaves_alone a k ps \<Longrightarrow> find_item a k (run_pushes ps b) = find_item a k b"
  by (induction ps b rule: run_pushes.induct) (auto simp: leaves_alone_def push_other)

lemma wf_pushes: "db_wf b \<Longrightarrow> db_wf (run_pushes ps b)"
  by (induction ps b rule: run_pushes.induct) (auto intro: wf_push prod.collapse [symmetric])

section \<open>What the other machine makes of it\<close>

lemma find_tombstone_discard_other:
  assumes wf: "vault_wf d" and other: "k \<noteq> j" and t: "find_tombstone (discard now j d) k = Some t"
  shows "find_tombstone d k = Some t"
proof -
  have "t \<in> set (vd_tombstones (discard now j d))" and "t_id t = k"
    using t by (auto simp: find_tombstone_def dest: find_Some_set)
  then have "t \<in> set (vd_tombstones d)"
    using other by (auto simp: discard_def remove_item_Inr record_tombstone_tombstones keep_last_def split: sum.splits if_splits
        dest!: in_set_dropD)
  with wf \<open>t_id t = k\<close> show ?thesis by (simp add: find_tombstone_def find_key_iff vault_wf_def)
qed

text \<open>A record of another id touches neither the item under this one nor what is known of its changes.\<close>

lemma other_record:
  fixes x :: sync_run and now since :: u64
  assumes auth: "authentic P v rs" and fresh: "\<forall>n < length rs. draw n \<noteq> k"
    and r: "r \<in> set rs" "p_uuid_parse P (si_id r) \<noteq> Some k" and wf: "vault_wf (sx_data x)"
    and key: "uv_vault_key (sx_vault x) = uv_vault_key v" and room: "sx_used x < length rs"
  defines "y \<equiv> apply_record P draw now since r x"
  shows "vget (sx_data y) k = vget (sx_data x) k \<and> (quiet_here (sx_data x) since k \<longrightarrow> quiet_here (sx_data y) since k)"
proof (cases "p_uuid_parse P (si_id r)")
  case None
  then show ?thesis by (simp add: y_def apply_record_skip)
next
  case (Some j)
  with r have j: "j \<noteq> k" by simp
  have dec: "item_id i = j" if "decode_item P (sx_vault x) j r = Some i" for i
    using that auth r key_cong(1) [OF key] by (auto simp: authentic_def)
  have ups: "vget (upsert i d) k = vget d k \<and> quiet_here (upsert i d) since k = quiet_here d since k" if "item_id i \<noteq> k" for i d
    using that find_tombstone_upsert [of k i d] by (auto simp: vget_upsert quiet_here_def held_here_def split: option.split)
  from wf Some show ?thesis
  proof (cases rule: apply_record_effect [where draw = draw and now = now and since = since])
    case deleted
    have "find_tombstone (discard now j (sx_data x)) k \<in> {None, find_tombstone (sx_data x) k}"
      using find_tombstone_discard_other [OF wf j [symmetric]] by fastforce
    with deleted(1) j wf show ?thesis
      by (auto simp: y_def vget_discard quiet_here_def held_here_def split: option.splits)
  next
    case (taken i)
    with ups dec j show ?thesis by (auto simp: y_def)
  next
    case (mine_beside i i')
    with ups dec j fresh room show ?thesis by (auto simp: y_def renamed_def)
  next
    case (theirs_beside i i')
    with ups fresh room show ?thesis by (auto simp: y_def renamed_def)
  qed (simp add: y_def)
qed

lemma other_records:
  assumes auth: "authentic P v rs" and fresh: "\<forall>n < length rs. draw n \<noteq> k"
  shows "\<lbrakk>set qs \<subseteq> set rs; \<forall>q \<in> set qs. p_uuid_parse P (si_id q) \<noteq> Some k; vault_wf (sx_data x);
      uv_vault_key (sx_vault x) = uv_vault_key v; sx_used x + length qs \<le> length rs\<rbrakk> \<Longrightarrow>
    (let y = fold (apply_record P draw now since) qs x in
      vget (sx_data y) k = vget (sx_data x) k \<and> (quiet_here (sx_data x) since k \<longrightarrow> quiet_here (sx_data y) since k) \<and>
      vault_wf (sx_data y) \<and> uv_vault_key (sx_vault y) = uv_vault_key v \<and> sx_used y \<le> sx_used x + length qs)"
proof (induction qs arbitrary: x)
  case (Cons q qs)
  let ?x = "apply_record P draw now since q x"
  have "vget (sx_data ?x) k = vget (sx_data x) k \<and> (quiet_here (sx_data x) since k \<longrightarrow> quiet_here (sx_data ?x) since k)"
    using Cons.prems other_record [OF auth fresh, where r = q and x = x and now = now and since = since] by auto
  moreover note apply_record_wf [OF Cons.prems(3), of P draw now since q] apply_record_used [OF Cons.prems(3), of P draw now since q]
  ultimately show ?case using Cons.IH [of ?x] Cons.prems by (auto simp: Let_def)
qed simp

text \<open>A page that has one record of the id leaves what that record says, where nothing was changed here.\<close>

lemma page_with_record:
  assumes page: "rs = as @ r # bs" and k: "p_uuid_parse P (si_id r) = Some k"
    and one: "\<forall>q \<in> set (as @ bs). p_uuid_parse P (si_id q) \<noteq> Some k"
    and auth: "authentic P v rs" and fresh: "\<forall>n < length rs. draw n \<noteq> k"
    and wf: "vault_wf (uv_data v)" and quiet: "quiet_here (uv_data v) since k"
  shows "\<exists>x. vault_wf (sx_data x) \<and> uv_vault_key (sx_vault x) = uv_vault_key v \<and> quiet_here (sx_data x) since k \<and>
    vget (sx_data (apply_all P draw now since rs \<lparr>sx_vault = v, sx_used = 0, sx_report = rep\<rparr>)) k =
    vget (sx_data (apply_record P draw now since r x)) k"
proof -
  let ?f = "fold (apply_record P draw now since)" and ?start = "\<lparr>sx_vault = v, sx_used = 0, sx_report = rep\<rparr>"
  let ?x = "?f as ?start" let ?y = "apply_record P draw now since r ?x"
  have sub: "set as \<subseteq> set rs" "set bs \<subseteq> set rs" and one': "\<forall>q \<in> set as. p_uuid_parse P (si_id q) \<noteq> Some k"
      "\<forall>q \<in> set bs. p_uuid_parse P (si_id q) \<noteq> Some k" and len: "length rs = Suc (length as + length bs)"
    using page one by auto
  from other_records [OF auth fresh sub(1) one'(1), where x = ?start and now = now and since = since] wf quiet len
  have x: "quiet_here (sx_data ?x) since k" "vault_wf (sx_data ?x)" "uv_vault_key (sx_vault ?x) = uv_vault_key v"
      "sx_used ?x \<le> length as" by (simp_all add: Let_def)
  have "sx_used ?y + length bs \<le> length rs"
    using apply_record_used [OF x(2), of P draw now since r] x(4) len by simp
  from other_records [OF auth fresh sub(2) one'(2) apply_record_wf [OF x(2)], where now = now and since = since] this x(3)
  have "vget (sx_data (?f bs ?y)) k = vget (sx_data ?y) k" by (simp add: Let_def)
  with x show ?thesis by (intro exI [of _ ?x]) (simp add: apply_all_def page)
qed

lemma record_taken:
  assumes "quiet_here (sx_data x) since k" and "p_uuid_parse P (si_id r) = Some k"
    and "\<not> si_deleted r" and "decode_item P (sx_vault x) k r = Some i" and "item_id i = k"
  shows "vget (sx_data (apply_record P draw now since r x)) k = Some i"
proof -
  have "proven_deletion P (sx_vault x) k r = None" using assms(3) by (simp add: proven_deletion_def)
  moreover have "reconcile (held_here (sx_data x) k) (offered k None (Some i)) since = ApplyRemote"
    using assms(1) by (cases "held_here (sx_data x) k") (auto simp: quiet_here_def reconcile_iff offered_def)
  ultimately show ?thesis
    using assms(2-5) by (simp add: apply_record_def settle_def vget_upsert)
qed

lemma record_deletes:
  assumes "vault_wf (sx_data x)" and "quiet_here (sx_data x) since k" and "p_uuid_parse P (si_id r) = Some k"
    and "proven_deletion P (sx_vault x) k r = Some t"
  shows "vget (sx_data (apply_record P draw now since r x)) k = None"
proof -
  let ?theirs = "decode_item P (sx_vault x) k r"
  have "reconcile (held_here (sx_data x) k) (offered k (Some t) ?theirs) since = ApplyDelete \<or>
      reconcile (held_here (sx_data x) k) (offered k (Some t) ?theirs) since = KeepLocal \<and> vget (sx_data x) k = None"
  proof (cases "held_here (sx_data x) k")
    case (Some l)
    have "vget (sx_data x) k = None" if "li_deleted l"
      using that Some by (auto simp: held_here_def local_present_def split: option.splits)
    then show ?thesis
      using Some assms(2) by (cases "li_deleted l") (auto simp: quiet_here_def reconcile_def offered_def split: bool.split)
  qed (simp add: reconcile_iff offered_def)
  then show ?thesis using assms(1,3,4) by (auto simp: apply_record_def settle_def Let_def vget_discard)
qed

section \<open>From one to the other\<close>

text \<open>Machines write ids in one way: what reads as an id is what is written for it.\<close>

definition spelled :: "prims \<Rightarrow> sync_item list \<Rightarrow> bool" where
  "spelled P rs \<longleftrightarrow> (\<forall>r \<in> set rs. \<forall>k. p_uuid_parse P (si_id r) = Some k \<longrightarrow> si_id r = p_uuid_print P k)"

lemma page_once:
  assumes wf: "db_wf b" and held: "find_item a (p_uuid_print P k) b = Some i" and newer: "r <s ir_revision (it_record i)"
    and spelled: "spelled P (map as_sync_item (items_since a r b))"
  shows "\<exists>as bs. map as_sync_item (items_since a r b) = as @ as_sync_item (it_record i) # bs \<and>
    (\<forall>q \<in> set (as @ bs). p_uuid_parse P (si_id q) \<noteq> Some k)"
proof -
  note m = find_item_Some [OF held]
  with newer have "it_record i \<in> set (items_since a r b)" by (auto simp: items_since_member)
  then obtain as bs where s: "items_since a r b = as @ it_record i # bs" by (blast dest: split_list)
  have "ir_id x \<noteq> p_uuid_print P k" if "x \<in> set (as @ bs)" for x
    using items_since_distinct [OF wf, of a r] that m by (auto simp: s rev_image_eqI)
  then have "\<forall>q \<in> set (map as_sync_item as @ map as_sync_item bs). p_uuid_parse P (si_id q) \<noteq> Some k"
    using spelled by (fastforce simp: s spelled_def as_sync_item_def)
  then show ?thesis by (intro exI [of _ "map as_sync_item as"] exI [of _ "map as_sync_item bs"]) (simp add: s)
qed

text \<open>What was pushed under an id is, on the next page, the one record that reads as that id.\<close>

lemma pushed_on_page:
  assumes wf: "db_wf b" and push: "of_push (client_push_json e recs) = Inr body"
      "store_push a (pu_expected_revision body) (pu_items body) now b = (b', Inr n)"
    and alone: "leaves_alone a (p_uuid_print P k) ps"
    and page: "of_item_page (JObj [(''revision'', i_json m), (''items'', JArr (map item_record_json
      (items_since a seen (run_pushes ps b'))))]) = Inr page" "seen <s n" "spelled P (pg_items page)"
    and r: "r \<in> set recs" "si_id r = p_uuid_print P k"
  shows "\<exists>q \<in> set recs. si_id q = si_id r \<and> (\<exists>as bs. pg_items page = as @ as_sync_item (stored_item n (as_record q)) # bs \<and>
    (\<forall>q \<in> set (as @ bs). p_uuid_parse P (si_id q) \<noteq> Some k))"
proof -
  have items: "pu_items body = map as_record recs" using push(1) by (auto simp: push_to_server)
  have pg: "pg_items page = map as_sync_item (items_since a seen (run_pushes ps b'))"
    using page(1) by (auto simp: page_to_client)
  have id: "ir_id (as_record x) = si_id x" for x by (simp add: as_record_def)
  from push_stored [OF push(2), of "as_record r"] r items id obtain q where q: "q \<in> set recs" "si_id q = si_id r"
    "find_item a (p_uuid_print P k) b' = Some \<lparr>it_account = a, it_record = stored_item n (as_record q), it_updated_at = now\<rparr>"
    by auto
  have "find_item a (p_uuid_print P k) (run_pushes ps b') =
      Some \<lparr>it_account = a, it_record = stored_item n (as_record q), it_updated_at = now\<rparr>"
    using q(3) pushes_other [OF alone] by simp
  from page_once [OF wf_pushes [OF wf_push [OF wf push(2)]] this] page(2,3) q(1,2) show ?thesis
    by (auto simp: pg stored_item_def)
qed

lemma stored_carries:
  "carries_item P w i r \<Longrightarrow> carries_item P w i (as_sync_item (stored_item n (as_record r)))"
  "carries_deletion P w t r \<Longrightarrow> carries_deletion P w t (as_sync_item (stored_item n (as_record r)))"
  by (auto simp: carries_item_def carries_deletion_def as_sync_item_def stored_item_def as_record_def decode_item_def
      proven_deletion_def)

text \<open>The record of a change that was pushed is the one the round decides under its id.\<close>

lemma change_arrives:
  assumes push: "outgoing P nonces since w = Inr recs" "of_push (client_push_json e recs) = Inr body"
      "store_push a (pu_expected_revision body) (pu_items body) now b = (b', Inr n)"
    and ok: "wire_ok P nonces w" "vault_wf (uv_data w)" "db_wf b"
    and page: "of_item_page (JObj [(''revision'', i_json m), (''items'', JArr (map item_record_json
      (items_since a (ss_last_revision sync) (run_pushes ps b'))))]) = Inr page" "ss_last_revision sync <s n"
    and round: "sync_now P env s = (s', res)" "round_at P env s v sync page" "uv_vault_key v = uv_vault_key w"
    and others: "authentic P v (pg_items page)" "spelled P (pg_items page)"
      "fresh_ids P (se_uuids env) (length (pg_items page)) (uv_data v) (pg_items page)"
    and change: "c \<in> set (to_push (local_items (uv_data w)) since)" "li_id c = k" "leaves_alone a (p_uuid_print P k) ps"
      "quiet_here (uv_data v) (ss_last_synced_at sync) k"
  shows "\<exists>v'. as_vault s' = Some v' \<and> (\<exists>q \<in> set recs. si_id q = p_uuid_print P k \<and> (\<exists>x. vault_wf (sx_data x) \<and>
    uv_vault_key (sx_vault x) = uv_vault_key w \<and> quiet_here (sx_data x) (ss_last_synced_at sync) k \<and> vget (uv_data v') k =
    vget (sx_data (apply_record P (se_uuids env) (se_now env) (ss_last_synced_at sync) (as_sync_item (stored_item n (as_record q))) x)) k))"
proof -
  have wf: "vault_wf (uv_data v)" using round(2) by (simp add: round_at_def)
  have uuid: "p_uuid_parse P (p_uuid_print P k) = Some k" for k using ok(1) by (simp add: wire_ok_def uuid_faithful_def)
  obtain v' rep where v': "as_vault s' = Some v'"
    and "same_items (uv_data v') (sx_data (apply_all P (se_uuids env) (se_now env) (ss_last_synced_at sync) (pg_items page)
      \<lparr>sx_vault = v, sx_used = 0, sx_report = rep\<rparr>))"
    using sync_now_items [OF round(1)] round(2) unfolding round_at_def by blast
  then have get: "vget (uv_data v') = vget (sx_data (apply_all P (se_uuids env) (se_now env) (ss_last_synced_at sync) (pg_items page)
      \<lparr>sx_vault = v, sx_used = 0, sx_report = rep\<rparr>))" by (simp add: same_items_def)
  from pushed_some [OF push(1) ok(2) change(1)] change(2) obtain r where r: "r \<in> set recs" "si_id r = p_uuid_print P k" by blast
  from pushed_on_page [OF ok(3) push(2,3) change(3) page others(2) r] r(2) obtain q as bs where q: "q \<in> set recs"
    "si_id q = p_uuid_print P k" and split: "pg_items page = as @ as_sync_item (stored_item n (as_record q)) # bs"
    and one: "\<forall>q \<in> set (as @ bs). p_uuid_parse P (si_id q) \<noteq> Some k" by auto
  have id: "p_uuid_parse P (si_id (as_sync_item (stored_item n (as_record q)))) = Some k"
    using q(2) uuid by (simp add: as_sync_item_def stored_item_def as_record_def)
  moreover have "\<forall>j < length (pg_items page). se_uuids env j \<noteq> k"
    using others(3) id split by (auto simp: fresh_ids_def)
  ultimately show ?thesis
    using page_with_record [OF split _ one others(1) _ wf change(4), where draw = "se_uuids env" and now = "se_now env" and rep = rep]
      q round(3) get v' by auto
qed

text \<open>
  C17: a change made on one machine is on another after the round that pulls it: the item as it was
  edited, or gone if it was deleted, provided the other machine has not changed it itself and nobody
  pushed it again in between.
\<close>

theorem changes_reach_other_machine:
  assumes push: "outgoing P nonces since w = Inr recs" "of_push (client_push_json e recs) = Inr body"
      "store_push a (pu_expected_revision body) (pu_items body) now b = (b', Inr n)"
    and ok: "wire_ok P nonces w" "vault_wf (uv_data w)" "db_wf b"
    and page: "of_item_page (JObj [(''revision'', i_json m), (''items'', JArr (map item_record_json
      (items_since a (ss_last_revision sync) (run_pushes ps b'))))]) = Inr page" "ss_last_revision sync <s n"
    and round: "sync_now P env s = (s', res)" "round_at P env s v sync page" "uv_vault_key v = uv_vault_key w"
    and others: "authentic P v (pg_items page)" "spelled P (pg_items page)"
      "fresh_ids P (se_uuids env) (length (pg_items page)) (uv_data v) (pg_items page)"
  shows "\<exists>v'. as_vault s' = Some v' \<and>
    (\<forall>i \<in> set (vd_items (uv_data w)). since < item_updated_at i \<and> leaves_alone a (p_uuid_print P (item_id i)) ps \<and>
      quiet_here (uv_data v) (ss_last_synced_at sync) (item_id i) \<longrightarrow> vget (uv_data v') (item_id i) = Some i) \<and>
    (\<forall>t \<in> set (vd_tombstones (uv_data w)). since < t_deleted_at t \<and> leaves_alone a (p_uuid_print P (t_id t)) ps \<and>
      quiet_here (uv_data v) (ss_last_synced_at sync) (t_id t) \<longrightarrow> vget (uv_data v') (t_id t) = None)"
proof -
  note arrives = change_arrives [OF push ok page round others]
  have uuid: "p_uuid_parse P (p_uuid_print P k) = Some k" for k using ok(1) by (simp add: wire_ok_def uuid_faithful_def)
  obtain v' where v': "as_vault s' = Some v'"
    using sync_now_items [OF round(1)] round(2) unfolding round_at_def by blast
  have "vget (uv_data v') (item_id i) = Some i" if i: "i \<in> set (vd_items (uv_data w))" "since < item_updated_at i"
    "leaves_alone a (p_uuid_print P (item_id i)) ps" "quiet_here (uv_data v) (ss_last_synced_at sync) (item_id i)" for i
  proof -
    have "local_present (item_id i) (item_updated_at i) \<in> set (to_push (local_items (uv_data w)) since)"
      using i by (auto simp: to_push_def local_items_def local_present_def)
    from arrives [OF this _ i(3,4)] v' obtain q x where q: "q \<in> set recs" "si_id q = p_uuid_print P (item_id i)"
      and x: "uv_vault_key (sx_vault x) = uv_vault_key w" "quiet_here (sx_data x) (ss_last_synced_at sync) (item_id i)"
      and get: "vget (uv_data v') (item_id i) = vget (sx_data (apply_record P (se_uuids env) (se_now env)
        (ss_last_synced_at sync) (as_sync_item (stored_item n (as_record q))) x)) (item_id i)"
      by (auto simp: local_present_def)
    have "carries_item P (sx_vault x) i (as_sync_item (stored_item n (as_record q)))"
      using pushed_item_only [OF push(1) ok(1,2) x(1) i(1) q] by (rule stored_carries)
    then show ?thesis using record_taken [OF x(2)] uuid get by (simp add: carries_item_def)
  qed
  moreover have "vget (uv_data v') (t_id t) = None" if t: "t \<in> set (vd_tombstones (uv_data w))" "since < t_deleted_at t"
    "leaves_alone a (p_uuid_print P (t_id t)) ps" "quiet_here (uv_data v) (ss_last_synced_at sync) (t_id t)" for t
  proof -
    have "local_deleted (t_id t) (t_deleted_at t) \<in> set (to_push (local_items (uv_data w)) since)"
      using t by (auto simp: to_push_def local_items_def local_deleted_def)
    from arrives [OF this _ t(3,4)] v' obtain q x where q: "q \<in> set recs" "si_id q = p_uuid_print P (t_id t)"
      and x: "vault_wf (sx_data x)" "uv_vault_key (sx_vault x) = uv_vault_key w" "quiet_here (sx_data x) (ss_last_synced_at sync) (t_id t)"
      and get: "vget (uv_data v') (t_id t) = vget (sx_data (apply_record P (se_uuids env) (se_now env)
        (ss_last_synced_at sync) (as_sync_item (stored_item n (as_record q))) x)) (t_id t)"
      by (auto simp: local_deleted_def)
    have "carries_deletion P (sx_vault x) t (as_sync_item (stored_item n (as_record q)))"
      using pushed_deletion_only [OF push(1) ok(1,2) x(2) t(1) q] by (rule stored_carries)
    then show ?thesis using record_deletes [OF x(1,3)] uuid get by (simp add: carries_deletion_def)
  qed
  ultimately show ?thesis using v' by blast
qed

section \<open>Witness\<close>

text \<open>
  One machine has the item 7 edited and the item 9 deleted; the other, which synced at the time 5, has
  no item 7 and still has the item 9. The server has neither.
\<close>

definition other_sync :: sync_state where
  "other_sync = sample_sync\<lparr>ss_last_revision := 0, ss_last_synced_at := 5\<rparr>"

definition other_vault :: unlocked_vault where
  "other_vault = syncing_vault\<lparr>uv_data := vault_data_default\<lparr>vd_items := [item_new 9 1 ''old''], vd_sync := Some other_sync\<rparr>\<rparr>"

definition sync_server :: db where
  "sync_server = db_empty\<lparr>db_accounts := [\<lparr>ac_new = sample_account ''a'', ac_revision = 0, ac_created_at = 0\<rparr>]\<rparr>"

abbreviation sample_nonces :: "nat \<Rightarrow> bytes" where "sample_nonces \<equiv> \<lambda>_. replicate NONCE_LEN (CHR ''n'')"

definition pulling :: "item_page \<Rightarrow> sync_env" where
  "pulling page = sample_env\<lparr>se_pull := Inr page, se_uuids := \<lambda>n. 100 + of_nat n\<rparr>"

lemma sample_draws: "inj_on (\<lambda>n. 100 + of_nat n :: uuid) {..<3}" "n < 3 \<Longrightarrow> 100 + of_nat n \<notin> {7, 8, 9 :: uuid}"
proof -
  have "n \<in> {0, 1, 2}" if "n < 3" for n :: nat using that by auto
  moreover have "{..<3} = {0, 1, 2 :: nat}" by auto
  ultimately show "inj_on (\<lambda>n. 100 + of_nat n :: uuid) {..<3}" "n < 3 \<Longrightarrow> 100 + of_nat n \<notin> {7, 8, 9 :: uuid}"
    by (force simp: inj_on_def)+
qed

lemma sample_push_ids:
  assumes "outgoing total_prims sample_nonces 0 syncing_vault = Inr recs" and "q \<in> set recs"
  shows "\<exists>k \<in> {7, 8, 9}. si_id q = uuid_bytes k"
proof -
  obtain n c where c: "c \<in> set (to_push (local_items (uv_data syncing_vault)) 0)"
    "outgoing_record total_prims (sample_nonces n) syncing_vault c = Inr (Some q)"
    using outgoing_records_from [OF assms(1) [unfolded outgoing_def] assms(2)] by blast
  then have "li_id c \<in> {7, 8, 9}"
    by (auto simp: to_push_def local_items_def syncing_vault_def sample_data_def sample_item_def item_new_def local_present_def
        local_deleted_def)
  with outgoing_record_id [OF c(2)] show ?thesis by (auto simp: total_prims_def sample_prims_def)
qed

text \<open>The page of a server that has only what was pushed.\<close>

lemma only_pushed:
  assumes "store_push a e (map as_record recs) now b = (b', Inr n)" and "db_items b = []"
    and "r \<in> set (map as_sync_item (items_since a seen b'))"
  shows "\<exists>q \<in> set recs. si_id r = si_id q \<and> (si_ciphertext r = None \<or> si_ciphertext r = si_ciphertext q)"
proof -
  from assms(3) obtain i where i: "i \<in> set (db_items b')" "r = as_sync_item (it_record i)" by (auto simp: items_since_member)
  have "db_items b' = fold (upsert_item a n now) (map as_record recs) []"
    using assms(1,2) by (auto simp: store_push_def Let_def split: option.splits if_splits)
  with i fold_upsert_rows [of i a n now "map as_record recs" "[]"] show ?thesis
    by (auto simp: as_sync_item_def stored_item_def as_record_def)
qed

lemma sample_pull_ok:
  fixes seen :: i64
  assumes recs: "outgoing total_prims sample_nonces 0 syncing_vault = Inr recs"
    and push: "store_push ''a'' e (map as_record recs) now sync_server = (b', Inr n)"
  defines "rs \<equiv> map as_sync_item (items_since ''a'' seen b')"
  shows "authentic total_prims other_vault rs" "spelled total_prims rs" "length rs \<le> 3"
    "r \<in> set rs \<Longrightarrow> p_uuid_parse total_prims (si_id r) \<in> Some ` {7, 8, 9}"
proof -
  have from_push: "\<exists>q \<in> set recs. si_id r = si_id q \<and> (si_ciphertext r = None \<or> si_ciphertext r = si_ciphertext q)"
    if "r \<in> set rs" for r
    using only_pushed [OF push] that by (simp add: rs_def sync_server_def db_empty_def)
  have binding: "aead_binding total_prims"
    using sample_binding by (simp add: total_prims_def aead_binding_def)
  have key: "uv_vault_key other_vault = uv_vault_key syncing_vault" by (simp add: other_vault_def)
  have uuid: "p_uuid_parse total_prims (uuid_bytes k) = Some k" "p_uuid_print total_prims = uuid_bytes" for k
    using total_prims_ok by (auto simp: wire_ok_def uuid_faithful_def total_prims_def sample_prims_def)
  have ids: "\<exists>k \<in> {7, 8, 9}. si_id r = uuid_bytes k" if "r \<in> set rs" for r
    using from_push [OF that] sample_push_ids [OF recs] by metis
  show "authentic total_prims other_vault rs"
    unfolding authentic_def
  proof (intro ballI allI impI)
    fix r k i
    assume r: "r \<in> set rs" and i: "decode_item total_prims other_vault k r = Some i"
    then obtain q where q: "q \<in> set recs" "si_ciphertext r = si_ciphertext q"
      using from_push by (fastforce simp: decode_item_def)
    with i have "decode_item total_prims other_vault k q = Some i" by (simp add: decode_item_def)
    from pushed_authentic [OF recs total_prims_ok binding key q(1) this] show "item_id i = k" .
  qed
  show "spelled total_prims rs" using ids uuid by (fastforce simp: spelled_def)
  show "r \<in> set rs \<Longrightarrow> p_uuid_parse total_prims (si_id r) \<in> Some ` {7, 8, 9}" using ids uuid by fastforce
  have wf: "db_wf b'"
    using push by (rule wf_push [rotated]) (simp add: db_wf_def sync_server_def db_empty_def)
  have "map si_id rs = map ir_id (items_since ''a'' seen b')" by (simp add: rs_def as_sync_item_def)
  then have "distinct (map si_id rs)" using items_since_distinct [OF wf] by simp
  moreover have "set (map si_id rs) \<subseteq> {uuid_bytes 7, uuid_bytes 8, uuid_bytes 9}" using ids by auto
  ultimately have "length (map si_id rs) \<le> card {uuid_bytes 7, uuid_bytes 8, uuid_bytes 9}"
    using distinct_card [of "map si_id rs"] card_mono [of "{uuid_bytes 7, uuid_bytes 8, uuid_bytes 9}" "set (map si_id rs)"] by simp
  also have "\<dots> \<le> 3" using card_insert_le_m1 by (simp add: card_insert_if)
  finally show "length rs \<le> 3" by simp
qed

lemma other_holds: "k \<noteq> 9 \<Longrightarrow> vget (uv_data other_vault) k = None \<and> find_tombstone (uv_data other_vault) k = None"
  by (auto simp: other_vault_def vget_def find_tombstone_def vault_data_default_def item_new_def)

lemma apart: "u \<notin> S \<Longrightarrow> x \<in> Some ` S \<Longrightarrow> x \<noteq> Some u"
  by auto

lemma sample_fresh_ids:
  assumes "length rs \<le> 3" and parse: "\<And>r. r \<in> set rs \<Longrightarrow> p_uuid_parse total_prims (si_id r) \<in> Some ` {7, 8, 9}"
  shows "fresh_ids total_prims (\<lambda>n. 100 + of_nat n) (length rs) (uv_data other_vault) rs"
proof -
  have "vget (uv_data other_vault) (100 + of_nat n) = None \<and> find_tombstone (uv_data other_vault) (100 + of_nat n) = None \<and>
      (\<forall>r \<in> set rs. p_uuid_parse total_prims (si_id r) \<noteq> Some (100 + of_nat n))" if "n < length rs" for n
  proof -
    from that assms(1) have "n < 3" by linarith
    note new = sample_draws(2) [OF this]
    have "p_uuid_parse total_prims (si_id r) \<noteq> Some (100 + of_nat n)" if "r \<in> set rs" for r
      using apart [OF new parse [OF that]] .
    moreover have "100 + of_nat n \<noteq> (9 :: uuid)" using new by blast
    note other_holds [OF this]
    ultimately show ?thesis by blast
  qed
  moreover have "inj_on (\<lambda>n. 100 + of_nat n :: uuid) {..<length rs}"
    using assms(1) by (intro inj_on_subset [OF sample_draws(1)]) auto
  ultimately show ?thesis unfolding fresh_ids_def by blast
qed

lemma other_round:
  "round_at total_prims (pulling page) (sample_app (Some other_vault) d) other_vault other_sync page"
proof -
  have "vault_wf (uv_data other_vault)"
    by (simp add: other_vault_def vault_wf_def vault_data_default_def item_new_def)
  then show ?thesis
    by (simp add: round_at_def pulling_def sample_env_def sample_app_def other_vault_def other_sync_def device_seed_def
        total_prims_def sample_prims_def sample_sync_def keypair_from_seed_def)
qed

lemma other_quiet:
  "quiet_here (uv_data other_vault) (ss_last_synced_at other_sync) 7"
  "quiet_here (uv_data other_vault) (ss_last_synced_at other_sync) 9"
  by (simp_all add: quiet_here_def held_here_def other_vault_def other_sync_def vget_def find_tombstone_def vault_data_default_def
      item_new_def local_present_def word_le_nat_alt)

lemma changes_reach_other_machine_witness:
  "\<exists>recs page s' res v'. outgoing total_prims sample_nonces 0 syncing_vault = Inr recs \<and>
    sync_now total_prims (pulling page) (sample_app (Some other_vault) \<lparr>d_files = Map.empty, d_faults = [], d_dead = False\<rparr>) = (s', res) \<and>
    vget (uv_data other_vault) 7 = None \<and> vget (uv_data other_vault) 9 \<noteq> None \<and>
    as_vault s' = Some v' \<and> vget (uv_data v') 7 = Some sample_item \<and> vget (uv_data v') 9 = None"
proof -
  let ?s = "sample_app (Some other_vault) \<lparr>d_files = Map.empty, d_faults = [], d_dead = False\<rparr>"
  obtain recs where recs: "outgoing total_prims sample_nonces 0 syncing_vault = Inr recs" using total_push by blast
  let ?body = "\<lparr>pu_expected_revision = 0, pu_items = map as_record recs\<rparr>"
  have body: "of_push (client_push_json 0 recs) = Inr ?body" by (rule push_to_server)
  obtain b' where push: "store_push ''a'' (pu_expected_revision ?body) (pu_items ?body) 0 sync_server = (b', Inr 1)"
    by (simp add: store_push_def sync_server_def db_empty_def find_account_def sample_account_def Let_def)
  let ?rs = "map as_sync_item (items_since ''a'' (ss_last_revision other_sync) (run_pushes [] b'))"
  let ?page = "\<lparr>pg_revision = 1, pg_items = ?rs\<rparr>"
  note ok = sample_pull_ok [OF recs push [simplified], where seen = "ss_last_revision other_sync"]
  have page: "of_item_page (JObj [(''revision'', i_json 1), (''items'', JArr (map item_record_json
      (items_since ''a'' (ss_last_revision other_sync) (run_pushes [] b'))))]) = Inr ?page" by (rule page_to_client)
  obtain s' res where r: "sync_now total_prims (pulling ?page) ?s = (s', res)" by fastforce
  have fresh: "fresh_ids total_prims (se_uuids (pulling ?page)) (length ?rs) (uv_data other_vault) ?rs"
    using sample_fresh_ids [OF ok(3,4)] by (simp add: pulling_def)
  have server: "db_wf sync_server" by (simp add: db_wf_def sync_server_def db_empty_def)
  have "ss_last_revision other_sync <s 1" by (simp add: other_sync_def word_sless_alt)
  note reach = changes_reach_other_machine [OF recs body push total_prims_ok syncing_wf server page this r other_round]
  have at: "sample_item \<in> set (vd_items (uv_data syncing_vault))" "\<lparr>t_id = 9, t_deleted_at = 50\<rparr> \<in> set (vd_tombstones (uv_data syncing_vault))"
    by (simp_all add: syncing_vault_def sample_data_def)
  have "authentic total_prims other_vault (pg_items ?page)" "spelled total_prims (pg_items ?page)"
    "fresh_ids total_prims (se_uuids (pulling ?page)) (length (pg_items ?page)) (uv_data other_vault) (pg_items ?page)"
    using ok(1,2) fresh by simp_all
  from reach [OF _ this] obtain v' where v': "as_vault s' = Some v'"
    and i: "\<And>i. i \<in> set (vd_items (uv_data syncing_vault)) \<Longrightarrow> 0 < item_updated_at i \<Longrightarrow>
      quiet_here (uv_data other_vault) (ss_last_synced_at other_sync) (item_id i) \<Longrightarrow> vget (uv_data v') (item_id i) = Some i"
    and t: "\<And>t. t \<in> set (vd_tombstones (uv_data syncing_vault)) \<Longrightarrow> 0 < t_deleted_at t \<Longrightarrow>
      quiet_here (uv_data other_vault) (ss_last_synced_at other_sync) (t_id t) \<Longrightarrow> vget (uv_data v') (t_id t) = None"
    by (auto simp: leaves_alone_def other_vault_def)
  have "vget (uv_data v') 7 = Some sample_item" "vget (uv_data v') 9 = None"
    using i [OF at(1)] t [OF at(2)] other_quiet by (simp_all add: sample_item_def item_new_def)
  note v' this
  moreover have "vget (uv_data other_vault) 7 = None" "vget (uv_data other_vault) 9 \<noteq> None"
    by (simp_all add: other_vault_def vget_def vault_data_default_def item_new_def)
  ultimately show ?thesis using recs r by blast
qed

end
