(* ===== verification/Sync_Schema.thy ===== *)
theory Sync_Schema
  imports Sync_Store
begin

text \<open>
  Opening the sync server's database (\<open>open\<close>, \<open>prepare\<close> and \<open>migrate\<close> in
  \<open>crates/yara-sync/src/store.rs\<close>): the tables as the file has them, with the columns of whichever
  version wrote it, and the statements that bring them to the present shape. Each statement is on the
  disk before the next one, so a process that stops leaves the effect of some of them.
\<close>

section \<open>Tables with their columns\<close>

datatype cell = Null | Integer i64 | Text string | Blob bytes

record table =
  tb_columns :: "string list"
  tb_rows :: "(string \<rightharpoonup> cell) list"

type_synonym raw = "string \<rightharpoonup> table"

definition create_table :: "string \<Rightarrow> string list \<Rightarrow> raw \<Rightarrow> raw option" where
  "create_table t cols d = Some (if d t = None then d(t \<mapsto> \<lparr>tb_columns = cols, tb_rows = []\<rparr>) else d)"

definition has_column :: "string \<Rightarrow> string \<Rightarrow> raw \<Rightarrow> bool" where
  "has_column t c d = (case d t of None \<Rightarrow> False | Some b \<Rightarrow> c \<in> set (tb_columns b))"

text \<open>\<open>ALTER TABLE ADD COLUMN\<close> fails on a table that is not there and on a column that is.\<close>

definition add_column :: "string \<Rightarrow> string \<Rightarrow> raw \<Rightarrow> raw option" where
  "add_column t c d =
     (case d t of
        None \<Rightarrow> None
      | Some b \<Rightarrow>
          if c \<in> set (tb_columns b) then None
          else Some (d(t \<mapsto> \<lparr>tb_columns = tb_columns b @ [c], tb_rows = map (\<lambda>r. r(c \<mapsto> Null)) (tb_rows b)\<rparr>)))"

definition migrate_column :: "string \<Rightarrow> string \<Rightarrow> raw \<Rightarrow> raw option" where
  "migrate_column t c d = (if has_column t c d then Some d else add_column t c d)"

definition ACCOUNT_COLUMNS :: "string list" where
  "ACCOUNT_COLUMNS = [''id'', ''salt'', ''kdf'', ''wrapped_vault_key'', ''wrapped_account_key'', ''revision'', ''created_at'']"

definition DEVICE_COLUMNS :: "string list" where
  "DEVICE_COLUMNS = [''id'', ''account_id'', ''public_key'', ''label'', ''created_at'', ''last_seen'']"

definition ITEM_TABLE_COLUMNS :: "string list" where
  "ITEM_TABLE_COLUMNS = [''account_id'', ''id'', ''revision'', ''ciphertext'', ''deleted'', ''updated_at'']"

definition INVITE_COLUMNS :: "string list" where
  "INVITE_COLUMNS = [''code_hash'', ''created_at'', ''expires_at'', ''used_by'']"

definition statements :: "(raw \<Rightarrow> raw option) list" where
  "statements =
     [create_table ''accounts'' ACCOUNT_COLUMNS, create_table ''devices'' DEVICE_COLUMNS,
      create_table ''items'' ITEM_TABLE_COLUMNS, create_table ''invites'' INVITE_COLUMNS,
      migrate_column ''accounts'' ''account_public_key'', migrate_column ''items'' ''proof'']"

fun run_statements :: "(raw \<Rightarrow> raw option) list \<Rightarrow> raw \<Rightarrow> raw option" where
  "run_statements [] d = Some d"
| "run_statements (f # fs) d = Option.bind (f d) (run_statements fs)"

definition prepare_store :: "raw \<Rightarrow> raw option" where
  "prepare_store d = run_statements statements d"

section \<open>Stopping in the middle\<close>

text \<open>A table and a column stay once they are there.\<close>

definition grown :: "raw \<Rightarrow> raw \<Rightarrow> bool" where
  "grown d d' \<longleftrightarrow> (\<forall>t b. d t = Some b \<longrightarrow> (\<exists>b'. d' t = Some b' \<and> set (tb_columns b) \<subseteq> set (tb_columns b')))"

lemma grown_refl [simp]: "grown d d"
  by (simp add: grown_def)

lemma grown_trans: "grown d d' \<Longrightarrow> grown d' d'' \<Longrightarrow> grown d d''"
  unfolding grown_def by (meson subset_trans)

lemma grown_table: "grown d d' \<Longrightarrow> d t \<noteq> None \<Longrightarrow> d' t \<noteq> None"
  unfolding grown_def by (cases "d t") (blast, fastforce)

lemma grown_column:
  assumes "grown d d'" and "has_column t c d"
  shows "has_column t c d'"
proof -
  obtain b where b: "d t = Some b" "c \<in> set (tb_columns b)"
    using assms(2) by (cases "d t") (simp_all add: has_column_def)
  with assms(1) obtain b' where "d' t = Some b'" "set (tb_columns b) \<subseteq> set (tb_columns b')"
    unfolding grown_def by blast
  with b(2) show ?thesis by (simp add: has_column_def subset_iff)
qed

lemma create_Some: "create_table t cols d = Some d' \<Longrightarrow> d' t \<noteq> None"
  by (auto simp: create_table_def split: if_splits)

lemma create_again: "d t \<noteq> None \<Longrightarrow> create_table t cols d = Some d"
  by (auto simp: create_table_def)

lemma create_total: "\<exists>d'. create_table t cols d = Some d'"
  by (simp add: create_table_def)

lemma migrate_Some: "migrate_column t c d = Some d' \<Longrightarrow> has_column t c d'"
  by (auto simp: migrate_column_def add_column_def has_column_def split: if_splits option.splits)

lemma migrate_again: "has_column t c d \<Longrightarrow> migrate_column t c d = Some d"
  by (simp add: migrate_column_def)

lemma migrate_total: "d t \<noteq> None \<Longrightarrow> \<exists>d'. migrate_column t c d = Some d'"
  by (auto simp: migrate_column_def add_column_def has_column_def)

definition additive :: "(raw \<Rightarrow> raw option) \<Rightarrow> bool" where
  "additive f \<longleftrightarrow> (\<forall>d d'. f d = Some d' \<longrightarrow> grown d d' \<and> (\<forall>d''. grown d' d'' \<longrightarrow> f d'' = Some d''))"

lemma create_grown: "create_table t cols d = Some d' \<Longrightarrow> grown d d'"
  by (auto simp: create_table_def grown_def)

lemma migrate_grown: "migrate_column t c d = Some d' \<Longrightarrow> grown d d'"
  by (auto simp: migrate_column_def add_column_def grown_def split: if_splits option.splits)

lemma create_additive [simp]: "additive (create_table t cols)"
  unfolding additive_def using create_grown create_again create_Some grown_table by meson

lemma migrate_additive [simp]: "additive (migrate_column t c)"
  unfolding additive_def using migrate_grown migrate_again migrate_Some grown_column by meson

lemma step_grown: "additive f \<Longrightarrow> f d = Some d' \<Longrightarrow> grown d d'"
  unfolding additive_def by blast

lemma step_again: "additive f \<Longrightarrow> f d = Some d' \<Longrightarrow> grown d' d'' \<Longrightarrow> f d'' = Some d''"
  unfolding additive_def by blast

lemma statements_additive: "\<forall>f \<in> set statements. additive f"
  by (simp add: statements_def)

lemma run_append: "run_statements (fs @ gs) d = Option.bind (run_statements fs d) (run_statements gs)"
proof (induction fs arbitrary: d)
  case (Cons f fs)
  then show ?case by (cases "f d") simp_all
qed simp

lemma run_grown: "\<forall>f \<in> set fs. additive f \<Longrightarrow> run_statements fs d = Some d' \<Longrightarrow> grown d d'"
proof (induction fs arbitrary: d)
  case (Cons f fs)
  then obtain d1 where f: "f d = Some d1" "run_statements fs d1 = Some d'" by (auto simp: bind_eq_Some_conv)
  have "grown d d1" using step_grown [of f d d1] f(1) Cons.prems(1) by simp
  moreover have "grown d1 d'" using Cons.IH [OF _ f(2)] Cons.prems(1) by simp
  ultimately show ?case by (rule grown_trans)
qed simp

lemma run_again: "\<forall>f \<in> set fs. additive f \<Longrightarrow> run_statements fs d = Some d' \<Longrightarrow> grown d' d'' \<Longrightarrow> run_statements fs d'' = Some d''"
proof (induction fs arbitrary: d)
  case (Cons f fs)
  then obtain d1 where f: "f d = Some d1" "run_statements fs d1 = Some d'" by (auto simp: bind_eq_Some_conv)
  have "grown d1 d'" using run_grown [OF _ f(2)] Cons.prems(1) by simp
  then have "grown d1 d''" using Cons.prems(3) by (rule grown_trans)
  then have "f d'' = Some d''" using step_again [of f d d1 d''] f(1) Cons.prems(1) by simp
  moreover have "run_statements fs d'' = Some d''" using Cons.IH [OF _ f(2) Cons.prems(3)] Cons.prems(1) by simp
  ultimately show ?case by simp
qed simp

text \<open>
  The upgrade may stop after any statement: opening the file again ends in the same database, and
  opening one that is up to date changes nothing.
\<close>

theorem upgrade_can_stop_anywhere:
  assumes "run_statements (take n statements) d = Some d1"
  shows "prepare_store d1 = prepare_store d \<and> (prepare_store d = Some d' \<longrightarrow> prepare_store d' = Some d')"
proof -
  have head: "\<forall>f \<in> set (take n statements). additive f"
    using statements_additive set_take_subset [of n statements] by blast
  have "run_statements (take n statements) d1 = Some d1" using run_again [OF head assms grown_refl] .
  then have "run_statements (take n statements @ drop n statements) d1 =
      run_statements (take n statements @ drop n statements) d"
    unfolding run_append using assms by simp
  then show ?thesis
    using run_again [OF statements_additive _ grown_refl] by (simp add: prepare_store_def)
qed

section \<open>What the upgrade keeps\<close>

text \<open>Every row has a cell for each column of its table and for no other.\<close>

definition raw_wf :: "raw \<Rightarrow> bool" where
  "raw_wf d \<longleftrightarrow> (\<forall>t b. d t = Some b \<longrightarrow> (\<forall>r \<in> set (tb_rows b). dom r = set (tb_columns b)))"

definition kept_rows :: "raw \<Rightarrow> raw \<Rightarrow> bool" where
  "kept_rows d d' \<longleftrightarrow> (\<forall>t b. d t = Some b \<longrightarrow>
     (\<exists>b'. d' t = Some b' \<and> list_all2 (\<lambda>r r'. r \<subseteq>\<^sub>m r') (tb_rows b) (tb_rows b')))"

lemma kept_refl [simp]: "kept_rows d d"
  by (simp add: kept_rows_def list_all2_refl)

lemma kept_trans:
  assumes "kept_rows d d'" and "kept_rows d' d''"
  shows "kept_rows d d''"
  unfolding kept_rows_def
proof (intro allI impI)
  fix t b assume "d t = Some b"
  with assms(1) obtain b' where b': "d' t = Some b'" "list_all2 (\<lambda>r r'. r \<subseteq>\<^sub>m r') (tb_rows b) (tb_rows b')"
    unfolding kept_rows_def by blast
  from assms(2) b'(1) obtain b'' where b'': "d'' t = Some b''" "list_all2 (\<lambda>r r'. r \<subseteq>\<^sub>m r') (tb_rows b') (tb_rows b'')"
    unfolding kept_rows_def by blast
  have "list_all2 (\<lambda>r r'. r \<subseteq>\<^sub>m r') (tb_rows b) (tb_rows b'')"
    by (rule list_all2_trans [OF _ b'(2) b''(2)]) (rule map_le_trans)
  with b''(1) show "\<exists>b''. d'' t = Some b'' \<and> list_all2 (\<lambda>r r'. r \<subseteq>\<^sub>m r') (tb_rows b) (tb_rows b'')" by blast
qed

definition careful :: "(raw \<Rightarrow> raw option) \<Rightarrow> bool" where
  "careful f \<longleftrightarrow> (\<forall>d d'. raw_wf d \<longrightarrow> f d = Some d' \<longrightarrow> raw_wf d' \<and> kept_rows d d')"

lemma create_careful [simp]: "careful (create_table t cols)"
  by (auto simp: careful_def create_table_def raw_wf_def kept_rows_def list_all2_refl)

lemma migrate_careful [simp]: "careful (migrate_column t c)"
  unfolding careful_def
proof (intro allI impI)
  fix d d' assume wf: "raw_wf d" and f: "migrate_column t c d = Some d'"
  show "raw_wf d' \<and> kept_rows d d'"
  proof (cases "has_column t c d")
    case False
    with f obtain b where b: "d t = Some b" "c \<notin> set (tb_columns b)"
      "d' = d(t \<mapsto> \<lparr>tb_columns = tb_columns b @ [c], tb_rows = map (\<lambda>r. r(c \<mapsto> Null)) (tb_rows b)\<rparr>)"
      by (auto simp: migrate_column_def add_column_def split: option.splits if_splits)
    with wf have "r \<subseteq>\<^sub>m r(c \<mapsto> Null)" if "r \<in> set (tb_rows b)" for r
      using that by (auto simp: raw_wf_def map_le_def)
    with b wf show ?thesis
      by (auto simp: raw_wf_def kept_rows_def list_all2_map2 list_all2_refl intro!: list.rel_refl_strong)
  qed (use wf f in \<open>simp add: migrate_column_def\<close>)
qed

lemma run_careful: "\<forall>f \<in> set fs. careful f \<Longrightarrow> raw_wf d \<Longrightarrow> run_statements fs d = Some d' \<Longrightarrow> raw_wf d' \<and> kept_rows d d'"
proof (induction fs arbitrary: d)
  case (Cons f fs)
  then obtain d1 where "f d = Some d1" "run_statements fs d1 = Some d'" by (auto simp: bind_eq_Some_conv)
  moreover from this(1) Cons.prems have d1: "raw_wf d1 \<and> kept_rows d d1" by (simp add: careful_def)
  ultimately have "raw_wf d' \<and> kept_rows d1 d'" using Cons.IH [of d1] Cons.prems(1) by simp
  with d1 show ?case using kept_trans [of d d1 d'] by simp
qed simp

text \<open>The four tables come first, so the two columns find theirs.\<close>

lemma prepare_outcome:
  "\<exists>d'. prepare_store d = Some d' \<and> has_column ''accounts'' ''account_public_key'' d' \<and> has_column ''items'' ''proof'' d'"
proof -
  obtain d1 where d1: "create_table ''accounts'' ACCOUNT_COLUMNS d = Some d1" using create_total by blast
  obtain d2 where d2: "create_table ''devices'' DEVICE_COLUMNS d1 = Some d2" using create_total by blast
  obtain d3 where d3: "create_table ''items'' ITEM_TABLE_COLUMNS d2 = Some d3" using create_total by blast
  obtain d4 where d4: "create_table ''invites'' INVITE_COLUMNS d3 = Some d4" using create_total by blast
  have "d4 ''accounts'' \<noteq> None"
    using grown_table [OF create_grown [OF d4] grown_table [OF create_grown [OF d3]
      grown_table [OF create_grown [OF d2] create_Some [OF d1]]]] .
  then obtain d5 where d5: "migrate_column ''accounts'' ''account_public_key'' d4 = Some d5" using migrate_total by blast
  have "d5 ''items'' \<noteq> None"
    using grown_table [OF migrate_grown [OF d5] grown_table [OF create_grown [OF d4] create_Some [OF d3]]] .
  then obtain d6 where d6: "migrate_column ''items'' ''proof'' d5 = Some d6" using migrate_total by blast
  have "prepare_store d = Some d6" by (simp add: prepare_store_def statements_def d1 d2 d3 d4 d5 d6)
  moreover have "has_column ''accounts'' ''account_public_key'' d6"
    using grown_column [OF migrate_grown [OF d6] migrate_Some [OF d5]] .
  ultimately show ?thesis using migrate_Some [OF d6] by blast
qed

text \<open>
  Whatever version wrote the file, opening it succeeds, every row keeps every value it had, every row
  gains a cell for each new column, and the columns the store reads are there.
\<close>

theorem upgrade_keeps_rows:
  assumes "raw_wf d"
  shows "\<exists>d'. prepare_store d = Some d' \<and> raw_wf d' \<and> kept_rows d d' \<and>
    has_column ''accounts'' ''account_public_key'' d' \<and> has_column ''items'' ''proof'' d'"
proof -
  obtain d' where d': "prepare_store d = Some d'" "has_column ''accounts'' ''account_public_key'' d'" "has_column ''items'' ''proof'' d'"
    using prepare_outcome by blast
  then have "raw_wf d' \<and> kept_rows d d'"
    using run_careful [of statements d d'] assms by (simp add: prepare_store_def statements_def)
  with d' show ?thesis by blast
qed

end
