(* ===== verification/Sync_Admin.thy ===== *)
theory Sync_Admin
  imports Sync_Store
begin

text \<open>
  The commands an operator gives the sync server (\<open>crates/yara-sync/src/main.rs\<close>): how the arguments
  are settled before the database is opened, what each command does to it, and the invitation codes.
  Serving itself is the handlers of \<open>Sync_Api\<close>; opening the database and binding the address are not
  modelled.
\<close>

definition TOMBSTONE_DAYS :: i64 where "TOMBSTONE_DAYS = 30"
definition INVITE_HOURS :: i64 where "INVITE_HOURS = 48"

definition USAGE :: string where
  "USAGE = concat (map (\<lambda>l. l @ [CHR 0x0A])
     [''yara-sync '' @ b3 226 128 148 @ '' encrypted vault sync'', [],
      ''    yara-sync                                    serve on $YARA_SYNC_ADDR (default 127.0.0.1:8787)'',
      ''    yara-sync invite                             print a fresh single-use enrolment code'',
      ''    yara-sync purge                              drop tombstones older than 30 days'',
      ''    yara-sync revoke <account-id> <device-id>    drop one device's key'',
      ''    yara-sync delete-account <account-id>        remove an account, its devices and its items'', [],
      ''    $YARA_SYNC_DB                                default /var/lib/yara-sync/sync.db''])"

datatype admin_command = ServeCommand | InviteCommand | PurgeCommand | RevokeCommand string string | DeleteCommand string | HelpCommand

text \<open>\<open>show_text\<close> is the formatting \<open>{:?}\<close> of a string, \<open>show_error\<close> below that of an error.\<close>

definition parse_command :: "(string \<Rightarrow> string) \<Rightarrow> string list \<Rightarrow> string + admin_command" where
  "parse_command show_text args =
     (let operands = length args - 1
      in case args of
           [] \<Rightarrow> Inr ServeCommand
         | name # _ \<Rightarrow>
             if name \<in> {''-h'', ''--help'', ''help''} then Inr HelpCommand
             else if name = ''invite'' \<and> operands = 0 then Inr InviteCommand
             else if name = ''purge'' \<and> operands = 0 then Inr PurgeCommand
             else if name = ''revoke'' \<and> operands = 2 then Inr (RevokeCommand (args ! 1) (args ! 2))
             else if name = ''delete-account'' \<and> operands = 1 then Inr (DeleteCommand (args ! 1))
             else if name \<in> {''invite'', ''purge'', ''revoke'', ''delete-account''}
               then Inl (''wrong number of arguments for '' @ show_text name)
             else Inl (''unknown command '' @ show_text name))"

definition CODE_ALPHABET :: string where
  "CODE_ALPHABET = ''abcdefghjkmnpqrstuvwxyz23456789''"

text \<open>\<open>draw n\<close> is the \<open>n\<close>-th number the generator picks, below the length of the alphabet.\<close>

definition code_group :: "(nat \<Rightarrow> nat) \<Rightarrow> nat \<Rightarrow> string" where
  "code_group draw g = map (\<lambda>i. CODE_ALPHABET ! draw (5 * g + i)) [0..<5]"

definition fresh_code :: "(nat \<Rightarrow> nat) \<Rightarrow> string" where
  "fresh_code draw = join ''-'' (map (code_group draw) [0..<3])"

record admin_exit =
  ax_stdout :: string
  ax_stderr :: string
  ax_code :: nat

datatype admin_end = Exits admin_exit | Serves

definition exits :: "nat \<Rightarrow> string \<Rightarrow> string \<Rightarrow> admin_end" where
  "exits n out err = Exits \<lparr>ax_stdout = out, ax_stderr = err, ax_code = n\<rparr>"

definition admin_main ::
    "prims \<Rightarrow> (string \<Rightarrow> string) \<Rightarrow> (store_error \<Rightarrow> string) \<Rightarrow> (nat \<Rightarrow> nat) \<Rightarrow> i64 \<Rightarrow> string list \<Rightarrow> db \<Rightarrow> db \<times> admin_end" where
  "admin_main P show_text show_error draw now args b =
     (let line = (\<lambda>t. t @ [CHR 0x0A])
      in case parse_command show_text args of
           Inl problem \<Rightarrow> (b, exits 2 [] (line (problem @ [CHR 0x0A, CHR 0x0A] @ USAGE)))
         | Inr HelpCommand \<Rightarrow> (b, exits 0 USAGE [])
         | Inr InviteCommand \<Rightarrow>
             (case create_invite P (fresh_code draw) now (INVITE_HOURS * 3600) b of
                (b', Inr _) \<Rightarrow> (b', exits 0 (line (fresh_code draw) @ line ''valid for 48 hours, one use'') [])
              | (b', Inl e) \<Rightarrow> (b', exits 1 [] (line (''Error: '' @ show_error e))))
         | Inr PurgeCommand \<Rightarrow>
             (case purge_tombstones (now - TOMBSTONE_DAYS * 86400) b of
                (b', dropped) \<Rightarrow> (b', exits 0 (line (''purged '' @ show_nat dropped @ '' tombstones'')) []))
         | Inr (RevokeCommand account device) \<Rightarrow>
             (case remove_device account device b of
                (b', True) \<Rightarrow> (b', exits 0 (line (''revoked '' @ device)) [])
              | (b', False) \<Rightarrow> (b', exits 1 [] (line (''no device '' @ show_text device @ '' on account '' @ show_text account))))
         | Inr (DeleteCommand account) \<Rightarrow>
             (case delete_account account b of
                (b', True) \<Rightarrow> (b', exits 0 (line (''deleted '' @ account @ '' and everything it held'')) [])
              | (b', False) \<Rightarrow> (b', exits 1 [] (line (''no account '' @ show_text account))))
         | Inr ServeCommand \<Rightarrow> (b, Serves))"

section \<open>Nothing is destroyed by mistake\<close>

lemma remove_device_absent: "remove_device a d b = (b', False) \<Longrightarrow> b' = b"
proof -
  assume h: "remove_device a d b = (b', False)"
  then have "filter (\<lambda>x. \<not> (dv_id x = d \<and> dv_account x = a)) (db_devices b) = db_devices b"
    by (auto simp: remove_device_def filter_id_conv list_ex_iff)
  with h show ?thesis by (auto simp: remove_device_def)
qed

text \<open>
  The database is changed by exactly the documented commands with exactly their arguments, each
  by its own operation: anything else, a surplus or a missing argument included, leaves it alone and
  says so, and a device that is not there is reported without a change.
\<close>

theorem admin_commands_exact:
  assumes "admin_main P show_text show_error draw now args b = (b', x)" and "b' \<noteq> b"
  shows "args = [''invite''] \<and> b' = fst (create_invite P (fresh_code draw) now (48 * 3600) b) \<or>
    args = [''purge''] \<and> b' = fst (purge_tombstones (now - 30 * 86400) b) \<or>
    (\<exists>account device. args = [''revoke'', account, device] \<and> remove_device account device b = (b', True)) \<or>
    (\<exists>account. args = [''delete-account'', account] \<and> b' = fst (delete_account account b))"
proof (cases args)
  case (Cons name rest)
  from assms obtain c where c: "parse_command show_text args = Inr c" "c \<notin> {HelpCommand, ServeCommand}"
    by (cases "parse_command show_text args") (auto simp: admin_main_def exits_def split: admin_command.splits)
  have operands: "length args = Suc (length rest)" using Cons by simp
  from c consider "c = InviteCommand" "args = [''invite'']" | "c = PurgeCommand" "args = [''purge'']"
    | a d where "c = RevokeCommand a d" "args = [''revoke'', a, d]" | a where "c = DeleteCommand a" "args = [''delete-account'', a]"
    unfolding parse_command_def Cons
    by (cases rest rule: remdups_adj.cases; cases "tl (tl rest)") (auto split: if_splits)
  then show ?thesis
    using assms c(1)
    by cases (auto simp: admin_main_def INVITE_HOURS_def TOMBSTONE_DAYS_def exits_def
      split: prod.splits sum.splits bool.splits dest: remove_device_absent)
qed (use assms in \<open>auto simp: admin_main_def parse_command_def\<close>)

theorem admin_commands_exact_witness:
  "fst (admin_main total_prims id (\<lambda>_. []) (\<lambda>_. 0) 0 [''invite''] db_empty) = fst (create_invite total_prims (fresh_code (\<lambda>_. 0)) 0 (48 * 3600) db_empty)"
proof -
  obtain b' x where m: "admin_main total_prims id (\<lambda>_. []) (\<lambda>_. 0) 0 [''invite''] db_empty = (b', x)" by fastforce
  moreover from m have "b' \<noteq> db_empty"
    by (auto simp: admin_main_def parse_command_def create_invite_def db_empty_def)
  ultimately show ?thesis using admin_commands_exact [OF m] by auto
qed

section \<open>Invitation codes\<close>

lemma code_alphabet: "length CODE_ALPHABET = 31" "distinct CODE_ALPHABET" "CHR ''-'' \<notin> set CODE_ALPHABET"
  by (simp_all add: CODE_ALPHABET_def)

lemma code_group_no_dash: "\<forall>n < 15. draw n < 31 \<Longrightarrow> g < 3 \<Longrightarrow> CHR ''-'' \<notin> set (code_group draw g)"
proof
  assume d: "\<forall>n < 15. draw n < 31" "g < 3" and "CHR ''-'' \<in> set (code_group draw g)"
  then obtain i where "i < 5" "CODE_ALPHABET ! draw (5 * g + i) = CHR ''-''" by (auto simp: code_group_def)
  moreover have "CODE_ALPHABET ! draw (5 * g + i) \<in> set CODE_ALPHABET"
    using d \<open>i < 5\<close> code_alphabet(1) by (intro nth_mem) auto
  ultimately show False using code_alphabet(3) by simp
qed

lemma code_groups: "\<forall>n < 15. draw n < 31 \<Longrightarrow> split_char (CHR ''-'') (fresh_code draw) = map (code_group draw) [0..<3]"
  unfolding fresh_code_def using code_group_no_dash by (intro split_char_join) auto

text \<open>
  Every sequence of fifteen draws makes a code of its own, in three groups of five characters
  without look-alikes, so that uniform draws choose among \<open>31^15\<close>, more than \<open>2^74\<close>, codes.
\<close>

theorem invite_codes_distinct:
  assumes "\<forall>n < 15. draw n < 31" and "\<forall>n < 15. draw' n < 31"
  shows "length (fresh_code draw) = 17 \<and> set (fresh_code draw) \<subseteq> insert (CHR ''-'') (set CODE_ALPHABET) \<and>
    (fresh_code draw = fresh_code draw' \<longrightarrow> (\<forall>n < 15. draw n = draw' n)) \<and> (2 :: nat) ^ 74 < length CODE_ALPHABET ^ 15"
proof (intro conjI impI allI)
  show "length (fresh_code draw) = 17" by (simp add: fresh_code_def code_group_def numeral_3_eq_3)
  have "set (code_group draw g) \<subseteq> set CODE_ALPHABET" if "g < 3" for g
    using assms(1) that code_alphabet(1) by (auto simp: code_group_def intro!: nth_mem)
  then have "set ''-'' \<union> set (concat (map (code_group draw) [0..<3])) \<subseteq> insert (CHR ''-'') (set CODE_ALPHABET)" by fastforce
  then show "set (fresh_code draw) \<subseteq> insert (CHR ''-'') (set CODE_ALPHABET)"
    unfolding fresh_code_def using set_join by (rule subset_trans [rotated])
  show "(2 :: nat) ^ 74 < length CODE_ALPHABET ^ 15" by (simp add: code_alphabet(1))
  fix n :: nat assume same: "fresh_code draw = fresh_code draw'" and n: "n < 15"
  have "map (code_group draw) [0..<3] = map (code_group draw') [0..<3]"
    using same code_groups assms by metis
  moreover have "n div 5 \<in> set [0..<3]" using n by (simp add: less_mult_imp_div_less)
  ultimately have "code_group draw (n div 5) = code_group draw' (n div 5)" unfolding map_eq_conv by blast
  moreover have "n mod 5 \<in> set [0..<5]" by simp
  ultimately have "CODE_ALPHABET ! draw (5 * (n div 5) + n mod 5) = CODE_ALPHABET ! draw' (5 * (n div 5) + n mod 5)"
    unfolding code_group_def map_eq_conv by blast
  then show "draw n = draw' n"
    using assms n code_alphabet(1,2) by (simp add: nth_eq_iff_index_eq)
qed

theorem invite_codes_distinct_witness:
  "fresh_code (\<lambda>n. n) \<noteq> fresh_code (\<lambda>n. n + 1)"
proof
  assume same: "fresh_code (\<lambda>n. n) = fresh_code (\<lambda>n. n + 1)"
  have "(\<forall>n < 15. (n :: nat) < 31) \<and> (\<forall>n < 15. n + 1 < (31 :: nat))" by simp
  with same invite_codes_distinct [of "\<lambda>n. n" "\<lambda>n. n + 1"] have "\<forall>n < 15. n = n + (1 :: nat)" by blast
  then show False by (auto dest: spec [of _ 0])
qed

end
