(* ===== verification/Access_Protocol.thy ===== *)
theory Access_Protocol
  imports Vault_Data
begin

text \<open>
  \<open>crates/yara-broker/src/protocol.rs\<close> and \<open>exposure.rs\<close>: what an agent may ask the broker for, what
  it is told, and whether running a command amounts to disclosing the value.
\<close>

section \<open>The protocol\<close>

datatype access_field = Password | Username | OneTimeCode | Custom string

definition field_phrase :: "access_field \<Rightarrow> string" where
  "field_phrase f =
     (case f of Password \<Rightarrow> ''password'' | Username \<Rightarrow> ''username'' | OneTimeCode \<Rightarrow> ''one-time code''
      | Custom l \<Rightarrow> l)"

definition is_durable_secret :: "access_field \<Rightarrow> bool" where
  "is_durable_secret f = (case f of Password \<Rightarrow> True | Custom _ \<Rightarrow> True | _ \<Rightarrow> False)"

datatype intent =
    Run (run_command_name: string) (run_args: "string list") (run_env_var: string) (run_cwd: "string option")
  | Reveal

record access_request =
  ar_item :: string
  ar_field :: access_field
  ar_intent :: intent
  ar_reason :: string

datatype request = Status | ListItems "string option" | Access access_request

record item_ref =
  ref_id :: uuid
  ref_name :: string
  ref_username :: "string option"
  ref_has_password :: bool
  ref_has_totp :: bool
  ref_fields :: "string list"

record command_output =
  exit_code :: int
  stdout :: string
  stderr :: string

datatype refusal = VaultLocked | NoSuchItem | FieldEmpty | Denied | TimedOut | Ambiguous "string list"

definition refusal_message :: "refusal \<Rightarrow> string" where
  "refusal_message r =
     (case r of
        VaultLocked \<Rightarrow> ''The vault is locked.''
      | NoSuchItem \<Rightarrow> ''No such item.''
      | FieldEmpty \<Rightarrow> ''That item has nothing stored in that field.''
      | Denied \<Rightarrow> ''The request was declined.''
      | TimedOut \<Rightarrow> ''The request was not answered in time.''
      | Ambiguous ms \<Rightarrow> ''That name matches '' @ show_nat (length ms) @ '' items. Use the id.'')"

datatype response =
    StatusIs bool string
  | Items "item_ref list"
  | Ran command_output
  | Revealed string
  | Refused refusal string
  | Failure string

definition refused :: "refusal \<Rightarrow> response" where
  "refused r = Refused r (refusal_message r)"

section \<open>Commands that print what they are given\<close>

definition SHELLS :: "string list" where
  "SHELLS = [''cmd'', ''command'', ''powershell'', ''pwsh'', ''sh'', ''bash'', ''zsh'', ''fish'', ''dash'',
     ''ash'', ''ksh'', ''csh'', ''tcsh'', ''busybox'', ''wsl'', ''xargs'', ''env'']"

definition INTERPRETERS :: "string list" where
  "INTERPRETERS = [''node'', ''deno'', ''bun'', ''python'', ''python3'', ''py'', ''ruby'', ''perl'', ''php'',
     ''lua'', ''osascript'', ''awk'', ''gawk'', ''mawk'', ''nawk'']"

definition POSITIONAL_PROGRAM :: "string list" where
  "POSITIONAL_PROGRAM = [''awk'', ''gawk'', ''mawk'', ''nawk'']"

definition EVAL_FLAGS :: "string list" where
  "EVAL_FLAGS = [''-e'', ''-c'', ''-p'', ''-r'', ''--eval'', ''--print'', ''--command'']"

definition EVAL_SUBCOMMANDS :: "string list" where
  "EVAL_SUBCOMMANDS = [''eval'']"

definition PROGRAM_FILE_FLAGS :: "string list" where
  "PROGRAM_FILE_FLAGS = [''-f'', ''--file'']"

definition base_name :: "string \<Rightarrow> string" where
  "base_name command =
     (let file = to_ascii_lowercase (after_last {CHR 0x5C, CHR ''/''} command)
      in case rsplit_once (CHR ''.'') file of
           Some (stem, ext) \<Rightarrow> if ext \<in> set [''exe'', ''com'', ''bat'', ''cmd''] then stem else file
         | None \<Rightarrow> file)"

definition names_flag :: "string \<Rightarrow> string \<Rightarrow> bool" where
  "names_flag arg flag =
     (if arg = flag then True
      else case strip_prefix flag arg of
        None \<Rightarrow> False
      | Some rest \<Rightarrow>
          if starts_with flag ''--'' then starts_with rest ''=''
          else rest \<noteq> [] \<and> \<not> starts_with rest ''-'')"

definition names_flag_folded :: "string \<Rightarrow> string \<Rightarrow> bool" where
  "names_flag_folded arg flag = names_flag (to_ascii_lowercase arg) flag"

definition carries_program :: "string \<Rightarrow> bool" where
  "carries_program arg = list_ex (names_flag_folded arg) EVAL_FLAGS"

definition first_verb :: "string list \<Rightarrow> string option" where
  "first_verb args = map_option to_ascii_lowercase (find (\<lambda>arg. \<not> starts_with arg ''-'') args)"

definition can_disclose :: "string \<Rightarrow> string list \<Rightarrow> bool" where
  "can_disclose command args =
     (let name = base_name command in
      if name \<in> set SHELLS then True
      else if name \<notin> set INTERPRETERS then False
      else if list_ex carries_program args then True
      else if (case first_verb args of None \<Rightarrow> False | Some verb \<Rightarrow> verb \<in> set EVAL_SUBCOMMANDS) then True
      else if name \<in> set POSITIONAL_PROGRAM
      then \<not> list_ex (\<lambda>arg. list_ex (names_flag arg) PROGRAM_FILE_FLAGS) args
      else False)"

definition discloses_secret :: "intent \<Rightarrow> bool" where
  "discloses_secret i =
     (case i of Reveal \<Rightarrow> True | Run command args _ _ \<Rightarrow> can_disclose command args)"

section \<open>What the check sees through\<close>

lemma after_last_none: "set b \<inter> C = {} \<Longrightarrow> after_last C b = b"
proof -
  assume "set b \<inter> C = {}"
  then have "takeWhile (\<lambda>x. x \<notin> C) (rev b) = rev b" by (auto simp: takeWhile_eq_all_conv)
  then show "after_last C b = b" by (metis after_last_def rev_rev_ident)
qed

lemma after_last_dir:
  assumes "c \<in> C" and "set b \<inter> C = {}"
  shows "after_last C (dir @ c # b) = b"
proof -
  have "takeWhile (\<lambda>x. x \<notin> C) (rev b @ c # rev dir) = rev b"
    using assms by (subst takeWhile_append2) auto
  then show ?thesis by (simp add: after_last_def)
qed

lemma ascii_lower_separator: "ascii_lower c = c" if "c \<in> {CHR 0x5C, CHR ''/''}"
  using that by (auto simp: ascii_lower_def is_ascii_uppercase_def)

text \<open>The name a command is judged by, however it is addressed.\<close>

lemma base_name_addressed:
  assumes "dir = [] \<or> last dir \<in> {CHR 0x5C, CHR ''/''}"
    and "to_ascii_lowercase file = name @ ext"
    and "ext \<in> {[], ''.exe'', ''.com'', ''.bat'', ''.cmd''}"
    and "set name \<inter> {CHR 0x5C, CHR ''/'', CHR ''.''} = {}"
  shows "base_name (dir @ file) = name"
proof -
  let ?seps = "{CHR 0x5C, CHR ''/''}"
  have clean: "set file \<inter> ?seps = {}"
  proof (rule ccontr)
    assume "set file \<inter> ?seps \<noteq> {}"
    then obtain c where c: "c \<in> set file" "c \<in> ?seps" by blast
    then have "c \<in> set (to_ascii_lowercase file)"
      using ascii_lower_separator [OF c(2)] by (force simp: to_ascii_lowercase_def)
    then have "c \<in> set name \<or> c \<in> set ext" by (simp add: assms(2))
    with c(2) assms(3,4) show False by auto
  qed
  have "after_last ?seps (dir @ file) = file"
  proof (cases "dir = []")
    case True
    then show ?thesis using clean by (simp add: after_last_none)
  next
    case False
    with assms(1) have "last dir \<in> ?seps" by simp
    with clean have "after_last ?seps (butlast dir @ last dir # file) = file" by (rule after_last_dir [rotated])
    with False show ?thesis by (metis append.assoc append_Cons append_Nil append_butlast_last_id)
  qed
  moreover have "CHR ''.'' \<notin> set name" using assms(4) by blast
  ultimately show ?thesis
    using assms(2,3) rsplit_once_none [of "CHR ''.''" name]
    by (auto simp: base_name_def rsplit_once_last Let_def)
qed

lemma shell_names: "\<forall>n \<in> set SHELLS. set n \<inter> {CHR 0x5C, CHR ''/'', CHR ''.''} = {}"
  by (simp add: SHELLS_def)

text \<open>
  A shell counts as disclosing whatever its arguments and however it is addressed: in any letter
  case, under any directory, with or without an executable extension.
\<close>

theorem shell_always_discloses:
  assumes "name \<in> set SHELLS" and "dir = [] \<or> last dir \<in> {CHR 0x5C, CHR ''/''}"
    and "to_ascii_lowercase file = name @ ext"
    and "ext \<in> {[], ''.exe'', ''.com'', ''.bat'', ''.cmd''}"
  shows "can_disclose (dir @ file) args \<and> discloses_secret (Run (dir @ file) args env_var cwd)"
proof -
  have "base_name (dir @ file) = name"
    using assms shell_names by (intro base_name_addressed) auto
  with assms(1) show ?thesis by (simp add: can_disclose_def discloses_secret_def)
qed

theorem shell_always_discloses_witness:
  "can_disclose (''/bin/'' @ ''Bash.EXE'') [] \<and> discloses_secret (Run (''/bin/'' @ ''Bash.EXE'') [] ''S'' None)"
proof (rule shell_always_discloses)
  show "to_ascii_lowercase ''Bash.EXE'' = ''bash'' @ ''.exe''"
    by (simp add: to_ascii_lowercase_def ascii_lower_def is_ascii_uppercase_def) code_simp
qed (simp_all add: SHELLS_def)

text \<open>
  Positional interpreters are excused by a file flag anywhere on the line, even after the program,
  and a version suffix or a bundled flag hides an interpreter from the check.
\<close>

theorem disclosure_check_gaps:
  "\<not> can_disclose ''awk'' [''{print}'', ''-f''] \<and>
   \<not> can_disclose ''python3.11'' [''-c'', ''print(1)''] \<and>
   \<not> can_disclose ''perl'' [''-ne'', ''print'']"
  by (simp add: can_disclose_def base_name_def after_last_def rsplit_once_def split_once_def SHELLS_def
      INTERPRETERS_def POSITIONAL_PROGRAM_def EVAL_FLAGS_def EVAL_SUBCOMMANDS_def PROGRAM_FILE_FLAGS_def
      carries_program_def names_flag_folded_def names_flag_def first_verb_def strip_prefix_def
      starts_with_def to_ascii_lowercase_def ascii_lower_def is_ascii_uppercase_def)

end
