(* ===== verification/Grants.thy ===== *)
theory Grants
  imports Access_Protocol
begin

text \<open>
  \<open>crates/yara-broker/src/grant.rs\<close>: standing permissions. A grant is pinned to one item, one field,
  one scope and one requesting program, and expires by the clock and by use.
\<close>

section \<open>Clients, scopes and grants\<close>

record client_id =
  pid :: u32
  executable :: "string option"

definition client_unknown :: "u32 \<Rightarrow> client_id" where
  "client_unknown p = \<lparr>pid = p, executable = None\<rparr>"

definition display_name :: "client_id \<Rightarrow> string" where
  "display_name c =
     (case executable c of
        Some path \<Rightarrow> after_last {CHR 0x5C, CHR ''/''} path
      | None \<Rightarrow> ''unidentified process '' @ show_nat (unat (pid c)))"

definition same_program_as :: "client_id \<Rightarrow> client_id \<Rightarrow> bool" where
  "same_program_as a b =
     (case (executable a, executable b) of
        (Some x, Some y) \<Rightarrow> eq_ignore_ascii_case x y
      | _ \<Rightarrow> False)"

datatype scope = ScopeRun string "string list" "string option" | ScopeReveal

definition scope_for_intent :: "intent \<Rightarrow> scope" where
  "scope_for_intent i =
     (case i of Reveal \<Rightarrow> ScopeReveal | Run command args _ cwd \<Rightarrow> ScopeRun command args cwd)"

definition scope_summary :: "scope \<Rightarrow> string" where
  "scope_summary s =
     (case s of
        ScopeReveal \<Rightarrow> ''reveal the value''
      | ScopeRun command args _ \<Rightarrow>
          if args = [] then ''run `'' @ command @ ''`''
          else ''run `'' @ command @ '' '' @ join '' '' args @ ''`'')"

definition scope_covers :: "scope \<Rightarrow> intent \<Rightarrow> bool" where
  "scope_covers s i =
     (case (s, i) of
        (ScopeRun command args cwd, Run wanted wanted_args _ wanted_cwd) \<Rightarrow>
          command = wanted \<and> args = wanted_args \<and> cwd = wanted_cwd
      | (ScopeReveal, Reveal) \<Rightarrow> True
      | (ScopeRun _ _ _, Reveal) \<Rightarrow> False
      | (ScopeReveal, Run _ _ _ _) \<Rightarrow> False)"

record grant =
  g_id :: uuid
  g_item_id :: uuid
  g_item_name :: string
  g_field :: access_field
  g_scope :: scope
  g_client :: client_id
  g_issued_at :: u64
  g_expires_at :: u64
  g_max_uses :: u32
  g_uses :: u32

definition grant_new ::
    "uuid \<Rightarrow> uuid \<Rightarrow> string \<Rightarrow> access_field \<Rightarrow> scope \<Rightarrow> client_id \<Rightarrow> u64 \<Rightarrow> u64 \<Rightarrow> u32 \<Rightarrow> grant" where
  "grant_new fresh item name f s client issued_at duration max_uses =
     \<lparr>g_id = fresh, g_item_id = item, g_item_name = name, g_field = f, g_scope = s, g_client = client,
      g_issued_at = issued_at, g_expires_at = sat_add issued_at duration, g_max_uses = max_uses, g_uses = 0\<rparr>"

definition grant_once ::
    "uuid \<Rightarrow> uuid \<Rightarrow> string \<Rightarrow> access_field \<Rightarrow> scope \<Rightarrow> client_id \<Rightarrow> u64 \<Rightarrow> grant" where
  "grant_once fresh item name f s client now = grant_new fresh item name f s client now 60 1"

definition is_expired :: "u64 \<Rightarrow> grant \<Rightarrow> bool" where
  "is_expired now g \<longleftrightarrow> now \<ge> g_expires_at g"

definition is_spent :: "grant \<Rightarrow> bool" where
  "is_spent g \<longleftrightarrow> g_uses g \<ge> g_max_uses g"

definition is_live :: "u64 \<Rightarrow> grant \<Rightarrow> bool" where
  "is_live now g \<longleftrightarrow> \<not> is_expired now g \<and> \<not> is_spent g"

definition remaining_uses :: "grant \<Rightarrow> u32" where
  "remaining_uses g = sat_sub (g_max_uses g) (g_uses g)"

definition seconds_remaining :: "u64 \<Rightarrow> grant \<Rightarrow> u64" where
  "seconds_remaining now g = sat_sub (g_expires_at g) now"

definition authorises :: "uuid \<Rightarrow> access_field \<Rightarrow> intent \<Rightarrow> client_id \<Rightarrow> u64 \<Rightarrow> grant \<Rightarrow> bool" where
  "authorises item f i client now g \<longleftrightarrow>
     is_live now g \<and> g_item_id g = item \<and> g_field g = f \<and> scope_covers (g_scope g) i \<and>
     same_program_as (g_client g) client"

section \<open>The store\<close>

definition issue :: "grant \<Rightarrow> grant list \<Rightarrow> grant list \<times> uuid" where
  "issue g store = (store @ [g], g_id g)"

definition charge :: "grant \<Rightarrow> grant" where
  "charge g = g\<lparr>g_uses := g_uses g + 1\<rparr>"

definition redeem ::
    "uuid \<Rightarrow> access_field \<Rightarrow> intent \<Rightarrow> client_id \<Rightarrow> u64 \<Rightarrow> grant list \<Rightarrow> grant list \<times> uuid option" where
  "redeem item f i client now store =
     (case find (authorises item f i client now) store of
        None \<Rightarrow> (store, None)
      | Some g \<Rightarrow> (update_first (authorises item f i client now) charge store, Some (g_id g)))"

definition live_grants :: "u64 \<Rightarrow> grant list \<Rightarrow> grant list" where
  "live_grants now store = filter (is_live now) store"

definition prune :: "u64 \<Rightarrow> grant list \<Rightarrow> grant list" where
  "prune now store = filter (is_live now) store"

definition revoke :: "uuid \<Rightarrow> grant list \<Rightarrow> grant list \<times> bool" where
  "revoke k store =
     (let kept = filter (\<lambda>g. g_id g \<noteq> k) store in (kept, length kept \<noteq> length store))"

definition clear_grants :: "grant list \<Rightarrow> grant list" where
  "clear_grants store = []"

section \<open>Redeeming\<close>

lemma unidentified_never_same:
  "executable a = None \<Longrightarrow> \<not> same_program_as b a \<and> \<not> same_program_as a b"
  by (auto simp: same_program_as_def split: option.splits)

lemma scope_covers_iff: "scope_covers s i \<longleftrightarrow> s = scope_for_intent i"
  by (cases s; cases i) (auto simp: scope_covers_def scope_for_intent_def)

lemma charge_simps [simp]:
  "g_id (charge g) = g_id g" "g_scope (charge g) = g_scope g" "g_max_uses (charge g) = g_max_uses g"
  "g_expires_at (charge g) = g_expires_at g" "g_item_id (charge g) = g_item_id g"
  "g_client (charge g) = g_client g" "g_field (charge g) = g_field g"
  by (simp_all add: charge_def)

text \<open>A live grant has a use left, so charging it neither wraps nor overruns.\<close>

lemma charge_within:
  assumes "\<not> is_spent g"
  shows "unat (g_uses (charge g)) = Suc (unat (g_uses g)) \<and> g_uses (charge g) \<le> g_max_uses g"
proof -
  have less: "unat (g_uses g) < unat (g_max_uses g)"
    using assms by (simp add: is_spent_def word_le_nat_alt not_le)
  moreover have "unat (g_max_uses g) < 2 ^ LENGTH(32)" by (rule unsigned_less)
  ultimately have "unat (g_uses g) + unat (1 :: u32) < 2 ^ LENGTH(32)" by simp
  then have "unat (g_uses g + 1) = unat (g_uses g) + 1"
    by (simp add: unat_add_lem [THEN iffD1])
  with less show ?thesis by (simp add: charge_def word_le_nat_alt)
qed

text \<open>
  C28: a request is let through without a prompt only by a grant that is unexpired, has a use left and
  was given for exactly that item, field and scope to the program that now asks; an unidentified
  program never is; and exactly one use is charged, to that grant alone.
\<close>

theorem redeem_sound:
  assumes "redeem item f i client now store = (store', Some k)"
  shows "executable client \<noteq> None \<and>
    (\<exists>before g after. store = before @ g # after \<and> store' = before @ charge g # after \<and> g_id g = k \<and>
       now < g_expires_at g \<and> unat (g_uses (charge g)) = Suc (unat (g_uses g)) \<and>
       g_uses (charge g) \<le> g_max_uses g \<and>
       g_item_id g = item \<and> g_field g = f \<and> g_scope g = scope_for_intent i \<and>
       same_program_as (g_client g) client)"
proof -
  let ?A = "authorises item f i client now"
  have split: "find ?A xs = Some g \<Longrightarrow> \<exists>before after. xs = before @ g # after \<and>
      update_first ?A charge xs = before @ charge g # after" for xs g
  proof (induction xs)
    case (Cons x xs)
    then show ?case
      by (cases "?A x") (auto intro: exI [of _ "[]"], metis append_Cons)
  qed simp
  from assms obtain g where g: "find ?A store = Some g" and k: "g_id g = k"
    and st: "store' = update_first ?A charge store"
    by (auto simp: redeem_def split: option.splits)
  from split [OF g] obtain before after where s: "store = before @ g # after" "store' = before @ charge g # after"
    using st by blast
  have a: "?A g" using find_Some_set [OF g] by blast
  then have "executable client \<noteq> None" using unidentified_never_same by (auto simp: authorises_def)
  moreover from a have "now < g_expires_at g" "\<not> is_spent g" "g_item_id g = item" "g_field g = f"
    "g_scope g = scope_for_intent i" "same_program_as (g_client g) client"
    by (auto simp: authorises_def is_live_def is_expired_def scope_covers_iff)
  ultimately show ?thesis using s k charge_within [of g] by blast
qed

definition sample_client :: client_id where
  "sample_client = \<lparr>pid = 4, executable = Some ''/usr/bin/agent''\<rparr>"

definition sample_grant :: grant where
  "sample_grant = grant_new 9 7 ''mail'' Password (ScopeRun ''deploy'' [] None) sample_client 100 900 25"

lemma sample_authorises: "authorises 7 Password (Run ''deploy'' [] ''S'' None) sample_client 200 sample_grant"
  by (simp add: authorises_def sample_grant_def grant_new_def sample_client_def is_live_def is_expired_def
      is_spent_def scope_covers_def same_program_as_def sat_add_def)

theorem redeem_sound_witness:
  "executable sample_client \<noteq> None \<and>
    (\<exists>before g after. [sample_grant] = before @ g # after \<and> [charge sample_grant] = before @ charge g # after \<and>
       g_id g = 9 \<and> (200 :: u64) < g_expires_at g)"
proof -
  have "redeem 7 Password (Run ''deploy'' [] ''S'' None) sample_client 200 [sample_grant] =
      ([charge sample_grant], Some 9)"
    using sample_authorises by (simp add: redeem_def) (simp add: sample_grant_def grant_new_def)
  from redeem_sound [OF this] show ?thesis by blast
qed

text \<open>What redeeming leaves in the store.\<close>

lemma set_redeem:
  "redeem item f i client now store = (store', r) \<Longrightarrow>
    g \<in> set store' \<Longrightarrow> g \<in> set store \<or> (\<exists>h \<in> set store. \<not> is_spent h \<and> g = charge h)"
  using set_update_first_subset [of "authorises item f i client now" charge store]
  by (auto simp: redeem_def authorises_def is_live_def split: option.splits)

end
