(* ===== verification/Audit_Log.thy ===== *)
theory Audit_Log
  imports Grants
begin

text \<open>
  \<open>crates/yara-broker/src/audit.rs\<close>: what is recorded of every request, and the bounded log that
  the interface reads. Entry ids and the clock are arguments.
\<close>

datatype action = Listed nat | RanCommand string string | RevealedValue

definition action_from_intent :: "intent \<Rightarrow> action" where
  "action_from_intent i =
     (case i of
        Run command args env_var _ \<Rightarrow>
          RanCommand (if args = [] then command else command @ '' '' @ join '' '' args) env_var
      | Reveal \<Rightarrow> RevealedValue)"

definition is_notable :: "action \<Rightarrow> bool" where
  "is_notable a = (case a of RevealedValue \<Rightarrow> True | _ \<Rightarrow> False)"

datatype outcome =
    Approved "uuid option"
  | Reused uuid
  | OutcomeRefused refusal
  | Failed string

definition was_allowed :: "outcome \<Rightarrow> bool" where
  "was_allowed oc = (case oc of Approved _ \<Rightarrow> True | Reused _ \<Rightarrow> True | _ \<Rightarrow> False)"

definition outcome_grant :: "outcome \<Rightarrow> uuid option" where
  "outcome_grant oc =
     (case oc of Approved g \<Rightarrow> g | Reused g \<Rightarrow> Some g | OutcomeRefused _ \<Rightarrow> None | Failed _ \<Rightarrow> None)"

record entry =
  e_id :: uuid
  e_at :: u64
  e_client :: client_id
  e_item :: string
  e_field :: "access_field option"
  e_action :: action
  e_outcome :: outcome
  e_reason :: string
  e_query :: "string option"

definition entry_listing :: "uuid \<Rightarrow> client_id \<Rightarrow> u64 \<Rightarrow> string option \<Rightarrow> nat \<Rightarrow> entry" where
  "entry_listing fresh client at query matches =
     \<lparr>e_id = fresh, e_at = at, e_client = client, e_item = [], e_field = None,
      e_action = Listed matches, e_outcome = Approved None, e_reason = [], e_query = query\<rparr>"

definition LOG_CAPACITY :: nat where "LOG_CAPACITY = 500"

definition log_record :: "entry \<Rightarrow> entry list \<Rightarrow> entry list" where
  "log_record e entries =
     (let pushed = entries @ [e]
      in if length pushed > LOG_CAPACITY then drop (length pushed - LOG_CAPACITY) pushed else pushed)"

definition log_recent :: "nat \<Rightarrow> entry list \<Rightarrow> entry list" where
  "log_recent limit entries = take limit (rev entries)"

definition log_notable :: "entry list \<Rightarrow> entry list" where
  "log_notable entries =
     filter (\<lambda>e. is_notable (e_action e) \<or> \<not> was_allowed (e_outcome e)) (rev entries)"

interpretation access_log: bounded_log log_record id LOG_CAPACITY
  by unfold_locales (simp add: log_record_def keep_last_def Let_def)

lemma log_record_last: "last (log_record e l) = e" and log_record_nonempty: "log_record e l \<noteq> []"
  using access_log.push_newest [of e l] access_log.entries_push [of e l]
  by (auto simp: LOG_CAPACITY_def keep_last_drop)

lemma log_recent_newest: "0 < n \<Longrightarrow> hd (log_recent n (log_record e l)) = e"
  using log_record_last [of e l] log_record_nonempty [of e l]
  by (cases n) (simp_all add: log_recent_def hd_rev take_Suc)

end
