(* ===== verification/Broker.thy ===== *)
theory Broker
  imports Audit_Log
begin

text \<open>
  \<open>crates/yara-broker/src/transport.rs\<close>: the broker decides, executes and records. The vault behind
  it is the record \<open>bridge\<close> of the operations of the trait \<open>VaultBridge\<close>; the locale of the same
  name states what an implementation promises.

  A request waits twice: for the user's answer and for the command it runs. What other requests,
  a lock or a revocation do to the broker meanwhile is an arbitrary function of its state, so the
  properties hold for every interleaving at those points.
\<close>

section \<open>The vault behind the broker\<close>

datatype resolution = Found item_ref | NotFound | AmbiguousName "string list"

record 'v bridge =
  vb_unlocked :: "'v \<Rightarrow> bool"
  vb_list :: "'v \<Rightarrow> string option \<Rightarrow> item_ref list"
  vb_resolve :: "'v \<Rightarrow> string \<Rightarrow> resolution"
  vb_secret :: "'v \<Rightarrow> uuid \<Rightarrow> access_field \<Rightarrow> secret_string option"
  vb_record :: "entry \<Rightarrow> 'v \<Rightarrow> 'v"
  vb_load :: "'v \<Rightarrow> entry list"

record 'v broker =
  b_vault :: 'v
  b_grants :: "grant list"
  b_audit :: "entry list"

definition broker_new :: "'v \<Rightarrow> 'v broker" where
  "broker_new v = \<lparr>b_vault = v, b_grants = [], b_audit = []\<rparr>"

definition broker_revoke :: "uuid \<Rightarrow> 'v broker \<Rightarrow> 'v broker \<times> bool" where
  "broker_revoke k b =
     (case revoke k (b_grants b) of (store, found) \<Rightarrow> (b\<lparr>b_grants := store\<rparr>, found))"

definition broker_live_grants :: "u64 \<Rightarrow> 'v broker \<Rightarrow> grant list" where
  "broker_live_grants now b = live_grants now (b_grants b)"

definition grant_count :: "'v broker \<Rightarrow> nat" where
  "grant_count b = length (b_grants b)"

definition recent_audit :: "nat \<Rightarrow> 'v broker \<Rightarrow> entry list" where
  "recent_audit limit b = log_recent limit (b_audit b)"

definition forget_grants :: "'v broker \<Rightarrow> 'v broker" where
  "forget_grants b = b\<lparr>b_grants := clear_grants (b_grants b), b_audit := []\<rparr>"

definition restore_audit :: "'v bridge \<Rightarrow> 'v broker \<Rightarrow> 'v broker" where
  "restore_audit B b = b\<lparr>b_audit := fold log_record (vb_load B (b_vault b)) []\<rparr>"

definition record_entry :: "'v bridge \<Rightarrow> entry \<Rightarrow> 'v broker \<Rightarrow> 'v broker" where
  "record_entry B e b = b\<lparr>b_vault := vb_record B e (b_vault b), b_audit := log_record e (b_audit b)\<rparr>"

definition record_access ::
    "'v bridge \<Rightarrow> uuid \<Rightarrow> u64 \<Rightarrow> client_id \<Rightarrow> item_ref \<Rightarrow> access_request \<Rightarrow> outcome \<Rightarrow> 'v broker \<Rightarrow> 'v broker" where
  "record_access B fresh at client item access out b =
     record_entry B \<lparr>e_id = fresh, e_at = at, e_client = client, e_item = ref_name item,
       e_field = Some (ar_field access), e_action = action_from_intent (ar_intent access),
       e_outcome = out, e_reason = ar_reason access, e_query = None\<rparr> b"

section \<open>Running a command\<close>

definition REDACTED :: string where "REDACTED = ''[redacted by yara]''"
definition MIN_REDACTABLE :: nat where "MIN_REDACTABLE = 6"
definition MAX_OUTPUT_BYTES :: nat where "MAX_OUTPUT_BYTES = 64 * 1024"

text \<open>An index is a character boundary unless a continuation byte stands there.\<close>

definition is_char_boundary :: "string \<Rightarrow> nat \<Rightarrow> bool" where
  "is_char_boundary s i \<longleftrightarrow>
     i = 0 \<or> i = length s \<or> (i < length s \<and> \<not> (128 \<le> code (s ! i) \<and> code (s ! i) < 192))"

fun cut_back :: "string \<Rightarrow> nat \<Rightarrow> nat" where
  "cut_back s 0 = 0"
| "cut_back s (Suc i) = (if is_char_boundary s (Suc i) then Suc i else cut_back s i)"

definition TRUNCATED_NOTE :: string where
  "TRUNCATED_NOTE = CHR 0x0A # CHR 0xE2 # CHR 0x80 # CHR 0xA6 # '' output truncated''"

definition truncate_output :: "string \<Rightarrow> string" where
  "truncate_output s =
     (if length s \<le> MAX_OUTPUT_BYTES then s
      else take (cut_back s MAX_OUTPUT_BYTES) s @ TRUNCATED_NOTE)"

text \<open>\<open>lossy\<close> is \<open>String::from_utf8_lossy\<close>.\<close>

definition clean :: "(bytes \<Rightarrow> string) \<Rightarrow> bytes \<Rightarrow> secret_string \<Rightarrow> string" where
  "clean lossy raw secret =
     (let t = lossy raw; value = expose secret
      in truncate_output
           (if length value \<ge> MIN_REDACTABLE \<and> str_contains t value
            then str_replace value REDACTED t else t))"

text \<open>What the operating system does with a command: an exit status and output, or a failure to start.\<close>

datatype process_result = Exited "int option" bytes bytes | CouldNotStart string

record process_env =
  pe_run :: "string \<Rightarrow> string list \<Rightarrow> string \<Rightarrow> string option \<Rightarrow> string \<Rightarrow> process_result"
  pe_lossy :: "bytes \<Rightarrow> string"

definition run_command ::
    "process_env \<Rightarrow> string \<Rightarrow> string list \<Rightarrow> string \<Rightarrow> string option \<Rightarrow> secret_string \<Rightarrow> response" where
  "run_command E command args env_var cwd secret =
     (case pe_run E command args env_var cwd (expose secret) of
        Exited status out err \<Rightarrow>
          Ran \<lparr>exit_code = (case status of Some n \<Rightarrow> n | None \<Rightarrow> - 1),
               stdout = clean (pe_lossy E) out secret, stderr = clean (pe_lossy E) err secret\<rparr>
      | CouldNotStart e \<Rightarrow> Failure (''could not run '' @ command @ '': '' @ e))"

section \<open>Access to a credential\<close>

definition has_field :: "access_field \<Rightarrow> item_ref \<Rightarrow> bool" where
  "has_field f item =
     (case f of
        Password \<Rightarrow> ref_has_password item
      | OneTimeCode \<Rightarrow> ref_has_totp item
      | Username \<Rightarrow> ref_username item \<noteq> None
      | Custom l \<Rightarrow> list_ex (\<lambda>g. g = l) (ref_fields item))"

datatype phase = Finished response | Proceed item_ref outcome | AskUser item_ref

definition begin_access ::
    "'v bridge \<Rightarrow> access_request \<Rightarrow> client_id \<Rightarrow> u64 \<Rightarrow> 'v broker \<Rightarrow> 'v broker \<times> phase" where
  "begin_access B access client now b =
     (if \<not> vb_unlocked B (b_vault b) then (b, Finished (refused VaultLocked))
      else case vb_resolve B (b_vault b) (ar_item access) of
        NotFound \<Rightarrow> (b, Finished (refused NoSuchItem))
      | AmbiguousName ms \<Rightarrow> (b, Finished (refused (Ambiguous ms)))
      | Found item \<Rightarrow>
          if \<not> has_field (ar_field access) item then (b, Finished (refused FieldEmpty))
          else
            let store = prune now (b_grants b) in
            case redeem (ref_id item) (ar_field access) (ar_intent access) client now store of
              (store', r) \<Rightarrow>
                let b' = b\<lparr>b_grants := store'\<rparr> in
                (case r of
                   Some g \<Rightarrow> (b', Proceed item (Reused g))
                 | None \<Rightarrow> (b', AskUser item)))"

datatype decision = Deny | AllowOnce | AllowFor u64 u32

text \<open>The prompt is answered, goes away without an answer, or times out.\<close>

datatype answer = Answered decision | Dropped | NoAnswer

record approval_request =
  ap_client :: client_id
  ap_item :: item_ref
  ap_field :: access_field
  ap_intent :: intent
  ap_reason :: string
  ap_discloses :: bool

definition approval_request_for :: "access_request \<Rightarrow> item_ref \<Rightarrow> client_id \<Rightarrow> approval_request" where
  "approval_request_for access item client =
     \<lparr>ap_client = client, ap_item = item, ap_field = ar_field access, ap_intent = ar_intent access,
      ap_reason = ar_reason access, ap_discloses = discloses_secret (ar_intent access)\<rparr>"

definition narrow_decision :: "bool \<Rightarrow> decision \<Rightarrow> decision" where
  "narrow_decision discloses d =
     (case d of AllowFor _ _ \<Rightarrow> if discloses then AllowOnce else d | _ \<Rightarrow> d)"

definition conclude_approval ::
    "access_request \<Rightarrow> item_ref \<Rightarrow> client_id \<Rightarrow> u64 \<Rightarrow> uuid \<Rightarrow> answer \<Rightarrow> 'v broker \<Rightarrow>
       'v broker \<times> (refusal + outcome)" where
  "conclude_approval access item client now fresh a b =
     (case a of
        Dropped \<Rightarrow> (b, Inl Denied)
      | NoAnswer \<Rightarrow> (b, Inl TimedOut)
      | Answered d0 \<Rightarrow>
          let scope = scope_for_intent (ar_intent access);
              d = narrow_decision (discloses_secret (ar_intent access)) d0;
              keep = (\<lambda>g. case issue g (b_grants b) of (store, k) \<Rightarrow>
                 (case redeem (ref_id item) (ar_field access) (ar_intent access) client now store of
                    (store', _) \<Rightarrow> (b\<lparr>b_grants := prune now store'\<rparr>, Inr (Approved (Some k)))))
          in (case d of
                Deny \<Rightarrow> (b, Inl Denied)
              | AllowOnce \<Rightarrow>
                  keep (grant_once fresh (ref_id item) (ref_name item) (ar_field access) scope client now)
              | AllowFor seconds uses \<Rightarrow>
                  keep (grant_new fresh (ref_id item) (ref_name item) (ar_field access) scope client now
                          seconds uses)))"

definition dispatch :: "'v bridge \<Rightarrow> process_env \<Rightarrow> item_ref \<Rightarrow> access_request \<Rightarrow> 'v \<Rightarrow> response" where
  "dispatch B E item access v =
     (if \<not> vb_unlocked B v then refused VaultLocked
      else case vb_secret B v (ref_id item) (ar_field access) of
        None \<Rightarrow> refused FieldEmpty
      | Some secret \<Rightarrow>
          (case ar_intent access of
             Reveal \<Rightarrow> Revealed (expose secret)
           | Run command args env_var cwd \<Rightarrow> run_command E command args env_var cwd secret))"

definition final_outcome :: "response \<Rightarrow> outcome \<Rightarrow> outcome" where
  "final_outcome r allowed =
     (case r of Refused reason _ \<Rightarrow> OutcomeRefused reason | Failure m \<Rightarrow> Failed m | _ \<Rightarrow> allowed)"

definition finish_access ::
    "'v bridge \<Rightarrow> access_request \<Rightarrow> client_id \<Rightarrow> item_ref \<Rightarrow> outcome \<Rightarrow> response \<Rightarrow> uuid \<Rightarrow> u64 \<Rightarrow>
       'v broker \<Rightarrow> 'v broker" where
  "finish_access B access client item allowed r fresh at b =
     (let b' = (case r of
                  Refused VaultLocked _ \<Rightarrow>
                    (case outcome_grant allowed of Some g \<Rightarrow> fst (broker_revoke g b) | None \<Rightarrow> b)
                | _ \<Rightarrow> b)
      in record_access B fresh at client item access (final_outcome r allowed) b')"

text \<open>
  The whole handler. \<open>m1\<close> is what happens to the broker while the user is asked, \<open>m2\<close> while the
  command runs; \<open>g\<close> and \<open>e\<close> are the fresh ids of a grant and of the entry, \<open>at\<close> the time it is recorded.
\<close>

definition handle_access ::
    "'v bridge \<Rightarrow> process_env \<Rightarrow> access_request \<Rightarrow> client_id \<Rightarrow> u64 \<Rightarrow> answer \<Rightarrow> uuid \<Rightarrow> uuid \<Rightarrow> u64 \<Rightarrow>
       ('v broker \<Rightarrow> 'v broker) \<Rightarrow> ('v broker \<Rightarrow> 'v broker) \<Rightarrow> 'v broker \<Rightarrow> 'v broker \<times> response" where
  "handle_access B E access client now a g e at m1 m2 b =
     (let act = (\<lambda>item allowed b.
                   let r = dispatch B E item access (b_vault b)
                   in (finish_access B access client item allowed r e at (m2 b), r))
      in case begin_access B access client now b of
           (b1, Finished r) \<Rightarrow> (b1, r)
         | (b1, Proceed item allowed) \<Rightarrow> act item allowed b1
         | (b1, AskUser item) \<Rightarrow>
             (case conclude_approval access item client now g a (m1 b1) of
                (b2, Inl refusal) \<Rightarrow>
                  (record_access B e at client item access (OutcomeRefused refusal) b2, refused refusal)
              | (b2, Inr allowed) \<Rightarrow> act item allowed b2))"

definition handle_list ::
    "'v bridge \<Rightarrow> string option \<Rightarrow> client_id \<Rightarrow> uuid \<Rightarrow> u64 \<Rightarrow> 'v broker \<Rightarrow> 'v broker \<times> response" where
  "handle_list B query client e at b =
     (if \<not> vb_unlocked B (b_vault b) then (b, refused VaultLocked)
      else let items = vb_list B (b_vault b) query
           in (record_entry B (entry_listing e client at query (length items)) b, Items items))"

definition handle ::
    "'v bridge \<Rightarrow> process_env \<Rightarrow> string \<Rightarrow> request \<Rightarrow> client_id \<Rightarrow> u64 \<Rightarrow> answer \<Rightarrow> uuid \<Rightarrow> uuid \<Rightarrow> u64 \<Rightarrow>
       ('v broker \<Rightarrow> 'v broker) \<Rightarrow> ('v broker \<Rightarrow> 'v broker) \<Rightarrow> 'v broker \<Rightarrow> 'v broker \<times> response" where
  "handle B E version req client now a g e at m1 m2 b =
     (case req of
        Status \<Rightarrow> (b, StatusIs (vb_unlocked B (b_vault b)) version)
      | ListItems query \<Rightarrow> handle_list B query client e at b
      | Access access \<Rightarrow> handle_access B E access client now a g e at m1 m2 b)"

section \<open>Redaction and truncation\<close>

lemma str_replace_Nil [simp]: "str_replace pat rep [] = []"
  by (subst str_replace.simps) simp

lemma str_replace_match:
  "pat \<noteq> [] \<Longrightarrow> s \<noteq> [] \<Longrightarrow> starts_with s pat \<Longrightarrow>
    str_replace pat rep s = rep @ str_replace pat rep (drop (length pat) s)"
  by (subst str_replace.simps) simp

lemma str_replace_step:
  "pat \<noteq> [] \<Longrightarrow> \<not> starts_with (c # s) pat \<Longrightarrow> str_replace pat rep (c # s) = c # str_replace pat rep s"
  by (subst str_replace.simps) simp

text \<open>A text that shares no character with the replacement begins the result only if it began the input.\<close>

lemma str_replace_prefix:
  assumes "pat \<noteq> []" and "rep \<noteq> []"
  shows "str_replace pat rep s = p @ r \<Longrightarrow> set p \<inter> set rep = {} \<Longrightarrow> \<exists>r'. s = p @ r'"
  using assms
proof (induction pat rep s arbitrary: p r rule: str_replace.induct)
  case (1 pat rep s)
  show ?case
  proof (cases s)
    case Nil
    with "1.prems" show ?thesis by simp
  next
    case (Cons c cs)
    show ?thesis
    proof (cases "starts_with s pat")
      case True
      with "1.prems" Cons have "rep @ str_replace pat rep (drop (length pat) s) = p @ r"
        by (simp add: str_replace_match)
      with "1.prems"(2,4) have "p = []" by (cases p; cases rep) auto
      then show ?thesis by simp
    next
      case False
      with "1.prems" Cons have eq: "c # str_replace pat rep cs = p @ r" by (simp add: str_replace_step)
      show ?thesis
      proof (cases p)
        case (Cons d ps)
        with eq have d: "d = c" and tl: "str_replace pat rep cs = ps @ r" by auto
        have "\<exists>r'. cs = ps @ r'"
          using "1.IH"(2) [of ps r] False \<open>s = c # cs\<close> tl "1.prems" Cons by auto
        with d Cons \<open>s = c # cs\<close> show ?thesis by auto
      qed simp
    qed
  qed
qed

lemma str_contains_append_disjoint:
  "set p \<inter> set rep = {} \<Longrightarrow> p \<noteq> [] \<Longrightarrow> str_contains (rep @ s) p \<longleftrightarrow> str_contains s p"
proof (induction rep)
  case (Cons c rep)
  then have "\<not> starts_with (c # rep @ s) p" by (cases p) (auto simp: starts_with_iff)
  with Cons show ?case by auto
qed simp

lemma str_replace_removes:
  assumes "pat \<noteq> []" and "rep \<noteq> []" and "set pat \<inter> set rep = {}"
  shows "\<not> str_contains (str_replace pat rep s) pat"
  using assms
proof (induction pat rep s rule: str_replace.induct)
  case (1 pat rep s)
  show ?case
  proof (cases s)
    case Nil
    with "1.prems" show ?thesis by simp
  next
    case (Cons c cs)
    show ?thesis
    proof (cases "starts_with s pat")
      case True
      with "1.prems" "1.IH"(1) Cons show ?thesis
        by (simp add: str_replace_match str_contains_append_disjoint)
    next
      case False
      have "\<not> starts_with (str_replace pat rep s) pat"
      proof
        assume "starts_with (str_replace pat rep s) pat"
        then obtain r where "str_replace pat rep s = pat @ r" by (auto simp: starts_with_iff)
        from str_replace_prefix [OF "1.prems"(1,2) this "1.prems"(3)] False show False
          by (auto simp: starts_with_iff)
      qed
      with False "1.prems" "1.IH"(2) Cons show ?thesis by (simp add: str_replace_step)
    qed
  qed
qed

text \<open>
  As long as the output fits and the credential shares no character with the replacement text,
  no part of what a command prints, raw or cleaned, still contains the credential.
\<close>

theorem clean_removes_secret:
  assumes "MIN_REDACTABLE \<le> length (expose secret)"
    and "set (expose secret) \<inter> set REDACTED = {}"
    and "length (str_replace (expose secret) REDACTED (lossy raw)) \<le> MAX_OUTPUT_BYTES"
    and "length (lossy raw) \<le> MAX_OUTPUT_BYTES"
  shows "\<not> str_contains (clean lossy raw secret) (expose secret)"
proof -
  have ne: "expose secret \<noteq> []" using assms(1) by (auto simp: MIN_REDACTABLE_def)
  have rep: "REDACTED \<noteq> []" by (simp add: REDACTED_def)
  show ?thesis
    using assms str_replace_removes [OF ne rep assms(2)] by (auto simp: clean_def Let_def truncate_output_def)
qed

theorem clean_removes_secret_witness:
  "\<not> str_contains (clean id ''PGPASS=SXQZKV!'' (SecretString ''SXQZKV'')) (expose (SecretString ''SXQZKV''))"
  by (rule clean_removes_secret)
    (simp_all add: MIN_REDACTABLE_def REDACTED_def MAX_OUTPUT_BYTES_def str_replace.simps starts_with_def)

text \<open>Replacing can itself complete the value, so a short overlap with the replacement text leaks it back.\<close>

theorem clean_can_leave_secret:
  "str_contains (clean id ''[redacted by yara]'' (SecretString ''[redacted'')) ''[redacted''"
  by (simp add: clean_def MIN_REDACTABLE_def REDACTED_def truncate_output_def MAX_OUTPUT_BYTES_def
      str_replace.simps starts_with_def Let_def)

lemma cut_back_le: "cut_back s n \<le> n"
  by (induction n) (auto simp: le_SucI)

lemma cut_back_boundary: "is_char_boundary s (cut_back s n)"
  by (induction n) (auto simp: is_char_boundary_def)

text \<open>
  What a command prints is cut to 64 KiB plus the note that says so, on a character boundary, and
  only when it is longer.
\<close>

theorem truncate_output_bounded:
  "length (truncate_output s) \<le> 65536 + 21 \<and>
    (length s \<le> 65536 \<longrightarrow> truncate_output s = s) \<and>
    (65536 < length s \<longrightarrow> (\<exists>n \<le> 65536. is_char_boundary s n \<and> truncate_output s = take n s @ TRUNCATED_NOTE))"
  using cut_back_le [of s 65536] cut_back_boundary [of s 65536]
  by (auto simp: truncate_output_def MAX_OUTPUT_BYTES_def TRUNCATED_NOTE_def intro!: exI [of _ "cut_back s 65536"])

theorem truncate_output_bounded_witness: "truncate_output ''ok'' = ''ok''"
  using truncate_output_bounded [of "''ok''"] by simp

section \<open>The grants the broker can hold\<close>

definition scope_discloses :: "scope \<Rightarrow> bool" where
  "scope_discloses s = (case s of ScopeReveal \<Rightarrow> True | ScopeRun command args _ \<Rightarrow> can_disclose command args)"

lemma discloses_scope: "discloses_secret i \<longleftrightarrow> scope_discloses (scope_for_intent i)"
  by (cases i) (simp_all add: discloses_secret_def scope_discloses_def scope_for_intent_def)

text \<open>
  No grant in the store has been charged past its limit, and one for a disclosure can only be left
  over from a program that could not be identified, which no request ever matches.
\<close>

definition grant_ok :: "grant \<Rightarrow> bool" where
  "grant_ok g \<longleftrightarrow> g_uses g \<le> g_max_uses g \<and> (scope_discloses (g_scope g) \<longrightarrow> executable (g_client g) = None)"

definition grants_ok :: "grant list \<Rightarrow> bool" where
  "grants_ok store \<longleftrightarrow> (\<forall>g \<in> set store. grant_ok g)"

lemma grant_ok_charge: "grant_ok g \<Longrightarrow> \<not> is_spent g \<Longrightarrow> grant_ok (charge g)"
  using charge_within [of g] by (simp add: grant_ok_def)

lemma grants_ok_redeem: "grants_ok store \<Longrightarrow> redeem item f i client now store = (store', r) \<Longrightarrow> grants_ok store'"
  unfolding grants_ok_def by (auto dest: set_redeem intro: grant_ok_charge)

lemma grants_ok_filter: "grants_ok store \<Longrightarrow> grants_ok (filter P store)"
  by (auto simp: grants_ok_def)

lemma redeem_disclosing_none:
  assumes "grants_ok store" and "discloses_secret i"
  shows "redeem item f i client now store = (store, None)"
proof -
  have "\<not> authorises item f i client now g" if g: "g \<in> set store" for g
  proof
    assume a: "authorises item f i client now g"
    then have "scope_discloses (g_scope g)"
      using assms(2) by (simp add: authorises_def scope_covers_iff discloses_scope)
    then have "executable (g_client g) = None" using assms(1) g by (simp add: grants_ok_def grant_ok_def)
    with a show False using unidentified_never_same by (auto simp: authorises_def)
  qed
  then show ?thesis by (auto simp: redeem_def find_None_iff split: option.splits dest: find_Some_set)
qed

lemma grants_ok_begin:
  "grants_ok (b_grants b) \<Longrightarrow> begin_access B access client now b = (b', ph) \<Longrightarrow> grants_ok (b_grants b')"
  by (auto simp: begin_access_def prune_def Let_def split: if_splits resolution.splits prod.splits option.splits
      intro: grants_ok_redeem [OF grants_ok_filter])

text \<open>A new grant, charged by the request it was made for and pruned.\<close>

lemma grants_ok_keep:
  assumes "grants_ok store" and "g_uses g = 0" and "g_scope g = scope_for_intent i"
    and "g_client g = client" and "g_item_id g = item" and "g_field g = f"
    and "discloses_secret i \<Longrightarrow> g_max_uses g = 1"
    and "redeem item f i client now (store @ [g]) = (store', r)"
  shows "grants_ok (prune now store')"
proof (cases "discloses_secret i \<and> executable client \<noteq> None")
  case False
  then have "grant_ok g"
    using assms(2-4) by (auto simp: grant_ok_def discloses_scope)
  then have "grants_ok (store @ [g])" using assms(1) by (auto simp: grants_ok_def)
  from grants_ok_filter [OF grants_ok_redeem [OF this assms(8)]] show ?thesis by (simp add: prune_def)
next
  case True
  then have one: "g_max_uses g = 1" using assms(7) by blast
  have none: "find (authorises item f i client now) store = None"
    using redeem_disclosing_none [OF assms(1), of i item f client now] True
    by (auto simp: redeem_def split: option.splits)
  have same: "same_program_as client client" using True by (auto simp: same_program_as_def)
  have upd: "update_first (authorises item f i client now) charge (store @ [g]) = store @ update_first (authorises item f i client now) charge [g]"
    using none by (induction store) (auto split: if_splits)
  show ?thesis
  proof (cases "authorises item f i client now g")
    case True
    then have "store' = store @ [charge g]"
      using assms(8) none upd by (simp add: redeem_def find_append)
    moreover have "is_spent (charge g)" using one assms(2) by (simp add: is_spent_def charge_def)
    ultimately have "prune now store' = filter (is_live now) store" by (simp add: prune_def is_live_def)
    with grants_ok_filter [OF assms(1)] show ?thesis by simp
  next
    case False
    then have "\<not> is_live now g"
      using same assms(3-6) by (simp add: authorises_def scope_covers_iff)
    moreover have "store' = store @ [g]"
      using False assms(8) none by (simp add: redeem_def find_append)
    ultimately have "prune now store' = filter (is_live now) store" by (simp add: prune_def)
    with grants_ok_filter [OF assms(1)] show ?thesis by simp
  qed
qed

lemma grants_ok_conclude:
  assumes "grants_ok (b_grants b)" and "conclude_approval access item client now fresh a b = (b', r)"
  shows "grants_ok (b_grants b')"
proof -
  have kept: "grants_ok (prune now store)"
    if "redeem (ref_id item) (ar_field access) (ar_intent access) client now
        (b_grants b @ [grant_new fresh (ref_id item) (ref_name item) (ar_field access)
          (scope_for_intent (ar_intent access)) client now secs n]) = (store, x)"
      and "discloses_secret (ar_intent access) \<Longrightarrow> n = 1" for secs n store x
    by (rule grants_ok_keep [OF assms(1) _ _ _ _ _ _ that(1)]) (use that(2) in \<open>simp_all add: grant_new_def\<close>)
  show ?thesis
  proof (cases a)
    case (Answered d)
    show ?thesis
    proof (cases "narrow_decision (discloses_secret (ar_intent access)) d")
      case Deny
      with Answered assms show ?thesis by (auto simp: conclude_approval_def)
    next
      case AllowOnce
      with Answered assms(2) show ?thesis
        by (auto simp: conclude_approval_def grant_once_def issue_def Let_def split: prod.splits intro: kept)
    next
      case (AllowFor secs n)
      then have "\<not> discloses_secret (ar_intent access)"
        by (auto simp: narrow_decision_def split: decision.splits if_splits)
      with Answered AllowFor assms(2) show ?thesis
        by (auto simp: conclude_approval_def issue_def Let_def split: prod.splits intro: kept)
    qed
  qed (use assms in \<open>auto simp: conclude_approval_def\<close>)
qed

lemma record_entry_grants [simp]:
  "b_grants (record_entry B e b) = b_grants b"
  "b_grants (record_access B fresh at client item access out b) = b_grants b"
  by (simp_all add: record_entry_def record_access_def)

lemma grants_ok_finish: "grants_ok (b_grants b) \<Longrightarrow> grants_ok (b_grants (finish_access B access client item allowed r fresh at b))"
  by (auto simp: finish_access_def broker_revoke_def revoke_def Let_def
      split: response.splits refusal.splits option.splits intro: grants_ok_filter)

text \<open>
  Every atomic step of the broker: the three stages of a request, a listing, a revocation, the lock
  and unlock hooks, and whatever else happens to the vault behind it.
\<close>

inductive broker_step :: "'v bridge \<Rightarrow> 'v broker \<Rightarrow> 'v broker \<Rightarrow> bool" for B where
  bs_begin: "begin_access B access client now b = (b', ph) \<Longrightarrow> broker_step B b b'"
| bs_conclude: "conclude_approval access item client now fresh a b = (b', r) \<Longrightarrow> broker_step B b b'"
| bs_refuse: "broker_step B b (record_access B fresh at client item access out b)"
| bs_finish: "broker_step B b (finish_access B access client item allowed r fresh at b)"
| bs_list: "handle_list B query client fresh at b = (b', r) \<Longrightarrow> broker_step B b b'"
| bs_revoke: "broker_step B b (fst (broker_revoke k b))"
| bs_forget: "broker_step B b (forget_grants b)"
| bs_restore: "broker_step B b (restore_audit B b)"
| bs_vault: "broker_step B b (b\<lparr>b_vault := v\<rparr>)"

inductive broker_reachable :: "'v bridge \<Rightarrow> 'v broker \<Rightarrow> bool" for B where
  br_new: "broker_reachable B (broker_new v)"
| br_step: "broker_reachable B b \<Longrightarrow> broker_step B b b' \<Longrightarrow> broker_reachable B b'"

lemma grants_ok_step: "broker_step B b b' \<Longrightarrow> grants_ok (b_grants b) \<Longrightarrow> grants_ok (b_grants b')"
  by (induction rule: broker_step.induct)
    (auto simp: handle_list_def broker_revoke_def revoke_def forget_grants_def clear_grants_def restore_audit_def Let_def
      grants_ok_def [of "[]"] split: if_splits
      intro: grants_ok_begin grants_ok_conclude grants_ok_finish grants_ok_filter)

lemma reachable_grants_ok: "broker_reachable B b \<Longrightarrow> grants_ok (b_grants b)"
  by (induction rule: broker_reachable.induct) (simp_all add: broker_new_def grants_ok_def [of "[]"] grants_ok_step)

text \<open>A bridge over a flag, for evaluating the handler on one request.\<close>

definition sample_ref :: item_ref where
  "sample_ref = \<lparr>ref_id = 7, ref_name = ''mail'', ref_username = None, ref_has_password = True,
     ref_has_totp = False, ref_fields = []\<rparr>"

definition sample_bridge :: "bool bridge" where
  "sample_bridge = \<lparr>vb_unlocked = (\<lambda>v. v), vb_list = (\<lambda>v q. if v then [sample_ref] else []),
     vb_resolve = (\<lambda>v n. if v \<and> n = ''mail'' then Found sample_ref else NotFound),
     vb_secret = (\<lambda>v k f. if v \<and> k = 7 \<and> f = Password then Some (SecretString ''hunter22'') else None),
     vb_record = (\<lambda>e v. v), vb_load = (\<lambda>v. [])\<rparr>"

definition sample_process :: process_env where
  "sample_process = \<lparr>pe_run = (\<lambda>c args var cwd val. Exited (Some 0) [] []), pe_lossy = id\<rparr>"

definition sample_access :: "intent \<Rightarrow> access_request" where
  "sample_access i = \<lparr>ar_item = ''mail'', ar_field = Password, ar_intent = i, ar_reason = ''deploy''\<rparr>"

lemmas sample_request_defs = sample_ref_def sample_bridge_def sample_process_def sample_access_def broker_new_def
  handle_access_def begin_access_def has_field_def redeem_def prune_def refused_def Let_def

text \<open>A disclosing request finds no grant, so it comes back with something only after an approval.\<close>

lemma disclosing_answered:
  assumes "broker_reachable B b" and "discloses_secret (ar_intent access)"
    and "handle_access B E access client now a g e at m1 m2 b = (b', r)"
    and "(\<exists>v. r = Revealed v) \<or> (\<exists>out. r = Ran out)"
  shows "\<exists>d. a = Answered d \<and> d \<noteq> Deny"
proof -
  have "redeem (ref_id item) (ar_field access) (ar_intent access) client now (prune now (b_grants b)) =
      (prune now (b_grants b), None)" for item :: item_ref
    using reachable_grants_ok [OF assms(1)] assms(2)
    by (intro redeem_disclosing_none) (simp_all add: prune_def grants_ok_filter)
  note none = this
  obtain b1 ph where start: "begin_access B access client now b = (b1, ph)" by fastforce
  with none have ph: "(\<exists>q. ph = Finished (refused q)) \<or> (\<exists>item. ph = AskUser item)"
    by (auto simp: begin_access_def Let_def split: if_splits resolution.splits)
  from ph show ?thesis
  proof
    assume "\<exists>q. ph = Finished (refused q)"
    with start assms(3,4) show ?thesis by (auto simp: handle_access_def refused_def)
  next
    assume "\<exists>item. ph = AskUser item"
    with start assms(3,4) show ?thesis
      by (auto simp: handle_access_def refused_def conclude_approval_def narrow_decision_def Let_def
          split: answer.splits decision.splits prod.splits sum.splits)
  qed
qed

text \<open>
  C8: however requests, answers, locks and revocations interleave, a request that would disclose the
  value is never let through by a standing grant: it always goes to the user, and unless the user
  answers it with an approval neither the value nor the output of a command comes back.
\<close>

theorem disclosure_needs_answer:
  assumes "broker_reachable B b" and "discloses_secret (ar_intent access)"
    and "handle_access B E access client now a g e at m1 m2 b = (b', r)"
    and "(\<exists>v. r = Revealed v) \<or> (\<exists>out. r = Ran out)"
  shows "\<exists>d. a = Answered d \<and> d \<noteq> Deny"
  using assms by (rule disclosing_answered)

theorem disclosure_needs_answer_witness:
  "\<exists>d. Answered AllowOnce = Answered d \<and> d \<noteq> Deny"
proof -
  let ?h = "handle_access sample_bridge sample_process (sample_access Reveal) sample_client 100 (Answered AllowOnce)
    9 10 101 id id (broker_new True)"
  have "snd ?h = Revealed ''hunter22''"
    by (auto simp: sample_request_defs conclude_approval_def narrow_decision_def dispatch_def issue_def
        split: prod.splits option.splits)
  then have "(\<exists>v. snd ?h = Revealed v) \<or> (\<exists>out. snd ?h = Ran out)" by blast
  from disclosure_needs_answer [OF br_new _ prod.collapse [symmetric] this] show ?thesis
    by (simp add: sample_access_def discloses_secret_def)
qed

text \<open>The record agrees with what the client was told.\<close>

definition recorded_as :: "response \<Rightarrow> outcome \<Rightarrow> bool" where
  "recorded_as r oc =
     (case r of
        Refused q _ \<Rightarrow> oc = OutcomeRefused q
      | Failure m \<Rightarrow> oc = Failed m
      | _ \<Rightarrow> was_allowed oc)"

lemma last_record_access:
  "last (b_audit (record_access B fresh at client item access oc b)) =
    \<lparr>e_id = fresh, e_at = at, e_client = client, e_item = ref_name item, e_field = Some (ar_field access),
      e_action = action_from_intent (ar_intent access), e_outcome = oc, e_reason = ar_reason access, e_query = None\<rparr>"
  by (simp add: record_access_def record_entry_def log_record_last)

lemma recorded_final: "was_allowed allowed \<Longrightarrow> recorded_as r (final_outcome r allowed)"
  by (cases r) (simp_all add: recorded_as_def final_outcome_def)

lemma conclude_allowed:
  "conclude_approval access item client now g a b = (b', Inr oc) \<Longrightarrow> was_allowed oc \<and> b_vault b' = b_vault b"
  by (auto simp: conclude_approval_def narrow_decision_def was_allowed_def Let_def
      split: answer.splits decision.splits prod.splits if_splits)

lemma conclude_approved:
  "d \<noteq> Deny \<Longrightarrow> \<exists>b'. conclude_approval access item client now g (Answered d) b = (b', Inr (Approved (Some g)))"
  by (cases "narrow_decision (discloses_secret (ar_intent access)) d")
    (auto simp: conclude_approval_def issue_def grant_once_def grant_new_def Let_def
      narrow_decision_def [of _ d] split: prod.splits if_splits decision.splits)

text \<open>Two brokers that differ in their grants at most.\<close>

definition same_record :: "'v broker \<Rightarrow> 'v broker \<Rightarrow> bool" where
  "same_record b c \<longleftrightarrow> b_audit c = b_audit b \<and> b_vault c = b_vault b"

text \<open>
  What a request finds when it comes to record itself: what the other requests made of the broker while
  it waited, for the user if it asked, for the command if it went on, and nothing of its own but grants.
\<close>

definition left_by :: "bool \<Rightarrow> bool \<Rightarrow> ('v broker \<Rightarrow> 'v broker) \<Rightarrow> ('v broker \<Rightarrow> 'v broker) \<Rightarrow> 'v broker \<Rightarrow> 'v broker \<Rightarrow> bool" where
  "left_by asked approved m1 m2 b c \<longleftrightarrow> (\<exists>b1. same_record b b1 \<and>
     (if \<not> asked then c = m2 b1
      else if approved then \<exists>b2. same_record (m1 b1) b2 \<and> c = m2 b2
      else c = m1 b1))"

lemma begin_access_frame:
  assumes "begin_access B access client now b = (b1, ph)"
  shows "same_record b b1"
    and "ph = Proceed item oc \<Longrightarrow> vb_resolve B (b_vault b) (ar_item access) = Found item \<and> was_allowed oc"
    and "ph = AskUser item \<Longrightarrow> vb_resolve B (b_vault b) (ar_item access) = Found item"
  using assms
  by (auto simp: begin_access_def same_record_def was_allowed_def Let_def
      split: if_splits resolution.splits prod.splits option.splits)

lemma conclude_frame:
  assumes "conclude_approval access item client now g a b = (b', x)"
  shows "same_record b b'" and "isl x \<Longrightarrow> b' = b" and "\<not> isl x \<longleftrightarrow> (\<exists>d. a = Answered d \<and> d \<noteq> Deny)"
  using assms
  by (auto simp: conclude_approval_def same_record_def narrow_decision_def Let_def
      split: answer.splits decision.splits prod.splits if_splits)

lemma finish_access_record:
  "b_audit (finish_access B access client item allowed r e at c) =
    b_audit (record_access B e at client item access (final_outcome r allowed) c)"
  "b_vault (finish_access B access client item allowed r e at c) =
    b_vault (record_access B e at client item access (final_outcome r allowed) c)"
  by (auto simp: finish_access_def record_access_def record_entry_def broker_revoke_def Let_def
      split: response.split refusal.split option.split prod.split)

text \<open>
  C29: a request that gets past the lookup adds exactly one entry to the log, and the same one to the
  vault, to what is there when it is done: the log and the vault it found with what others did while it
  waited. The entry names the item that was looked up, the client, the field, the purpose and the reason
  it gave, and its outcome is what the client was told: allowed only if something was handed over,
  refused or failed for the reason returned.
\<close>

theorem access_recorded:
  assumes "handle_access B E access client now a g e at m1 m2 b = (b', r)"
    and "\<And>b1 q. begin_access B access client now b \<noteq> (b1, Finished q)"
  shows "\<exists>item oc c en. vb_resolve B (b_vault b) (ar_item access) = Found item \<and>
    left_by (\<exists>b1 i. begin_access B access client now b = (b1, AskUser i)) (\<exists>d. a = Answered d \<and> d \<noteq> Deny) m1 m2 b c \<and>
    b_audit b' = log_record en (b_audit c) \<and> b_vault b' = vb_record B en (b_vault c) \<and> recorded_as r oc \<and>
    en = \<lparr>e_id = e, e_at = at, e_client = client, e_item = ref_name item, e_field = Some (ar_field access),
      e_action = action_from_intent (ar_intent access), e_outcome = oc, e_reason = ar_reason access, e_query = None\<rparr>"
proof -
  note recorded = record_access_def record_entry_def finish_access_record
  obtain b1 ph where start: "begin_access B access client now b = (b1, ph)" by fastforce
  note frame = begin_access_frame [OF start]
  show ?thesis
  proof (cases ph)
    case (Finished q)
    with start assms(2) show ?thesis by blast
  next
    case (Proceed item oc)
    with assms(1) start have "b' = finish_access B access client item oc r e at (m2 b1)"
      by (auto simp: handle_access_def Let_def)
    moreover have "left_by (\<exists>b1 i. begin_access B access client now b = (b1, AskUser i)) ok m1 m2 b (m2 b1)" for ok
      using frame(1) start Proceed by (auto simp: left_by_def)
    ultimately show ?thesis
      using frame(2) [OF Proceed] recorded_final [of oc r] by (auto simp: recorded)
  next
    case (AskUser item)
    obtain b2 x where c: "conclude_approval access item client now g a (m1 b1) = (b2, x)" by fastforce
    note conc = conclude_frame [OF c]
    show ?thesis
    proof (cases x)
      case (Inl q)
      with assms(1) start AskUser c have "b' = record_access B e at client item access (OutcomeRefused q) b2" "r = refused q"
        by (auto simp: handle_access_def Let_def)
      moreover have "left_by (\<exists>b1 i. begin_access B access client now b = (b1, AskUser i)) (\<exists>d. a = Answered d \<and> d \<noteq> Deny) m1 m2 b b2"
        using frame(1) start AskUser conc(2,3) Inl by (auto simp: left_by_def)
      ultimately show ?thesis using frame(3) [OF AskUser] by (auto simp: recorded recorded_as_def refused_def)
    next
      case (Inr oc)
      with assms(1) start AskUser c have "b' = finish_access B access client item oc r e at (m2 b2)"
        by (auto simp: handle_access_def Let_def)
      moreover have "left_by (\<exists>b1 i. begin_access B access client now b = (b1, AskUser i)) (\<exists>d. a = Answered d \<and> d \<noteq> Deny) m1 m2 b (m2 b2)"
        using frame(1) start AskUser conc(1,3) Inr by (auto simp: left_by_def)
      moreover have "was_allowed oc" using conclude_allowed c Inr by blast
      ultimately show ?thesis using frame(3) [OF AskUser] recorded_final [of oc r] by (auto simp: recorded)
    qed
  qed
qed

theorem access_recorded_witness:
  "\<exists>en. b_audit (fst (handle_access sample_bridge sample_process (sample_access Reveal) sample_client 100 Dropped 9 10 101 id id
      (broker_new True))) = [en] \<and> e_client en = sample_client \<and> e_item en = ref_name sample_ref \<and> e_reason en = ''deploy'' \<and>
    e_outcome en = OutcomeRefused Denied"
proof -
  have eq: "handle_access sample_bridge sample_process (sample_access Reveal) sample_client 100 Dropped 9 10 101 id id
      (broker_new True) = (record_access sample_bridge 10 101 sample_client sample_ref (sample_access Reveal)
        (OutcomeRefused Denied) (broker_new True), refused Denied)"
    by (simp add: sample_request_defs conclude_approval_def)
  have past: "begin_access sample_bridge (sample_access Reveal) sample_client 100 (broker_new True) \<noteq> (b1, Finished q)"
    for b1 q by (simp add: sample_request_defs)
  let ?b = "broker_new True" and ?a = "sample_access Reveal"
  let ?b' = "record_access sample_bridge 10 101 sample_client sample_ref ?a (OutcomeRefused Denied) ?b"
  from access_recorded [OF eq past] obtain item oc c en asked approved where res:
    "vb_resolve sample_bridge (b_vault ?b) (ar_item ?a) = Found item" "left_by asked approved id id ?b c"
    "b_audit ?b' = log_record en (b_audit c)" "recorded_as (refused Denied) oc"
    "en = \<lparr>e_id = 10, e_at = 101, e_client = sample_client, e_item = ref_name item, e_field = Some (ar_field ?a),
      e_action = action_from_intent (ar_intent ?a), e_outcome = oc, e_reason = ar_reason ?a, e_query = None\<rparr>"
    by blast
  have "b_audit c = []" using res(2) by (auto simp: left_by_def same_record_def broker_new_def split: if_splits)
  moreover have "item = sample_ref" "oc = OutcomeRefused Denied"
    using res(1,4) by (simp_all add: sample_request_defs recorded_as_def)
  ultimately have "b_audit ?b' = [en]" using res(3) by (simp add: log_record_def LOG_CAPACITY_def)
  then show ?thesis
    unfolding eq fst_conv using res(5) \<open>item = sample_ref\<close> \<open>oc = _\<close> by (intro exI [of _ en]) (simp add: sample_access_def)
qed

text \<open>
  C22: if the vault locks while the user is being asked, the approval releases nothing: the request is
  refused as locked and the grant the approval made is gone again, whatever else happens before the
  request is finished.
\<close>

theorem lock_during_prompt:
  assumes "begin_access B access client now b = (b1, AskUser item)"
    and "\<not> vb_unlocked B (b_vault (m1 b1))" and "a = Answered d" and "d \<noteq> Deny"
    and "handle_access B E access client now a g e at m1 m2 b = (b', r)"
  shows "r = refused VaultLocked \<and> (\<forall>h \<in> set (b_grants b'). g_id h \<noteq> g)"
proof -
  have "\<exists>b2. conclude_approval access item client now g a (m1 b1) = (b2, Inr (Approved (Some g)))"
    unfolding assms(3) using assms(4) by (rule conclude_approved)
  then obtain b2 where c: "conclude_approval access item client now g a (m1 b1) = (b2, Inr (Approved (Some g)))" ..
  then have "\<not> vb_unlocked B (b_vault b2)" using conclude_allowed assms(2) by metis
  then have "dispatch B E item access (b_vault b2) = refused VaultLocked" by (simp add: dispatch_def)
  with assms(1,5) c have r: "r = refused VaultLocked"
    and b': "b' = finish_access B access client item (Approved (Some g)) (refused VaultLocked) e at (m2 b2)"
    by (auto simp: handle_access_def Let_def)
  then show ?thesis
    by (auto simp: finish_access_def refused_def outcome_grant_def broker_revoke_def revoke_def Let_def)
qed

theorem lock_during_prompt_witness:
  "snd (handle_access sample_bridge sample_process (sample_access Reveal) sample_client 100 (Answered AllowOnce) 9 10 101
     (\<lambda>b. b\<lparr>b_vault := False\<rparr>) id (broker_new True)) = refused VaultLocked"
proof -
  have "begin_access sample_bridge (sample_access Reveal) sample_client 100 (broker_new True) =
      (broker_new True, AskUser sample_ref)"
    by (simp add: sample_request_defs)
  from lock_during_prompt [OF this _ refl _ prod.collapse [symmetric]] show ?thesis
    by (simp add: sample_bridge_def)
qed

end
