(* ===== verification/Peer.thy ===== *)
theory Peer
  imports Broker
begin

text \<open>
  Naming the program at the other end of the pipe (\<open>crates/yara-broker/src/platform.rs\<close>), and what a
  program that cannot be named gets from the broker. The calls of Windows are parameters; the path they
  give is UTF-16.
\<close>

section \<open>UTF-16 read with replacement\<close>

type_synonym u16 = "16 word"

definition lead_surrogate :: "u16 \<Rightarrow> bool" where
  "lead_surrogate u \<longleftrightarrow> 0xD800 \<le> u \<and> u \<le> 0xDBFF"

definition trail_surrogate :: "u16 \<Rightarrow> bool" where
  "trail_surrogate u \<longleftrightarrow> 0xDC00 \<le> u \<and> u \<le> 0xDFFF"

definition REPLACEMENT :: nat where "REPLACEMENT = 0xFFFD"

definition lone_unit :: "u16 \<Rightarrow> nat" where
  "lone_unit u = (if lead_surrogate u \<or> trail_surrogate u then REPLACEMENT else unat u)"

definition surrogate_pair :: "u16 \<Rightarrow> u16 \<Rightarrow> nat" where
  "surrogate_pair u v = 0x10000 + (unat u - 0xD800) * 0x400 + (unat v - 0xDC00)"

fun code_points :: "u16 list \<Rightarrow> nat list" where
  "code_points [] = []"
| "code_points [u] = [lone_unit u]"
| "code_points (u # v # us) =
     (if lead_surrogate u \<and> trail_surrogate v then surrogate_pair u v # code_points us
      else lone_unit u # code_points (v # us))"

text \<open>A code point as the bytes of UTF-8.\<close>

definition utf8_encode :: "nat \<Rightarrow> string" where
  "utf8_encode n =
     map char_of
       (if n < 0x80 then [n]
        else if n < 0x800 then [0xC0 + n div 0x40, 0x80 + n mod 0x40]
        else if n < 0x10000 then [0xE0 + n div 0x1000, 0x80 + n div 0x40 mod 0x40, 0x80 + n mod 0x40]
        else [0xF0 + n div 0x40000, 0x80 + n div 0x1000 mod 0x40, 0x80 + n div 0x40 mod 0x40, 0x80 + n mod 0x40])"

definition from_utf16_lossy :: "u16 list \<Rightarrow> string" where
  "from_utf16_lossy us = concat (map utf8_encode (code_points us))"

section \<open>The client of a pipe\<close>

text \<open>
  What the calls answer: whether the client's process id was found and which, whether a process can be
  opened for a query, and its image path if the query succeeds.
\<close>

record peer_calls =
  pc_client :: "bool \<times> u32"
  pc_open :: "u32 \<Rightarrow> bool"
  pc_image :: "u32 \<Rightarrow> u16 list option"

definition client_process_id :: "peer_calls \<Rightarrow> u32 option" where
  "client_process_id W = (case pc_client W of (ok, p) \<Rightarrow> if ok \<and> p \<noteq> 0 then Some p else None)"

definition image_path :: "peer_calls \<Rightarrow> u32 \<Rightarrow> string option" where
  "image_path W p = (if \<not> pc_open W p then None else map_option from_utf16_lossy (pc_image W p))"

definition identify :: "peer_calls \<Rightarrow> client_id" where
  "identify W =
     (case client_process_id W of
        None \<Rightarrow> client_unknown 0
      | Some p \<Rightarrow> \<lparr>pid = p, executable = image_path W p\<rparr>)"

section \<open>What an unnamed program gets\<close>

lemma unnamed_matches_none: "executable c = None \<Longrightarrow> \<not> same_program_as d c"
  by (simp add: same_program_as_def split: option.split)

lemma unnamed_redeems_none: "executable c = None \<Longrightarrow> redeem item f i c now store = (store, None)"
  using unnamed_matches_none by (auto simp: redeem_def authorises_def find_None_iff split: option.split)

lemma identify_unnamed:
  "executable (identify W) = None \<longleftrightarrow>
     (\<forall>p. client_process_id W = Some p \<longrightarrow> \<not> pc_open W p \<or> pc_image W p = None)"
  by (auto simp: identify_def client_unknown_def image_path_def split: option.split)

text \<open>
  Failing to name the program fails closed: whichever of the calls fails, no grant covers the request
  and none is charged. What is not refused outright is put to the user.
\<close>

theorem unnamed_program_is_asked:
  assumes "\<forall>p. client_process_id W = Some p \<longrightarrow> \<not> pc_open W p \<or> pc_image W p = None"
    and "begin_access B access (identify W) now b = (b', ph)"
  shows "(\<exists>r. ph = Finished (refused r)) \<or> (\<exists>item. ph = AskUser item)"
proof -
  have "executable (identify W) = None" using assms(1) by (simp add: identify_unnamed)
  from unnamed_redeems_none [OF this] assms(2) show ?thesis
    by (auto simp: begin_access_def Let_def split: if_splits resolution.splits)
qed

text \<open>
  A path of Windows may hold half of a surrogate pair. Read with replacement, paths that differ only
  there become one text, and the broker takes their programs for the same one.
\<close>

theorem broken_paths_name_one_program:
  assumes "client_process_id W = Some p" and "client_process_id W' = Some p'" and "pc_open W p" and "pc_open W' p'"
    and "pc_image W p = Some (us @ [0xD800])" and "pc_image W' p' = Some (us @ [0xD801])"
    and "us = [] \<or> \<not> lead_surrogate (last us)"
  shows "us @ [0xD800] \<noteq> us @ [0xD801 :: u16] \<and> same_program_as (identify W) (identify W')"
proof -
  have tail: "code_points (us @ [u]) = code_points us @ [lone_unit u]"
    if "us = [] \<or> \<not> lead_surrogate (last us)" for us u
    using that
  proof (induction us rule: code_points.induct)
    case (3 u' v us')
    then show ?case by (cases us') (auto split: if_splits)
  qed simp_all
  have "lone_unit 0xD800 = lone_unit 0xD801" by (simp add: lone_unit_def lead_surrogate_def)
  then have "from_utf16_lossy (us @ [0xD800]) = from_utf16_lossy (us @ [0xD801])"
    using tail [OF assms(7)] by (simp add: from_utf16_lossy_def)
  with assms(1-6) show ?thesis
    by (simp add: identify_def image_path_def same_program_as_def eq_ignore_ascii_case_def)
qed

end
