(* ===== verification/Access_Wire.thy ===== *)
theory Access_Wire
  imports Broker Vault_Json
begin

text \<open>
  The JSON of the agent protocol and of the audit records: what the \<open>Serialize\<close> and \<open>Deserialize\<close>
  derivations in \<open>protocol.rs\<close>, \<open>grant.rs\<close> and \<open>audit.rs\<close> of \<open>crates/yara-broker\<close> say, and
  \<open>encode\<close> and \<open>decode\<close>, which add the line to it. An internally tagged enum reads its tag from the
  object that also holds the variant's fields; a flattened field shares the object of its owner.
\<close>

section \<open>Encoders and decoders\<close>

definition tagged :: "string \<Rightarrow> (string \<times> ((string \<times> json) list \<Rightarrow> 'a result)) list \<Rightarrow> (string \<times> json) list \<Rightarrow> 'a result" where
  "tagged tag table kvs =
     and_then (req of_str (vals tag kvs)) (\<lambda>name.
       case map_of table name of None \<Rightarrow> Inl Serde | Some f \<Rightarrow> f kvs)"

fun access_field_json :: "access_field \<Rightarrow> json" where
  "access_field_json Password = JStr ''password''"
| "access_field_json Username = JStr ''username''"
| "access_field_json OneTimeCode = JStr ''totp''"
| "access_field_json (Custom l) = JObj [(''custom'', JStr l)]"

fun of_access_field :: "json \<Rightarrow> access_field result" where
  "of_access_field (JStr s) =
     ok_or Serde (map_of [(''password'', Password), (''username'', Username), (''totp'', OneTimeCode)] s)"
| "of_access_field (JObj [(k, v)]) = (if k = ''custom'' then and_then (of_str v) (\<lambda>l. Inr (Custom l)) else Inl Serde)"
| "of_access_field _ = Inl Serde"

fun intent_fields :: "intent \<Rightarrow> (string \<times> json) list" where
  "intent_fields (Run command args env_var cwd) =
     [(''mode'', JStr ''run''), (''command'', JStr command), (''args'', JArr (map JStr args)),
      (''env_var'', JStr env_var), (''cwd'', nullable JStr cwd)]"
| "intent_fields Reveal = [(''mode'', JStr ''reveal'')]"

definition of_run :: "(string \<times> json) list \<Rightarrow> intent result" where
  "of_run kvs =
     and_then (req of_str (vals ''command'' kvs)) (\<lambda>command.
     and_then (dflt [] (of_arr of_str) (vals ''args'' kvs)) (\<lambda>args.
     and_then (req of_str (vals ''env_var'' kvs)) (\<lambda>env_var.
     and_then (dflt None (of_nullable of_str) (vals ''cwd'' kvs)) (\<lambda>cwd.
       Inr (Run command args env_var cwd)))))"

definition of_intent :: "(string \<times> json) list \<Rightarrow> intent result" where
  "of_intent = tagged ''mode'' [(''run'', of_run), (''reveal'', \<lambda>_. Inr Reveal)]"

definition access_fields :: "access_request \<Rightarrow> (string \<times> json) list" where
  "access_fields a =
     [(''item'', JStr (ar_item a)), (''field'', access_field_json (ar_field a))]
     @ intent_fields (ar_intent a) @ [(''reason'', JStr (ar_reason a))]"

definition of_access :: "(string \<times> json) list \<Rightarrow> access_request result" where
  "of_access kvs =
     and_then (req of_str (vals ''item'' kvs)) (\<lambda>item.
     and_then (req of_access_field (vals ''field'' kvs)) (\<lambda>f.
     and_then (of_intent kvs) (\<lambda>i.
     and_then (req of_str (vals ''reason'' kvs)) (\<lambda>reason.
       Inr \<lparr>ar_item = item, ar_field = f, ar_intent = i, ar_reason = reason\<rparr>))))"

fun request_json :: "request \<Rightarrow> json" where
  "request_json Status = JObj [(''request'', JStr ''status'')]"
| "request_json (ListItems q) = JObj [(''request'', JStr ''list''), (''query'', nullable JStr q)]"
| "request_json (Access a) = JObj ((''request'', JStr ''access'') # access_fields a)"

definition of_request :: "json \<Rightarrow> request result" where
  "of_request v = and_then (of_obj v) (tagged ''request''
     [(''status'', \<lambda>_. Inr Status),
      (''list'', \<lambda>kvs. and_then (dflt None (of_nullable of_str) (vals ''query'' kvs)) (\<lambda>q. Inr (ListItems q))),
      (''access'', \<lambda>kvs. and_then (of_access kvs) (\<lambda>a. Inr (Access a)))])"

definition item_ref_json :: "prims \<Rightarrow> item_ref \<Rightarrow> json" where
  "item_ref_json P r = JObj
     [(''id'', uuid_json P (ref_id r)), (''name'', JStr (ref_name r)), (''username'', nullable JStr (ref_username r)),
      (''has_password'', JBool (ref_has_password r)), (''has_totp'', JBool (ref_has_totp r)),
      (''fields'', JArr (map JStr (ref_fields r)))]"

definition of_item_ref :: "prims \<Rightarrow> json \<Rightarrow> item_ref result" where
  "of_item_ref P v = and_then (of_obj v) (\<lambda>kvs.
     and_then (req (of_uuid P) (vals ''id'' kvs)) (\<lambda>k.
     and_then (req of_str (vals ''name'' kvs)) (\<lambda>name.
     and_then (dflt None (of_nullable of_str) (vals ''username'' kvs)) (\<lambda>user.
     and_then (req of_bool (vals ''has_password'' kvs)) (\<lambda>pw.
     and_then (req of_bool (vals ''has_totp'' kvs)) (\<lambda>totp.
     and_then (dflt [] (of_arr of_str) (vals ''fields'' kvs)) (\<lambda>fields.
       Inr \<lparr>ref_id = k, ref_name = name, ref_username = user, ref_has_password = pw,
            ref_has_totp = totp, ref_fields = fields\<rparr>)))))))"

fun refusal_json :: "refusal \<Rightarrow> json" where
  "refusal_json VaultLocked = JStr ''vault_locked''"
| "refusal_json NoSuchItem = JStr ''item_not_found''"
| "refusal_json FieldEmpty = JStr ''field_empty''"
| "refusal_json Denied = JStr ''denied''"
| "refusal_json TimedOut = JStr ''timed_out''"
| "refusal_json (Ambiguous ms) = JObj [(''ambiguous'', JObj [(''matches'', JArr (map JStr ms))])]"

fun of_refusal :: "json \<Rightarrow> refusal result" where
  "of_refusal (JStr s) = ok_or Serde (map_of [(''vault_locked'', VaultLocked), (''item_not_found'', NoSuchItem),
     (''field_empty'', FieldEmpty), (''denied'', Denied), (''timed_out'', TimedOut)] s)"
| "of_refusal (JObj [(k, v)]) =
     (if k = ''ambiguous''
      then and_then (of_obj v) (\<lambda>kvs. and_then (req (of_arr of_str) (vals ''matches'' kvs)) (\<lambda>ms. Inr (Ambiguous ms)))
      else Inl Serde)"
| "of_refusal _ = Inl Serde"

fun of_i32 :: "json \<Rightarrow> int result" where
  "of_i32 (JNum n) = (if - (2 ^ 31) \<le> n \<and> n < 2 ^ 31 then Inr n else Inl Serde)"
| "of_i32 _ = Inl Serde"

fun response_json :: "prims \<Rightarrow> response \<Rightarrow> json" where
  "response_json P (StatusIs unlocked version) =
     JObj [(''response'', JStr ''status''), (''unlocked'', JBool unlocked), (''version'', JStr version)]"
| "response_json P (Items rs) = JObj [(''response'', JStr ''items''), (''items'', JArr (map (item_ref_json P) rs))]"
| "response_json P (Ran out) =
     JObj [(''response'', JStr ''ran''), (''exit_code'', JNum (exit_code out)), (''stdout'', JStr (stdout out)),
       (''stderr'', JStr (stderr out))]"
| "response_json P (Revealed v) = JObj [(''response'', JStr ''revealed''), (''value'', JStr v)]"
| "response_json P (Refused r m) =
     JObj [(''response'', JStr ''refused''), (''reason'', refusal_json r), (''message'', JStr m)]"
| "response_json P (Failure m) = JObj [(''response'', JStr ''error''), (''message'', JStr m)]"

definition of_ran :: "(string \<times> json) list \<Rightarrow> response result" where
  "of_ran kvs =
     and_then (req of_i32 (vals ''exit_code'' kvs)) (\<lambda>c.
     and_then (req of_str (vals ''stdout'' kvs)) (\<lambda>out.
     and_then (req of_str (vals ''stderr'' kvs)) (\<lambda>err.
       Inr (Ran \<lparr>exit_code = c, stdout = out, stderr = err\<rparr>))))"

definition of_response :: "prims \<Rightarrow> json \<Rightarrow> response result" where
  "of_response P v = and_then (of_obj v) (tagged ''response''
     [(''status'', \<lambda>kvs. and_then (req of_bool (vals ''unlocked'' kvs)) (\<lambda>u.
        and_then (req of_str (vals ''version'' kvs)) (\<lambda>ver. Inr (StatusIs u ver)))),
      (''items'', \<lambda>kvs. and_then (req (of_arr (of_item_ref P)) (vals ''items'' kvs)) (\<lambda>rs. Inr (Items rs))),
      (''ran'', of_ran),
      (''revealed'', \<lambda>kvs. and_then (req of_str (vals ''value'' kvs)) (\<lambda>s. Inr (Revealed s))),
      (''refused'', \<lambda>kvs. and_then (req of_refusal (vals ''reason'' kvs)) (\<lambda>r.
        and_then (req of_str (vals ''message'' kvs)) (\<lambda>m. Inr (Refused r m)))),
      (''error'', \<lambda>kvs. and_then (req of_str (vals ''message'' kvs)) (\<lambda>m. Inr (Failure m)))])"

text \<open>A message is one line: the text of the tree and a line feed. Reading trims the line first.\<close>

definition encode_line :: "prims \<Rightarrow> json \<Rightarrow> string" where
  "encode_line P v = p_json_print P v @ [CHR 0x0A]"

definition decode_line :: "prims \<Rightarrow> (json \<Rightarrow> 'a result) \<Rightarrow> string \<Rightarrow> 'a result" where
  "decode_line P f s = and_then (ok_or Serde (p_json_parse P (trim s))) f"

section \<open>Audit records\<close>

fun action_json :: "action \<Rightarrow> json" where
  "action_json (Listed n) = JObj [(''action'', JStr ''listed''), (''matches'', JNum (int n))]"
| "action_json (RanCommand c v) = JObj [(''action'', JStr ''ran''), (''command'', JStr c), (''env_var'', JStr v)]"
| "action_json RevealedValue = JObj [(''action'', JStr ''revealed'')]"

fun of_usize :: "json \<Rightarrow> nat result" where
  "of_usize (JNum n) = (if 0 \<le> n \<and> n < 2 ^ 64 then Inr (nat n) else Inl Serde)"
| "of_usize _ = Inl Serde"

definition of_action :: "json \<Rightarrow> action result" where
  "of_action v = and_then (of_obj v) (tagged ''action''
     [(''listed'', \<lambda>kvs. and_then (req of_usize (vals ''matches'' kvs)) (\<lambda>n. Inr (Listed n))),
      (''ran'', \<lambda>kvs. and_then (req of_str (vals ''command'' kvs)) (\<lambda>c.
        and_then (req of_str (vals ''env_var'' kvs)) (\<lambda>v. Inr (RanCommand c v)))),
      (''revealed'', \<lambda>_. Inr RevealedValue)])"

fun outcome_json :: "prims \<Rightarrow> outcome \<Rightarrow> json" where
  "outcome_json P (Approved g) = JObj [(''outcome'', JStr ''approved''), (''grant'', nullable (uuid_json P) g)]"
| "outcome_json P (Reused g) = JObj [(''outcome'', JStr ''reused''), (''grant'', uuid_json P g)]"
| "outcome_json P (OutcomeRefused r) = JObj [(''outcome'', JStr ''refused''), (''reason'', refusal_json r)]"
| "outcome_json P (Failed m) = JObj [(''outcome'', JStr ''failed''), (''error'', JStr m)]"

definition of_outcome :: "prims \<Rightarrow> json \<Rightarrow> outcome result" where
  "of_outcome P v = and_then (of_obj v) (tagged ''outcome''
     [(''approved'', \<lambda>kvs. and_then (dflt None (of_nullable (of_uuid P)) (vals ''grant'' kvs)) (\<lambda>g. Inr (Approved g))),
      (''reused'', \<lambda>kvs. and_then (req (of_uuid P) (vals ''grant'' kvs)) (\<lambda>g. Inr (Reused g))),
      (''refused'', \<lambda>kvs. and_then (req of_refusal (vals ''reason'' kvs)) (\<lambda>r. Inr (OutcomeRefused r))),
      (''failed'', \<lambda>kvs. and_then (req of_str (vals ''error'' kvs)) (\<lambda>m. Inr (Failed m)))])"

definition client_json :: "client_id \<Rightarrow> json" where
  "client_json c = JObj [(''pid'', u_json (pid c)), (''executable'', nullable JStr (executable c))]"

definition of_client :: "json \<Rightarrow> client_id result" where
  "of_client v = and_then (of_obj v) (\<lambda>kvs.
     and_then (req of_u (vals ''pid'' kvs)) (\<lambda>p.
     and_then (dflt None (of_nullable of_str) (vals ''executable'' kvs)) (\<lambda>x.
       Inr \<lparr>pid = p, executable = x\<rparr>)))"

definition entry_json :: "prims \<Rightarrow> entry \<Rightarrow> json" where
  "entry_json P e = JObj
     ([(''id'', uuid_json P (e_id e)), (''at'', u_json (e_at e)), (''client'', client_json (e_client e)),
       (''item'', JStr (e_item e))]
      @ skip_none ''field'' access_field_json (e_field e)
      @ [(''action'', action_json (e_action e)), (''outcome'', outcome_json P (e_outcome e)),
         (''reason'', JStr (e_reason e))]
      @ skip_none ''query'' JStr (e_query e))"

definition of_entry :: "prims \<Rightarrow> json \<Rightarrow> entry result" where
  "of_entry P v = and_then (of_obj v) (\<lambda>kvs.
     and_then (req (of_uuid P) (vals ''id'' kvs)) (\<lambda>k.
     and_then (req of_u (vals ''at'' kvs)) (\<lambda>at.
     and_then (req of_client (vals ''client'' kvs)) (\<lambda>c.
     and_then (req of_str (vals ''item'' kvs)) (\<lambda>item.
     and_then (dflt None (of_nullable of_access_field) (vals ''field'' kvs)) (\<lambda>f.
     and_then (req of_action (vals ''action'' kvs)) (\<lambda>a.
     and_then (req (of_outcome P) (vals ''outcome'' kvs)) (\<lambda>oc.
     and_then (req of_str (vals ''reason'' kvs)) (\<lambda>reason.
     and_then (dflt None (of_nullable of_str) (vals ''query'' kvs)) (\<lambda>q.
       Inr \<lparr>e_id = k, e_at = at, e_client = c, e_item = item, e_field = f, e_action = a,
            e_outcome = oc, e_reason = reason, e_query = q\<rparr>))))))))))"

section \<open>Round trips\<close>

lemma access_field_rt [json_rt]: "of_access_field (access_field_json f) = Inr f"
  by (cases f) simp_all

lemma refusal_rt [json_rt]: "of_refusal (refusal_json r) = Inr r"
  by (cases r) (simp_all add: map_result_map)

lemma access_not_null [simp]: "access_field_json f \<noteq> JNull"
  by (cases f) simp_all

lemma of_access_fields:
  "of_access ((''request'', v) # access_fields a) = Inr a"
  by (cases "ar_intent a")
    (simp_all add: of_access_def access_fields_def of_intent_def tagged_def of_run_def json_rt map_result_map
      of_nullable_nullable)

lemma vals_access_request: "vals ''request'' (access_fields a) = []"
  by (cases "ar_intent a") (simp_all add: access_fields_def)

lemma request_rt: "of_request (request_json r) = Inr r"
  by (cases r) (simp_all add: of_request_def tagged_def vals_access_request of_access_fields of_nullable_nullable)

lemma item_ref_rt [json_rt]: "uuid_faithful P \<Longrightarrow> of_item_ref P (item_ref_json P r) = Inr r"
  by (simp add: of_item_ref_def item_ref_json_def json_rt map_result_map of_nullable_nullable)

definition exit_code_fits :: "response \<Rightarrow> bool" where
  "exit_code_fits r = (case r of Ran out \<Rightarrow> - (2 ^ 31) \<le> exit_code out \<and> exit_code out < 2 ^ 31 | _ \<Rightarrow> True)"

lemma response_rt: "uuid_faithful P \<Longrightarrow> exit_code_fits r \<Longrightarrow> of_response P (response_json P r) = Inr r"
  by (cases r) (simp_all add: of_response_def tagged_def of_ran_def json_rt map_result_map exit_code_fits_def)

lemma client_rt [json_rt]: "of_client (client_json c) = Inr c"
  by (simp add: of_client_def client_json_def json_rt of_nullable_nullable)

lemma outcome_rt [json_rt]: "uuid_faithful P \<Longrightarrow> of_outcome P (outcome_json P oc) = Inr oc"
  by (cases oc) (simp_all add: of_outcome_def tagged_def json_rt of_nullable_nullable)

definition counted :: "entry \<Rightarrow> bool" where
  "counted e = (case e_action e of Listed n \<Rightarrow> n < 2 ^ 64 | _ \<Rightarrow> True)"

lemma entry_rt: 
  assumes "uuid_faithful P" and "counted e"
  shows "of_entry P (entry_json P e) = Inr e"
proof -
  have "of_action (action_json (e_action e)) = Inr (e_action e)"
    using assms(2) by (cases "e_action e") (simp_all add: of_action_def tagged_def counted_def)
  with assms(1) show ?thesis by (simp add: of_entry_def entry_json_def json_rt of_skip_none)
qed

lemma trim_end_line:
  assumes "is_ascii d" and "\<not> is_whitespace [d]"
  shows "trim [d, CHR 0x0A] = [d]"
proof -
  have "is_ascii (CHR 0x0A)" "is_whitespace [CHR 0x0A]" by (simp_all add: is_ascii_def is_whitespace_ascii)
  with assms show ?thesis by (simp add: trim_def trim_chars_def utf8_width_ascii)
qed

text \<open>A printed tree has no white space around it.\<close>

definition one_line :: "prims \<Rightarrow> json \<Rightarrow> bool" where
  "one_line P v \<longleftrightarrow> trim (p_json_print P v @ [CHR 0x0A]) = p_json_print P v"

text \<open>
  C37: every request and every response arrives as it was sent: the line one side encodes, the other
  decodes to the same message, whatever the item, field, command, arguments or refusal in it.
\<close>

theorem protocol_roundtrip:
  assumes "uuid_faithful P" and "exit_code_fits r"
    and "json_faithful P (request_json q)" and "json_faithful P (response_json P r)"
    and "one_line P (request_json q)" and "one_line P (response_json P r)"
  shows "decode_line P of_request (encode_line P (request_json q)) = Inr q \<and>
    decode_line P (of_response P) (encode_line P (response_json P r)) = Inr r"
  using assms request_rt [of q] response_rt [of P r]
  by (simp add: decode_line_def encode_line_def json_faithful_def one_line_def)

theorem protocol_roundtrip_witness:
  "\<exists>P. decode_line P of_request (encode_line P (request_json Status)) = Inr Status"
proof -
  let ?r = "Failure ''no''"
  define P where "P = sample_prims (request_json Status) (response_json (sample_prims JNull JNull) ?r)"
  have "trim [CHR ''1'', CHR 0x0A] = ''1''" "trim [CHR ''2'', CHR 0x0A] = ''2''"
    by (rule trim_end_line; simp add: is_ascii_def is_whitespace_ascii)+
  then have one: "one_line P v" for v
    by (simp add: one_line_def P_def sample_prims_def)
  show ?thesis
    using protocol_roundtrip [of P ?r Status] sample_prims_ok one
    by (intro exI [of _ P]) (simp add: P_def exit_code_fits_def)
qed

end
