(* ===== verification/Listener.thy ===== *)
theory Listener
  imports Access_Wire
begin

text \<open>
  Listening for agents (the second half of \<open>crates/yara-broker/src/transport.rs\<close>): the accept loop
  with its retries, and one connection's loop over its lines. The pipe is a parameter: what each
  attempt to create an instance and each wait for a client comes to. Waits are milliseconds, and what
  the code writes to standard error is not kept.
\<close>

section \<open>Retrying\<close>

datatype io_kind = PermissionDenied | BrokenPipe | UnexpectedEof | ConnectionAborted | ConnectionReset | OtherKind

record io_error =
  ioe_kind :: io_kind
  ioe_text :: string

datatype serve_error =
    AlreadyRunning
  | Unavailable io_error
  | LostPipe u32 io_error
  | Unstable u32 io_error

definition CREATE_ATTEMPTS :: u32 where "CREATE_ATTEMPTS = 8"
definition ACCEPT_FAILURES :: u32 where "ACCEPT_FAILURES = 16"
definition BACKOFF_START_MS :: u64 where "BACKOFF_START_MS = 20"
definition BACKOFF_CAP :: u64 where "BACKOFF_CAP = 2000"

definition sat_mul :: "u64 \<Rightarrow> u64 \<Rightarrow> u64" where
  "sat_mul a b = (if unat a * unat b < 2 ^ 64 then a * b else - 1)"

definition backoff :: "u32 \<Rightarrow> u64" where
  "backoff attempt =
     (let doublings = min (sat_sub attempt 1) 16
      in min (sat_mul BACKOFF_START_MS (push_bit (unat doublings) 1)) BACKOFF_CAP)"

definition is_hangup :: "io_error \<Rightarrow> bool" where
  "is_hangup e \<longleftrightarrow> ioe_kind e \<in> {BrokenPipe, UnexpectedEof, ConnectionAborted, ConnectionReset}"

text \<open>\<open>create n\<close> is what the \<open>n\<close>-th attempt to open another instance comes to. Also returned: the waits made.\<close>

function listen_loop :: "(u32 \<Rightarrow> io_error + 'p) \<Rightarrow> u32 \<Rightarrow> u64 list \<Rightarrow> (serve_error + 'p) \<times> u64 list" where
  "listen_loop create attempt waits =
     (case create attempt of
        Inr server \<Rightarrow> (Inr server, waits)
      | Inl e \<Rightarrow>
          if attempt \<ge> CREATE_ATTEMPTS then (Inl (LostPipe attempt e), waits)
          else listen_loop create (attempt + 1) (waits @ [backoff attempt]))"
  by pat_completeness auto

lemma unat_next: "a < (b :: u32) \<Longrightarrow> unat (a + 1) = Suc (unat a)"
proof -
  assume "a < b"
  then have "unat a < unat b" by (simp add: word_less_nat_alt)
  moreover have "unat b < 2 ^ LENGTH(32)" by (rule unsigned_less)
  ultimately have "unat a + unat (1 :: u32) < 2 ^ LENGTH(32)" by simp
  then show ?thesis by (simp add: unat_add_lem [THEN iffD1])
qed

termination listen_loop
  by (relation "measure (\<lambda>(_, attempt, _). 8 - unat attempt)")
    (auto simp: CREATE_ATTEMPTS_def unat_next [of _ 8] not_le word_less_nat_alt)

definition listen_again :: "(u32 \<Rightarrow> io_error + 'p) \<Rightarrow> (serve_error + 'p) \<times> u64 list" where
  "listen_again create = listen_loop create 1 []"

section \<open>The accept loop\<close>

text \<open>
  \<open>Serving server failures handed\<close>: the instance being waited on, the failures in a row, and the
  connections handed off, each still open at its own end.
\<close>

datatype 'p serving = Serving 'p u32 "'p list" | Stopped serve_error

definition serve_start :: "io_error + 'p \<Rightarrow> 'p serving" where
  "serve_start first =
     (case first of
        Inr server \<Rightarrow> Serving server 0 []
      | Inl e \<Rightarrow> if ioe_kind e = PermissionDenied then Stopped AlreadyRunning else Stopped (Unavailable e))"

text \<open>One turn: what waiting for a client came to, and what the attempts to open the next instance come to.\<close>

definition serve_turn :: "io_error option \<Rightarrow> (u32 \<Rightarrow> io_error + 'p) \<Rightarrow> 'p serving \<Rightarrow> 'p serving" where
  "serve_turn connect create s =
     (case s of
        Stopped e \<Rightarrow> Stopped e
      | Serving server failures handed \<Rightarrow>
          (case connect of
             Some e \<Rightarrow>
               let failures' = failures + 1 in
               if failures' \<ge> ACCEPT_FAILURES then Stopped (Unstable failures' e)
               else (case fst (listen_again create) of
                       Inr server' \<Rightarrow> Serving server' failures' handed
                     | Inl err \<Rightarrow> Stopped err)
           | None \<Rightarrow>
               (case fst (listen_again create) of
                  Inr server' \<Rightarrow> Serving server' 0 (handed @ [server])
                | Inl err \<Rightarrow> Stopped err)))"

fun serve_run :: "(io_error option \<times> (u32 \<Rightarrow> io_error + 'p)) list \<Rightarrow> 'p serving \<Rightarrow> 'p serving" where
  "serve_run [] s = s"
| "serve_run ((connect, create) # turns) s = serve_run turns (serve_turn connect create s)"

section \<open>One connection\<close>

text \<open>What the rest of the system does around one request: the arguments of the handler, what the JSON parser says of a line it rejects, and whether the answer could be written.\<close>

record 'v request_context =
  rc_now :: u64
  rc_answer :: answer
  rc_grant :: uuid
  rc_entry :: uuid
  rc_at :: u64
  rc_asking :: "'v broker \<Rightarrow> 'v broker"
  rc_running :: "'v broker \<Rightarrow> 'v broker"
  rc_parse_error :: string
  rc_write :: "io_error option"

definition serve_line ::
    "'v bridge \<Rightarrow> process_env \<Rightarrow> string \<Rightarrow> prims \<Rightarrow> client_id \<Rightarrow> string \<Rightarrow> 'v request_context \<Rightarrow> 'v broker \<Rightarrow>
       'v broker \<times> response" where
  "serve_line B E version P client s c b =
     (case decode_line P of_request s of
        Inr q \<Rightarrow> handle B E version q client (rc_now c) (rc_answer c) (rc_grant c) (rc_entry c) (rc_at c)
           (rc_asking c) (rc_running c) b
      | Inl _ \<Rightarrow> (b, Failure (''could not understand that request: '' @ rc_parse_error c)))"

fun serve_connection ::
    "'v bridge \<Rightarrow> process_env \<Rightarrow> string \<Rightarrow> prims \<Rightarrow> client_id \<Rightarrow> (string \<times> 'v request_context) list \<Rightarrow>
       'v broker \<Rightarrow> string list \<Rightarrow> 'v broker \<times> string list \<times> io_error option" where
  "serve_connection B E version P client [] b sent = (b, sent, None)"
| "serve_connection B E version P client ((s, c) # rest) b sent =
     (if trim s = [] then serve_connection B E version P client rest b sent
      else case serve_line B E version P client s c b of
        (b', r) \<Rightarrow>
          (case rc_write c of
             Some e \<Rightarrow> (b', sent, Some e)
           | None \<Rightarrow> serve_connection B E version P client rest b' (sent @ [encode_line P (response_json P r)])))"

section \<open>The retries end\<close>

declare listen_loop.simps [simp del]

lemma listen_loop_found: "create n = Inr p \<Longrightarrow> listen_loop create n ws = (Inr p, ws)"
  by (subst listen_loop.simps) simp

lemma listen_loop_again:
  "create n = Inl e \<Longrightarrow> n < 8 \<Longrightarrow> listen_loop create n ws = listen_loop create (n + 1) (ws @ [backoff n])"
  by (subst listen_loop.simps) (auto simp: CREATE_ATTEMPTS_def dest: leD)

lemma listen_loop_lost: "create 8 = Inl e \<Longrightarrow> listen_loop create 8 ws = (Inl (LostPipe 8 e), ws)"
  by (subst listen_loop.simps) (simp add: CREATE_ATTEMPTS_def)

lemma backoff_values:
  "backoff 1 = 20" "backoff 2 = 40" "backoff 3 = 80" "backoff 4 = 160" "backoff 5 = 320" "backoff 6 = 640" "backoff 7 = 1280"
  by (simp_all add: backoff_def sat_sub_def sat_mul_def BACKOFF_START_MS_def BACKOFF_CAP_def)

definition ATTEMPTS :: "u32 list" where "ATTEMPTS = [1, 2, 3, 4, 5, 6, 7, 8]"

text \<open>The loop over the attempts, as a search.\<close>

lemma listen_again_search:
  "listen_again create =
     (case find (\<lambda>n. \<not> isl (create n)) ATTEMPTS of
        Some n \<Rightarrow> (Inr (projr (create n)), map backoff (takeWhile (\<lambda>m. m \<noteq> n) ATTEMPTS))
      | None \<Rightarrow> (Inl (LostPipe 8 (projl (create 8))), map backoff (butlast ATTEMPTS)))"
proof -
  have step: "listen_loop create n ws =
      (if isl (create n) then listen_loop create (n + 1) (ws @ [backoff n]) else (Inr (projr (create n)), ws))"
    if "n < 8" for n ws
    using that by (cases "create n") (simp_all add: listen_loop_found listen_loop_again)
  have last: "listen_loop create 8 ws =
      (if isl (create 8) then (Inl (LostPipe 8 (projl (create 8))), ws) else (Inr (projr (create 8)), ws))" for ws
    by (cases "create 8") (simp_all add: listen_loop_found listen_loop_lost)
  show ?thesis by (simp add: listen_again_def step last ATTEMPTS_def)
qed

text \<open>
  C39: putting the listener back always ends: within eight attempts either the first one that succeeds
  is used or the pipe is reported lost with the last error, and the waits between the attempts come
  to at most 2.54 seconds.
\<close>

theorem listen_again_ends:
  "fst (listen_again create) =
     (case find (\<lambda>n. \<not> isl (create n)) ATTEMPTS of
        Some n \<Rightarrow> Inr (projr (create n)) | None \<Rightarrow> Inl (LostPipe 8 (projl (create 8)))) \<and>
   (\<Sum>w \<leftarrow> snd (listen_again create). unat w) \<le> 2540"
proof -
  have "(\<Sum>w \<leftarrow> map backoff (takeWhile (\<lambda>m. m \<noteq> n) ATTEMPTS). unat w) \<le> 2540" if "n \<in> set ATTEMPTS" for n
    using that by (auto simp: ATTEMPTS_def backoff_values)
  moreover have "(\<Sum>w \<leftarrow> map backoff (butlast ATTEMPTS). unat w) \<le> 2540"
    by (simp add: ATTEMPTS_def backoff_values)
  ultimately show ?thesis
    by (auto simp: listen_again_search split: option.split dest: find_Some_set)
qed

section \<open>What ends the accept loop\<close>

definition can_listen :: "(u32 \<Rightarrow> io_error + 'p) \<Rightarrow> bool" where
  "can_listen create \<longleftrightarrow> list_ex (\<lambda>n. \<not> isl (create n)) ATTEMPTS"

lemma can_listen_again: "can_listen create \<Longrightarrow> \<exists>p. fst (listen_again create) = Inr p"
  by (auto simp: can_listen_def listen_again_search find_None_iff list_ex_iff split: option.split)

lemma serve_run_stopped [simp]: "serve_run turns (Stopped e) = Stopped e"
  by (induction turns) (auto simp: serve_turn_def)

lemma one_more_failure:
  fixes n :: u32
  assumes "n < 16" and "fst t \<noteq> None" and "turns = before @ failing @ after" and "list_all (\<lambda>t. fst t \<noteq> None) failing"
    and "length failing = 16 \<or> before = [] \<and> length failing + unat (n + 1) = 16"
  shows "\<exists>before failing after. t # turns = before @ failing @ after \<and> list_all (\<lambda>t. fst t \<noteq> None) failing \<and>
    (length failing = 16 \<or> before = [] \<and> length failing + unat n = 16)"
  using assms(5)
proof
  assume "length failing = 16"
  with assms show ?thesis by (intro exI [of _ "t # before"] exI [of _ failing] exI [of _ after]) auto
next
  assume "before = [] \<and> length failing + unat (n + 1) = 16"
  with assms unat_next [OF assms(1)] show ?thesis by (intro exI [of _ "[]"] exI [of _ "t # failing"] exI [of _ after]) auto
qed

lemma serve_run_stops:
  assumes "serve_run turns (Serving p n h) = Stopped e" and "list_all (\<lambda>t. can_listen (snd t)) turns" and "n < 16"
  shows "\<exists>before failing after. turns = before @ failing @ after \<and> list_all (\<lambda>t. fst t \<noteq> None) failing \<and>
    (length failing = 16 \<or> before = [] \<and> length failing + unat n = 16) \<and> (\<exists>err. e = Unstable 16 err)"
  using assms
proof (induction turns arbitrary: p n h)
  case Nil
  then show ?case by simp
next
  case (Cons t turns)
  obtain c cr where t: "t = (c, cr)" by fastforce
  with Cons.prems(2) obtain p' where l: "fst (listen_again cr) = Inr p'"
    using can_listen_again by fastforce
  have rest: "list_all (\<lambda>t. can_listen (snd t)) turns" using Cons.prems(2) by simp
  show ?case
  proof (cases c)
    case None
    then have "serve_run turns (Serving p' 0 (h @ [p])) = Stopped e"
      using Cons.prems(1) t l by (simp add: serve_turn_def)
    from Cons.IH [OF this rest] obtain before failing after where
      "turns = before @ failing @ after" "list_all (\<lambda>t. fst t \<noteq> None) failing" "length failing = 16"
      "\<exists>err. e = Unstable 16 err" by auto
    then show ?thesis by (intro exI [of _ "t # before"] exI [of _ failing] exI [of _ after]) auto
  next
    case (Some err)
    show ?thesis
    proof (cases "n + 1 \<ge> 16")
      case True
      then have "16 \<le> unat (n + 1)" by (simp add: word_le_nat_alt)
      moreover have "unat n < 16" using Cons.prems(3) by (simp add: word_less_nat_alt)
      ultimately have n15: "unat n = 15" using unat_next [OF Cons.prems(3)] by linarith
      then have n: "n = 15" by (simp add: word_unat_eq_iff)
      with Cons.prems(1) t Some True show ?thesis
        by (intro exI [of _ "[]"] exI [of _ "[t]"] exI [of _ turns])
          (auto simp: serve_turn_def ACCEPT_FAILURES_def)
    next
      case False
      then have less: "n + 1 < 16" by simp
      have "serve_run turns (Serving p' (n + 1) h) = Stopped e"
        using Cons.prems(1) t l Some False by (simp add: serve_turn_def ACCEPT_FAILURES_def)
      from Cons.IH [OF this rest less] obtain before failing after where ih:
        "turns = before @ failing @ after" "list_all (\<lambda>t. fst t \<noteq> None) failing"
        "length failing = 16 \<or> before = [] \<and> length failing + unat (n + 1) = 16" "\<exists>err. e = Unstable 16 err" by auto
      with one_more_failure [OF Cons.prems(3), of t] t Some show ?thesis by auto
    qed
  qed
qed

text \<open>
  C38: as long as some attempt to reopen the pipe succeeds, nothing but sixteen failed connections in
  a row ends the accept loop: single failures, however many, never do.
\<close>

theorem accept_loop_survives:
  assumes "serve_run turns (Serving p 0 []) = Stopped e" and "list_all (\<lambda>t. can_listen (snd t)) turns"
  shows "\<exists>before failing after. turns = before @ failing @ after \<and> length failing = 16 \<and>
    list_all (\<lambda>t. fst t \<noteq> None) failing \<and> (\<exists>err. e = Unstable 16 err)"
  using serve_run_stops [OF assms] by auto

definition sample_error :: io_error where
  "sample_error = \<lparr>ioe_kind = OtherKind, ioe_text = []\<rparr>"

theorem accept_loop_survives_witness:
  "\<exists>err. serve_run (replicate 16 (Some sample_error, \<lambda>_. Inr True)) (Serving False 0 []) = Stopped (Unstable 16 err)"
proof -
  have l: "fst (listen_again (\<lambda>_. Inr True)) = Inr True"
    by (simp add: listen_again_search ATTEMPTS_def)
  have sixteen: "replicate 16 x = [x, x, x, x, x, x, x, x, x, x, x, x, x, x, x, x]" for x :: 'x
    by (simp add: numeral_eq_Suc)
  obtain e where e: "serve_run (replicate 16 (Some sample_error, \<lambda>_. Inr True)) (Serving False 0 []) = Stopped e"
    by (simp add: sixteen l serve_turn_def ACCEPT_FAILURES_def word_le_nat_alt)
  have "can_listen (\<lambda>_. Inr True)" by (simp add: can_listen_def ATTEMPTS_def)
  then have "list_all (\<lambda>t. can_listen (snd t)) (replicate 16 (Some sample_error, \<lambda>_. Inr True))"
    by (simp add: list_all_iff)
  from accept_loop_survives [OF e this] e show ?thesis by auto
qed

section \<open>A whole connection\<close>

lemma reachable_finish: "broker_reachable B b \<Longrightarrow> broker_reachable B (finish_access B access client item allowed r e at b)"
  by (erule br_step) (rule bs_finish)

lemma handle_access_reachable:
  assumes "broker_reachable B b" and h: "handle_access B E access client now a g e at m1 m2 b = (b', r)"
    and m: "\<And>b. broker_reachable B b \<Longrightarrow> broker_reachable B (m1 b) \<and> broker_reachable B (m2 b)"
  shows "broker_reachable B b'"
proof -
  obtain b1 ph where s: "begin_access B access client now b = (b1, ph)" by fastforce
  have b1: "broker_reachable B b1" using assms(1) bs_begin [OF s] by (rule br_step)
  show ?thesis
  proof (cases ph)
    case (Finished q)
    with h s b1 show ?thesis by (auto simp: handle_access_def)
  next
    case (Proceed item oc)
    with h s b1 m show ?thesis by (auto simp: handle_access_def Let_def intro!: reachable_finish)
  next
    case (AskUser item)
    obtain b2 x where c: "conclude_approval access item client now g a (m1 b1) = (b2, x)" by fastforce
    have "broker_reachable B b2" using m [OF b1] bs_conclude [OF c] by (blast intro: br_step)
    with h s c AskUser m show ?thesis
      by (auto simp: handle_access_def Let_def split: sum.splits intro!: reachable_finish br_step [OF _ bs_refuse])
  qed
qed

lemma handle_reachable:
  assumes "broker_reachable B b" and "handle B E version q client now a g e at m1 m2 b = (b', r)"
    and "\<And>b. broker_reachable B b \<Longrightarrow> broker_reachable B (m1 b) \<and> broker_reachable B (m2 b)"
  shows "broker_reachable B b'"
proof (cases q)
  case Status
  with assms(1,2) show ?thesis by (simp add: handle_def)
next
  case (ListItems query)
  with assms(2) have "handle_list B query client e at b = (b', r)" by (simp add: handle_def)
  with assms(1) show ?thesis by (blast intro: br_step bs_list)
next
  case (Access access)
  with assms(2) have "handle_access B E access client now a g e at m1 m2 b = (b', r)" by (simp add: handle_def)
  from handle_access_reachable [OF assms(1) this assms(3)] show ?thesis by blast
qed

definition keeps_reachable :: "'v bridge \<Rightarrow> 'v request_context \<Rightarrow> bool" where
  "keeps_reachable B c \<longleftrightarrow> (\<forall>b. broker_reachable B b \<longrightarrow>
     broker_reachable B (rc_asking c b) \<and> broker_reachable B (rc_running c b))"

lemma serve_line_reachable:
  "broker_reachable B b \<Longrightarrow> keeps_reachable B c \<Longrightarrow> serve_line B E version P client s c b = (b', r) \<Longrightarrow>
    broker_reachable B b'"
  by (auto simp: serve_line_def keeps_reachable_def split: sum.splits dest: handle_reachable)

text \<open>
  Serving a connection keeps the broker within its reachable states, whatever lines arrive, in
  particular malformed ones; and every line that is not blank is answered by exactly one line, in
  order, until the client goes away.
\<close>

theorem connection_served:
  assumes "broker_reachable B b" and "\<forall>(s, c) \<in> set lines. keeps_reachable B c"
    and "serve_connection B E version P client lines b sent = (b', sent', err)"
  shows "broker_reachable B b' \<and>
    (err = None \<longrightarrow> length sent' = length sent + length (filter (\<lambda>(s, c). trim s \<noteq> []) lines)) \<and>
    (\<exists>more. sent' = sent @ more)"
  using assms
proof (induction lines arbitrary: b sent)
  case (Cons l lines)
  obtain s c where l: "l = (s, c)" by fastforce
  obtain b1 r where sl: "serve_line B E version P client s c b = (b1, r)" by fastforce
  have "broker_reachable B b1"
    using serve_line_reachable [OF Cons.prems(1) _ sl] Cons.prems(2) l by auto
  with Cons l sl show ?case
    by (cases "trim s = []"; cases "rc_write c") (fastforce split: if_splits)+
qed auto

definition sample_context :: "bool request_context" where
  "sample_context = \<lparr>rc_now = 100, rc_answer = NoAnswer, rc_grant = 9, rc_entry = 10, rc_at = 101,
     rc_asking = id, rc_running = id, rc_parse_error = [], rc_write = None\<rparr>"

theorem connection_served_witness:
  "broker_reachable sample_bridge
     (fst (serve_connection sample_bridge sample_process [] (sample_prims (request_json Status) JNull) sample_client
        [(''1'', sample_context), ([], sample_context)] (broker_new True) []))"
proof -
  let ?s = "serve_connection sample_bridge sample_process [] (sample_prims (request_json Status) JNull) sample_client
        [(''1'', sample_context), ([], sample_context)] (broker_new True) []"
  obtain b' sent' err where s: "?s = (b', sent', err)" by (cases ?s) auto
  have "keeps_reachable sample_bridge sample_context" by (simp add: keeps_reachable_def sample_context_def)
  with connection_served [OF br_new _ s] s show ?thesis by simp
qed

end
