(* ===== verification/Mcp_Server.thy ===== *)
theory Mcp_Server
  imports Listener
begin

text \<open>
  The server agents speak to (\<open>crates/yara-mcp\<close>): JSON-RPC messages become requests to the broker, and its
  answers become the text an agent reads. The link to the broker is an argument of the definitions.
\<close>

section \<open>Messages (\<open>rpc.rs\<close>)\<close>

record incoming =
  in_id :: "json option"
  in_method :: string
  in_params :: "json option"

definition of_incoming :: "json \<Rightarrow> incoming result" where
  "of_incoming v = and_then (of_obj v) (\<lambda>kvs.
     and_then (dflt None (of_nullable Inr) (vals ''id'' kvs)) (\<lambda>i.
     and_then (req of_str (vals ''method'' kvs)) (\<lambda>m.
     and_then (dflt None (of_nullable Inr) (vals ''params'' kvs)) (\<lambda>p.
       Inr \<lparr>in_id = i, in_method = m, in_params = p\<rparr>))))"

definition is_notification :: "incoming \<Rightarrow> bool" where
  "is_notification m \<longleftrightarrow> in_id m = None"

record rpc_error =
  re_code :: int
  re_message :: string

record outgoing_reply =
  out_id :: json
  out_result :: "json option"
  out_error :: "rpc_error option"

definition PARSE_ERROR :: int where "PARSE_ERROR = - 32700"
definition METHOD_NOT_FOUND :: int where "METHOD_NOT_FOUND = - 32601"
definition INVALID_PARAMS :: int where "INVALID_PARAMS = - 32602"

definition reply_result :: "json \<Rightarrow> json \<Rightarrow> outgoing_reply" where
  "reply_result i r = \<lparr>out_id = i, out_result = Some r, out_error = None\<rparr>"

definition reply_error :: "json \<Rightarrow> int \<Rightarrow> string \<Rightarrow> outgoing_reply" where
  "reply_error i c m = \<lparr>out_id = i, out_result = None, out_error = Some \<lparr>re_code = c, re_message = m\<rparr>\<rparr>"

definition reply_json :: "outgoing_reply \<Rightarrow> json" where
  "reply_json r = JObj ([(''jsonrpc'', JStr ''2.0''), (''id'', out_id r)]
     @ skip_none ''result'' id (out_result r)
     @ skip_none ''error'' (\<lambda>e. JObj [(''code'', JNum (re_code e)), (''message'', JStr (re_message e))]) (out_error r))"

section \<open>Tools (\<open>server.rs\<close>)\<close>

definition text_member :: "string \<Rightarrow> json \<Rightarrow> string option" where
  "text_member k v = Option.bind (json_get k v) as_str"

definition SUPPORTED_VERSIONS :: "string list" where
  "SUPPORTED_VERSIONS = [''2025-06-18'', ''2025-03-26'', ''2024-11-05'']"

text \<open>What the build and the formatting of other crates supply.\<close>

record mcp_env =
  me_version :: string
  me_debug :: "string \<Rightarrow> string"
  me_parse_error :: "string \<Rightarrow> string"

definition mcp_initialize :: "mcp_env \<Rightarrow> json \<Rightarrow> json" where
  "mcp_initialize M params =
     (let requested = (case text_member ''protocolVersion'' params of Some v \<Rightarrow> v | None \<Rightarrow> []);
          version = (if requested \<in> set SUPPORTED_VERSIONS then requested else SUPPORTED_VERSIONS ! 0)
      in JObj [(''protocolVersion'', JStr version), (''capabilities'', JObj [(''tools'', JObj [])]),
           (''serverInfo'', JObj [(''name'', JStr ''yara''), (''version'', JStr (me_version M))]),
           (''instructions'', JStr (''Credentials from the user's yara vault. Prefer yara_run_with_credential, which uses a secret without ever disclosing it to you. Every request is approved by the vault owner in the yara window and written to an audit log.''))])"

definition EM_DASH :: string where "EM_DASH = b3 226 128 148"

definition text_property :: "string \<Rightarrow> string \<Rightarrow> string \<times> json" where
  "text_property k description = (k, JObj [(''type'', JStr ''string''), (''description'', JStr description)])"

definition tool_json :: "string \<Rightarrow> string \<Rightarrow> (string \<times> json) list \<Rightarrow> string list \<Rightarrow> json" where
  "tool_json name description properties required =
     JObj [(''name'', JStr name), (''description'', JStr description),
       (''inputSchema'', JObj ([(''type'', JStr ''object''), (''properties'', JObj properties)]
          @ (if required = [] then [] else [(''required'', JArr (map JStr required))])))]"

definition tools :: "json list" where
  "tools = [
  tool_json ''yara_list_items''
    (''List the credentials stored in the user's yara vault. Returns names, usernames, ids, and the labels of any custom fields '' @ EM_DASH @ '' never secret values. This needs no approval, so use it first to find out what exists before requesting access to anything.'')
    [text_property ''query'' ''Filter by name, username, or address.'']
    [],
  tool_json ''yara_run_with_credential''
    ''Run a command with a credential from the vault placed in its environment. This is the preferred way to use a credential: yara runs the command itself and returns only the exit code and output, so the secret never enters this conversation and cannot leak through it. The vault owner is shown the exact command and your stated reason, and must approve.''
    [text_property ''item'' ''Item name or id, as returned by yara_list_items.'',
     text_property ''field'' ''Which field to use: password, username, totp, or the exact label of a custom field as listed by yara_list_items. Labels are matched exactly, including case. Defaults to password.'',
     text_property ''env_var'' ''Environment variable to place the credential in, for example DATABASE_URL.'',
     text_property ''command'' ''Program to run.'',
     (''args'', JObj [(''type'', JStr ''array''), (''items'', JObj [(''type'', JStr ''string'')]), (''description'', JStr ''Arguments to the program.'')]),
     text_property ''cwd'' ''Working directory for the command.'',
     text_property ''reason'' (''Why you need this, in one sentence. Shown to the vault owner verbatim '' @ EM_DASH @ '' write it for them, not for a log.'')]
    [''item'', ''env_var'', ''command'', ''reason''],
  tool_json ''yara_reveal_credential''
    (''Return a credential in plaintext. Last resort '' @ EM_DASH @ '' prefer yara_run_with_credential, which accomplishes most tasks without disclosing the value. Anything returned here enters this conversation permanently and cannot be taken back. The vault owner must approve every single disclosure; a standing approval is never granted for this.'')
    [text_property ''item'' ''Item name or id, as returned by yara_list_items.'',
     text_property ''field'' ''Which field to reveal: password, username, totp, or the exact label of a custom field as listed by yara_list_items. Labels are matched exactly, including case. Defaults to password.'',
     text_property ''reason'' ''Why nothing short of the plaintext will do. Shown to the vault owner verbatim.'']
    [''item'', ''reason''],
  tool_json ''yara_status''
    ''Check whether yara is running and the vault is unlocked. Use this when another yara tool cannot reach the vault.''
    []
    []]"

definition required_str :: "json \<Rightarrow> string \<Rightarrow> string + string" where
  "required_str args key =
     (case text_member key args of
        Some s \<Rightarrow> if trim s = [] then Inl (key @ '' is required'') else Inr s
      | None \<Rightarrow> Inl (key @ '' is required''))"

definition field_from :: "json \<Rightarrow> string + access_field" where
  "field_from args =
     (let f = (case text_member ''field'' args of Some s \<Rightarrow> s | None \<Rightarrow> ''password'')
      in if f = ''password'' then Inr Password
         else if f = ''username'' then Inr Username
         else if f = ''totp'' then Inr OneTimeCode
         else if f = [] then Inl ''field cannot be empty''
         else Inr (Custom f))"

definition strings_of :: "json option \<Rightarrow> string list" where
  "strings_of v = (case v of Some (JArr vs) \<Rightarrow> List.map_filter as_str vs | _ \<Rightarrow> [])"

definition tool_arguments :: "json \<Rightarrow> json" where
  "tool_arguments params = (case json_get ''arguments'' params of Some v \<Rightarrow> v | None \<Rightarrow> JObj [])"

definition run_request :: "json \<Rightarrow> string + request" where
  "run_request args =
     and_then (required_str args ''item'') (\<lambda>item.
     and_then (field_from args) (\<lambda>f.
     and_then (required_str args ''command'') (\<lambda>command.
     and_then (required_str args ''env_var'') (\<lambda>env_var.
     and_then (required_str args ''reason'') (\<lambda>reason.
       Inr (Access \<lparr>ar_item = item, ar_field = f,
         ar_intent = Run command (strings_of (json_get ''args'' args)) env_var (text_member ''cwd'' args), ar_reason = reason\<rparr>))))))"

definition reveal_request :: "json \<Rightarrow> string + request" where
  "reveal_request args =
     and_then (required_str args ''item'') (\<lambda>item.
     and_then (field_from args) (\<lambda>f.
     and_then (required_str args ''reason'') (\<lambda>reason.
       Inr (Access \<lparr>ar_item = item, ar_field = f, ar_intent = Reveal, ar_reason = reason\<rparr>))))"

definition tool_request :: "mcp_env \<Rightarrow> json \<Rightarrow> string + request" where
  "tool_request M params =
     (case text_member ''name'' params of
        None \<Rightarrow> Inl ''tools/call requires a tool name''
      | Some name \<Rightarrow>
          let args = tool_arguments params in
          if name = ''yara_status'' then Inr Status
          else if name = ''yara_list_items'' then Inr (ListItems (text_member ''query'' args))
          else if name = ''yara_run_with_credential'' then run_request args
          else if name = ''yara_reveal_credential'' then reveal_request args
          else Inl (''unknown tool '' @ me_debug M name))"

section \<open>Answers\<close>

definition tool_text :: "string \<Rightarrow> bool \<Rightarrow> json" where
  "tool_text body is_error =
     JObj [(''content'', JArr [JObj [(''type'', JStr ''text''), (''text'', JStr body)]]), (''isError'', JBool is_error)]"

definition tool_failure :: "string \<Rightarrow> json" where
  "tool_failure body = tool_text body True"

definition TAB :: char where "TAB = CHR 0x09"

definition ITEM_COLUMNS :: string where
  "ITEM_COLUMNS = join [TAB] [''id'', ''name'', ''username'', ''two-factor'', ''fields'']"

definition mcp_row :: "prims \<Rightarrow> item_ref \<Rightarrow> string" where
  "mcp_row P i = join [TAB]
     [p_uuid_print P (ref_id i), ref_name i, (case ref_username i of Some u \<Rightarrow> u | None \<Rightarrow> EM_DASH),
      (if ref_has_totp i then ''yes'' else EM_DASH),
      (if ref_fields i = [] then EM_DASH else join '', '' (ref_fields i))]"

definition NL :: string where "NL = [CHR 0x0A]"

definition ran_body :: "command_output \<Rightarrow> string" where
  "ran_body out = ''Exit code '' @ show_int (exit_code out) @ ''.''
     @ (if stdout out = [] then [] else NL @ NL @ ''stdout:'' @ NL @ stdout out)
     @ (if stderr out = [] then [] else NL @ NL @ ''stderr:'' @ NL @ stderr out)"

definition render :: "prims \<Rightarrow> response \<Rightarrow> json" where
  "render P r =
     (case r of
        StatusIs unlocked version \<Rightarrow>
          tool_text (''yara '' @ version @ '' is running and the vault is '' @ (if unlocked then ''unlocked'' else ''locked'') @ ''.'') False
      | Items [] \<Rightarrow> tool_text ''No matching items.'' False
      | Items is \<Rightarrow> tool_text (ITEM_COLUMNS @ NL @ join NL (map (mcp_row P) is)) False
      | Ran out \<Rightarrow> tool_text (ran_body out) False
      | Revealed v \<Rightarrow> tool_text v False
      | Refused _ m \<Rightarrow> tool_failure m
      | Failure m \<Rightarrow> tool_failure m)"

section \<open>Dispatch\<close>

type_synonym 's link = "request \<Rightarrow> 's \<Rightarrow> 's \<times> (string + response)"

definition call_tool :: "mcp_env \<Rightarrow> prims \<Rightarrow> 's link \<Rightarrow> json \<Rightarrow> 's \<Rightarrow> 's \<times> (string + json)" where
  "call_tool M P send params s =
     (case tool_request M params of
        Inl e \<Rightarrow> (s, Inl e)
      | Inr q \<Rightarrow>
          (case send q s of
             (s', Inr r) \<Rightarrow> (s', Inr (render P r))
           | (s', Inl e) \<Rightarrow> (s', Inr (tool_failure e))))"

definition mcp_dispatch :: "mcp_env \<Rightarrow> prims \<Rightarrow> 's link \<Rightarrow> incoming \<Rightarrow> 's \<Rightarrow> 's \<times> outgoing_reply option" where
  "mcp_dispatch M P send m s =
     (case in_id m of
        None \<Rightarrow> (s, None)
      | Some i \<Rightarrow>
          let params = (case in_params m of Some p \<Rightarrow> p | None \<Rightarrow> JNull) in
          if in_method m = ''initialize'' then (s, Some (reply_result i (mcp_initialize M params)))
          else if in_method m = ''ping'' then (s, Some (reply_result i (JObj [])))
          else if in_method m = ''tools/list'' then (s, Some (reply_result i (JObj [(''tools'', JArr tools)])))
          else if in_method m = ''tools/call'' then
            (case call_tool M P send params s of
               (s', Inr r) \<Rightarrow> (s', Some (reply_result i r))
             | (s', Inl e) \<Rightarrow> (s', Some (reply_error i INVALID_PARAMS e)))
          else (s, Some (reply_error i METHOD_NOT_FOUND (''unknown method '' @ me_debug M (in_method m)))))"

text \<open>One line of standard input (\<open>main.rs\<close>): the line written back, if any.\<close>

definition mcp_line :: "mcp_env \<Rightarrow> prims \<Rightarrow> 's link \<Rightarrow> string \<Rightarrow> 's \<Rightarrow> 's \<times> outgoing_reply option" where
  "mcp_line M P send s st =
     (if trim s = [] then (st, None)
      else case (case p_json_parse P s of None \<Rightarrow> Inl Serde | Some v \<Rightarrow> of_incoming v) of
        Inr m \<Rightarrow> mcp_dispatch M P send m st
      | Inl _ \<Rightarrow> (st, Some (reply_error JNull PARSE_ERROR (''could not parse that message: '' @ me_parse_error M s))))"

fun mcp_main :: "mcp_env \<Rightarrow> prims \<Rightarrow> 's link \<Rightarrow> string list \<Rightarrow> 's \<Rightarrow> 's \<times> string list" where
  "mcp_main M P send [] st = (st, [])"
| "mcp_main M P send (s # ss) st =
     (case mcp_line M P send s st of
        (st', r) \<Rightarrow>
          (case mcp_main M P send ss st' of
             (st'', out) \<Rightarrow> (st'', (case r of None \<Rightarrow> out | Some o' \<Rightarrow> encode_line P (reply_json o') # out))))"

section \<open>What it asks for\<close>

lemma required_str_Inr:
  "required_str args k = Inr s \<longleftrightarrow> text_member k args = Some s \<and> trim s \<noteq> []"
  by (auto simp: required_str_def split: option.split)

lemma field_from_not_empty: "field_from args = Inr f \<Longrightarrow> f \<noteq> Custom []"
  by (auto simp: field_from_def Let_def split: if_splits)

definition tool_name :: "json \<Rightarrow> string option" where
  "tool_name params = text_member ''name'' params"

text \<open>What the user is shown of a request is there: a program, a purpose, an item, a field.\<close>

definition explained :: "access_request \<Rightarrow> bool" where
  "explained a \<longleftrightarrow> trim (ar_item a) \<noteq> [] \<and> trim (ar_reason a) \<noteq> [] \<and> ar_field a \<noteq> Custom [] \<and>
     (case ar_intent a of Reveal \<Rightarrow> True | Run command args env_var cwd \<Rightarrow> trim command \<noteq> [] \<and> trim env_var \<noteq> [])"

lemma tool_request_explained: "tool_request M params = Inr (Access a) \<Longrightarrow> explained a"
  by (auto simp: tool_request_def run_request_def reveal_request_def and_then_Inr required_str_Inr explained_def
      Let_def dest: field_from_not_empty split: option.splits if_splits)

text \<open>Which tool makes which request.\<close>

lemma tool_request_named:
  "tool_request M params = Inr q \<Longrightarrow> \<exists>name. tool_name params = Some name \<and>
    (case q of
       Status \<Rightarrow> name = ''yara_status''
     | ListItems query \<Rightarrow> name = ''yara_list_items''
     | Access a \<Rightarrow> name = (if ar_intent a = Reveal then ''yara_reveal_credential'' else ''yara_run_with_credential''))"
  by (auto simp: tool_request_def run_request_def reveal_request_def and_then_Inr tool_name_def
      Let_def split: option.splits if_splits)

definition call_params :: "incoming \<Rightarrow> json" where
  "call_params m = (case in_params m of Some p \<Rightarrow> p | None \<Rightarrow> JNull)"

lemmas mcp_dispatch_cases = mcp_dispatch_def call_tool_def call_params_def [symmetric] Let_def


definition sample_mcp :: mcp_env where
  "sample_mcp = \<lparr>me_version = ''1'', me_debug = id, me_parse_error = (\<lambda>s. [])\<rparr>"

definition reveal_params :: json where
  "reveal_params = JObj [(''name'', JStr ''yara_reveal_credential''),
     (''arguments'', JObj [(''item'', JStr ''mail''), (''reason'', JStr ''x'')])]"

definition reveal_call :: incoming where
  "reveal_call = \<lparr>in_id = Some (JNum 1), in_method = ''tools/call'', in_params = Some reveal_params\<rparr>"

lemma sample_mcp_trim: "trim ''x'' = ''x''" "trim ''mail'' = ''mail''"
  by (simp_all add: trim_def trim_chars_def utf8_width_ascii is_ascii_def is_whitespace_ascii)

lemma sample_tool_request:
  "tool_request M reveal_params = Inr (Access \<lparr>ar_item = ''mail'', ar_field = Password, ar_intent = Reveal, ar_reason = ''x''\<rparr>)"
  by (simp add: reveal_params_def tool_request_def text_member_def as_str_def tool_arguments_def reveal_request_def
      required_str_def field_from_def sample_mcp_trim json_get_def held_def Let_def)


end
