(* ===== verification/Agent_Front.thy ===== *)
theory Agent_Front
  imports Mcp_Server
begin

text \<open>
  The two programs agents run, joined to the broker: the client end of the pipe
  (\<open>crates/yara-broker/src/client.rs\<close>), the command line (\<open>crates/yara-cli/src/main.rs\<close>) and
  what holds of a request from the agent's side through to the answer of the user. Parsing of the
  arguments is the \<open>clap\<close> crate's; its result is the datatype \<open>cli_command\<close>.
\<close>

section \<open>The client (\<open>client.rs\<close>)\<close>

text \<open>
  One connection: the error of opening it, of writing to it, and what reading the answer comes to
  (an error, the end of the stream, or its first line).
\<close>

record 's pipe =
  pi_open :: "string option"
  pi_write :: "string option"
  pi_talk :: "string \<Rightarrow> 's \<Rightarrow> 's \<times> (string + string option)"
  pi_parse_error :: "string \<Rightarrow> string"

definition client_send :: "prims \<Rightarrow> 's pipe \<Rightarrow> 's link" where
  "client_send P p q s =
     (case pi_open p of
        Some e \<Rightarrow> (s, Inl (''could not reach the vault ('' @ e @ ''). Is yara running and unlocked?''))
      | None \<Rightarrow>
     (case pi_write p of
        Some e \<Rightarrow> (s, Inl e)
      | None \<Rightarrow>
     (case pi_talk p (encode_line P (request_json q)) s of
        (s', Inl e) \<Rightarrow> (s', Inl e)
      | (s', Inr None) \<Rightarrow> (s', Inl ''the vault closed the connection without answering'')
      | (s', Inr (Some t)) \<Rightarrow>
          (case decode_line P (of_response P) t of
             Inr r \<Rightarrow> (s', Inr r)
           | Inl _ \<Rightarrow> (s', Inl (''could not understand the reply: '' @ pi_parse_error p t))))))"

section \<open>The command line (\<open>yara-cli\<close>)\<close>

datatype cli_command =
    CliStatus
  | CliList "string option"
  | CliRun string string string string "string option" "string list"
  | CliGet string string string

definition parse_field :: "string \<Rightarrow> string + access_field" where
  "parse_field v =
     (if v = ''password'' then Inr Password
      else if v = ''username'' then Inr Username
      else if v \<in> {''totp'', ''otp'', ''code''} then Inr OneTimeCode
      else if v = [] then Inl ''--field cannot be empty''
      else Inr (Custom v))"

fun cli_request :: "cli_command \<Rightarrow> string + request" where
  "cli_request CliStatus = Inr Status"
| "cli_request (CliList query) = Inr (ListItems query)"
| "cli_request (CliRun item env f reason cwd argv) =
     (case argv of
        [] \<Rightarrow> Inl ''no command given after --''
      | command # args \<Rightarrow>
          and_then (parse_field f) (\<lambda>f'.
            Inr (Access \<lparr>ar_item = item, ar_field = f', ar_intent = Run command args env cwd, ar_reason = reason\<rparr>)))"
| "cli_request (CliGet item f reason) =
     and_then (parse_field f) (\<lambda>f'.
       Inr (Access \<lparr>ar_item = item, ar_field = f', ar_intent = Reveal, ar_reason = reason\<rparr>))"

text \<open>What the program leaves behind: both streams and its exit code.\<close>

record cli_exit =
  ce_stdout :: string
  ce_stderr :: string
  ce_code :: u8

definition SUCCESS :: u8 where "SUCCESS = 0"
definition FAILURE :: u8 where "FAILURE = 1"

definition MIDDLE_DOT :: string where "MIDDLE_DOT = [char_of (194 :: nat), char_of (183 :: nat)]"

definition cli_row :: "prims \<Rightarrow> item_ref \<Rightarrow> string" where
  "cli_row P i = join [TAB]
     [p_uuid_print P (ref_id i), ref_name i, (case ref_username i of Some u \<Rightarrow> u | None \<Rightarrow> []), join '', '' (ref_fields i)]"

definition report :: "prims \<Rightarrow> response \<Rightarrow> cli_exit" where
  "report P r =
     (case r of
        StatusIs unlocked version \<Rightarrow>
          \<lparr>ce_stdout = ''broker '' @ version @ '' '' @ MIDDLE_DOT @ '' vault '' @ (if unlocked then ''unlocked'' else ''locked'') @ NL,
           ce_stderr = [], ce_code = (if unlocked then SUCCESS else FAILURE)\<rparr>
      | Items is \<Rightarrow>
          \<lparr>ce_stdout = concat (map (\<lambda>i. cli_row P i @ NL) is),
           ce_stderr = (if is = [] then ''no matching items'' @ NL else []), ce_code = SUCCESS\<rparr>
      | Ran out \<Rightarrow>
          \<lparr>ce_stdout = stdout out, ce_stderr = stderr out,
           ce_code = (if 0 \<le> exit_code out \<and> exit_code out < 2 ^ 8 then word_of_int (exit_code out) else FAILURE)\<rparr>
      | Revealed v \<Rightarrow> \<lparr>ce_stdout = v, ce_stderr = [], ce_code = SUCCESS\<rparr>
      | Refused _ m \<Rightarrow> \<lparr>ce_stdout = [], ce_stderr = ''yara: '' @ m @ NL, ce_code = FAILURE\<rparr>
      | Failure m \<Rightarrow> \<lparr>ce_stdout = [], ce_stderr = ''yara: '' @ m @ NL, ce_code = FAILURE\<rparr>)"

definition cli_main :: "prims \<Rightarrow> 's link \<Rightarrow> cli_command \<Rightarrow> 's \<Rightarrow> 's \<times> cli_exit" where
  "cli_main P send c s =
     (let failed = (\<lambda>m. \<lparr>ce_stdout = [], ce_stderr = ''yara: '' @ m @ NL, ce_code = FAILURE\<rparr>)
      in case cli_request c of
           Inl m \<Rightarrow> (s, failed m)
         | Inr q \<Rightarrow>
             (case send q s of
                (s', Inl m) \<Rightarrow> (s', failed m)
              | (s', Inr r) \<Rightarrow> (s', report P r)))"

section \<open>Success is success\<close>

definition went_well :: "response \<Rightarrow> bool" where
  "went_well r = (case r of StatusIs unlocked _ \<Rightarrow> unlocked | Items _ \<Rightarrow> True | Ran out \<Rightarrow> exit_code out = 0
     | Revealed _ \<Rightarrow> True | Refused _ _ \<Rightarrow> False | Failure _ \<Rightarrow> False)"

lemma report_code: "ce_code (report P r) = 0 \<longleftrightarrow> went_well r"
proof (cases r)
  case (Ran out)
  have "(word_of_int (exit_code out) :: u8) = 0 \<longleftrightarrow> exit_code out = 0" if "0 \<le> exit_code out" "exit_code out < 2 ^ 8"
    using that by (auto simp: word_of_int_eq_0_iff elim: dvdE)
  with Ran show ?thesis by (auto simp: report_def went_well_def SUCCESS_def FAILURE_def)
qed (auto simp: report_def went_well_def SUCCESS_def FAILURE_def)

definition gave_nothing :: "response \<Rightarrow> bool" where
  "gave_nothing r = (case r of Refused _ _ \<Rightarrow> True | Failure _ \<Rightarrow> True | _ \<Rightarrow> False)"

lemma report_nothing: "gave_nothing r \<Longrightarrow> ce_stdout (report P r) = []"
  by (cases r) (simp_all add: gave_nothing_def report_def)

lemma report_ran_code:
  "0 \<le> exit_code out \<Longrightarrow> exit_code out < 256 \<Longrightarrow> uint (ce_code (report P (Ran out))) = exit_code out"
  by (simp add: report_def uint_word_of_int)

text \<open>
  A script can rely on what the command line leaves behind: the exit code is zero exactly when the
  broker was asked and gave what was wanted, so a command's own failure is never turned into success,
  whatever its code, and its code comes through when it fits; and a request that is refused, fails or
  never reaches the broker puts nothing on standard output.
\<close>

theorem exit_code_honest:
  assumes "cli_main P send c s = (s', x)"
  shows "(ce_code x = SUCCESS \<longleftrightarrow> (\<exists>q r. cli_request c = Inr q \<and> send q s = (s', Inr r) \<and> went_well r)) \<and>
    (\<forall>q out. cli_request c = Inr q \<and> send q s = (s', Inr (Ran out)) \<and> 0 \<le> exit_code out \<and> exit_code out < 256 \<longrightarrow>
       uint (ce_code x) = exit_code out) \<and>
    (ce_stdout x = [] \<or> (\<exists>q r. cli_request c = Inr q \<and> send q s = (s', Inr r) \<and> \<not> gave_nothing r))"
  using assms report_nothing [of _ P]
  by (auto simp: cli_main_def Let_def report_code report_ran_code SUCCESS_def FAILURE_def
      split: sum.splits prod.splits)

theorem exit_code_honest_witness:
  "ce_code (snd (cli_main total_prims
     (\<lambda>q n. (Suc n, Inr (Ran \<lparr>exit_code = 256, stdout = [], stderr = []\<rparr>))) (CliGet ''mail'' ''password'' ''x'') (0 :: nat))) \<noteq> SUCCESS"
    (is "ce_code (snd ?x) \<noteq> _")
proof -
  obtain s' x where x: "?x = (s', x)" by fastforce
  from exit_code_honest [OF x] have "ce_code x \<noteq> SUCCESS" by (auto simp: went_well_def)
  with x show ?thesis by simp
qed

section \<open>Both programs ask the same question\<close>

definition reveal_arguments :: "string \<Rightarrow> string \<Rightarrow> string \<Rightarrow> json" where
  "reveal_arguments item f reason =
     JObj [(''item'', JStr item), (''field'', JStr f), (''reason'', JStr reason)]"

definition run_arguments :: "string \<Rightarrow> string \<Rightarrow> string \<Rightarrow> string \<Rightarrow> string option \<Rightarrow> string \<Rightarrow> string list \<Rightarrow> json" where
  "run_arguments item env f reason cwd command args =
     JObj ([(''item'', JStr item), (''field'', JStr f), (''env_var'', JStr env), (''command'', JStr command),
       (''args'', JArr (map JStr args)), (''reason'', JStr reason)] @ skip_none ''cwd'' JStr cwd)"

definition tool_call :: "string \<Rightarrow> json \<Rightarrow> json" where
  "tool_call name args = JObj [(''name'', JStr name), (''arguments'', args)]"

lemma json_get_obj:
  "json_get k (JObj kvs) = (case vals k kvs of [] \<Rightarrow> None | vs \<Rightarrow> Some (last vs))"
  by (simp add: json_get_def held_def split: list.split)

lemma text_member_obj:
  "text_member k (JObj kvs) = (case vals k kvs of [] \<Rightarrow> None | vs \<Rightarrow> as_str (last vs))"
  by (simp add: text_member_def json_get_obj split: list.split)

lemma strings_of_map [simp]: "strings_of (Some (JArr (map JStr ss))) = ss"
  by (induction ss) (simp_all add: strings_of_def as_str_def map_filter_def)

lemma as_str_JStr [simp]: "as_str (JStr s) = Some s"
  by (simp add: as_str_def)

lemmas tool_call_simps = tool_call_def tool_request_def tool_arguments_def json_get_obj text_member_obj Let_def

text \<open>
  How a request of the command line and one of the agent server compare, where the field is \<open>f\<close> and
  \<open>supplied\<close> says that no other argument is blank.
\<close>

definition fronts_match :: "string \<Rightarrow> bool \<Rightarrow> string + request \<Rightarrow> string + request \<Rightarrow> bool" where
  "fronts_match f supplied cli mcp \<longleftrightarrow>
     (isl cli \<longleftrightarrow> f = []) \<and> (isl mcp \<longleftrightarrow> f = [] \<or> \<not> supplied) \<and>
     (case mcp of Inl e \<Rightarrow> True
      | Inr q \<Rightarrow> \<exists>a. q = Access a \<and>
          (if f = ''otp'' \<or> f = ''code'' then ar_field a = Custom f \<and> cli = Inr (Access (a\<lparr>ar_field := OneTimeCode\<rparr>))
           else cli = Inr (Access a)))"

text \<open>
  C34: for the same item, field, purpose and command, whatever they are, the agent server refuses exactly
  where the field is empty or another argument is blank, and the command line only where the field is
  empty. What the agent server does not refuse, the command line sends the broker as the same request,
  so that a grant made through one covers the other, except for the names otp and code: these are the
  one-time code on the command line and custom fields for the agent server.
\<close>

theorem fronts_agree:
  "fronts_match f (trim item \<noteq> [] \<and> trim reason \<noteq> []) (cli_request (CliGet item f reason))
      (tool_request M (tool_call ''yara_reveal_credential'' (reveal_arguments item f reason))) \<and>
    fronts_match f (trim item \<noteq> [] \<and> trim command \<noteq> [] \<and> trim env \<noteq> [] \<and> trim reason \<noteq> [])
      (cli_request (CliRun item env f reason cwd (command # args)))
      (tool_request M (tool_call ''yara_run_with_credential'' (run_arguments item env f reason cwd command args)))"
proof -
  let ?reveal = "reveal_arguments item f reason" and ?run = "run_arguments item env f reason cwd command args"
  let ?mcp1 = "tool_request M (tool_call ''yara_reveal_credential'' ?reveal)"
    and ?mcp2 = "tool_request M (tool_call ''yara_run_with_credential'' ?run)"
  let ?ask = "\<lambda>x. Access \<lparr>ar_item = item, ar_field = x, ar_intent = Reveal, ar_reason = reason\<rparr>"
    and ?ask' = "\<lambda>x. Access \<lparr>ar_item = item, ar_field = x, ar_intent = Run command args env cwd, ar_reason = reason\<rparr>"
  define x where "x = field_from ?reveal"
  have same: "field_from ?run = x" and fld: "x = (if f = ''otp'' \<or> f = ''code'' then Inr (Custom f) else case parse_field f of
      Inl e \<Rightarrow> Inl ''field cannot be empty'' | Inr x \<Rightarrow> Inr x)"
    by (simp_all add: x_def field_from_def parse_field_def reveal_arguments_def run_arguments_def text_member_obj)
  have "required_str ?reveal ''item'' = (if trim item = [] then Inl ''item is required'' else Inr item)"
    "required_str ?reveal ''reason'' = (if trim reason = [] then Inl ''reason is required'' else Inr reason)"
    by (simp_all add: required_str_def reveal_arguments_def text_member_obj)
  then have mcp1: "?mcp1 = (if trim item = [] then Inl ''item is required'' else and_then x (\<lambda>x.
      if trim reason = [] then Inl ''reason is required'' else Inr (?ask x)))"
    by (cases x) (simp_all add: tool_call_simps reveal_request_def x_def)
  have "required_str ?run ''item'' = (if trim item = [] then Inl ''item is required'' else Inr item)"
    "required_str ?run ''reason'' = (if trim reason = [] then Inl ''reason is required'' else Inr reason)"
    "required_str ?run ''command'' = (if trim command = [] then Inl ''command is required'' else Inr command)"
    "required_str ?run ''env_var'' = (if trim env = [] then Inl ''env_var is required'' else Inr env)"
    "strings_of (json_get ''args'' ?run) = args" "text_member ''cwd'' ?run = cwd"
    by (cases cwd; simp add: required_str_def run_arguments_def text_member_obj json_get_obj skip_none_def)+
  then have mcp2: "?mcp2 = (if trim item = [] then Inl ''item is required'' else and_then x (\<lambda>x.
      if trim command = [] then Inl ''command is required'' else if trim env = [] then Inl ''env_var is required''
      else if trim reason = [] then Inl ''reason is required'' else Inr (?ask' x)))"
    using same by (cases x) (simp_all add: tool_call_simps run_request_def)
  have f: "isl (parse_field f) \<longleftrightarrow> f = []" "f = ''otp'' \<or> f = ''code'' \<Longrightarrow> parse_field f = Inr OneTimeCode"
    by (auto simp: parse_field_def)
  show ?thesis
    unfolding fronts_match_def mcp1 mcp2 using f by (cases "parse_field f") (auto simp: fld)
qed

text \<open>The two extra names: what is the one-time code to one program is a custom field to the other.\<close>

theorem fronts_disagree_on_aliases:
  "cli_request (CliGet ''mail'' ''otp'' ''x'') =
     Inr (Access \<lparr>ar_item = ''mail'', ar_field = OneTimeCode, ar_intent = Reveal, ar_reason = ''x''\<rparr>) \<and>
   tool_request M (tool_call ''yara_reveal_credential'' (reveal_arguments ''mail'' ''otp'' ''x'')) =
     Inr (Access \<lparr>ar_item = ''mail'', ar_field = Custom ''otp'', ar_intent = Reveal, ar_reason = ''x''\<rparr>)"
  by (simp add: parse_field_def tool_call_simps reveal_arguments_def reveal_request_def required_str_def field_from_def sample_mcp_trim)

text \<open>The command line takes a blank reason, which the agent server refuses.\<close>

theorem cli_takes_blank_reason:
  "(\<exists>a. cli_request (CliGet ''mail'' ''password'' []) = Inr (Access a) \<and> ar_reason a = []) \<and>
   isl (tool_request M (tool_call ''yara_reveal_credential'' (reveal_arguments ''mail'' ''password'' [])))"
  by (simp add: parse_field_def tool_call_simps reveal_arguments_def reveal_request_def required_str_def field_from_def sample_mcp_trim)

section \<open>From the agent to the user and back\<close>

text \<open>A line as a reader hands it over: without the end of line.\<close>

definition chomp :: "string \<Rightarrow> string" where
  "chomp t = (let l = takeWhile (\<lambda>c. c \<noteq> CHR 0x0A) t in if l \<noteq> [] \<and> last l = CHR 0x0D then butlast l else l)"

text \<open>The pipe with the broker at its other end, serving one connection of one request.\<close>

definition broker_pipe ::
    "'v bridge \<Rightarrow> process_env \<Rightarrow> string \<Rightarrow> prims \<Rightarrow> client_id \<Rightarrow> 'v request_context \<Rightarrow> 'v broker pipe" where
  "broker_pipe B E version P client c =
     \<lparr>pi_open = None, pi_write = None,
      pi_talk = (\<lambda>t b. case serve_connection B E version P client [(chomp t, c)] b [] of
         (b', sent, _) \<Rightarrow> (b', Inr (case sent of [] \<Rightarrow> None | a # _ \<Rightarrow> Some (chomp a)))),
      pi_parse_error = (\<lambda>t. [])\<rparr>"

text \<open>What the code relies on of the printer of JSON: a tree on one line, with nothing around it, read back as it was.\<close>

definition framed :: "prims \<Rightarrow> bool" where
  "framed P \<longleftrightarrow> (\<forall>j. json_faithful P j \<and> p_json_print P j \<noteq> [] \<and> trim (p_json_print P j) = p_json_print P j \<and>
     chomp (p_json_print P j @ [CHR 0x0A]) = p_json_print P j)"

lemma chomp_encode: "framed P \<Longrightarrow> chomp (encode_line P j) = p_json_print P j"
  by (simp add: framed_def encode_line_def)

lemma decode_framed: "framed P \<Longrightarrow> decode_line P f (p_json_print P j) = f j"
  by (simp add: framed_def decode_line_def json_faithful_def)

lemma decode_fits: "uuid_faithful P \<Longrightarrow> of_response P (response_json P r) = (if exit_code_fits r then Inr r else Inl Serde)"
proof (cases "exit_code_fits r")
  case False
  then show ?thesis
    by (cases r) (auto simp: exit_code_fits_def of_response_def tagged_def of_ran_def)
qed (simp add: response_rt)

definition served :: "'v bridge \<Rightarrow> process_env \<Rightarrow> string \<Rightarrow> client_id \<Rightarrow> 'v request_context \<Rightarrow> request \<Rightarrow> 'v broker \<Rightarrow> 'v broker \<times> response" where
  "served B E version client c q b = handle B E version q client (rc_now c) (rc_answer c) (rc_grant c) (rc_entry c) (rc_at c)
     (rc_asking c) (rc_running c) b"

lemma client_send_served:
  assumes "framed P" and "uuid_faithful P" and "served B E version client c q b = (b', r)"
  shows "client_send P (broker_pipe B E version P client c) q b =
    (b', case rc_write c of
       Some _ \<Rightarrow> Inl ''the vault closed the connection without answering''
     | None \<Rightarrow> if exit_code_fits r then Inr r else Inl ''could not understand the reply: '')"
proof -
  have "serve_line B E version P client (p_json_print P (request_json q)) c b = (b', r)"
    using assms by (simp add: serve_line_def decode_framed request_rt served_def)
  moreover have "trim (p_json_print P (request_json q)) \<noteq> []"
    using assms(1) by (simp add: framed_def)
  ultimately show ?thesis
    using assms by (simp add: client_send_def broker_pipe_def chomp_encode decode_framed decode_fits split: option.split)
qed

lemma render_error:
  "json_get ''isError'' (render P r) = Some (JBool (gave_nothing r))"
  by (cases r) (auto simp: render_def tool_failure_def tool_text_def json_get_obj gave_nothing_def split: list.split)

lemma given_access:
  "handle_access B E a client now ans g e at m1 m2 b = (b', r) \<Longrightarrow> \<not> gave_nothing r \<Longrightarrow>
    (\<exists>v. r = Revealed v) \<or> (\<exists>out. r = Ran out)"
  by (auto simp: handle_access_def begin_access_def dispatch_def run_command_def refused_def gave_nothing_def Let_def
      split: prod.splits phase.splits sum.splits if_splits resolution.splits option.splits intent.splits process_result.splits)

text \<open>
  C7: what an agent reads of a tool call that is not an error is what the broker's handler answered,
  and when the call would let it see a secret, a user at the vault approved that very call: neither
  the agent server, the pipe nor the line format between them is a way around the prompt.
\<close>

theorem agent_sees_only_approved:
  assumes "broker_reachable B b" and "framed P" and "uuid_faithful P"
    and "mcp_dispatch M P (client_send P (broker_pipe B E version P client c)) m b = (b', Some out)"
    and "in_method m = ''tools/call''" and "tool_request M (call_params m) = Inr (Access a)"
    and "out_result out = Some v" and "json_get ''isError'' v = Some (JBool False)"
  shows "\<exists>r. served B E version client c (Access a) b = (b', r) \<and> v = render P r \<and>
    (discloses_secret (ar_intent a) \<longrightarrow> (\<exists>d. rc_answer c = Answered d \<and> d \<noteq> Deny))"
proof -
  obtain b1 r where sv: "served B E version client c (Access a) b = (b1, r)" by fastforce
  have v: "b' = b1" "v = render P r"
    using assms(4-8) client_send_served [OF assms(2,3) sv]
    by (auto simp: mcp_dispatch_cases tool_failure_def tool_text_def json_get_obj reply_result_def
        split: option.splits if_splits sum.splits)
  with assms(8) have "\<not> gave_nothing r" by (simp add: render_error)
  moreover have "handle_access B E a client (rc_now c) (rc_answer c) (rc_grant c) (rc_entry c) (rc_at c)
      (rc_asking c) (rc_running c) b = (b1, r)"
    using sv by (simp add: served_def handle_def)
  ultimately show ?thesis
    using v sv given_access disclosing_answered [OF assms(1)] by metis
qed

lemma total_framed: "framed total_prims"
proof -
  have "takeWhile (\<lambda>c. c \<noteq> CHR 0x0A) (replicate n (CHR ''j'') @ [CHR 0x0A]) = replicate n (CHR ''j'')" for n
    by (induction n) auto
  then have "chomp (replicate (Suc n) (CHR ''j'') @ [CHR 0x0A]) = replicate (Suc n) (CHR ''j'')" for n
    by (simp add: chomp_def Let_def del: replicate.simps)
  moreover have "trim (replicate n (CHR ''j'')) = replicate n (CHR ''j'')" for n
  proof (rule trim_no_whitespace)
    have "chars (replicate n (CHR ''j'')) = map (\<lambda>c. [c]) (replicate n (CHR ''j''))"
      by (intro chars_ascii) (simp add: is_ascii_def)
    then show "\<forall>c \<in> set (chars (replicate n (CHR ''j''))). \<not> is_whitespace c"
      by (auto simp: is_whitespace_ascii)
  qed
  ultimately show ?thesis
    using total_json by (simp add: framed_def total_prims_def del: replicate.simps)
qed

lemma total_uuid: "uuid_faithful total_prims"
  using sample_prims_ok(6) [of JNull JNull] by (simp add: uuid_faithful_def total_prims_def)

theorem agent_sees_only_approved_witness:
  "\<exists>r. served sample_bridge sample_process [] sample_client (sample_context\<lparr>rc_answer := Answered AllowOnce\<rparr>)
      (Access \<lparr>ar_item = ''mail'', ar_field = Password, ar_intent = Reveal, ar_reason = ''x''\<rparr>) (broker_new True) = r \<and>
    tool_text ''hunter22'' False = render total_prims (snd r) \<and> (\<exists>d. Answered AllowOnce = Answered d \<and> d \<noteq> Deny)"
proof -
  let ?c = "sample_context\<lparr>rc_answer := Answered AllowOnce\<rparr>"
  let ?a = "\<lparr>ar_item = ''mail'', ar_field = Password, ar_intent = Reveal, ar_reason = ''x''\<rparr>"
  obtain b' r where sv: "served sample_bridge sample_process [] sample_client ?c (Access ?a) (broker_new True) = (b', r)"
    by fastforce
  then have r: "r = Revealed ''hunter22''"
    by (auto simp: served_def handle_def sample_context_def sample_request_defs conclude_approval_def narrow_decision_def
        dispatch_def issue_def discloses_secret_def split: prod.splits option.splits)
  have "mcp_dispatch sample_mcp total_prims
      (client_send total_prims (broker_pipe sample_bridge sample_process [] total_prims sample_client ?c)) reveal_call (broker_new True) =
      (b', Some (reply_result (JNum 1) (tool_text ''hunter22'' False)))"
    using client_send_served [OF total_framed total_uuid sv]
    by (simp add: mcp_dispatch_cases reveal_call_def call_params_def sample_tool_request render_def r exit_code_fits_def
        sample_context_def)
  from agent_sees_only_approved [OF br_new total_framed total_uuid this, of ?a "tool_text ''hunter22'' False"] 
  have "\<exists>r. served sample_bridge sample_process [] sample_client ?c (Access ?a) (broker_new True) = (b', r) \<and>
      tool_text ''hunter22'' False = render total_prims r \<and> (\<exists>d. Answered AllowOnce = Answered d \<and> d \<noteq> Deny)"
    by (auto simp: reveal_call_def call_params_def sample_tool_request reply_result_def tool_text_def json_get_obj
        discloses_secret_def sample_context_def)
  then show ?thesis by auto
qed

end
