(* ===== verification/Generate.thy ===== *)
theory Generate
  imports Vault_Data
begin

text \<open>
  \<open>crates/yara-core/src/health.rs\<close> and \<open>generate.rs\<close>: reuse and strength checks, and password
  generation. Operating-system randomness is an argument: the stream of bytes that the iterator
  \<open>RandomBytes\<close> would deliver.
\<close>

section \<open>Health\<close>

text \<open>
  \<open>reused\<close>: the map from digest to the first id, and the set of reused ids, threaded through the
  loop over the items. \<open>sha\<close> is SHA-256 of another crate.
\<close>

definition reused_step ::
    "(bytes \<Rightarrow> bytes) \<Rightarrow> bytes \<Rightarrow> item \<Rightarrow> (bytes \<rightharpoonup> uuid) \<times> uuid set \<Rightarrow> (bytes \<rightharpoonup> uuid) \<times> uuid set" where
  "reused_step sha salt i st =
     (case st of (first_by_digest, reused) \<Rightarrow>
        (case item_password i of
           None \<Rightarrow> st
         | Some password \<Rightarrow>
             (let digest = sha (salt @ expose password) in
              (case first_by_digest digest of
                 Some first \<Rightarrow> (first_by_digest, reused \<union> {first, item_id i})
               | None \<Rightarrow> (first_by_digest(digest \<mapsto> item_id i), reused)))))"

definition reused :: "(bytes \<Rightarrow> bytes) \<Rightarrow> bytes \<Rightarrow> item list \<Rightarrow> uuid set" where
  "reused sha salt items = snd (fold (reused_step sha salt) items (Map.empty, {}))"

definition missing_second_factor :: "item \<Rightarrow> bool" where
  "missing_second_factor i \<longleftrightarrow> item_kind i = Login \<and> item_password i \<noteq> None \<and> item_totp i = None"

datatype strength_class = Weak | Fair | Strong

definition MINIMUM_LENGTH :: nat where "MINIMUM_LENGTH = 12"

definition charset_size :: "string \<Rightarrow> nat" where
  "charset_size password =
     (if list_ex is_ascii_lowercase password then 26 else 0)
     + (if list_ex is_ascii_uppercase password then 26 else 0)
     + (if list_ex is_ascii_digit password then 10 else 0)
     + (if list_ex (\<lambda>c. \<not> is_ascii_alphanumeric c) password then 33 else 0)"

text \<open>
  \<open>estimate_bits\<close> is \<open>n * log2 charset\<close>; comparing it with a bound \<open>b\<close> is comparing
  \<open>charset ^ n\<close> with \<open>2 ^ b\<close>, which is how the model states it, exactly and without floating point.
\<close>

definition bits_below :: "string \<Rightarrow> nat \<Rightarrow> bool" where
  "bits_below password b \<longleftrightarrow>
     (if password = [] \<or> charset_size password \<le> 1 then 0 < b
      else charset_size password ^ chars_count password < 2 ^ b)"

definition strength :: "string \<Rightarrow> strength_class" where
  "strength password =
     (if chars_count password < MINIMUM_LENGTH then Weak
      else if bits_below password 50 then Weak
      else if bits_below password 75 then Fair
      else Strong)"

section \<open>Password generation\<close>

definition LOWERCASE :: bytes where "LOWERCASE = ''abcdefghijklmnopqrstuvwxyz''"
definition UPPERCASE :: bytes where "UPPERCASE = ''ABCDEFGHIJKLMNOPQRSTUVWXYZ''"
definition DIGITS :: bytes where "DIGITS = ''0123456789''"
definition SYMBOLS :: bytes where
  "SYMBOLS = [CHR 0x21, CHR 0x22, CHR 0x23, CHR 0x24, CHR 0x25, CHR 0x26, CHR 0x27, CHR 0x28,
     CHR 0x29, CHR 0x2A, CHR 0x2B, CHR 0x2C, CHR 0x2D, CHR 0x2E, CHR 0x2F, CHR 0x3A, CHR 0x3B,
     CHR 0x3C, CHR 0x3D, CHR 0x3E, CHR 0x3F, CHR 0x40, CHR 0x5B, CHR 0x5C, CHR 0x5D, CHR 0x5E,
     CHR 0x5F, CHR 0x60, CHR 0x7B, CHR 0x7C, CHR 0x7D, CHR 0x7E]"

definition MAXIMUM_LENGTH :: nat where "MAXIMUM_LENGTH = 128"

record recipe =
  r_length :: nat
  r_lowercase :: bool
  r_uppercase :: bool
  r_digits :: bool
  r_symbols :: bool

text \<open>
  Rejection sampling. \<open>None\<close> is the loop running out of bytes, which the endless iterator of the
  program never does, or a length outside a byte's range.
\<close>

fun index_loop :: "nat \<Rightarrow> nat \<Rightarrow> char list \<Rightarrow> (nat \<times> char list) option" where
  "index_loop accepted len [] = None"
| "index_loop accepted len (byte # bytes) =
     (if code byte < accepted then Some (code byte mod len, bytes) else index_loop accepted len bytes)"

definition index :: "nat \<Rightarrow> char list \<Rightarrow> (nat \<times> char list) option" where
  "index len bytes =
     (if len = 0 \<or> len > 256 then None else index_loop (256 - 256 mod len) len bytes)"

definition recipe_classes :: "recipe \<Rightarrow> bytes list" where
  "recipe_classes r =
     (if r_lowercase r then [LOWERCASE] else []) @ (if r_uppercase r then [UPPERCASE] else [])
     @ (if r_digits r then [DIGITS] else []) @ (if r_symbols r then [SYMBOLS] else [])"

fun draw_each :: "bytes list \<Rightarrow> char list \<Rightarrow> (bytes \<times> char list) option" where
  "draw_each [] bs = Some ([], bs)"
| "draw_each (cls # rest) bs =
     Option.bind (index (length cls) bs) (\<lambda>(n, bs).
     Option.bind (draw_each rest bs) (\<lambda>(cs, bs). Some (cls ! n # cs, bs)))"

fun shuffle_down :: "nat \<Rightarrow> bytes \<Rightarrow> char list \<Rightarrow> (bytes \<times> char list) option" where
  "shuffle_down 0 cs bs = Some (cs, bs)"
| "shuffle_down (Suc upper) cs bs =
     Option.bind (index (Suc upper + 1) bs) (\<lambda>(other, bs).
       shuffle_down upper (cs[Suc upper := cs ! other, other := cs ! Suc upper]) bs)"

definition generate_password :: "recipe \<Rightarrow> char list \<Rightarrow> secret_string result option" where
  "generate_password r random =
     (if r_length r < MINIMUM_LENGTH then Some (Inl (InvalidRecipe ''length is below the minimum''))
      else if r_length r > MAXIMUM_LENGTH then Some (Inl (InvalidRecipe ''length is above the maximum''))
      else
        let classes = recipe_classes r in
        if classes = [] then Some (Inl (InvalidRecipe ''no character classes are enabled''))
        else
          let alphabet = concat classes in
          Option.bind (draw_each classes random) (\<lambda>(first, bs).
          Option.bind (draw_each (replicate (r_length r - length first) alphabet) bs) (\<lambda>(more, bs).
          Option.bind (shuffle_down (r_length r - 1) (first @ more) bs) (\<lambda>(cs, bs).
            Some (Inr (SecretString cs))))))"

section \<open>The reuse check\<close>

text \<open>The loop invariant: the map holds the first id per digest, the set the ids whose digest repeats.\<close>

definition sharing :: "(bytes \<Rightarrow> bytes) \<Rightarrow> bytes \<Rightarrow> item list \<Rightarrow> bytes \<Rightarrow> uuid set" where
  "sharing sha salt items dg =
     {item_id i |i. i \<in> set items \<and> (\<exists>p. item_password i = Some p \<and> sha (salt @ expose p) = dg)}"

definition repeated :: "(bytes \<Rightarrow> uuid set) \<Rightarrow> uuid set" where
  "repeated C = {k. \<exists>dg. k \<in> C dg \<and> (\<exists>j \<in> C dg. j \<noteq> k)}"

definition reused_inv :: "(bytes \<Rightarrow> uuid set) \<Rightarrow> (bytes \<rightharpoonup> uuid) \<times> uuid set \<Rightarrow> bool" where
  "reused_inv C st \<longleftrightarrow>
     (\<forall>dg. fst st dg = None \<longrightarrow> C dg = {}) \<and> (\<forall>dg k. fst st dg = Some k \<longrightarrow> k \<in> C dg) \<and> snd st = repeated C"

lemma repeated_first: "C dg = {} \<Longrightarrow> repeated (C(dg := {x})) = repeated C"
  by (auto simp: repeated_def fun_upd_apply split: if_splits)

lemma repeated_again:
  assumes "k \<in> C dg" and "x \<notin> C dg"
  shows "repeated (C(dg := insert x (C dg))) = repeated C \<union> {k, x}"
proof
  show "repeated (C(dg := insert x (C dg))) \<subseteq> repeated C \<union> {k, x}"
  proof
    fix y assume "y \<in> repeated (C(dg := insert x (C dg)))"
    then obtain d j where d: "y \<in> (C(dg := insert x (C dg))) d" "j \<in> (C(dg := insert x (C dg))) d" "j \<noteq> y"
      by (auto simp: repeated_def)
    show "y \<in> repeated C \<union> {k, x}"
    proof (cases "d = dg")
      case True
      with d(1) have "y = x \<or> y \<in> C dg" by simp
      moreover have "y \<in> repeated C" if "y \<in> C dg" "y \<noteq> k"
        unfolding repeated_def using that(1) that(2) [symmetric] assms(1) by blast
      ultimately show ?thesis by blast
    next
      case False
      with d(1,2) have "y \<in> C d" "j \<in> C d" by simp_all
      with d(3) show ?thesis unfolding repeated_def by blast
    qed
  qed
  let ?C = "C(dg := insert x (C dg))"
  have more: "C d \<subseteq> ?C d" for d by auto
  have kx: "k \<in> ?C dg" "x \<in> ?C dg" "x \<noteq> k" using assms by auto
  have "y \<in> repeated ?C" if "y \<in> repeated C" for y
    using that more unfolding repeated_def by blast
  moreover have "k \<in> repeated ?C" unfolding repeated_def using kx by blast
  moreover have "x \<in> repeated ?C" unfolding repeated_def using kx(1,2) kx(3) [symmetric] by blast
  ultimately show "repeated C \<union> {k, x} \<subseteq> repeated (C(dg := insert x (C dg)))" by blast
qed

lemma sharing_snoc:
  "sharing sha salt (items @ [i]) =
     (case item_password i of
        None \<Rightarrow> sharing sha salt items
      | Some p \<Rightarrow> (sharing sha salt items)(sha (salt @ expose p) :=
          insert (item_id i) (sharing sha salt items (sha (salt @ expose p)))))"
  by (auto simp: sharing_def fun_eq_iff split: option.splits)

lemma reused_inv_step:
  assumes inv: "reused_inv (sharing sha salt items) st" and new: "item_id i \<notin> item_id ` set items"
  shows "reused_inv (sharing sha salt (items @ [i])) (reused_step sha salt i st)"
proof (cases "item_password i")
  case None
  with inv show ?thesis by (cases st) (simp add: sharing_snoc reused_step_def)
next
  case (Some p)
  let ?dg = "sha (salt @ expose p)"
  let ?C = "sharing sha salt items"
  obtain m r where st: "st = (m, r)" by (cases st)
  have fresh: "item_id i \<notin> ?C ?dg" using new by (auto simp: sharing_def)
  show ?thesis
  proof (cases "m ?dg")
    case None
    with inv st have "?C ?dg = {}" by (simp add: reused_inv_def)
    with inv st None Some show ?thesis
      by (simp add: reused_inv_def reused_step_def sharing_snoc repeated_first fun_upd_apply Let_def)
  next
    case (Some k)
    with inv st have "k \<in> ?C ?dg" by (simp add: reused_inv_def)
    note again = repeated_again [of k ?C ?dg "item_id i", OF this fresh]
    from inv st Some \<open>item_password i = Some p\<close> show ?thesis
      by (auto simp: reused_inv_def reused_step_def sharing_snoc again Let_def fun_upd_apply)
  qed
qed

lemma reused_repeated:
  assumes "distinct (map item_id items)"
  shows "reused sha salt items = repeated (sharing sha salt items)"
proof -
  have "reused_inv (sharing sha salt items) (fold (reused_step sha salt) items (Map.empty, {}))"
    using assms
  proof (induction items rule: rev_induct)
    case Nil
    then show ?case by (simp add: reused_inv_def sharing_def repeated_def)
  next
    case (snoc i items)
    then show ?case by (simp add: reused_inv_step)
  qed
  then show ?thesis by (simp add: reused_inv_def reused_def)
qed

text \<open>
  The reuse check reports exactly the items whose password also protects another item, provided
  the salted digests of the passwords in the vault do not collide.
\<close>

theorem reused_exact:
  assumes "distinct (map item_id items)"
    and "inj_on (\<lambda>p. sha (salt @ p)) {expose p |p. \<exists>i \<in> set items. item_password i = Some p}"
  shows "k \<in> reused sha salt items \<longleftrightarrow>
    (\<exists>i \<in> set items. \<exists>j \<in> set items. item_id i = k \<and> item_id j \<noteq> k \<and>
       item_password i \<noteq> None \<and> item_password i = item_password j)"
proof
  assume "k \<in> reused sha salt items"
  then obtain i j p q where ij: "i \<in> set items" "j \<in> set items" "item_id i = k" "item_id j \<noteq> k"
    "item_password i = Some p" "item_password j = Some q" "sha (salt @ expose p) = sha (salt @ expose q)"
    unfolding reused_repeated [OF assms(1)] repeated_def sharing_def by auto
  then have "expose p = expose q" using inj_onD [OF assms(2), of "expose p" "expose q"] by auto
  then show "\<exists>i \<in> set items. \<exists>j \<in> set items. item_id i = k \<and> item_id j \<noteq> k \<and>
       item_password i \<noteq> None \<and> item_password i = item_password j"
    using ij by (metis option.distinct(1) secret_string.expand)
next
  assume "\<exists>i \<in> set items. \<exists>j \<in> set items. item_id i = k \<and> item_id j \<noteq> k \<and>
       item_password i \<noteq> None \<and> item_password i = item_password j"
  then show "k \<in> reused sha salt items"
    unfolding reused_repeated [OF assms(1)] repeated_def sharing_def by auto metis
qed

theorem reused_exact_witness:
  "7 \<in> reused id ''s'' [sample_item, sample_item\<lparr>item_id := 8\<rparr>] \<longleftrightarrow>
    (\<exists>i \<in> set [sample_item, sample_item\<lparr>item_id := 8\<rparr>]. \<exists>j \<in> set [sample_item, sample_item\<lparr>item_id := 8\<rparr>].
       item_id i = 7 \<and> item_id j \<noteq> 7 \<and> item_password i \<noteq> None \<and> item_password i = item_password j)"
  by (rule reused_exact) (simp_all add: sample_item_def item_new_def inj_on_def)

section \<open>Strength\<close>

lemma short_is_weak: "chars_count password < 12 \<Longrightarrow> strength password = Weak"
  by (simp add: strength_def MINIMUM_LENGTH_def)

lemma strong_needs_length_and_variety:
  "strength password = Strong \<Longrightarrow>
    12 \<le> chars_count password \<and> 2 ^ 75 \<le> charset_size password ^ chars_count password"
  by (auto simp: strength_def bits_below_def MINIMUM_LENGTH_def split: if_splits)

section \<open>Drawing an index\<close>

definition accepted :: "nat \<Rightarrow> nat" where
  "accepted len = 256 - 256 mod len"

lemma accepted_multiple: "accepted len = (256 div len) * len"
  using minus_mod_eq_div_mult [of 256 len] by (simp add: accepted_def)

lemma index_loop_less: "0 < len \<Longrightarrow> index_loop a len bs = Some (n, rest) \<Longrightarrow> n < len"
  by (induction bs) (auto split: if_splits)

lemma index_less: "index len bs = Some (n, rest) \<Longrightarrow> n < len"
  by (auto simp: index_def index_loop_less split: if_splits)

text \<open>The bytes that name one index: one in each of the whole runs of \<open>len\<close> below the cut.\<close>

lemma in_whole_run:
  assumes "q < 256 div len" and "n < len"
  shows "q * len + n < (256 div len) * len" and "code (char_of (q * len + n) :: char) = q * len + n"
proof -
  from assms(1) have "Suc q * len \<le> (256 div len) * len" by (intro mult_le_mono1) simp
  with assms(2) show less: "q * len + n < (256 div len) * len" by simp
  also have "\<dots> \<le> 256" by (rule div_times_less_eq_dividend)
  finally show "code (char_of (q * len + n) :: char) = q * len + n" by (rule code_char_of)
qed

lemma accepted_bytes:
  assumes "0 < len" and "len \<le> 256" and "n < len"
  shows "{b. code b < accepted len \<and> code b mod len = n} = char_of ` ((\<lambda>q. q * len + n) ` {..<256 div len})"
proof (intro set_eqI iffI)
  fix b :: char
  assume "b \<in> {b. code b < accepted len \<and> code b mod len = n}"
  then have b: "code b < (256 div len) * len" "code b mod len = n" using assms by (auto simp: accepted_multiple)
  then have "code b div len < 256 div len" by (simp add: less_mult_imp_div_less)
  moreover have "code b = (code b div len) * len + n" using b(2) by (metis div_mult_mod_eq)
  ultimately have "code b \<in> (\<lambda>q. q * len + n) ` {..<256 div len}" by blast
  then show "b \<in> char_of ` ((\<lambda>q. q * len + n) ` {..<256 div len})"
    by (rule image_eqI [rotated]) simp
next
  fix b :: char
  assume "b \<in> char_of ` ((\<lambda>q. q * len + n) ` {..<256 div len})"
  then obtain q where q: "q < 256 div len" and b: "b = char_of (q * len + n)" by auto
  from in_whole_run [OF q assms(3)] assms show "b \<in> {b. code b < accepted len \<and> code b mod len = n}"
    by (simp add: b accepted_multiple)
qed

text \<open>
  The index drawn is unbiased: of the 256 values of an accepted byte, exactly \<open>256 div len\<close> give
  each index, and a rejected byte is skipped.
\<close>

theorem index_uniform:
  assumes "0 < len" and "len \<le> 256" and "n < len"
  shows "card {b. index len [b] = Some (n, [])} = 256 div len \<and>
    (\<forall>b bs. index len [b] = None \<longrightarrow> index len (b # bs) = index len bs)"
proof -
  have "{b. index len [b] = Some (n, [])} = {b. code b < accepted len \<and> code b mod len = n}"
    using assms by (auto simp: index_def accepted_def split: if_splits)
  then have set: "{b. index len [b] = Some (n, [])} = char_of ` ((\<lambda>q. q * len + n) ` {..<256 div len})"
    unfolding accepted_bytes [OF assms] .
  have "inj_on (\<lambda>q. q * len + n) {..<256 div len}" using assms(1) by (auto simp: inj_on_def)
  moreover have "inj_on (char_of :: nat \<Rightarrow> char) ((\<lambda>q. q * len + n) ` {..<256 div len})"
    using in_whole_run(2) [OF _ assms(3)] by (intro inj_on_inverseI [of _ code]) auto
  ultimately have "card {b. index len [b] = Some (n, [])} = 256 div len"
    unfolding set by (simp add: card_image)
  moreover have "index len [b] = None \<longrightarrow> index len (b # bs) = index len bs" for b bs
    using assms by (simp add: index_def)
  ultimately show ?thesis by blast
qed

theorem index_uniform_witness: "card {b. index 94 [b] = Some (7, [])} = 256 div (94 :: nat)"
  using index_uniform [of 94 7] by simp

section \<open>The generated password\<close>

lemma draw_each_Some:
  "draw_each cs bs = Some (xs, rest) \<Longrightarrow> list_all2 (\<lambda>x c. x \<in> set c) xs cs"
proof (induction cs arbitrary: bs xs)
  case Nil
  then show ?case by simp
next
  case (Cons c cs)
  then obtain n bs' ys where n: "index (length c) bs = Some (n, bs')"
    and "draw_each cs bs' = Some (ys, rest)" and xs: "xs = c ! n # ys"
    by (auto simp: bind_eq_Some_conv)
  with Cons.IH have "list_all2 (\<lambda>x c. x \<in> set c) ys cs" by blast
  with index_less [OF n] xs show ?case by simp
qed

lemma list_all2_replicate_set: "list_all2 (\<lambda>x c. x \<in> set c) xs (replicate n A) \<Longrightarrow> set xs \<subseteq> set A"
  by (induction n arbitrary: xs) (fastforce simp: list_all2_Cons2)+

lemma mset_shuffle_down:
  "shuffle_down n cs bs = Some (cs', rest) \<Longrightarrow> n < length cs \<Longrightarrow> mset cs' = mset cs"
proof (induction n arbitrary: cs bs)
  case 0
  then show ?case by simp
next
  case (Suc n)
  then obtain other bs' where o: "index (Suc n + 1) bs = Some (other, bs')"
    and s: "shuffle_down n (cs[Suc n := cs ! other, other := cs ! Suc n]) bs' = Some (cs', rest)"
    by (auto simp: bind_eq_Some_conv)
  have "other < length cs" using index_less [OF o] Suc.prems(2) by simp
  then have "mset (cs[Suc n := cs ! other, other := cs ! Suc n]) = mset cs"
    using Suc.prems(2) by (metis mset_swap)
  with Suc.IH [OF s] Suc.prems(2) show ?case by simp
qed

text \<open>What a successful generation went through.\<close>

lemma generate_password_Inr:
  assumes "generate_password r random = Some (Inr s)"
  obtains first more bs bs' bs'' where
    "draw_each (recipe_classes r) random = Some (first, bs)"
    "draw_each (replicate (r_length r - length first) (concat (recipe_classes r))) bs = Some (more, bs')"
    "shuffle_down (r_length r - 1) (first @ more) bs' = Some (expose s, bs'')"
    "12 \<le> r_length r" "r_length r \<le> 128" "recipe_classes r \<noteq> []"
proof -
  have "\<not> r_length r < 12 \<and> \<not> 128 < r_length r \<and> recipe_classes r \<noteq> []"
    using assms by (auto simp: generate_password_def Let_def MINIMUM_LENGTH_def MAXIMUM_LENGTH_def split: if_splits)
  moreover from this assms obtain first more bs bs' bs'' cs where
    "draw_each (recipe_classes r) random = Some (first, bs)"
    "draw_each (replicate (r_length r - length first) (concat (recipe_classes r))) bs = Some (more, bs')"
    "shuffle_down (r_length r - 1) (first @ more) bs' = Some (cs, bs'')" "s = SecretString cs"
    by (auto simp: generate_password_def Let_def MINIMUM_LENGTH_def MAXIMUM_LENGTH_def bind_eq_Some_conv)
  ultimately show ?thesis by (intro that) auto
qed

lemma length_classes: "length (recipe_classes r) \<le> 4"
  by (simp add: recipe_classes_def)

text \<open>
  A generated password has the requested length, contains a character of every enabled class and
  none of a disabled one.
\<close>

theorem generate_password_meets_recipe:
  assumes "generate_password r random = Some (Inr s)"
  shows "length (expose s) = r_length r \<and>
    (\<forall>cls \<in> set (recipe_classes r). \<exists>c \<in> set cls. c \<in> set (expose s)) \<and>
    set (expose s) \<subseteq> set (concat (recipe_classes r))"
proof -
  obtain first more bs bs' bs'' where
    first: "draw_each (recipe_classes r) random = Some (first, bs)" and
    more: "draw_each (replicate (r_length r - length first) (concat (recipe_classes r))) bs = Some (more, bs')" and
    shuffled: "shuffle_down (r_length r - 1) (first @ more) bs' = Some (expose s, bs'')" and
    len: "12 \<le> r_length r" using generate_password_Inr [OF assms] by metis
  note f = draw_each_Some [OF first] and m = draw_each_Some [OF more]
  have lf: "length first \<le> 4" using f length_classes [of r] by (simp add: list_all2_lengthD)
  moreover have "length more = r_length r - length first" using m by (simp add: list_all2_lengthD)
  ultimately have total: "length (first @ more) = r_length r" using len by simp
  then have ms: "mset (expose s) = mset (first @ more)"
    using mset_shuffle_down [OF shuffled] len by simp
  have "length (expose s) = r_length r" using ms total by (metis size_mset)
  moreover have "\<exists>c \<in> set cls. c \<in> set (expose s)" if "cls \<in> set (recipe_classes r)" for cls
    using that f mset_eq_setD [OF ms] by (fastforce simp: list_all2_conv_all_nth in_set_conv_nth)
  moreover have "set first \<subseteq> set (concat (recipe_classes r))"
    using f by (fastforce simp: list_all2_conv_all_nth in_set_conv_nth)
  moreover have "set more \<subseteq> set (concat (recipe_classes r))"
    using m by (rule list_all2_replicate_set)
  ultimately show ?thesis using mset_eq_setD [OF ms] by auto
qed

text \<open>Enough randomness always gives a password: a byte below 128 is accepted by every draw.\<close>

definition usable :: "char list \<Rightarrow> nat" where
  "usable bs = length (filter (\<lambda>b. code b < 128) bs)"

lemma accepted_ge: "0 < len \<Longrightarrow> len \<le> 128 \<Longrightarrow> 128 \<le> accepted len"
proof -
  assume "0 < len" "len \<le> 128"
  moreover from this have "256 mod len < len" by (intro mod_less_divisor)
  ultimately have "256 mod len \<le> 128" by linarith
  then show ?thesis unfolding accepted_def by linarith
qed

lemma index_total:
  assumes "0 < len" and "len \<le> 128" and "Suc k \<le> usable bs"
  shows "\<exists>n rest. index len bs = Some (n, rest) \<and> k \<le> usable rest"
proof -
  have "128 \<le> accepted len" using accepted_ge assms by blast
  with assms(3) have "\<exists>n rest. index_loop (accepted len) len bs = Some (n, rest) \<and> k \<le> usable rest"
    by (induction bs) (auto simp: usable_def split: if_splits)
  with assms show ?thesis by (simp add: index_def accepted_def)
qed

lemma draw_each_total:
  "\<forall>c \<in> set cs. 0 < length c \<and> length c \<le> 128 \<Longrightarrow> length cs + k \<le> usable bs \<Longrightarrow>
    \<exists>xs rest. draw_each cs bs = Some (xs, rest) \<and> k \<le> usable rest"
proof (induction cs arbitrary: bs)
  case Nil
  then show ?case by simp
next
  case (Cons c cs)
  then obtain n bs' where "index (length c) bs = Some (n, bs')" "length cs + k \<le> usable bs'"
    using index_total [of "length c" "length cs + k" bs] by auto
  with Cons show ?case by fastforce
qed

lemma shuffle_down_total:
  "n < 128 \<Longrightarrow> n \<le> usable bs \<Longrightarrow> \<exists>cs' rest. shuffle_down n cs bs = Some (cs', rest)"
proof (induction n arbitrary: cs bs)
  case 0
  then show ?case by simp
next
  case (Suc n)
  then obtain other bs' where "index (Suc n + 1) bs = Some (other, bs')" "n \<le> usable bs'"
    using index_total [of "Suc n + 1" n bs] by auto
  with Suc show ?case by fastforce
qed

lemma class_lengths:
  "cls \<in> set (recipe_classes r) \<Longrightarrow> 0 < length cls"
  "length (concat (recipe_classes r)) \<le> 94"
  by (auto simp: recipe_classes_def LOWERCASE_def UPPERCASE_def DIGITS_def SYMBOLS_def split: if_splits)

lemma generate_password_total:
  assumes "12 \<le> r_length r" and "r_length r \<le> 128" and "recipe_classes r \<noteq> []"
    and "2 * r_length r - 1 \<le> usable random"
  shows "\<exists>s. generate_password r random = Some (Inr s)"
proof -
  let ?cs = "recipe_classes r"
  have cls: "\<forall>c \<in> set ?cs. 0 < length c \<and> length c \<le> 128"
  proof
    fix c assume c: "c \<in> set ?cs"
    then have "length c \<le> length (concat ?cs)"
      by (metis (no_types, lifting) concat_append concat.simps(2) le_add1 le_add2 length_append le_trans split_list)
    with class_lengths(2) [of r] have "length c \<le> 128" by linarith
    with class_lengths(1) [OF c] show "0 < length c \<and> length c \<le> 128" by simp
  qed
  have four: "length ?cs \<le> 4" by (rule length_classes)
  with assms have "length ?cs + (2 * r_length r - 1 - length ?cs) \<le> usable random" by simp
  from draw_each_total [OF cls this] obtain first bs where
    first: "draw_each ?cs random = Some (first, bs)" and u1: "2 * r_length r - 1 - length ?cs \<le> usable bs"
    by blast
  have lf: "length first = length ?cs" using draw_each_Some [OF first] by (simp add: list_all2_lengthD)
  have "0 < length (concat ?cs)"
    using assms(3) class_lengths(1) [of "hd ?cs" r] by (cases ?cs) auto
  then have "\<forall>c \<in> set (replicate (r_length r - length first) (concat ?cs)). 0 < length c \<and> length c \<le> 128"
    using class_lengths(2) [of r] by (simp del: length_concat)
  moreover have "length (replicate (r_length r - length first) (concat ?cs)) + (r_length r - 1) \<le> usable bs"
    using u1 four assms(1) by (simp add: lf)
  ultimately obtain more bs' where
    more: "draw_each (replicate (r_length r - length first) (concat ?cs)) bs = Some (more, bs')"
    and u2: "r_length r - 1 \<le> usable bs'" using draw_each_total by blast
  obtain cs bs'' where "shuffle_down (r_length r - 1) (first @ more) bs' = Some (cs, bs'')"
    using shuffle_down_total [of "r_length r - 1" bs' "first @ more"] u2 assms by fastforce
  with first more assms show ?thesis
    by (simp add: generate_password_def MINIMUM_LENGTH_def MAXIMUM_LENGTH_def Let_def)
qed

text \<open>
  With an admissible recipe and twice as many bytes below 128 as the length, generation never
  runs out of randomness: it returns a password.
\<close>

theorem generate_password_returns:
  assumes "12 \<le> r_length r" and "r_length r \<le> 128" and "recipe_classes r \<noteq> []"
    and "2 * r_length r - 1 \<le> usable random"
  shows "\<exists>s. generate_password r random = Some (Inr s)"
  using assms by (rule generate_password_total)

definition sample_recipe :: recipe where
  "sample_recipe = \<lparr>r_length = 12, r_lowercase = True, r_uppercase = False, r_digits = True, r_symbols = False\<rparr>"

theorem generate_password_returns_witness:
  "\<exists>s. generate_password sample_recipe (replicate 23 (CHR ''A'')) = Some (Inr s)"
  by (rule generate_password_returns) (simp_all add: sample_recipe_def recipe_classes_def usable_def)

theorem generate_password_meets_recipe_witness:
  "\<exists>s. length (expose s) = r_length sample_recipe \<and>
    (\<forall>cls \<in> set (recipe_classes sample_recipe). \<exists>c \<in> set cls. c \<in> set (expose s)) \<and>
    set (expose s) \<subseteq> set (concat (recipe_classes sample_recipe))"
proof -
  have "\<exists>s. generate_password sample_recipe (replicate 23 (CHR ''A'')) = Some (Inr s)"
    by (rule generate_password_total) (simp_all add: sample_recipe_def recipe_classes_def usable_def)
  then obtain s where "generate_password sample_recipe (replicate 23 (CHR ''A'')) = Some (Inr s)" ..
  from generate_password_meets_recipe [OF this] show ?thesis by blast
qed

end
