(* ===== verification/Importer.thy ===== *)
theory Importer
  imports Vault_Json Totp
begin

text \<open>
  Reading what other managers export (\<open>crates/yara-core/src/import.rs\<close>): the CSV of Proton Pass
  and the JSON backup of Proton Authenticator. The \<open>csv\<close> crate is a parameter, down to the row it
  deserialises (a column that is absent is the empty string), as are the texts of errors that other
  crates word. A new item takes its id and its time of creation from the draw at its row.
\<close>

record proton_row =
  pr_type :: string
  pr_name :: string
  pr_url :: string
  pr_autofill_urls :: string
  pr_email :: string
  pr_username :: string
  pr_password :: string
  pr_note :: string
  pr_totp :: string
  pr_create_time :: string
  pr_modify_time :: string
  pr_vault :: string

record import_prims =
  i_csv_headers :: "string \<Rightarrow> string list option"
  i_csv_rows :: "string \<Rightarrow> proton_row option list"
  i_float_text :: "int \<Rightarrow> string"
  i_json_error :: "json \<Rightarrow> string"
  i_error_text :: "error \<Rightarrow> string"

record imported =
  im_name :: string
  im_totp :: totp_config
  im_note :: "string option"

record skipped =
  sk_name :: string
  sk_reason :: string

record code_import =
  ci_entries :: "imported list"
  ci_skipped :: "skipped list"

record item_import =
  ii_entries :: "item list"
  ii_skipped :: "skipped list"
  ii_warnings :: "skipped list"

record proton_card =
  pc_cardholder :: string
  pc_type :: string
  pc_number :: string
  pc_verification :: string
  pc_expiration :: string
  pc_pin :: string
  pc_note :: string

definition code_total :: "code_import \<Rightarrow> nat" where
  "code_total i = length (ci_entries i) + length (ci_skipped i)"

definition item_total :: "item_import \<Rightarrow> nat" where
  "item_total i = length (ii_entries i) + length (ii_skipped i)"

section \<open>Cells\<close>

definition plain :: "string \<Rightarrow> string option" where
  "plain s = (let v = trim s in if v = [] then None else Some v)"

definition secret_cell :: "string \<Rightarrow> secret_string option" where
  "secret_cell s = (if s = [] then None else Some (SecretString s))"

definition cell_timestamp :: "string \<Rightarrow> u64 option" where
  "cell_timestamp s =
     (case parse_uint 64 (trim s) of
        None \<Rightarrow> None
      | Some n \<Rightarrow> if n > 0 then Some (of_nat n) else None)"

definition field_secretly :: "field \<Rightarrow> field" where
  "field_secretly f = f\<lparr>field_secret := True\<rparr>"

definition push_field :: "field \<Rightarrow> item \<Rightarrow> item" where
  "push_field f i = i\<lparr>item_fields := item_fields i @ [f]\<rparr>"

definition push_plain_field :: "string \<Rightarrow> string \<Rightarrow> item \<Rightarrow> item" where
  "push_plain_field l s i = (case plain s of None \<Rightarrow> i | Some v \<Rightarrow> push_field (field_new l (SecretString v)) i)"

definition push_secret_field :: "string \<Rightarrow> string \<Rightarrow> item \<Rightarrow> item" where
  "push_secret_field l s i = (if s = [] then i else push_field (field_secretly (field_new l (SecretString s))) i)"

text \<open>\<open>trim_start_matches\<close> of the byte order mark, which is three bytes of UTF-8.\<close>

definition BOM :: string where "BOM = b3 239 187 191"

function trim_bom :: "string \<Rightarrow> string" where
  "trim_bom s = (case strip_prefix BOM s of None \<Rightarrow> s | Some r \<Rightarrow> trim_bom r)"
  by pat_completeness auto

termination by (relation "measure length") (auto simp: strip_prefix_Some BOM_def b3_def)

declare trim_bom.simps [simp del]

section \<open>Proton Pass\<close>

definition warn :: "item \<Rightarrow> string \<Rightarrow> skipped list \<Rightarrow> skipped list" where
  "warn i reason ws = ws @ [\<lparr>sk_name = item_name i, sk_reason = reason\<rparr>]"

definition apply_totp :: "otp_prims \<Rightarrow> proton_row \<Rightarrow> item \<times> skipped list \<Rightarrow> item \<times> skipped list" where
  "apply_totp H row = (\<lambda>(i, ws).
     case plain (pr_totp row) of
       None \<Rightarrow> (i, ws)
     | Some uri \<Rightarrow>
         (case from_uri H uri of
            Inr t \<Rightarrow> (i\<lparr>item_totp := Some t\<rparr>, ws)
          | Inl _ \<Rightarrow> (i, warn i ''the login will be imported, but its two-factor code could not be read'' ws)))"

text \<open>The loop over the further addresses; \<open>seen\<close> is the set of those already taken.\<close>

fun url_fields :: "string option \<Rightarrow> string set \<Rightarrow> string list \<Rightarrow> field list" where
  "url_fields main seen [] = []"
| "url_fields main seen (v # vs) =
     (if main = Some v \<or> v \<in> seen then url_fields main seen vs
      else
        let seen' = insert v seen; number = card seen';
            label = (if number = 1 then ''Additional URL'' else ''Additional URL '' @ show_nat number)
        in field_new label (SecretString v) # url_fields main seen' vs)"

definition apply_common_fields :: "otp_prims \<Rightarrow> proton_row \<Rightarrow> item \<times> skipped list \<Rightarrow> item \<times> skipped list" where
  "apply_common_fields H row = (\<lambda>(i, ws).
     let email = plain (pr_email row); username = plain (pr_username row);
         i1 = i\<lparr>item_username := (if username \<noteq> None then username else email)\<rparr>;
         i2 = (case (email, username) of
                 (Some e, Some u) \<Rightarrow> if e \<noteq> u then push_field (field_new ''Email'' (SecretString e)) i1 else i1
               | _ \<Rightarrow> i1);
         i3 = i2\<lparr>item_password := secret_cell (pr_password row), item_url := plain (pr_url row),
                item_notes := secret_cell (pr_note row)\<rparr>;
         i4 = i3\<lparr>item_fields := item_fields i3 @
                url_fields (item_url i3) {} (List.map_filter plain (split_char (CHR '','') (pr_autofill_urls row)))\<rparr>
     in apply_totp H row (i4, ws))"

text \<open>\<open>string_or_number\<close>: a string, a number (an integer out of range is a float) or a truth value.\<close>

fun string_or_number :: "import_prims \<Rightarrow> json \<Rightarrow> string result" where
  "string_or_number I (JStr s) = Inr s"
| "string_or_number I (JNum n) =
     (if - (2 ^ 63) \<le> n \<and> n < 2 ^ 64 then Inr (show_int n) else Inr (i_float_text I n))"
| "string_or_number I (JBool b) = Inr (if b then ''true'' else ''false'')"
| "string_or_number I _ = Inl Serde"

definition of_card :: "import_prims \<Rightarrow> json \<Rightarrow> proton_card result" where
  "of_card I v = and_then (of_obj v) (\<lambda>kvs.
     and_then (dflt [] of_str (vals ''cardholderName'' kvs)) (\<lambda>holder.
     and_then (dflt [] (string_or_number I) (vals ''cardType'' kvs)) (\<lambda>type.
     and_then (dflt [] of_str (vals ''number'' kvs)) (\<lambda>number.
     and_then (dflt [] of_str (vals ''verificationNumber'' kvs)) (\<lambda>code.
     and_then (dflt [] of_str (vals ''expirationDate'' kvs)) (\<lambda>expires.
     and_then (dflt [] of_str (vals ''pin'' kvs)) (\<lambda>pin.
     and_then (dflt [] of_str (vals ''note'' kvs)) (\<lambda>note.
       Inr \<lparr>pc_cardholder = holder, pc_type = type, pc_number = number, pc_verification = code,
            pc_expiration = expires, pc_pin = pin, pc_note = note\<rparr>))))))))"

definition card_item :: "proton_card \<Rightarrow> item \<Rightarrow> item" where
  "card_item c i =
     (let i1 = push_plain_field ''Cardholder'' (pc_cardholder c) i;
          i2 = push_plain_field ''Card type'' (pc_type c) i1;
          i3 = push_secret_field ''Card number'' (pc_number c) i2;
          i4 = push_secret_field ''Security code'' (pc_verification c) i3;
          i5 = push_plain_field ''Expiration'' (pc_expiration c) i4;
          i6 = push_secret_field ''PIN'' (pc_pin c) i5
      in i6\<lparr>item_notes := secret_cell (pc_note c)\<rparr>)"

definition apply_card_fields :: "prims \<Rightarrow> import_prims \<Rightarrow> otp_prims \<Rightarrow> proton_row \<Rightarrow> item \<times> skipped list \<Rightarrow> item \<times> skipped list" where
  "apply_card_fields P I H row = (\<lambda>(i, ws).
     let i1 = i\<lparr>item_url := plain (pr_url row), item_password := secret_cell (pr_password row)\<rparr> in
     if trim (pr_note row) = [] then apply_totp H row (i1, ws)
     else
       (case (case p_json_parse P (pr_note row) of None \<Rightarrow> Inl Serde | Some v \<Rightarrow> of_card I v) of
          Inr c \<Rightarrow> apply_totp H row (card_item c i1, ws)
        | Inl _ \<Rightarrow>
            apply_totp H row (i1\<lparr>item_notes := secret_cell (pr_note row)\<rparr>,
              warn i1 ''card details were kept in notes because their structure could not be read'' ws)))"

definition apply_timestamps :: "proton_row \<Rightarrow> item \<times> skipped list \<Rightarrow> item \<times> skipped list" where
  "apply_timestamps row = (\<lambda>(i, ws).
     let (i1, ws1) =
       (case cell_timestamp (pr_create_time row) of
          Some t \<Rightarrow> (i\<lparr>item_created_at := t\<rparr>, ws)
        | None \<Rightarrow> (i, if trim (pr_create_time row) \<noteq> []
                      then warn i ''the original creation time could not be read'' ws else ws))
     in (case cell_timestamp (pr_modify_time row) of
           Some t \<Rightarrow> (i1\<lparr>item_updated_at := t\<rparr>, ws1)
         | None \<Rightarrow> (i1, if trim (pr_modify_time row) \<noteq> []
                       then warn i1 ''the original modification time could not be read'' ws1 else ws1)))"

definition proton_pass_item ::
    "prims \<Rightarrow> import_prims \<Rightarrow> otp_prims \<Rightarrow> uuid \<times> u64 \<Rightarrow> proton_row \<Rightarrow> skipped list \<Rightarrow> (skipped + item) \<times> skipped list" where
  "proton_pass_item P I H draw row ws =
     (let name = trim (pr_name row) in
      if name = [] then (Inl \<lparr>sk_name = ''Unnamed item'', sk_reason = ''the item has no name''\<rparr>, ws)
      else
        let i = (item_new (fst draw) (snd draw) name)\<lparr>item_folder := plain (pr_vault row)\<rparr>;
            kind = to_ascii_lowercase (trim (pr_type row));
            finish = (\<lambda>r. case apply_timestamps row r of (i', ws') \<Rightarrow> (Inr i', ws'))
        in if kind = ''login'' \<or> kind = ''alias'' then finish (apply_common_fields H row (i\<lparr>item_kind := Login\<rparr>, ws))
           else if kind = ''custom'' then finish (apply_common_fields H row (i\<lparr>item_kind := Note\<rparr>, ws))
           else if kind = ''creditcard'' then finish (apply_card_fields P I H row (i\<lparr>item_kind := Card\<rparr>, ws))
           else (Inl \<lparr>sk_name = name,
                   sk_reason = (if kind = [] then ''the item type is missing'' else ''this item type is not supported yet'')\<rparr>, ws))"

definition REQUIRED_COLUMNS :: "string list" where
  "REQUIRED_COLUMNS = [''type'', ''name'', ''url'', ''username'', ''password'', ''note'']"

definition pass_row ::
    "prims \<Rightarrow> import_prims \<Rightarrow> otp_prims \<Rightarrow> (nat \<Rightarrow> uuid \<times> u64) \<Rightarrow> nat \<times> proton_row option \<Rightarrow> item_import \<Rightarrow> item_import" where
  "pass_row P I H draw = (\<lambda>(position, record) imp.
     case record of
       None \<Rightarrow> imp\<lparr>ii_skipped := ii_skipped imp @
         [\<lparr>sk_name = ''CSV row '' @ show_nat (position + 2), sk_reason = ''that CSV row could not be read''\<rparr>]\<rparr>
     | Some row \<Rightarrow>
         (case proton_pass_item P I H (draw position) row (ii_warnings imp) of
            (Inr i, ws) \<Rightarrow> imp\<lparr>ii_warnings := ws, ii_entries := ii_entries imp @ [i]\<rparr>
          | (Inl problem, ws) \<Rightarrow> imp\<lparr>ii_warnings := ws, ii_skipped := ii_skipped imp @ [problem]\<rparr>))"

definition from_proton_pass ::
    "prims \<Rightarrow> import_prims \<Rightarrow> otp_prims \<Rightarrow> (nat \<Rightarrow> uuid \<times> u64) \<Rightarrow> string \<Rightarrow> item_import result" where
  "from_proton_pass P I H draw given =
     (let txt = trim_bom given in
      case i_csv_headers I txt of
        None \<Rightarrow> Inl (Malformed ''not a Proton Pass CSV export'')
      | Some headers \<Rightarrow>
          if \<not> set REQUIRED_COLUMNS \<subseteq> set headers then Inl (Malformed ''not a Proton Pass CSV export'')
          else Inr (fold (pass_row P I H draw) (enumerate 0 (i_csv_rows I txt))
                 \<lparr>ii_entries = [], ii_skipped = [], ii_warnings = []\<rparr>))"

section \<open>Proton Authenticator\<close>

record proton_content =
  pt_uri :: string
  pt_entry_type :: string
  pt_name :: string

record proton_entry =
  pe_content :: proton_content
  pe_note :: "string option"

definition of_content :: "json \<Rightarrow> proton_content result" where
  "of_content v = and_then (of_obj v) (\<lambda>kvs.
     and_then (req of_str (held ''uri'' kvs)) (\<lambda>uri.
     and_then (dflt [] of_str (held ''entry_type'' kvs)) (\<lambda>type.
     and_then (dflt [] of_str (held ''name'' kvs)) (\<lambda>name.
       Inr \<lparr>pt_uri = uri, pt_entry_type = type, pt_name = name\<rparr>))))"

definition of_proton_entry :: "json \<Rightarrow> proton_entry result" where
  "of_proton_entry v = and_then (of_obj v) (\<lambda>kvs.
     and_then (req of_content (held ''content'' kvs)) (\<lambda>content.
     and_then (dflt None (of_nullable of_str) (held ''note'' kvs)) (\<lambda>note.
       Inr \<lparr>pe_content = content, pe_note = note\<rparr>)))"

definition of_backup :: "json \<Rightarrow> json list result" where
  "of_backup v = and_then (of_obj v) (\<lambda>kvs. req (of_arr Inr) (vals ''entries'' kvs))"

definition raw_name :: "json \<Rightarrow> nat \<Rightarrow> string" where
  "raw_name raw nr =
     (case Option.bind (Option.bind (Option.bind (json_get ''content'' raw) (json_get ''name'')) as_str) plain of
        Some name \<Rightarrow> name
      | None \<Rightarrow> ''entry '' @ show_nat nr)"

definition pick_name :: "otp_prims \<Rightarrow> proton_content \<Rightarrow> string" where
  "pick_name H c =
     (case plain (pt_name c) of
        Some name \<Rightarrow> name
      | None \<Rightarrow>
          (case from_uri H (pt_uri c) of
             Inl _ \<Rightarrow> ''Untitled''
           | Inr t \<Rightarrow>
               (case Option.bind (otp_issuer t) plain of
                  Some issuer \<Rightarrow> issuer
                | None \<Rightarrow> (case Option.bind (otp_account t) plain of Some account \<Rightarrow> account | None \<Rightarrow> ''Untitled''))))"

definition code_row :: "import_prims \<Rightarrow> otp_prims \<Rightarrow> nat \<times> json \<Rightarrow> code_import \<Rightarrow> code_import" where
  "code_row I H = (\<lambda>(position, raw) imp.
     let skip = (\<lambda>name reason. imp\<lparr>ci_skipped := ci_skipped imp @ [\<lparr>sk_name = name, sk_reason = reason\<rparr>]\<rparr>) in
     case of_proton_entry raw of
       Inl _ \<Rightarrow> skip (raw_name raw (position + 1)) (i_json_error I raw)
     | Inr e \<Rightarrow>
         let label = pick_name H (pe_content e); kind = pt_entry_type (pe_content e) in
         if \<not> eq_ignore_ascii_case kind ''totp'' then skip label (kind @ '' codes are not supported yet'')
         else (case from_uri H (pt_uri (pe_content e)) of
           Inr t \<Rightarrow> imp\<lparr>ci_entries := ci_entries imp @ [\<lparr>im_name = label, im_totp = t,
               im_note = (case pe_note e of None \<Rightarrow> None | Some n \<Rightarrow> if trim n = [] then None else Some n)\<rparr>]\<rparr>
         | Inl e' \<Rightarrow> skip label (i_error_text I e')))"

definition from_proton_authenticator :: "prims \<Rightarrow> import_prims \<Rightarrow> otp_prims \<Rightarrow> string \<Rightarrow> code_import result" where
  "from_proton_authenticator P I H given =
     (case (case p_json_parse P (trim (trim_bom given)) of None \<Rightarrow> Inl Serde | Some v \<Rightarrow> of_backup v) of
        Inl _ \<Rightarrow> Inl (Malformed ''not a Proton backup'')
      | Inr raws \<Rightarrow> Inr (fold (code_row I H) (enumerate 0 raws) \<lparr>ci_entries = [], ci_skipped = []\<rparr>))"

section \<open>Nothing is dropped\<close>

text \<open>What the steps on an item leave alone.\<close>

lemma push_field_simps [simp]:
  "item_name (push_field f i) = item_name i" "item_kind (push_field f i) = item_kind i"
  "item_password (push_field f i) = item_password i" "item_id (push_field f i) = item_id i"
  by (simp_all add: push_field_def)

lemma push_cell_simps [simp]:
  "item_id (push_plain_field l s i) = item_id i" "item_id (push_secret_field l s i) = item_id i"
  "item_name (push_plain_field l s i) = item_name i" "item_name (push_secret_field l s i) = item_name i"
  "item_kind (push_plain_field l s i) = item_kind i" "item_kind (push_secret_field l s i) = item_kind i"
  "item_password (push_plain_field l s i) = item_password i" "item_password (push_secret_field l s i) = item_password i"
  by (auto simp: push_plain_field_def push_secret_field_def split: option.splits)

definition same_login :: "item \<Rightarrow> item \<Rightarrow> bool" where
  "same_login i j \<longleftrightarrow> item_id i = item_id j \<and> item_name i = item_name j \<and> item_kind i = item_kind j \<and>
     item_password i = item_password j"

lemma card_item_same: "same_login (card_item c i) i"
  by (simp add: card_item_def Let_def same_login_def)

lemma apply_totp_keeps:
  "apply_totp H row (i, ws) = (i', ws') \<Longrightarrow> same_login i' i \<and> item_notes i' = item_notes i"
  by (auto simp: apply_totp_def same_login_def split: option.splits sum.splits)

lemma apply_common_keeps:
  "apply_common_fields H row (i, ws) = (i', ws') \<Longrightarrow>
     same_login i' (i\<lparr>item_password := secret_cell (pr_password row)\<rparr>) \<and> item_notes i' = secret_cell (pr_note row)"
  by (auto simp: apply_common_fields_def Let_def same_login_def dest!: apply_totp_keeps split: option.splits if_splits)

definition card_read :: "prims \<Rightarrow> import_prims \<Rightarrow> string \<Rightarrow> bool" where
  "card_read P I note \<longleftrightarrow> (\<exists>v c. p_json_parse P note = Some v \<and> of_card I v = Inr c)"

lemma apply_card_keeps:
  assumes "apply_card_fields P I H row (i, ws) = (i', ws')"
  shows "same_login i' (i\<lparr>item_password := secret_cell (pr_password row)\<rparr>)"
    and "trim (pr_note row) \<noteq> [] \<Longrightarrow> \<not> card_read P I (pr_note row) \<Longrightarrow> item_notes i' = secret_cell (pr_note row)"
  using assms card_item_same
  by (auto simp: apply_card_fields_def Let_def same_login_def card_read_def dest!: apply_totp_keeps
      split: option.splits if_splits sum.splits)

lemma apply_timestamps_keeps:
  "apply_timestamps row (i, ws) = (i', ws') \<Longrightarrow> same_login i' i \<and> item_notes i' = item_notes i"
  by (auto simp: apply_timestamps_def Let_def same_login_def split: option.splits if_splits prod.splits)

text \<open>A row an item can be made of, and what the item carries over from it exactly.\<close>

definition row_kind :: "proton_row \<Rightarrow> string" where
  "row_kind row = to_ascii_lowercase (trim (pr_type row))"

definition importable :: "proton_row \<Rightarrow> bool" where
  "importable row \<longleftrightarrow> trim (pr_name row) \<noteq> [] \<and> row_kind row \<in> {''login'', ''alias'', ''custom'', ''creditcard''}"

definition carries_row :: "prims \<Rightarrow> import_prims \<Rightarrow> uuid \<Rightarrow> proton_row \<Rightarrow> item \<Rightarrow> bool" where
  "carries_row P I k row i \<longleftrightarrow> item_id i = k \<and> item_name i = trim (pr_name row) \<and>
     item_password i = (if pr_password row = [] then None else Some (SecretString (pr_password row))) \<and>
     (pr_note row \<noteq> [] \<longrightarrow> item_notes i = Some (SecretString (pr_note row)) \<or>
        row_kind row = ''creditcard'' \<and> (trim (pr_note row) = [] \<or> card_read P I (pr_note row)))"

lemma common_carries:
  assumes "item_id i = k" "item_name i = trim (pr_name row)"
  obtains i' ws' where "apply_timestamps row (apply_common_fields H row (i, ws)) = (i', ws')" "carries_row P I k row i'"
proof -
  obtain j wsj where j: "apply_common_fields H row (i, ws) = (j, wsj)" by fastforce
  obtain i' ws' where i': "apply_timestamps row (j, wsj) = (i', ws')" by fastforce
  from apply_common_keeps [OF j] apply_timestamps_keeps [OF i'] assms have "carries_row P I k row i'"
    by (simp add: carries_row_def same_login_def secret_cell_def)
  with that j i' show thesis by simp
qed

lemma card_carries:
  assumes "item_id i = k" "item_name i = trim (pr_name row)" "row_kind row = ''creditcard''"
  obtains i' ws' where "apply_timestamps row (apply_card_fields P I H row (i, ws)) = (i', ws')" "carries_row P I k row i'"
proof -
  obtain j wsj where j: "apply_card_fields P I H row (i, ws) = (j, wsj)" by fastforce
  obtain i' ws' where i': "apply_timestamps row (j, wsj) = (i', ws')" by fastforce
  from apply_card_keeps(1) [OF j] apply_timestamps_keeps [OF i'] assms
  have same: "item_id i' = k" "item_name i' = trim (pr_name row)" "item_password i' = secret_cell (pr_password row)"
    "item_notes i' = item_notes j" by (simp_all add: same_login_def)
  with apply_card_keeps(2) [OF j] assms(3) have "carries_row P I k row i'"
    by (cases "trim (pr_note row) = []"; cases "card_read P I (pr_note row)") (simp_all add: carries_row_def secret_cell_def)
  with that j i' show thesis by simp
qed

lemma pass_item_carries:
  assumes "importable row"
  obtains i ws' where "proton_pass_item P I H draw row ws = (Inr i, ws')" "carries_row P I (fst draw) row i"
proof -
  let ?i = "\<lambda>kind. (item_new (fst draw) (snd draw) (trim (pr_name row)))\<lparr>item_folder := plain (pr_vault row), item_kind := kind\<rparr>"
  have i: "item_id (?i kind) = fst draw" "item_name (?i kind) = trim (pr_name row)" for kind
    by (simp_all add: item_new_def)
  consider "row_kind row \<in> {''login'', ''alias''}" | "row_kind row = ''custom''" | "row_kind row = ''creditcard''"
    using assms by (auto simp: importable_def)
  then show thesis
  proof cases
    case 1
    obtain i' ws' where "apply_timestamps row (apply_common_fields H row (?i Login, ws)) = (i', ws')" "carries_row P I (fst draw) row i'"
      by (rule common_carries [OF i])
    with 1 assms show thesis
      by (intro that [of i' ws']) (auto simp: proton_pass_item_def Let_def importable_def row_kind_def)
  next
    case 2
    obtain i' ws' where "apply_timestamps row (apply_common_fields H row (?i Note, ws)) = (i', ws')" "carries_row P I (fst draw) row i'"
      by (rule common_carries [OF i])
    with 2 assms show thesis
      by (intro that [of i' ws']) (auto simp: proton_pass_item_def Let_def importable_def row_kind_def)
  next
    case 3
    obtain i' ws' where "apply_timestamps row (apply_card_fields P I H row (?i Card, ws)) = (i', ws')" "carries_row P I (fst draw) row i'"
      by (rule card_carries [OF i 3])
    with 3 assms show thesis
      by (intro that [of i' ws']) (auto simp: proton_pass_item_def Let_def importable_def row_kind_def)
  qed
qed

lemma pass_row_counts:
  "item_total (pass_row P I H draw nr imp) = Suc (item_total imp) \<and> set (ii_entries imp) \<subseteq> set (ii_entries (pass_row P I H draw nr imp))"
  by (auto simp: pass_row_def item_total_def split: prod.splits option.splits sum.splits)

lemma pass_row_carries:
  assumes "importable row"
  shows "\<exists>i \<in> set (ii_entries (pass_row P I H draw (n, Some row) imp)). carries_row P I (fst (draw n)) row i"
proof -
  obtain i ws' where "proton_pass_item P I H (draw n) row (ii_warnings imp) = (Inr i, ws')" "carries_row P I (fst (draw n)) row i"
    by (rule pass_item_carries [OF assms])
  then show ?thesis by (simp add: pass_row_def)
qed

lemma pass_rows:
  fixes imp :: item_import and P I H draw
  defines "res \<equiv> \<lambda>n rows imp. fold (pass_row P I H draw) (enumerate n rows) imp"
  shows "item_total (res n rows imp) = item_total imp + length rows \<and> set (ii_entries imp) \<subseteq> set (ii_entries (res n rows imp)) \<and>
    (\<forall>k row. k < length rows \<longrightarrow> rows ! k = Some row \<longrightarrow> importable row \<longrightarrow>
       (\<exists>i \<in> set (ii_entries (res n rows imp)). carries_row P I (fst (draw (n + k))) row i))"
proof (induction rows arbitrary: n imp)
  case Nil
  then show ?case by (simp add: res_def)
next
  case (Cons r rows)
  define imp1 where "imp1 = pass_row P I H draw (n, r) imp"
  have step: "res n (r # rows) imp = res (Suc n) rows imp1" by (simp add: res_def imp1_def)
  have one: "item_total imp1 = Suc (item_total imp)" "set (ii_entries imp) \<subseteq> set (ii_entries imp1)"
    using pass_row_counts [of P I H draw "(n, r)" imp] by (simp_all add: imp1_def)
  note IH = Cons.IH [of "Suc n" imp1]
  have "\<exists>i \<in> set (ii_entries (res (Suc n) rows imp1)). carries_row P I (fst (draw (n + k))) row i"
    if "k < Suc (length rows)" "(r # rows) ! k = Some row" "importable row" for k row
  proof (cases k)
    case 0
    with that pass_row_carries [of row P I H draw n imp] IH show ?thesis by (auto simp: imp1_def)
  next
    case (Suc j)
    with that IH show ?thesis by (metis Suc_less_eq add_Suc_right add_Suc nth_Cons_Suc)
  qed
  with one IH show ?case unfolding step by auto
qed

text \<open>
  An import of a Proton Pass export accounts for every row of the file, as an item or as a skipped
  entry, and a row that has a name and a known type is an item, under its own id, with its name,
  its password and its note to the last character, save the note of a card whose details were split
  into fields.
\<close>

theorem pass_import_complete:
  assumes "from_proton_pass P I H draw given = Inr imp"
  shows "item_total imp = length (i_csv_rows I (trim_bom given)) \<and>
    (\<forall>k row. k < length (i_csv_rows I (trim_bom given)) \<longrightarrow> i_csv_rows I (trim_bom given) ! k = Some row \<longrightarrow> importable row \<longrightarrow>
       (\<exists>i \<in> set (ii_entries imp). carries_row P I (fst (draw k)) row i))"
  using assms pass_rows [where rows = "i_csv_rows I (trim_bom given)" and imp = "\<lparr>ii_entries = [], ii_skipped = [], ii_warnings = []\<rparr>" and P = P and I = I and H = H and draw = draw and n = 0]
  by (auto simp: from_proton_pass_def Let_def item_total_def split: option.splits if_splits)

text \<open>The backup of codes is accounted for the same way, and every skip says why.\<close>

lemma code_row_counts: "code_total (code_row I H nr imp) = Suc (code_total imp)"
  by (simp add: code_row_def code_total_def Let_def split: prod.splits sum.splits)

lemma code_rows: "code_total (fold (code_row I H) (enumerate n raws) imp) = code_total imp + length raws"
  by (induction raws arbitrary: n imp) (simp_all add: code_row_counts)

theorem code_import_complete:
  assumes "p_json_parse P (trim (trim_bom given)) = Some v" "of_backup v = Inr raws"
  shows "\<exists>imp. from_proton_authenticator P I H given = Inr imp \<and> code_total imp = length raws"
  using assms code_rows [of I H 0 raws "\<lparr>ci_entries = [], ci_skipped = []\<rparr>"]
  by (simp add: from_proton_authenticator_def code_total_def)

section \<open>A sample\<close>

definition sample_proton_row :: proton_row where
  "sample_proton_row = \<lparr>pr_type = ''login'', pr_name = ''mail'', pr_url = [], pr_autofill_urls = [], pr_email = [], pr_username = ''me'',
     pr_password = '' pw '', pr_note = ''n'', pr_totp = [], pr_create_time = [], pr_modify_time = [], pr_vault = []\<rparr>"

definition sample_import :: "proton_row option list \<Rightarrow> import_prims" where
  "sample_import rows = \<lparr>i_csv_headers = (\<lambda>_. Some REQUIRED_COLUMNS), i_csv_rows = (\<lambda>_. rows), i_float_text = (\<lambda>_. []),
     i_json_error = (\<lambda>_. []), i_error_text = (\<lambda>_. [])\<rparr>"

lemma sample_trims: "trim ''mail'' = ''mail''" "trim ''login'' = ''login''" "trim ''me'' = ''me''"
  by (rule trim_no_whitespace, simp add: utf8_width_def is_whitespace_ascii)+

lemma pass_import_complete_witness:
  "\<exists>imp. from_proton_pass (sample_prims JNull JNull) (sample_import [None, Some sample_proton_row]) sample_otp (\<lambda>n. (of_nat n, 5)) ''csv'' = Inr imp \<and>
     item_total imp = 2 \<and> (\<exists>i \<in> set (ii_entries imp). item_password i = Some (SecretString '' pw ''))"
proof -
  let ?I = "sample_import [None, Some sample_proton_row]"
  obtain imp where imp: "from_proton_pass (sample_prims JNull JNull) ?I sample_otp (\<lambda>n. (of_nat n, 5)) ''csv'' = Inr imp"
    by (simp add: from_proton_pass_def sample_import_def)
  have "importable sample_proton_row"
    by (simp add: importable_def row_kind_def sample_proton_row_def sample_trims to_ascii_lowercase_def ascii_lower_def is_ascii_uppercase_def)
  with pass_import_complete [OF imp] imp show ?thesis
    by (auto simp: sample_import_def carries_row_def sample_proton_row_def all_conj_distrib numeral_2_eq_2 less_Suc_eq)
qed

end
