(* ===== verification/Import_Flow.thy ===== *)
theory Import_Flow
  imports Importer App_State Sync_Auth
begin

text \<open>
  Importing into the open vault (\<open>apps/desktop/src-tauri/src/lib.rs\<close>, the import commands): a preview
  that changes nothing, the edits the user made to it, and the run that writes what the preview
  called ready. The file is its text, or nothing when it cannot be read.
\<close>

datatype import_source = ProtonAuthenticator | ProtonPass

record import_candidate =
  cand_index :: nat
  cand_name :: string
  cand_folder :: "string option"

record import_preview =
  pv_source :: import_source
  pv_token :: string
  pv_ready :: "import_candidate list"
  pv_duplicates :: "string list"
  pv_skipped :: "skipped list"
  pv_warnings :: "skipped list"

record import_edit =
  ie_index :: nat
  ie_name :: string
  ie_folder :: "string option"

datatype import_file = Authenticator code_import | PassExport item_import

section \<open>Reading the file\<close>

text \<open>The first line as \<open>str::lines\<close> gives it: a carriage return goes with the newline after it.\<close>

definition first_line :: "string \<Rightarrow> string" where
  "first_line s =
     (case split_once (CHR 0x0A) s of
        None \<Rightarrow> s
      | Some (line, _) \<Rightarrow> if line \<noteq> [] \<and> last line = CHR 0x0D then butlast line else line)"

definition path_extension :: "string \<Rightarrow> string option" where
  "path_extension f =
     (case path_components f of
        [] \<Rightarrow> None
      | cs \<Rightarrow> if last cs = ''..'' then None
              else (case rsplit_once (CHR ''.'') (last cs) of
                Some (stem, ext) \<Rightarrow> if stem = [] then None else Some ext
              | None \<Rightarrow> None))"

definition import_file_token :: "prims \<Rightarrow> string \<Rightarrow> string" where
  "import_file_token P s = hex (p_sha256 P s)"

definition is_csv_export :: "string \<Rightarrow> string \<Rightarrow> bool" where
  "is_csv_export path s \<longleftrightarrow>
     (let header = first_line (trim_bom s) in
        starts_with header ''type,'' \<and> ''password'' \<in> set (split_char (CHR '','') header)) \<or>
     (case path_extension path of Some ext \<Rightarrow> eq_ignore_ascii_case ext ''csv'' | None \<Rightarrow> False)"

definition as_app :: "'a result \<Rightarrow> 'a app_result" where
  "as_app r = (case r of Inl e \<Rightarrow> Inl (CoreError e) | Inr x \<Rightarrow> Inr x)"

definition read_import ::
    "prims \<Rightarrow> import_prims \<Rightarrow> otp_prims \<Rightarrow> (nat \<Rightarrow> uuid \<times> u64) \<Rightarrow> string \<Rightarrow> string option \<Rightarrow> (import_file \<times> string) app_result" where
  "read_import P I H draw path content =
     (case content of
        None \<Rightarrow> Inl (AppError ''could not read that file'')
      | Some s \<Rightarrow>
          let token = import_file_token P s in
          if is_csv_export path s
          then and_then (as_app (from_proton_pass P I H draw s)) (\<lambda>i. Inr (PassExport i, token))
          else and_then (as_app (from_proton_authenticator P I H s)) (\<lambda>i. Inr (Authenticator i, token)))"

section \<open>Duplicates\<close>

definition same_import_item :: "item \<Rightarrow> item \<Rightarrow> bool" where
  "same_import_item h c \<longleftrightarrow>
     (let credential_bearing = item_username c \<noteq> None \<or> item_password c \<noteq> None \<or> item_url c \<noteq> None \<or>
        item_totp c \<noteq> None \<or> item_fields c \<noteq> []
      in item_name h = item_name c \<and> item_kind h = item_kind c \<and> item_username h = item_username c \<and>
         item_password h = item_password c \<and> item_url h = item_url c \<and> item_totp h = item_totp c \<and>
         item_fields h = item_fields c \<and> (credential_bearing \<or> item_notes h = item_notes c))"

definition held_seeds :: "vault_data \<Rightarrow> string set" where
  "held_seeds d = set (map (\<lambda>t. expose (otp_secret t)) (List.map_filter item_totp (vd_items d)))"

section \<open>The preview\<close>

definition preview_code :: "nat \<times> imported \<Rightarrow> string set \<times> import_preview \<Rightarrow> string set \<times> import_preview" where
  "preview_code = (\<lambda>(index, e) (existing, pv).
     let seed = expose (otp_secret (im_totp e)) in
     if seed \<notin> existing
     then (insert seed existing,
           pv\<lparr>pv_ready := pv_ready pv @ [\<lparr>cand_index = index, cand_name = im_name e, cand_folder = None\<rparr>]\<rparr>)
     else (existing, pv\<lparr>pv_duplicates := pv_duplicates pv @ [im_name e]\<rparr>))"

definition preview_item :: "nat \<times> item \<Rightarrow> item list \<times> import_preview \<Rightarrow> item list \<times> import_preview" where
  "preview_item = (\<lambda>(index, i) (existing, pv).
     if list_ex (\<lambda>h. same_import_item h i) existing
     then (existing, pv\<lparr>pv_duplicates := pv_duplicates pv @ [item_name i]\<rparr>)
     else (existing @ [i],
           pv\<lparr>pv_ready := pv_ready pv @ [\<lparr>cand_index = index, cand_name = item_name i, cand_folder = item_folder i\<rparr>]\<rparr>))"

definition preview_import ::
    "prims \<Rightarrow> import_prims \<Rightarrow> otp_prims \<Rightarrow> (nat \<Rightarrow> uuid \<times> u64) \<Rightarrow> string \<Rightarrow> string option \<Rightarrow> app_state \<Rightarrow> import_preview app_result" where
  "preview_import P I H draw path content s =
     and_then (read_import P I H draw path content) (\<lambda>(file, token).
       case file of
         Authenticator imp \<Rightarrow>
           and_then (with_vault (\<lambda>v. Inr (held_seeds (uv_data v))) s) (\<lambda>existing.
             Inr (snd (fold preview_code (enumerate 0 (ci_entries imp))
               (existing, \<lparr>pv_source = ProtonAuthenticator, pv_token = token, pv_ready = [], pv_duplicates = [],
                  pv_skipped = ci_skipped imp, pv_warnings = []\<rparr>))))
       | PassExport imp \<Rightarrow>
           and_then (with_vault (\<lambda>v. Inr (vd_items (uv_data v))) s) (\<lambda>existing.
             Inr (snd (fold preview_item (enumerate 0 (ii_entries imp))
               (existing, \<lparr>pv_source = ProtonPass, pv_token = token, pv_ready = [], pv_duplicates = [],
                  pv_skipped = ii_skipped imp, pv_warnings = ii_warnings imp\<rparr>)))))"

section \<open>The run\<close>

type_synonym edits = "nat \<rightharpoonup> import_edit"

fun check_edits :: "import_edit list \<Rightarrow> edits \<Rightarrow> edits app_result" where
  "check_edits [] checked = Inr checked"
| "check_edits (e # es) checked =
     (let name = trim (ie_name e) in
      if name = [] then Inl (AppError ''every imported item needs a name'')
      else
        let e' = e\<lparr>ie_name := name, ie_folder := Option.bind (ie_folder e) plain\<rparr>
        in if checked (ie_index e) \<noteq> None then Inl (AppError ''the import contains the same edit more than once'')
           else check_edits es (checked(ie_index e \<mapsto> e')))"

definition checked_import_edits :: "import_edit list \<Rightarrow> edits app_result" where
  "checked_import_edits es = check_edits es Map.empty"

definition apply_import_edit :: "edits \<Rightarrow> nat \<Rightarrow> item \<Rightarrow> item" where
  "apply_import_edit edits index i =
     (case edits index of None \<Rightarrow> i | Some e \<Rightarrow> i\<lparr>item_name := ie_name e, item_folder := ie_folder e\<rparr>)"

definition code_item :: "uuid \<times> u64 \<Rightarrow> imported \<Rightarrow> item" where
  "code_item draw e = (item_new (fst draw) (snd draw) (im_name e))
     \<lparr>item_kind := Login, item_username := otp_account (im_totp e),
      item_notes := map_option SecretString (im_note e), item_totp := Some (im_totp e)\<rparr>"

definition run_code ::
    "edits \<Rightarrow> (nat \<Rightarrow> uuid \<times> u64) \<Rightarrow> nat \<times> imported \<Rightarrow> string set \<times> vault_data \<times> nat \<Rightarrow> string set \<times> vault_data \<times> nat" where
  "run_code edits draw = (\<lambda>(index, e) (existing, d, added).
     let seed = expose (otp_secret (im_totp e)) in
     if seed \<in> existing then (existing, d, added)
     else (insert seed existing, fst (add_item (apply_import_edit edits index (code_item (draw index) e)) d), added + 1))"

definition run_item :: "edits \<Rightarrow> nat \<times> item \<Rightarrow> vault_data \<times> nat \<Rightarrow> vault_data \<times> nat" where
  "run_item edits = (\<lambda>(index, given) (d, added).
     let i = apply_import_edit edits index given in
     if list_ex (\<lambda>h. same_import_item h i) (vd_items d) then (d, added)
     else
       let d' = (case item_folder i of Some folder \<Rightarrow> fst (create_folder folder d) | None \<Rightarrow> d)
       in (fst (add_item i d'), added + 1))"

definition import_into :: "edits \<Rightarrow> (nat \<Rightarrow> uuid \<times> u64) \<Rightarrow> import_file \<Rightarrow> vault_data \<Rightarrow> vault_data \<times> nat" where
  "import_into edits draw file d =
     (case file of
        Authenticator imp \<Rightarrow> snd (fold (run_code edits draw) (enumerate 0 (ci_entries imp)) (held_seeds d, d, 0))
      | PassExport imp \<Rightarrow> fold (run_item edits) (enumerate 0 (ii_entries imp)) (d, 0))"

definition run_import ::
    "prims \<Rightarrow> import_prims \<Rightarrow> otp_prims \<Rightarrow> (nat \<Rightarrow> uuid \<times> u64) \<Rightarrow> bytes \<Rightarrow> string \<Rightarrow> string option \<Rightarrow> string \<Rightarrow>
     import_edit list \<Rightarrow> app_state \<Rightarrow> app_state \<times> nat app_result" where
  "run_import P I H draw nonce path content expected es s =
     (case checked_import_edits es of
        Inl e \<Rightarrow> (s, Inl e)
      | Inr edits \<Rightarrow>
          (case read_import P I H draw path content of
             Inl e \<Rightarrow> (s, Inl e)
           | Inr (file, token) \<Rightarrow>
               if token \<noteq> expected
               then (s, Inl (AppError ''that export changed after the preview; choose it again to review the current contents''))
               else and_do
                 (with_vault_mut (\<lambda>v. case import_into edits draw file (uv_data v) of
                    (d, added) \<Rightarrow> (v\<lparr>uv_data := d\<rparr>, Inr added)) s)
                 (\<lambda>added s1. if added > 0 then and_do (save_vault P nonce s1) (\<lambda>_ s2. (s2, Inr added))
                             else (s1, Inr added))))"

section \<open>Two readings of one file\<close>

text \<open>
  Reading a file again draws new ids and new times; everything else of the items is the same.
\<close>

definition alike :: "item \<Rightarrow> item \<Rightarrow> bool" where
  "alike i j \<longleftrightarrow> item_name i = item_name j \<and> item_kind i = item_kind j \<and> item_username i = item_username j \<and>
     item_password i = item_password j \<and> item_url i = item_url j \<and> item_notes i = item_notes j \<and>
     item_totp i = item_totp j \<and> item_fields i = item_fields j \<and> item_folder i = item_folder j"

definition alike_pair :: "item \<times> skipped list \<Rightarrow> item \<times> skipped list \<Rightarrow> bool" where
  "alike_pair p q \<longleftrightarrow> alike (fst p) (fst q) \<and> snd p = snd q"

lemma alike_refl [simp]: "alike i i"
  by (simp add: alike_def)

lemma alike_same: "alike h h' \<Longrightarrow> alike c c' \<Longrightarrow> same_import_item h c = same_import_item h' c'"
  by (simp add: same_import_item_def alike_def Let_def)

lemma alike_is_same: "alike h c \<Longrightarrow> same_import_item h c"
  by (simp add: same_import_item_def alike_def Let_def)

lemma alike_totp: "alike_pair p q \<Longrightarrow> alike_pair (apply_totp H row p) (apply_totp H row q)"
  by (cases p; cases q) (auto simp: alike_pair_def apply_totp_def alike_def warn_def split: option.splits sum.splits)

lemma alike_common: "alike_pair p q \<Longrightarrow> alike_pair (apply_common_fields H row p) (apply_common_fields H row q)"
  by (cases p; cases q)
     (auto simp: apply_common_fields_def Let_def intro!: alike_totp split: option.splits,
      auto simp: alike_pair_def alike_def push_field_def)

lemma alike_push:
  "alike i j \<Longrightarrow> alike (push_plain_field l c i) (push_plain_field l c j)"
  "alike i j \<Longrightarrow> alike (push_secret_field l c i) (push_secret_field l c j)"
  by (auto simp: push_plain_field_def push_secret_field_def push_field_def alike_def split: option.splits)

lemma alike_card_item: "alike i j \<Longrightarrow> alike (card_item c i) (card_item c j)"
proof -
  assume "alike i j"
  then have "alike (push_secret_field ''PIN'' (pc_pin c) (push_plain_field ''Expiration'' (pc_expiration c)
      (push_secret_field ''Security code'' (pc_verification c) (push_secret_field ''Card number'' (pc_number c)
      (push_plain_field ''Card type'' (pc_type c) (push_plain_field ''Cardholder'' (pc_cardholder c) i))))))
    (push_secret_field ''PIN'' (pc_pin c) (push_plain_field ''Expiration'' (pc_expiration c)
      (push_secret_field ''Security code'' (pc_verification c) (push_secret_field ''Card number'' (pc_number c)
      (push_plain_field ''Card type'' (pc_type c) (push_plain_field ''Cardholder'' (pc_cardholder c) j))))))"
    by (intro alike_push)
  then show ?thesis by (simp add: card_item_def Let_def alike_def)
qed

lemma alike_card: "alike_pair p q \<Longrightarrow> alike_pair (apply_card_fields P I H row p) (apply_card_fields P I H row q)"
proof (cases p; cases q)
  fix i ws j ws'
  assume pq: "alike_pair p q" "p = (i, ws)" "q = (j, ws')"
  let ?set = "\<lambda>i. i\<lparr>item_url := plain (pr_url row), item_password := secret_cell (pr_password row)\<rparr>"
  have set: "alike (?set i) (?set j)" "item_name i = item_name j" "ws = ws'" using pq by (simp_all add: alike_pair_def alike_def)
  then have noted: "alike ((?set i)\<lparr>item_notes := n\<rparr>) ((?set j)\<lparr>item_notes := n\<rparr>)" for n by (simp add: alike_def)
  have pair: "alike_pair (i, w) (j, w)" if "alike i j" for i j w using that by (simp add: alike_pair_def)
  show ?thesis
    using set(2,3)
    by (auto simp: pq apply_card_fields_def Let_def warn_def intro!: alike_totp pair set(1) noted alike_card_item
        split: option.splits sum.splits)
qed

lemma alike_timestamps: "alike_pair p q \<Longrightarrow> alike_pair (apply_timestamps row p) (apply_timestamps row q)"
  by (cases p; cases q)
     (auto simp: alike_pair_def apply_timestamps_def alike_def warn_def Let_def split: option.splits)

definition outcome_alike :: "(skipped + item) \<times> skipped list \<Rightarrow> (skipped + item) \<times> skipped list \<Rightarrow> bool" where
  "outcome_alike a b \<longleftrightarrow> snd a = snd b \<and>
     (case (fst a, fst b) of (Inl x, Inl y) \<Rightarrow> x = y | (Inr i, Inr j) \<Rightarrow> alike i j | _ \<Rightarrow> False)"

lemma finish_alike:
  "alike_pair p q \<Longrightarrow> outcome_alike (case p of (i, ws) \<Rightarrow> (Inr i, ws)) (case q of (j, ws) \<Rightarrow> (Inr j, ws))"
  by (cases p; cases q) (simp add: outcome_alike_def alike_pair_def)

lemma pass_item_alike: "outcome_alike (proton_pass_item P I H draw row ws) (proton_pass_item P I H draw' row ws)"
proof -
  let ?i = "\<lambda>draw kind. (item_new (fst draw) (snd draw) (trim (pr_name row)))\<lparr>item_folder := plain (pr_vault row), item_kind := kind\<rparr>"
  have start: "alike_pair (?i draw kind, ws) (?i draw' kind, ws)" for kind
    by (simp add: alike_pair_def alike_def item_new_def)
  show ?thesis
    unfolding proton_pass_item_def Let_def
    by (auto intro!: finish_alike alike_timestamps alike_common alike_card start) (simp_all add: outcome_alike_def)
qed

definition import_alike :: "item_import \<Rightarrow> item_import \<Rightarrow> bool" where
  "import_alike a b \<longleftrightarrow> list_all2 alike (ii_entries a) (ii_entries b) \<and> ii_skipped a = ii_skipped b \<and> ii_warnings a = ii_warnings b"

lemma pass_row_alike:
  assumes "import_alike a b"
  shows "import_alike (pass_row P I H draw nr a) (pass_row P I H draw' nr b)"
proof (cases nr)
  case (Pair n r)
  show ?thesis
  proof (cases r)
    case None
    with assms Pair show ?thesis by (simp add: pass_row_def import_alike_def)
  next
    case (Some row)
    from assms have ws: "ii_warnings b = ii_warnings a" by (simp add: import_alike_def)
    obtain x ws1 where x: "proton_pass_item P I H (draw n) row (ii_warnings a) = (x, ws1)" by fastforce
    obtain y ws2 where y: "proton_pass_item P I H (draw' n) row (ii_warnings a) = (y, ws2)" by fastforce
    from pass_item_alike [of P I H "draw n" row "ii_warnings a" "draw' n"] x y
    have "outcome_alike (x, ws1) (y, ws2)" by simp
    with assms show ?thesis
      by (cases x; cases y) (auto simp: Pair Some pass_row_def ws x y outcome_alike_def import_alike_def intro: list_all2_appendI)
  qed
qed

lemma pass_alike:
  assumes "from_proton_pass P I H draw s = Inr a"
  obtains b where "from_proton_pass P I H draw' s = Inr b" "import_alike a b"
proof -
  have "import_alike (fold (pass_row P I H draw) rows a0) (fold (pass_row P I H draw') rows b0)" if "import_alike a0 b0" for rows a0 b0
    using that by (induction rows arbitrary: a0 b0) (simp_all add: pass_row_alike)
  moreover have "import_alike z z" if "ii_entries z = []" for z using that by (simp add: import_alike_def)
  ultimately show thesis using assms that by (auto simp: from_proton_pass_def Let_def split: option.splits if_splits)
qed

fun file_alike :: "import_file \<Rightarrow> import_file \<Rightarrow> bool" where
  "file_alike (Authenticator a) (Authenticator b) = (a = b)"
| "file_alike (PassExport a) (PassExport b) = import_alike a b"
| "file_alike _ _ = False"

lemma read_alike:
  assumes "read_import P I H draw path content = Inr (file, token)"
  obtains file' where "read_import P I H draw' path content = Inr (file', token)" "file_alike file file'"
proof -
  obtain s where s: "content = Some s" using assms by (auto simp: read_import_def split: option.splits)
  show thesis
  proof (cases "is_csv_export path s")
    case True
    with assms s obtain a where a: "from_proton_pass P I H draw s = Inr a" "file = PassExport a" "token = import_file_token P s"
      by (auto simp: read_import_def as_app_def Let_def and_then_Inr split: sum.splits)
    obtain b where "from_proton_pass P I H draw' s = Inr b" "import_alike a b" by (rule pass_alike [OF a(1)])
    with a s True that show thesis by (simp add: read_import_def as_app_def)
  next
    case False
    with assms s obtain a where a: "from_proton_authenticator P I H s = Inr a" "file = Authenticator a" "token = import_file_token P s"
      by (auto simp: read_import_def as_app_def Let_def and_then_Inr split: sum.splits)
    with s False show thesis by (intro that [of "Authenticator a"]) (simp_all add: read_import_def as_app_def)
  qed
qed

section \<open>Importing again\<close>

lemma vd_items_add [simp]: "vd_items (fst (add_item i d)) = vd_items d @ [i]"
  by (simp add: add_item_def Let_def forget_tombstone_def)

lemma vd_items_folder [simp]: "vd_items (fst (create_folder f d)) = vd_items d"
  by (simp add: create_folder_def)

lemma run_item_items:
  "run_item edits (n, i) (d, k) =
     (if list_ex (\<lambda>h. same_import_item h (apply_import_edit edits n i)) (vd_items d) then (d, k)
      else (fst (add_item (apply_import_edit edits n i)
              (case item_folder (apply_import_edit edits n i) of Some f \<Rightarrow> fst (create_folder f d) | None \<Rightarrow> d)), k + 1))"
  by (simp add: run_item_def Let_def)

text \<open>An entry the vault holds under the name the edits give it.\<close>

definition held_as :: "edits \<Rightarrow> vault_data \<Rightarrow> nat \<Rightarrow> item \<Rightarrow> bool" where
  "held_as edits d n i \<longleftrightarrow> list_ex (\<lambda>h. same_import_item h (apply_import_edit edits n i)) (vd_items d)"

lemma held_as_alike: "alike i j \<Longrightarrow> held_as edits d n i = held_as edits d n j"
proof -
  assume ij: "alike i j"
  then have "alike (apply_import_edit edits n i) (apply_import_edit edits n j)"
    by (simp add: apply_import_edit_def alike_def split: option.splits)
  then have "same_import_item h (apply_import_edit edits n i) = same_import_item h (apply_import_edit edits n j)" for h
    by (rule alike_same [OF alike_refl])
  then show ?thesis by (simp add: held_as_def)
qed

lemma run_item_step:
  assumes "run_item edits (n, i) (d, k) = (d', k')"
  shows "\<exists>new. vd_items d' = vd_items d @ new \<and> k' = k + length new" and "held_as edits d' n i"
proof -
  show "\<exists>new. vd_items d' = vd_items d @ new \<and> k' = k + length new"
    using assms by (auto simp: run_item_items split: if_splits option.splits)
  show "held_as edits d' n i"
    using assms alike_is_same [OF alike_refl, of "apply_import_edit edits n i"]
    by (auto simp: run_item_items held_as_def split: if_splits option.splits)
qed

lemma held_as_grows: "held_as edits d n i \<Longrightarrow> vd_items d' = vd_items d @ new \<Longrightarrow> held_as edits d' n i"
  by (simp add: held_as_def)

lemma run_items_held:
  assumes "fold (run_item edits) (enumerate n xs) (d, k) = (d', k')"
  shows "(\<exists>new. vd_items d' = vd_items d @ new \<and> k' = k + length new) \<and> (\<forall>j < length xs. held_as edits d' (n + j) (xs ! j))"
  using assms
proof (induction xs arbitrary: n d k)
  case (Cons i xs)
  obtain d1 k1 where one: "run_item edits (n, i) (d, k) = (d1, k1)" by fastforce
  with Cons.prems have rest: "fold (run_item edits) (enumerate (Suc n) xs) (d1, k1) = (d', k')" by simp
  note step = run_item_step [OF one]
  from Cons.IH [OF rest] obtain new where new: "vd_items d' = vd_items d1 @ new" "k' = k1 + length new"
    and later: "\<forall>j < length xs. held_as edits d' (Suc n + j) (xs ! j)" by blast
  have "held_as edits d' (n + j) ((i # xs) ! j)" if "j < Suc (length xs)" for j
    using that later held_as_grows [OF step(2) new(1)] by (cases j) auto
  with step(1) new show ?case by auto
qed simp

lemma run_items_idle:
  assumes "\<And>j. j < length xs \<Longrightarrow> held_as edits d (n + j) (xs ! j)"
  shows "fold (run_item edits) (enumerate n xs) (d, k) = (d, k)"
  using assms
proof (induction xs arbitrary: n)
  case (Cons i xs)
  have "run_item edits (n, i) (d, k) = (d, k)" using Cons.prems [of 0] by (simp add: run_item_items held_as_def)
  moreover have "held_as edits d (Suc n + j) (xs ! j)" if "j < length xs" for j
    using Cons.prems [of "Suc j"] that by simp
  ultimately show ?case by (simp add: Cons.IH)
qed simp

text \<open>The codes: the seeds the vault holds.\<close>

lemma held_seeds_items: "vd_items d' = vd_items d @ new \<Longrightarrow> held_seeds d \<subseteq> held_seeds d'"
  by (auto simp: held_seeds_def List.map_filter_def)

lemma apply_edit_totp [simp]: "item_totp (apply_import_edit edits n i) = item_totp i"
  by (simp add: apply_import_edit_def split: option.splits)

lemma held_seeds_add:
  "item_totp i = Some t \<Longrightarrow> held_seeds (fst (add_item i d)) = insert (expose (otp_secret t)) (held_seeds d)"
  by (simp add: held_seeds_def List.map_filter_def)

lemma held_seeds_code [simp]:
  "held_seeds (fst (add_item (apply_import_edit edits n (code_item draw e)) d)) =
     insert (expose (otp_secret (im_totp e))) (held_seeds d)"
  by (rule held_seeds_add) (simp add: code_item_def)

lemma run_codes_held:
  assumes "fold (run_code edits draw) (enumerate n xs) (existing, d, k) = (existing', d', k')" "existing = held_seeds d"
  shows "existing' = held_seeds d' \<and> existing \<subseteq> existing' \<and> (\<forall>e \<in> set xs. expose (otp_secret (im_totp e)) \<in> existing')"
  using assms
proof (induction xs arbitrary: n existing d k)
  case (Cons e xs)
  obtain ex1 d1 k1 where one: "run_code edits draw (n, e) (existing, d, k) = (ex1, d1, k1)" by (metis prod_cases3)
  have seeds: "ex1 = insert (expose (otp_secret (im_totp e))) existing" "ex1 = held_seeds d1"
    using one Cons.prems(2)
    by (auto simp: run_code_def Let_def insert_absorb split: if_splits)
  from Cons.prems(1) one have "fold (run_code edits draw) (enumerate (Suc n) xs) (ex1, d1, k1) = (existing', d', k')" by simp
  from Cons.IH [OF this seeds(2)] seeds(1) show ?case by auto
qed simp

lemma run_codes_idle:
  "\<forall>e \<in> set xs. expose (otp_secret (im_totp e)) \<in> existing \<Longrightarrow>
   fold (run_code edits draw) (enumerate n xs) (existing, d, k) = (existing, d, k)"
  by (induction xs arbitrary: n) (simp_all add: run_code_def Let_def)

lemma import_into_again:
  assumes "import_into edits draw file d = (d', k)" "file_alike file file'"
  shows "import_into edits draw' file' d' = (d', 0)"
proof (cases "file")
  case (Authenticator imp)
  with assms(2) have file': "file' = Authenticator imp" by (cases file') auto
  obtain ex where "fold (run_code edits draw) (enumerate 0 (ci_entries imp)) (held_seeds d, d, 0) = (ex, d', k)"
    using assms(1) Authenticator by (auto simp: import_into_def) (metis prod.collapse snd_conv)
  from run_codes_held [OF this refl]
  have "\<forall>e \<in> set (ci_entries imp). expose (otp_secret (im_totp e)) \<in> held_seeds d'" by metis
  then show ?thesis by (simp add: file' import_into_def run_codes_idle)
next
  case (PassExport imp)
  with assms(2) obtain imp' where file': "file' = PassExport imp'" "list_all2 alike (ii_entries imp) (ii_entries imp')"
    by (cases file') (auto simp: import_alike_def)
  from assms(1) PassExport have "fold (run_item edits) (enumerate 0 (ii_entries imp)) (d, 0) = (d', k)" by (simp add: import_into_def)
  from run_items_held [OF this] have held: "held_as edits d' j (ii_entries imp ! j)" if "j < length (ii_entries imp)" for j
    using that by simp
  have "held_as edits d' (0 + j) (ii_entries imp' ! j)" if "j < length (ii_entries imp')" for j
    using that file'(2) held [of j] held_as_alike [of "ii_entries imp ! j" "ii_entries imp' ! j"]
    by (simp add: list_all2_conv_all_nth)
  from run_items_idle [OF this] show ?thesis by (simp add: file'(1) import_into_def)
qed

lemma run_import_Inr:
  assumes "run_import P I H draw nonce path content expected es s = (s1, Inr k)"
  obtains edits "file" v d where "checked_import_edits es = Inr edits" "read_import P I H draw path content = Inr (file, expected)"
    "as_vault s = Some v" "import_into edits draw file (uv_data v) = (d, k)" "as_vault s1 = Some (v\<lparr>uv_data := d\<rparr>)"
proof -
  have kept: "as_vault s' = as_vault s0" if "save_vault P nonce s0 = (s', r)" for s0 s' r
    using that by (auto simp: save_vault_def persist_def lift_disk_def split: option.splits prod.splits)
  from assms show thesis
    by (auto simp: run_import_def with_vault_mut_def split: sum.splits if_splits prod.splits option.splits
        elim!: and_do_cases dest!: kept intro!: that)
qed

text \<open>
  C33: importing is idempotent. Once a file has been imported, importing it again with the same edits
  adds nothing and changes nothing, although every reading draws new ids and new times, and however
  the two formats decide what counts as held.
\<close>

theorem reimport_adds_nothing:
  assumes "run_import P I H draw nonce path content expected es s = (s1, Inr k)"
  shows "run_import P I H draw' nonce' path content expected es s1 = (s1, Inr 0)"
proof (rule run_import_Inr [OF assms])
  fix edits "file" v d
  assume a: "checked_import_edits es = Inr edits" "read_import P I H draw path content = Inr (file, expected)"
    "import_into edits draw file (uv_data v) = (d, k)" "as_vault s1 = Some (v\<lparr>uv_data := d\<rparr>)"
  obtain file' where file': "read_import P I H draw' path content = Inr (file', expected)" "file_alike file file'"
    by (rule read_alike [OF a(2)])
  from import_into_again [OF a(3) file'(2)] have "import_into edits draw' file' d = (d, 0)" .
  with a(1,4) file'(1) show ?thesis by (simp add: run_import_def with_vault_mut_def)
qed

section \<open>What the preview promises\<close>

lemma check_edits_Some:
  assumes "check_edits es checked = Inr edits" "edits k = Some e'"
  shows "checked k = Some e' \<or> (\<exists>e \<in> set es. ie_index e = k \<and> ie_name e' = trim (ie_name e))"
  using assms
proof (induction es arbitrary: checked)
  case (Cons e es)
  from Cons.prems(1) have step: "check_edits es (checked(ie_index e \<mapsto>
      e\<lparr>ie_name := trim (ie_name e), ie_folder := Option.bind (ie_folder e) plain\<rparr>)) = Inr edits"
    by (simp add: Let_def split: if_splits)
  from Cons.IH [OF step Cons.prems(2)] show ?case by (auto split: if_splits)
qed simp

definition keeps_names :: "edits \<Rightarrow> nat \<Rightarrow> string list \<Rightarrow> bool" where
  "keeps_names edits n names \<longleftrightarrow> (\<forall>j < length names. \<forall>e. edits (n + j) = Some e \<longrightarrow> ie_name e = names ! j)"

lemma keeps_names_Cons:
  "keeps_names edits n (x # names) \<Longrightarrow> keeps_names edits (Suc n) names \<and> (\<forall>e. edits n = Some e \<longrightarrow> ie_name e = x)"
  unfolding keeps_names_def by (auto simp: less_Suc_eq_0_disj)

lemma apply_edit_name: "(\<forall>e. edits n = Some e \<longrightarrow> ie_name e = item_name i) \<Longrightarrow> item_name (apply_import_edit edits n i) = item_name i"
  by (simp add: apply_import_edit_def split: option.splits)

text \<open>Equal up to the draw and the folder, which the duplicate check does not look at.\<close>

definition akin :: "item \<Rightarrow> item \<Rightarrow> bool" where
  "akin i j \<longleftrightarrow> alike i (j\<lparr>item_folder := item_folder i\<rparr>)"

lemma akin_same: "akin h h' \<Longrightarrow> akin c c' \<Longrightarrow> same_import_item h c = same_import_item h' c'"
  by (simp add: same_import_item_def akin_def alike_def Let_def)

lemma akin_edit: "alike i j \<Longrightarrow> (\<forall>e. edits n = Some e \<longrightarrow> ie_name e = item_name i) \<Longrightarrow> akin i (apply_import_edit edits n j)"
  by (simp add: akin_def alike_def apply_import_edit_def split: option.splits)

lemma akin_held:
  assumes "list_all2 akin ex items" "akin c c'"
  shows "list_ex (\<lambda>h. same_import_item h c) ex = list_ex (\<lambda>h. same_import_item h c') items"
  using assms by (induction rule: list_all2_induct) (auto dest: akin_same)

text \<open>How the ready list of a preview and the items of a run grow together.\<close>

definition grew :: "import_preview \<Rightarrow> import_preview \<Rightarrow> vault_data \<Rightarrow> vault_data \<Rightarrow> nat \<Rightarrow> nat \<Rightarrow> bool" where
  "grew pv pv' d d' k k' \<longleftrightarrow> (\<exists>ready new. pv_ready pv' = pv_ready pv @ ready \<and> vd_items d' = vd_items d @ new \<and>
     map item_name new = map cand_name ready \<and> k' = k + length ready)"

lemma grew_refl: "grew pv pv d d k k"
  by (simp add: grew_def)

lemma grew_trans:
  assumes "grew pv pv1 d d1 k k1" "grew pv1 pv2 d1 d2 k1 k2"
  shows "grew pv pv2 d d2 k k2"
proof -
  from assms obtain r1 n1 r2 n2 where
    "pv_ready pv1 = pv_ready pv @ r1" "vd_items d1 = vd_items d @ n1" "map item_name n1 = map cand_name r1" "k1 = k + length r1"
    "pv_ready pv2 = pv_ready pv1 @ r2" "vd_items d2 = vd_items d1 @ n2" "map item_name n2 = map cand_name r2" "k2 = k1 + length r2"
    by (auto simp: grew_def)
  then show ?thesis unfolding grew_def by (intro exI [of _ "r1 @ r2"] exI [of _ "n1 @ n2"]) simp
qed

lemma preview_run_items:
  assumes "list_all2 alike xs ys" "list_all2 akin ex (vd_items d)" "keeps_names edits n (map item_name xs)"
    and "fold preview_item (enumerate n xs) (ex, pv) = (ex', pv')"
    and "fold (run_item edits) (enumerate n ys) (d, k) = (d', k')"
  shows "grew pv pv' d d' k k'"
  using assms
proof (induction xs ys arbitrary: n ex d k pv rule: list_all2_induct)
  case Nil
  then show ?case by (simp add: grew_refl)
next
  case (Cons x xs y ys)
  from keeps_names_Cons Cons.prems(2) have names: "keeps_names edits (Suc n) (map item_name xs)"
    "\<forall>e. edits n = Some e \<longrightarrow> ie_name e = item_name x" by auto
  have akin: "akin x (apply_import_edit edits n y)" by (rule akin_edit) (use Cons.hyps(1) names(2) in simp_all)
  obtain ex1 pv1 where pv1: "preview_item (n, x) (ex, pv) = (ex1, pv1)" by fastforce
  obtain d1 k1 where d1: "run_item edits (n, y) (d, k) = (d1, k1)" by fastforce
  have step: "list_all2 akin ex1 (vd_items d1) \<and> grew pv pv1 d d1 k k1"
  proof (cases "list_ex (\<lambda>h. same_import_item h x) ex")
    case True
    with pv1 d1 akin_held [OF Cons.prems(1) akin] Cons.prems(1) show ?thesis
      by (auto simp: preview_item_def run_item_items grew_def)
  next
    case False
    have "item_name x = item_name (apply_import_edit edits n y)" using akin by (simp add: akin_def alike_def)
    moreover have "pv_ready pv1 = pv_ready pv @ [\<lparr>cand_index = n, cand_name = item_name x, cand_folder = item_folder x\<rparr>]"
      "ex1 = ex @ [x]" using pv1 False by (auto simp: preview_item_def)
    moreover have "vd_items d1 = vd_items d @ [apply_import_edit edits n y]" "k1 = k + 1"
      using d1 False akin_held [OF Cons.prems(1) akin] by (auto simp: run_item_items split: option.splits)
    ultimately show ?thesis using Cons.prems(1) akin by (auto simp: grew_def intro: list_all2_appendI)
  qed
  from Cons.prems(3) pv1 have rest_pv: "fold preview_item (enumerate (Suc n) xs) (ex1, pv1) = (ex', pv')" by simp
  from Cons.prems(4) d1 have rest_d: "fold (run_item edits) (enumerate (Suc n) ys) (d1, k1) = (d', k')" by simp
  from Cons.IH [OF _ names(1) rest_pv rest_d] step show ?case by (auto intro: grew_trans)
qed

lemma preview_run_codes:
  assumes "keeps_names edits n (map im_name xs)"
    and "fold preview_code (enumerate n xs) (ex, pv) = (ex', pv')"
    and "fold (run_code edits draw) (enumerate n xs) (ex, d, k) = (ex'', d', k')"
  shows "grew pv pv' d d' k k'"
  using assms
proof (induction xs arbitrary: n ex d k pv)
  case Nil
  then show ?case by (simp add: grew_refl)
next
  case (Cons e xs)
  from keeps_names_Cons Cons.prems(1) have names: "keeps_names edits (Suc n) (map im_name xs)"
    "\<forall>e'. edits n = Some e' \<longrightarrow> ie_name e' = im_name e" by auto
  have name: "item_name (apply_import_edit edits n (code_item (draw n) e)) = im_name e"
    using names(2) apply_edit_name [of edits n "code_item (draw n) e"] by (simp add: code_item_def item_new_def)
  obtain ex1 pv1 where pv1: "preview_code (n, e) (ex, pv) = (ex1, pv1)" by fastforce
  obtain ex2 d1 k1 where d1: "run_code edits draw (n, e) (ex, d, k) = (ex2, d1, k1)" by (metis prod_cases3)
  from pv1 d1 name have step: "ex2 = ex1" "grew pv pv1 d d1 k k1"
    by (auto simp: preview_code_def run_code_def Let_def grew_def split: if_splits)
  from Cons.prems(2) pv1 have rest_pv: "fold preview_code (enumerate (Suc n) xs) (ex1, pv1) = (ex', pv')" by simp
  from Cons.prems(3) d1 step(1) have rest_d: "fold (run_code edits draw) (enumerate (Suc n) xs) (ex1, d1, k1) = (ex'', d', k')" by simp
  from Cons.IH [OF names(1) rest_pv rest_d] step(2) show ?case by (rule grew_trans [rotated])
qed

definition candidates_of :: "nat \<Rightarrow> string list \<Rightarrow> import_preview \<Rightarrow> import_preview \<Rightarrow> bool" where
  "candidates_of n names pv pv' \<longleftrightarrow> pv_token pv' = pv_token pv \<and>
     (\<forall>c \<in> set (pv_ready pv'). c \<in> set (pv_ready pv) \<or>
        (\<exists>j < length names. cand_index c = n + j \<and> cand_name c = names ! j))"

lemma candidates_step:
  assumes "candidates_of (Suc n) names pv1 pv'" "pv_token pv1 = pv_token pv"
    "pv_ready pv1 = pv_ready pv \<or> pv_ready pv1 = pv_ready pv @ [c]" "cand_index c = n" "cand_name c = x"
  shows "candidates_of n (x # names) pv pv'"
proof (unfold candidates_of_def, intro conjI ballI)
  show "pv_token pv' = pv_token pv" using assms(1,2) by (simp add: candidates_of_def)
  fix a assume "a \<in> set (pv_ready pv')"
  then consider "a \<in> set (pv_ready pv1)" | j where "j < length names" "cand_index a = Suc n + j" "cand_name a = names ! j"
    using assms(1) by (auto simp: candidates_of_def)
  then show "a \<in> set (pv_ready pv) \<or> (\<exists>j < length (x # names). cand_index a = n + j \<and> cand_name a = (x # names) ! j)"
  proof cases
    case 1
    then have "a \<in> set (pv_ready pv) \<or> a = c" using assms(3) by auto
    then show ?thesis using assms(4,5) by auto
  next
    case 2
    then show ?thesis by (intro disjI2 exI [of _ "Suc j"]) simp
  qed
qed

lemma candidates_items: "fold preview_item (enumerate n xs) (ex, pv) = (ex', pv') \<Longrightarrow> candidates_of n (map item_name xs) pv pv'"
proof (induction xs arbitrary: n ex pv)
  case (Cons x xs)
  obtain ex1 pv1 where pv1: "preview_item (n, x) (ex, pv) = (ex1, pv1)" by fastforce
  with Cons.prems have "candidates_of (Suc n) (map item_name xs) pv1 pv'" by (intro Cons.IH) simp
  with pv1 show ?case
    by (auto simp: preview_item_def split: if_splits
        intro!: candidates_step [where c = "\<lparr>cand_index = n, cand_name = item_name x, cand_folder = item_folder x\<rparr>"])
qed (simp add: candidates_of_def)

lemma candidates_codes: "fold preview_code (enumerate n xs) (ex, pv) = (ex', pv') \<Longrightarrow> candidates_of n (map im_name xs) pv pv'"
proof (induction xs arbitrary: n ex pv)
  case (Cons x xs)
  obtain ex1 pv1 where pv1: "preview_code (n, x) (ex, pv) = (ex1, pv1)" by fastforce
  with Cons.prems have "candidates_of (Suc n) (map im_name xs) pv1 pv'" by (intro Cons.IH) simp
  with pv1 show ?case
    by (auto simp: preview_code_def Let_def split: if_splits
        intro!: candidates_step [where c = "\<lparr>cand_index = n, cand_name = im_name x, cand_folder = None\<rparr>"])
qed (simp add: candidates_of_def)

lemma preview_token:
  "preview_import P I H draw path content s = Inr pv \<Longrightarrow> \<exists>f. read_import P I H draw path content = Inr (f, pv_token pv)"
proof -
  have items: "pv_token (snd (fold preview_item (enumerate n xs) (ex, pv0))) = pv_token pv0" for n xs ex pv0
    using candidates_items [of n xs ex pv0] by (metis candidates_of_def prod.collapse)
  have codes: "pv_token (snd (fold preview_code (enumerate n xs) (ex, pv0))) = pv_token pv0" for n xs ex pv0
    using candidates_codes [of n xs ex pv0] by (metis candidates_of_def prod.collapse)
  assume pv: "preview_import P I H draw path content s = Inr pv"
  then obtain f tok where f: "read_import P I H draw path content = Inr (f, tok)"
    by (auto simp: preview_import_def and_then_Inr)
  with pv have "pv_token pv = tok" by (cases f) (auto simp: preview_import_def and_then_Inr items codes)
  with f show ?thesis by blast
qed

definition names_kept :: "import_edit list \<Rightarrow> import_preview \<Rightarrow> bool" where
  "names_kept es pv \<longleftrightarrow> (\<forall>e \<in> set es. \<exists>c \<in> set (pv_ready pv). cand_index c = ie_index e \<and> cand_name c = trim (ie_name e))"

lemma keeps_names_kept:
  assumes "names_kept es pv'" "checked_import_edits es = Inr edits" "candidates_of 0 names pv pv'" "pv_ready pv = []"
  shows "keeps_names edits 0 names"
  unfolding keeps_names_def
proof (intro allI impI)
  fix j e' assume j: "j < length names" and e': "edits (0 + j) = Some e'"
  obtain e where e: "e \<in> set es" "ie_index e = j" "ie_name e' = trim (ie_name e)"
    using check_edits_Some [OF assms(2) [unfolded checked_import_edits_def] e'] by auto
  obtain c where "c \<in> set (pv_ready pv')" "cand_index c = j" "cand_name c = trim (ie_name e)"
    using assms(1) e by (auto simp: names_kept_def)
  with assms(3,4) e(3) show "ie_name e' = names ! j" by (auto simp: candidates_of_def)
qed

text \<open>The two kinds of file, from the reading on.\<close>

lemma preview_matches_codes:
  assumes preview: "preview_import P I H draw path content s = Inr pv" and kept: "names_kept es pv"
    and edits: "checked_import_edits es = Inr edits" and v: "as_vault s = Some v"
    and read: "read_import P I H draw path content = Inr (Authenticator imp, pv_token pv)"
    and into: "import_into edits draw' (Authenticator imp) (uv_data v) = (d, k)"
  shows "\<exists>pv0. pv_ready pv0 = [] \<and> grew pv0 pv (uv_data v) d 0 k"
proof -
  define pv0 where "pv0 = \<lparr>pv_source = ProtonAuthenticator, pv_token = pv_token pv, pv_ready = [], pv_duplicates = [],
    pv_skipped = ci_skipped imp, pv_warnings = []\<rparr>"
  from preview read v obtain ex where pv: "fold preview_code (enumerate 0 (ci_entries imp)) (held_seeds (uv_data v), pv0) = (ex, pv)"
    by (auto simp: preview_import_def with_vault_def pv0_def) (metis prod.collapse)
  from into obtain ex' where run': "fold (run_code edits draw') (enumerate 0 (ci_entries imp)) (held_seeds (uv_data v), uv_data v, 0) = (ex', d, k)"
    by (auto simp: import_into_def) (metis prod.collapse)
  have "keeps_names edits 0 (map im_name (ci_entries imp))"
    by (rule keeps_names_kept [OF kept edits candidates_codes [OF pv]]) (simp add: pv0_def)
  from preview_run_codes [OF this pv run'] show ?thesis by (intro exI [of _ pv0]) (simp add: pv0_def)
qed

lemma preview_matches_items:
  assumes preview: "preview_import P I H draw path content s = Inr pv" and kept: "names_kept es pv"
    and edits: "checked_import_edits es = Inr edits" and v: "as_vault s = Some v"
    and read: "read_import P I H draw path content = Inr (PassExport imp, pv_token pv)"
    and alike: "list_all2 alike (ii_entries imp) (ii_entries imp')"
    and into: "import_into edits draw' (PassExport imp') (uv_data v) = (d, k)"
  shows "\<exists>pv0. pv_ready pv0 = [] \<and> grew pv0 pv (uv_data v) d 0 k"
proof -
  define pv0 where "pv0 = \<lparr>pv_source = ProtonPass, pv_token = pv_token pv, pv_ready = [], pv_duplicates = [],
    pv_skipped = ii_skipped imp, pv_warnings = ii_warnings imp\<rparr>"
  from preview read v obtain ex where pv: "fold preview_item (enumerate 0 (ii_entries imp)) (vd_items (uv_data v), pv0) = (ex, pv)"
    by (auto simp: preview_import_def with_vault_def pv0_def) (metis prod.collapse)
  have run': "fold (run_item edits) (enumerate 0 (ii_entries imp')) (uv_data v, 0) = (d, k)"
    using into by (simp add: import_into_def)
  have "keeps_names edits 0 (map item_name (ii_entries imp))"
    by (rule keeps_names_kept [OF kept edits candidates_items [OF pv]]) (simp add: pv0_def)
  moreover have "list_all2 akin (vd_items (uv_data v)) (vd_items (uv_data v))"
    by (simp add: list_all2_same akin_def alike_def)
  ultimately show ?thesis
    using preview_run_items [OF alike _ _ pv run'] by (intro exI [of _ pv0]) (simp add: pv0_def)
qed

text \<open>
  C32: the run writes what the preview called ready. When the edits only file candidates under folders
  (each names a candidate of the preview and leaves it its name), the run adds exactly as many items as
  the preview listed ready, under those names and in that order, after the items that were there.
\<close>

theorem preview_matches_run:
  assumes preview: "preview_import P I H draw path content s = Inr pv" and kept: "names_kept es pv"
    and run: "run_import P I H draw' nonce path content (pv_token pv) es s = (s1, Inr k)"
  shows "\<exists>v v1 new. as_vault s = Some v \<and> as_vault s1 = Some v1 \<and> vd_items (uv_data v1) = vd_items (uv_data v) @ new \<and>
    map item_name new = map cand_name (pv_ready pv) \<and> k = length (pv_ready pv)"
proof (rule run_import_Inr [OF run])
  fix edits "file'" v d
  assume edits: "checked_import_edits es = Inr edits" and read': "read_import P I H draw' path content = Inr (file', pv_token pv)"
    and v: "as_vault s = Some v" and into: "import_into edits draw' file' (uv_data v) = (d, k)"
    and v1: "as_vault s1 = Some (v\<lparr>uv_data := d\<rparr>)"
  obtain "file" where read: "read_import P I H draw path content = Inr (file, pv_token pv)" "file_alike file file'"
  proof -
    obtain f tok where f: "read_import P I H draw path content = Inr (f, tok)"
      using preview by (auto simp: preview_import_def and_then_Inr)
    obtain f' where "read_import P I H draw' path content = Inr (f', tok)" "file_alike f f'" by (rule read_alike [OF f])
    with read' f that show thesis by simp
  qed
  have "\<exists>pv0. pv_ready pv0 = [] \<and> grew pv0 pv (uv_data v) d 0 k"
  proof (cases "file")
    case (Authenticator imp)
    with read(2) have "file' = Authenticator imp" by (cases file') auto
    with preview_matches_codes [OF preview kept edits v] read(1) into Authenticator show ?thesis by blast
  next
    case (PassExport imp)
    with read(2) obtain imp' where "file' = PassExport imp'" "list_all2 alike (ii_entries imp) (ii_entries imp')"
      by (cases file') (auto simp: import_alike_def)
    with preview_matches_items [OF preview kept edits v] read(1) into PassExport show ?thesis by blast
  qed
  with v v1 show ?thesis by (auto simp: grew_def)
qed

section \<open>Where the promise ends\<close>

text \<open>
  Renaming breaks it: of two equal rows the preview calls the second a duplicate, but once the first is
  imported under another name the second is no longer one, and the run adds both.
\<close>

theorem renamed_candidate_adds_duplicate:
  assumes "alike i j" "nm \<noteq> item_name i" "vd_items d = []"
  shows "pv_duplicates (snd (fold preview_item (enumerate 0 [i, j]) ([], pv))) = pv_duplicates pv @ [item_name j]"
    and "snd (import_into [0 \<mapsto> \<lparr>ie_index = 0, ie_name = nm, ie_folder = None\<rparr>] draw
           (PassExport \<lparr>ii_entries = [i, j], ii_skipped = [], ii_warnings = []\<rparr>) d) = 2"
proof -
  from alike_is_same [OF assms(1)] show "pv_duplicates (snd (fold preview_item (enumerate 0 [i, j]) ([], pv))) = pv_duplicates pv @ [item_name j]"
    by (simp add: preview_item_def)
  from assms(1,2) have "\<not> same_import_item (i\<lparr>item_name := nm, item_folder := None\<rparr>) j"
    by (simp add: same_import_item_def alike_def Let_def)
  then show "snd (import_into [0 \<mapsto> \<lparr>ie_index = 0, ie_name = nm, ie_folder = None\<rparr>] draw
           (PassExport \<lparr>ii_entries = [i, j], ii_skipped = [], ii_warnings = []\<rparr>) d) = 2"
    by (simp add: import_into_def run_item_items apply_import_edit_def assms(3) numeral_2_eq_2)
qed

text \<open>
  A code imported under a folder leaves the list of folders alone, where a password filed the same way
  creates the folder: until the vault is opened again the folder is missing from the list.
\<close>

theorem code_import_lists_no_folder:
  "vd_folders (fst (import_into edits draw (Authenticator imp) d)) = vd_folders d"
proof -
  have "vd_folders (fst (snd (fold (run_code edits draw) xs (ex, d, k)))) = vd_folders d" for xs ex k
    by (induction xs arbitrary: ex d k) (auto simp: run_code_def Let_def add_item_def forget_tombstone_def)
  then show ?thesis by (simp add: import_into_def)
qed

section \<open>Samples\<close>

definition sample_open :: app_state where
  "sample_open = sample_app (Some sample_vault) (sample_disk Map.empty)"

definition sample_draw :: "nat \<Rightarrow> uuid \<times> u64" where
  "sample_draw n = (of_nat n, 5)"

lemma sample_read:
  obtains imp where "read_import (sample_prims JNull JNull) (sample_import [Some sample_proton_row]) sample_otp sample_draw ''x.csv'' (Some ''csv'') =
    Inr (PassExport imp, import_file_token (sample_prims JNull JNull) ''csv'')"
proof -
  have "rsplit_once (CHR ''.'') (''x'' @ CHR ''.'' # ''csv'') = Some (''x'', ''csv'')" by (rule rsplit_once_last) simp
  then have "path_extension ''x.csv'' = Some ''csv''"
    by (simp add: path_extension_def path_components_def is_separator_def Let_def starts_with_def)
  then have "is_csv_export ''x.csv'' ''csv''" by (simp add: is_csv_export_def)
  then show thesis using that by (simp add: read_import_def as_app_def from_proton_pass_def sample_import_def)
qed

lemma sample_run:
  obtains s1 k where "run_import (sample_prims JNull JNull) (sample_import [Some sample_proton_row]) sample_otp sample_draw (replicate 12 (CHR ''n''))
    ''x.csv'' (Some ''csv'') (import_file_token (sample_prims JNull JNull) ''csv'') [] sample_open = (s1, Inr k)"
proof -
  let ?P = "sample_prims JNull JNull" and ?n = "replicate 12 (CHR ''n'')"
  obtain imp where read: "read_import ?P (sample_import [Some sample_proton_row]) sample_otp sample_draw ''x.csv'' (Some ''csv'') =
    Inr (PassExport imp, import_file_token ?P ''csv'')" by (rule sample_read)
  obtain d k where into: "import_into Map.empty sample_draw (PassExport imp) (uv_data sample_vault) = (d, k)" by fastforce
  let ?v = "sample_vault\<lparr>uv_data := d\<rparr>" and ?s = "sample_open\<lparr>as_vault := Some (sample_vault\<lparr>uv_data := d\<rparr>)\<rparr>"
  obtain f where f: "seal_vault ?P ?n ?v = Inr f"
    by (simp add: seal_vault_def seal_def sample_prims_def sample_vault_def Let_def)
  have s: "?s = sample_app (Some ?v) (sample_disk Map.empty)" by (simp add: sample_open_def sample_app_def)
  have name: "vault_name (vault_path ?s)" unfolding s by (simp only: sample_path)
  obtain s2 where "save_vault ?P ?n ?s = (s2, Inr ())"
    by (rule healthy_save [OF _ _ f name]) (simp_all add: sample_open_def sample_app_def sample_disk_def healthy_def)
  moreover have "as_vault sample_open = Some sample_vault" by (simp add: sample_open_def sample_app_def)
  ultimately show thesis using that read into
    by (cases "k = 0") (auto simp: run_import_def checked_import_edits_def with_vault_mut_def)
qed

lemma reimport_adds_nothing_witness:
  "\<exists>s1 k. run_import (sample_prims JNull JNull) (sample_import [Some sample_proton_row]) sample_otp sample_draw (replicate 12 (CHR ''n''))
      ''x.csv'' (Some ''csv'') (import_file_token (sample_prims JNull JNull) ''csv'') [] sample_open = (s1, Inr k) \<and>
    run_import (sample_prims JNull JNull) (sample_import [Some sample_proton_row]) sample_otp (\<lambda>n. (7 + of_nat n, 6)) (replicate 12 (CHR ''m''))
      ''x.csv'' (Some ''csv'') (import_file_token (sample_prims JNull JNull) ''csv'') [] s1 = (s1, Inr 0)"
  by (rule sample_run) (blast dest: reimport_adds_nothing)

lemma preview_matches_run_witness:
  "\<exists>pv s1 k. preview_import (sample_prims JNull JNull) (sample_import [Some sample_proton_row]) sample_otp (\<lambda>n. (7 + of_nat n, 6)) ''x.csv'' (Some ''csv'')
      sample_open = Inr pv \<and>
    run_import (sample_prims JNull JNull) (sample_import [Some sample_proton_row]) sample_otp sample_draw (replicate 12 (CHR ''n''))
      ''x.csv'' (Some ''csv'') (pv_token pv) [] sample_open = (s1, Inr k) \<and> k = length (pv_ready pv)"
proof -
  let ?P = "sample_prims JNull JNull" and ?I = "sample_import [Some sample_proton_row]" and ?draw = "\<lambda>n. (7 + of_nat n, 6)"
  obtain imp where read: "read_import ?P ?I sample_otp sample_draw ''x.csv'' (Some ''csv'') = Inr (PassExport imp, import_file_token ?P ''csv'')"
    by (rule sample_read)
  obtain f where f: "read_import ?P ?I sample_otp ?draw ''x.csv'' (Some ''csv'') = Inr (f, import_file_token ?P ''csv'')"
    by (rule read_alike [OF read])
  have "as_vault sample_open = Some sample_vault" by (simp add: sample_open_def sample_app_def)
  then obtain pv where pv: "preview_import ?P ?I sample_otp ?draw ''x.csv'' (Some ''csv'') sample_open = Inr pv" "pv_token pv = import_file_token ?P ''csv''"
    using f preview_token [of ?P ?I sample_otp ?draw "''x.csv''" "Some ''csv''" sample_open]
    by (cases f) (auto simp: preview_import_def with_vault_def)
  obtain s1 k where "run_import ?P ?I sample_otp sample_draw (replicate 12 (CHR ''n'')) ''x.csv'' (Some ''csv'')
      (import_file_token ?P ''csv'') [] sample_open = (s1, Inr k)" by (rule sample_run)
  then have run: "run_import ?P ?I sample_otp sample_draw (replicate 12 (CHR ''n'')) ''x.csv'' (Some ''csv'') (pv_token pv) [] sample_open = (s1, Inr k)"
    by (simp add: pv(2))
  have "names_kept [] pv" by (simp add: names_kept_def)
  from preview_matches_run [OF pv(1) this run] pv(1) run show ?thesis by blast
qed

text \<open>
  An import whose save fails is reported as an error but stays in memory, and importing the file again
  finds everything there, adds nothing and so saves nothing: it is reported as done, and the disk has
  none of it.
\<close>

theorem failed_import_is_not_retried:
  assumes edits: "checked_import_edits es = Inr edits" and read: "read_import P I H draw path content = Inr (file, expected)"
    and v: "as_vault s = Some v" and into: "import_into edits draw file (uv_data v) = (d, k)" "k > 0"
    and save: "save_vault P nonce (s\<lparr>as_vault := Some (v\<lparr>uv_data := d\<rparr>)\<rparr>) = (s1, Inl e)"
  shows "run_import P I H draw nonce path content expected es s = (s1, Inl e) \<and>
    run_import P I H draw' nonce' path content expected es s1 = (s1, Inr 0)"
proof -
  obtain file' where file': "read_import P I H draw' path content = Inr (file', expected)" "file_alike file file'"
    by (rule read_alike [OF read])
  have "as_vault s1 = Some (v\<lparr>uv_data := d\<rparr>)"
    using save_keeps_memory [of P nonce "s\<lparr>as_vault := Some (v\<lparr>uv_data := d\<rparr>)\<rparr>"] save by simp
  with edits file'(1) import_into_again [OF into(1) file'(2)] read v into save show ?thesis
    by (simp add: run_import_def with_vault_mut_def and_do_def)
qed

end
