(* ===== verification/Qr.thy ===== *)
theory Qr
  imports Totp
begin

text \<open>
  Reading the QR code of an enrolment (\<open>crates/yara-core/src/qr.rs\<close>). The image decoder and the
  detector of codes are other crates' and the fields of \<open>image_prims\<close>: the size an image announces,
  its pixels, and the codes found in them, each with its text when it could be read.
\<close>

definition MAX_PIXELS :: u32 where "MAX_PIXELS = 40000000"

record 'l image_prims =
  im_dimensions :: "bytes \<Rightarrow> (u32 \<times> u32) option"
  im_decode :: "bytes \<Rightarrow> 'l option"
  im_from_rgba :: "u32 \<Rightarrow> u32 \<Rightarrow> bytes \<Rightarrow> 'l option"
  im_grids :: "'l \<Rightarrow> string option list"

definition pixels :: "u32 \<Rightarrow> u32 \<Rightarrow> u32" where
  "pixels width height = (if unat width * unat height < 2 ^ 32 then width * height else - 1)"

definition bad_size :: "u32 \<Rightarrow> u32 \<Rightarrow> bool" where
  "bad_size width height \<longleftrightarrow> width = 0 \<or> height = 0 \<or> MAX_PIXELS < pixels width height"

fun decode_grids :: "otp_prims \<Rightarrow> string option list \<Rightarrow> bool \<Rightarrow> totp_config result" where
  "decode_grids H [] saw_a_code = Inl (if saw_a_code then QrNotOtpauth else NoQrCode)"
| "decode_grids H (None # grids) saw_a_code = decode_grids H grids saw_a_code"
| "decode_grids H (Some content # grids) saw_a_code =
     (if starts_with (to_ascii_lowercase (trim content)) ''otpauth://'' then from_uri H (trim content)
      else decode_grids H grids True)"

definition decode_luma :: "'l image_prims \<Rightarrow> otp_prims \<Rightarrow> 'l \<Rightarrow> totp_config result" where
  "decode_luma I H luma =
     (let grids = im_grids I luma in if grids = [] then Inl NoQrCode else decode_grids H grids False)"

definition decode_enrollment :: "'l image_prims \<Rightarrow> otp_prims \<Rightarrow> bytes \<Rightarrow> totp_config result" where
  "decode_enrollment I H image_bytes =
     (case im_dimensions I image_bytes of
        None \<Rightarrow> Inl ImageDecode
      | Some (width, height) \<Rightarrow>
          if bad_size width height then Inl ImageDecode
          else case im_decode I image_bytes of None \<Rightarrow> Inl ImageDecode | Some luma \<Rightarrow> decode_luma I H luma)"

definition checked_mul :: "nat \<Rightarrow> nat \<Rightarrow> nat option" where
  "checked_mul a b = (if a * b < 2 ^ 64 then Some (a * b) else None)"

definition decode_enrollment_rgba :: "'l image_prims \<Rightarrow> otp_prims \<Rightarrow> bytes \<Rightarrow> u32 \<Rightarrow> u32 \<Rightarrow> totp_config result" where
  "decode_enrollment_rgba I H rgba width height =
     (if bad_size width height then Inl ImageDecode
      else case Option.bind (checked_mul (unat width) (unat height)) (\<lambda>pixels. checked_mul pixels 4) of
        None \<Rightarrow> Inl ImageDecode
      | Some expected \<Rightarrow>
          if length rgba < expected then Inl ImageDecode
          else case im_from_rgba I width height (take expected rgba) of
            None \<Rightarrow> Inl ImageDecode
          | Some luma \<Rightarrow> decode_luma I H luma)"

section \<open>What is read and what is not\<close>

definition is_enrollment :: "string \<Rightarrow> bool" where
  "is_enrollment content \<longleftrightarrow> starts_with (to_ascii_lowercase (trim content)) ''otpauth://''"

definition read_codes :: "string option list \<Rightarrow> string list" where
  "read_codes grids = map the (filter (\<lambda>g. g \<noteq> None) grids)"

lemma decode_grids_first:
  "decode_grids H grids saw =
     (case find is_enrollment (read_codes grids) of
        Some content \<Rightarrow> from_uri H (trim content)
      | None \<Rightarrow> Inl (if saw \<or> read_codes grids \<noteq> [] then QrNotOtpauth else NoQrCode))"
  by (induction H grids saw rule: decode_grids.induct) (auto simp: is_enrollment_def read_codes_def)

lemma bad_size_iff: "bad_size width height \<longleftrightarrow> \<not> (0 < unat width * unat height \<and> unat width * unat height \<le> 40000000)"
proof -
  have "unat (pixels width height) = unat width * unat height" if "unat width * unat height < 2 ^ 32"
    using that by (simp add: pixels_def unat_word_ariths(2))
  moreover have "unat (pixels width height) = 2 ^ 32 - 1" if "\<not> unat width * unat height < 2 ^ 32"
    using that by (simp add: pixels_def unsigned_minus_1_eq_mask mask_eq_exp_minus_1)
  moreover have "MAX_PIXELS < pixels width height \<longleftrightarrow> 40000000 < unat (pixels width height)"
    by (simp add: MAX_PIXELS_def word_less_nat_alt)
  ultimately show ?thesis
    by (cases "unat width * unat height < 2 ^ 32") (auto simp: bad_size_def unat_eq_0)
qed

text \<open>
  A picture is decoded only when it announces at least one and at most forty million pixels, so
  that a small file cannot make the program allocate a huge surface; of the codes found in it the
  first that is an enrolment is read, and a picture with other codes is told apart from one with none.
\<close>

theorem qr_bounded_first:
  "decode_enrollment I H image_bytes =
     (case im_dimensions I image_bytes of
        None \<Rightarrow> Inl ImageDecode
      | Some (width, height) \<Rightarrow>
          if 0 < unat width * unat height \<and> unat width * unat height \<le> 40000000
          then (case im_decode I image_bytes of
                  None \<Rightarrow> Inl ImageDecode
                | Some luma \<Rightarrow>
                    (case find is_enrollment (read_codes (im_grids I luma)) of
                       Some content \<Rightarrow> from_uri H (trim content)
                     | None \<Rightarrow> Inl (if read_codes (im_grids I luma) \<noteq> [] then QrNotOtpauth else NoQrCode)))
          else Inl ImageDecode)"
  by (auto simp: decode_enrollment_def bad_size_iff decode_luma_def decode_grids_first read_codes_def Let_def
      split: option.split prod.split)

end
