(* ===== verification/Desktop_Items.thy ===== *)
theory Desktop_Items
  imports Generate Import_Flow Qr
begin

text \<open>
  The commands of the interface over the open vault (\<open>apps/desktop/src-tauri/src/lib.rs\<close>): listings,
  edits, what is revealed one value at a time, scanned enrolments, subscriptions and settings. Each is
  the function from the state to the state and the answer. The clock, fresh ids and nonces are
  arguments; Unicode case mapping and the hash of the reuse check are fields of \<open>desk_env\<close>.
\<close>

record desk_env =
  de_prims :: prims
  de_otp :: otp_prims
  de_lower :: "string \<Rightarrow> string"
  de_upper :: "string \<Rightarrow> string"
  de_sha :: "bytes \<Rightarrow> bytes"

section \<open>Reading the vault\<close>

record item_summary =
  su_id :: uuid
  su_name :: string
  su_kind :: item_kind
  su_username :: "string option"
  su_url :: "string option"
  su_folder :: "string option"
  su_tags :: "string list"
  su_has_password :: bool
  su_has_totp :: bool
  su_reused :: bool
  su_missing_second_factor :: bool
  su_updated_at :: u64
  su_created_at :: u64

definition summary_of :: "item \<Rightarrow> item_summary" where
  "summary_of i = \<lparr>su_id = item_id i, su_name = item_name i, su_kind = item_kind i, su_username = item_username i,
     su_url = item_url i, su_folder = item_folder i, su_tags = item_tags i, su_has_password = (item_password i \<noteq> None),
     su_has_totp = (item_totp i \<noteq> None), su_reused = False, su_missing_second_factor = missing_second_factor i,
     su_updated_at = item_updated_at i, su_created_at = item_created_at i\<rparr>"

definition reused_summary :: "uuid set \<Rightarrow> item \<Rightarrow> item_summary" where
  "reused_summary reused_ids i = (summary_of i)\<lparr>su_reused := item_id i \<in> reused_ids\<rparr>"

definition of_wanted_kind :: "item_kind option \<Rightarrow> item \<Rightarrow> bool" where
  "of_wanted_kind kind i =
     (case kind of
        Some Login \<Rightarrow> item_kind i = Login \<and> item_password i \<noteq> None
      | Some wanted \<Rightarrow> item_kind i = wanted
      | None \<Rightarrow> True)"

definition reading :: "(vault_data \<Rightarrow> 'a app_result) \<Rightarrow> app_state \<Rightarrow> 'a app_result" where
  "reading f s = with_vault (\<lambda>v. f (uv_data v)) s"

definition list_items ::
    "desk_env \<Rightarrow> bytes \<Rightarrow> string option \<Rightarrow> item_kind option \<Rightarrow> bool option \<Rightarrow> string option \<Rightarrow> app_state \<Rightarrow> item_summary list app_result" where
  "list_items E salt query kind with_totp folder s = reading (\<lambda>d.
     let reused_ids = reused (de_sha E) salt (vd_items d);
         found = search (de_lower E) d (case query of Some q \<Rightarrow> q | None \<Rightarrow> [])
     in Inr (map (reused_summary reused_ids)
          (filter (\<lambda>i. case folder of Some wanted \<Rightarrow> item_folder i = Some wanted | None \<Rightarrow> True)
          (filter (\<lambda>i. with_totp \<noteq> Some True \<or> item_totp i \<noteq> None)
          (filter (of_wanted_kind kind) found))))) s"

definition recent_items :: "desk_env \<Rightarrow> bytes \<Rightarrow> nat option \<Rightarrow> app_state \<Rightarrow> item_summary list app_result" where
  "recent_items E salt limit s = reading (\<lambda>d.
     let reused_ids = reused (de_sha E) salt (vd_items d)
     in Inr (map (reused_summary reused_ids) (recent (case limit of Some n \<Rightarrow> n | None \<Rightarrow> 5) d))) s"

record field_view =
  fv_label :: string
  fv_value :: "string option"
  fv_secret :: bool

record item_extras =
  ex_has_notes :: bool
  ex_fields :: "field_view list"

definition not_found :: "desk_env \<Rightarrow> uuid \<Rightarrow> app_error" where
  "not_found E k = AppError (''item '' @ p_uuid_print (de_prims E) k @ '' not found'')"

definition reading_item :: "desk_env \<Rightarrow> uuid \<Rightarrow> (item \<Rightarrow> 'a app_result) \<Rightarrow> app_state \<Rightarrow> 'a app_result" where
  "reading_item E k f s = reading (\<lambda>d. case vget d k of None \<Rightarrow> Inl (not_found E k) | Some i \<Rightarrow> f i) s"

definition field_view_of :: "field \<Rightarrow> field_view" where
  "field_view_of f = \<lparr>fv_label = field_label f,
     fv_value = (if field_secret f then None else Some (expose (field_value f))), fv_secret = field_secret f\<rparr>"

definition has_notes :: "item \<Rightarrow> bool" where
  "has_notes i = (case item_notes i of Some n \<Rightarrow> \<not> secret_is_empty n | None \<Rightarrow> False)"

definition item_extras_cmd :: "desk_env \<Rightarrow> uuid \<Rightarrow> app_state \<Rightarrow> item_extras app_result" where
  "item_extras_cmd E k = reading_item E k (\<lambda>i. Inr \<lparr>ex_has_notes = has_notes i, ex_fields = map field_view_of (item_fields i)\<rparr>)"

definition folders_cmd :: "app_state \<Rightarrow> string list app_result" where
  "folders_cmd = reading (\<lambda>d. Inr (vd_folders d))"

definition vault_counts_cmd :: "app_state \<Rightarrow> vault_counts app_result" where
  "vault_counts_cmd = reading (\<lambda>d. Inr (counts d))"

section \<open>Revealing one value\<close>

definition reveal_field :: "desk_env \<Rightarrow> uuid \<Rightarrow> string \<Rightarrow> app_state \<Rightarrow> string app_result" where
  "reveal_field E k label = reading_item E k (\<lambda>i.
     case find (\<lambda>f. field_label f = label) (item_fields i) of
       Some f \<Rightarrow> Inr (expose (field_value f))
     | None \<Rightarrow> Inl (AppError (''this item has no field called '' @ label)))"

definition reveal_notes :: "desk_env \<Rightarrow> uuid \<Rightarrow> app_state \<Rightarrow> string app_result" where
  "reveal_notes E k = reading_item E k (\<lambda>i.
     case item_notes i of Some n \<Rightarrow> Inr (expose n) | None \<Rightarrow> Inl (AppError ''this item has no notes''))"

definition reveal_password :: "desk_env \<Rightarrow> uuid \<Rightarrow> app_state \<Rightarrow> string app_result" where
  "reveal_password E k = reading_item E k (\<lambda>i.
     case item_password i of Some p \<Rightarrow> Inr (expose p) | None \<Rightarrow> Inl (AppError ''this item has no password''))"

record totp_code =
  tc_code :: string
  tc_seconds_remaining :: u64
  tc_period :: u64

text \<open>The clock is read once for the code and once for the time it has left.\<close>

definition totp_code_cmd :: "desk_env \<Rightarrow> u64 \<Rightarrow> u64 \<Rightarrow> uuid \<Rightarrow> app_state \<Rightarrow> totp_code app_result" where
  "totp_code_cmd E now now' k = reading_item E k (\<lambda>i.
     case item_totp i of
       None \<Rightarrow> Inl (AppError ''this item has no authenticator'')
     | Some t \<Rightarrow>
         and_then (as_app (generate_at (de_otp E) t now)) (\<lambda>c.
           Inr \<lparr>tc_code = c, tc_seconds_remaining = seconds_remaining_at t now', tc_period = otp_period t\<rparr>))"

section \<open>Editing the vault\<close>

text \<open>A change in memory, then a save; the answer is the change's if the save succeeds.\<close>

definition editing ::
    "desk_env \<Rightarrow> bytes \<Rightarrow> (unlocked_vault \<Rightarrow> unlocked_vault \<times> 'a app_result) \<Rightarrow> app_state \<Rightarrow> app_state \<times> 'a app_result" where
  "editing E nonce f s =
     and_do (with_vault_mut f s) (\<lambda>x s1. and_do (save_vault (de_prims E) nonce s1) (\<lambda>_ s2. (s2, Inr x)))"

definition on_items :: "(vault_data \<Rightarrow> vault_data \<times> 'a) \<Rightarrow> unlocked_vault \<Rightarrow> unlocked_vault \<times> 'a app_result" where
  "on_items g v = (case g (uv_data v) of (d, x) \<Rightarrow> (v\<lparr>uv_data := d\<rparr>, Inr x))"

definition on_items_or :: "(vault_data \<Rightarrow> vault_data result) \<Rightarrow> unlocked_vault \<Rightarrow> unlocked_vault \<times> unit app_result" where
  "on_items_or g v = (case g (uv_data v) of Inl e \<Rightarrow> (v, Inl (CoreError e)) | Inr d \<Rightarrow> (v\<lparr>uv_data := d\<rparr>, Inr ()))"

definition create_folder_cmd :: "desk_env \<Rightarrow> bytes \<Rightarrow> string \<Rightarrow> app_state \<Rightarrow> app_state \<times> unit app_result" where
  "create_folder_cmd E nonce name = editing E nonce (on_items (\<lambda>d. (fst (create_folder (trim name) d), ())))"

definition rename_folder_cmd :: "desk_env \<Rightarrow> bytes \<Rightarrow> u64 \<Rightarrow> string \<Rightarrow> string \<Rightarrow> app_state \<Rightarrow> app_state \<times> unit app_result" where
  "rename_folder_cmd E nonce now old new = editing E nonce (on_items_or (rename_folder now old (trim new)))"

definition delete_folder_cmd :: "desk_env \<Rightarrow> bytes \<Rightarrow> u64 \<Rightarrow> string \<Rightarrow> app_state \<Rightarrow> app_state \<times> nat app_result" where
  "delete_folder_cmd E nonce now name = editing E nonce (on_items (delete_folder now name))"

definition reorder_folders_cmd :: "desk_env \<Rightarrow> bytes \<Rightarrow> string list \<Rightarrow> app_state \<Rightarrow> app_state \<times> unit app_result" where
  "reorder_folders_cmd E nonce names = editing E nonce (on_items (\<lambda>d. (reorder_folders names d, ())))"

definition set_item_folder_cmd :: "desk_env \<Rightarrow> bytes \<Rightarrow> u64 \<Rightarrow> uuid \<Rightarrow> string option \<Rightarrow> app_state \<Rightarrow> app_state \<times> unit app_result" where
  "set_item_folder_cmd E nonce now k folder = editing E nonce (on_items_or (set_folder now k folder))"

definition reorder_items_cmd :: "desk_env \<Rightarrow> bytes \<Rightarrow> uuid list \<Rightarrow> app_state \<Rightarrow> app_state \<times> unit app_result" where
  "reorder_items_cmd E nonce ids = editing E nonce (on_items (\<lambda>d. (reorder_items ids d, ())))"

definition delete_item_cmd :: "desk_env \<Rightarrow> bytes \<Rightarrow> u64 \<Rightarrow> uuid \<Rightarrow> app_state \<Rightarrow> app_state \<times> unit app_result" where
  "delete_item_cmd E nonce now k = editing E nonce (on_items_or (\<lambda>d. and_then (remove_item now k d) (\<lambda>(d', _). Inr d')))"

record new_field =
  nf_label :: string
  nf_value :: string
  nf_secret :: bool

definition field_of_new :: "new_field \<Rightarrow> field" where
  "field_of_new f = \<lparr>field_label = nf_label f, field_value = SecretString (nf_value f), field_secret = nf_secret f\<rparr>"

record item_edit =
  ed_name :: string
  ed_kind :: item_kind
  ed_username :: "string option"
  ed_password :: "string option"
  ed_url :: "string option"
  ed_notes :: "string option"
  ed_fields :: "new_field list"

definition blank_to_none :: "string option \<Rightarrow> string option" where
  "blank_to_none value = (case value of Some t \<Rightarrow> if trim t = [] then None else Some t | None \<Rightarrow> None)"

definition apply_edit :: "item_edit \<Rightarrow> item \<Rightarrow> item" where
  "apply_edit e i =
     (let i1 = i\<lparr>item_name := ed_name e, item_kind := ed_kind e, item_username := blank_to_none (ed_username e),
            item_url := blank_to_none (ed_url e), item_notes := map_option SecretString (blank_to_none (ed_notes e)),
            item_fields := map field_of_new (filter (\<lambda>f. trim (nf_label f) \<noteq> []) (ed_fields e))\<rparr>
      in case ed_password e of
           None \<Rightarrow> i1
         | Some p \<Rightarrow> i1\<lparr>item_password := (if p = [] then None else Some (SecretString p))\<rparr>)"

definition update_item_cmd :: "desk_env \<Rightarrow> bytes \<Rightarrow> u64 \<Rightarrow> uuid \<Rightarrow> item_edit \<Rightarrow> app_state \<Rightarrow> app_state \<times> unit app_result" where
  "update_item_cmd E nonce now k e = editing E nonce (on_items_or (update_item now k (apply_edit e)))"

record new_item =
  ni_name :: string
  ni_kind :: item_kind
  ni_username :: "string option"
  ni_password :: "string option"
  ni_url :: "string option"
  ni_notes :: "string option"
  ni_totp_uri :: "string option"
  ni_use_scanned_totp :: bool
  ni_fields :: "new_field list"
  ni_tags :: "string list"

definition new_item_entry :: "uuid \<Rightarrow> u64 \<Rightarrow> totp_config option \<Rightarrow> new_item \<Rightarrow> item" where
  "new_item_entry fresh now totp n = (item_new fresh now (ni_name n))
     \<lparr>item_kind := ni_kind n, item_username := ni_username n, item_password := map_option SecretString (ni_password n),
      item_url := ni_url n, item_notes := map_option SecretString (ni_notes n), item_totp := totp,
      item_fields := map field_of_new (ni_fields n), item_tags := ni_tags n\<rparr>"

definition add_item_cmd :: "desk_env \<Rightarrow> bytes \<Rightarrow> uuid \<Rightarrow> u64 \<Rightarrow> new_item \<Rightarrow> app_state \<Rightarrow> app_state \<times> uuid app_result" where
  "add_item_cmd E nonce fresh now n s =
     and_do
       (if ni_use_scanned_totp n
        then (case take_pending_totp s of
                (s1, None) \<Rightarrow> (s1, Inl (AppError (''the scanned code is no longer available '' @ b3 226 128 148 @ '' scan it again'')))
              | (s1, Some t) \<Rightarrow> (s1, Inr (Some t)))
        else (s, case ni_totp_uri n of
                Some uri \<Rightarrow> if trim uri = [] then Inr None else and_then (as_app (from_uri (de_otp E) uri)) (\<lambda>t. Inr (Some t))
              | None \<Rightarrow> Inr None))
       (\<lambda>totp s1. editing E nonce (on_items (add_item (new_item_entry fresh now totp n))) s1)"

section \<open>Scanned enrolments\<close>

record totp_preview =
  tp_issuer :: "string option"
  tp_account :: "string option"
  tp_algorithm :: string
  tp_digits :: u32
  tp_period :: u64
  tp_sample_code :: string

definition totp_preview_of :: "desk_env \<Rightarrow> u64 \<Rightarrow> totp_config \<Rightarrow> totp_preview app_result" where
  "totp_preview_of E now t =
     and_then (as_app (generate_at (de_otp E) t now)) (\<lambda>c.
       Inr \<lparr>tp_issuer = otp_issuer t, tp_account = otp_account t, tp_algorithm = algorithm_as_str (otp_algorithm t),
            tp_digits = otp_digits t, tp_period = otp_period t, tp_sample_code = c\<rparr>)"

definition scanned :: "desk_env \<Rightarrow> u64 \<Rightarrow> totp_config result \<Rightarrow> app_state \<Rightarrow> app_state \<times> totp_preview app_result" where
  "scanned E now decoded s =
     (case and_then (as_app decoded) (\<lambda>t. and_then (totp_preview_of E now t) (\<lambda>p. Inr (t, p))) of
        Inl e \<Rightarrow> (s, Inl e)
      | Inr (t, p) \<Rightarrow> (set_pending_totp t s, Inr p))"

text \<open>\<open>content\<close> is the file, if it can be read; \<open>picture\<close> the one on the clipboard, if there is one.\<close>

definition scan_qr_from_path ::
    "desk_env \<Rightarrow> 'l image_prims \<Rightarrow> u64 \<Rightarrow> bytes option \<Rightarrow> app_state \<Rightarrow> app_state \<times> totp_preview app_result" where
  "scan_qr_from_path E I now content s =
     (case content of
        None \<Rightarrow> (s, Inl (AppError ''could not read that file''))
      | Some bs \<Rightarrow> scanned E now (decode_enrollment I (de_otp E) bs) s)"

definition scan_qr_from_clipboard ::
    "desk_env \<Rightarrow> 'l image_prims \<Rightarrow> u64 \<Rightarrow> (bytes \<times> u32 \<times> u32) option \<Rightarrow> app_state \<Rightarrow> app_state \<times> totp_preview app_result" where
  "scan_qr_from_clipboard E I now picture s =
     (case picture of
        None \<Rightarrow> (s, Inl (AppError ''there is no image on the clipboard''))
      | Some (rgba, width, height) \<Rightarrow> scanned E now (decode_enrollment_rgba I (de_otp E) rgba width height) s)"

section \<open>Subscriptions and settings\<close>

record subscription_view =
  sv_item_id :: uuid
  sv_item_name :: string
  sv_plan :: "string option"
  sv_amount_minor :: i64
  sv_currency :: string
  sv_cadence :: string
  sv_next_charge :: "u64 option"
  sv_paid_with :: "uuid option"
  sv_paid_with_name :: "string option"
  sv_monthly_minor :: "i64 option"

text \<open>A later card of the same id would replace an earlier one, as in the hash map.\<close>

definition cards_of :: "vault_data \<Rightarrow> uuid \<Rightarrow> string option" where
  "cards_of d = map_of (rev (map (\<lambda>i. (item_id i, item_name i)) (filter (\<lambda>i. item_kind i = Card) (vd_items d))))"

definition view_of :: "(uuid \<Rightarrow> string option) \<Rightarrow> item \<Rightarrow> subscription_view option" where
  "view_of cards i = map_option (\<lambda>sub.
     \<lparr>sv_item_id = item_id i, sv_item_name = item_name i, sv_plan = sub_plan sub, sv_amount_minor = sub_amount_minor sub,
      sv_currency = sub_currency sub, sv_cadence = cadence_as_str (sub_cadence sub), sv_next_charge = sub_next_charge sub,
      sv_paid_with = sub_paid_with sub, sv_paid_with_name = Option.bind (sub_paid_with sub) cards,
      sv_monthly_minor = monthly_minor sub\<rparr>) (item_subscription i)"

text \<open>The sort key: without a date last, then by date.\<close>

definition charge_key :: "subscription_view \<Rightarrow> nat" where
  "charge_key v = (case sv_next_charge v of Some t \<Rightarrow> unat t | None \<Rightarrow> 2 ^ 64)"

definition list_subscriptions :: "app_state \<Rightarrow> subscription_view list app_result" where
  "list_subscriptions = reading (\<lambda>d. Inr (sort_key charge_key (List.map_filter (view_of (cards_of d)) (vd_items d))))"

definition item_subscription_cmd :: "uuid \<Rightarrow> app_state \<Rightarrow> subscription_view option app_result" where
  "item_subscription_cmd k = reading (\<lambda>d. Inr (Option.bind (vget d k) (view_of (cards_of d))))"

record subscription_input =
  in_plan :: "string option"
  in_amount_minor :: i64
  in_currency :: string
  in_cadence :: cadence
  in_next_charge :: "u64 option"
  in_paid_with :: "uuid option"

definition build_subscription :: "desk_env \<Rightarrow> subscription_input option \<Rightarrow> app_state \<Rightarrow> subscription option app_result" where
  "build_subscription E given s =
     (case given of
        None \<Rightarrow> Inr None
      | Some q \<Rightarrow>
          if in_amount_minor q <s 0 then Inl (AppError ''an amount cannot be negative'')
          else and_then
            (case in_paid_with q of
               None \<Rightarrow> Inr ()
             | Some paid_card \<Rightarrow>
                 and_then (reading (\<lambda>d. Inr (case vget d paid_card of Some i \<Rightarrow> item_kind i = Card | None \<Rightarrow> False)) s) (\<lambda>ok.
                   if ok then Inr () else Inl (AppError ''that card is not in this vault'')))
            (\<lambda>_. Inr (Some \<lparr>sub_plan = Option.bind (in_plan q) (\<lambda>p. if trim p = [] then None else Some p),
                 sub_amount_minor = in_amount_minor q, sub_currency = de_upper E (trim (in_currency q)),
                 sub_cadence = in_cadence q, sub_next_charge = in_next_charge q, sub_paid_with = in_paid_with q\<rparr>)))"

definition attach_subscription :: "desk_env \<Rightarrow> u64 \<Rightarrow> uuid \<Rightarrow> subscription option \<Rightarrow> unlocked_vault \<Rightarrow> unlocked_vault \<times> unit app_result" where
  "attach_subscription E now k built v =
     (case vget (uv_data v) k of
        None \<Rightarrow> (v, Inl (not_found E k))
      | Some _ \<Rightarrow>
          (v\<lparr>uv_data := (uv_data v)\<lparr>vd_items := update_first (\<lambda>i. item_id i = k)
             (\<lambda>i. i\<lparr>item_subscription := built, item_updated_at := now\<rparr>) (vd_items (uv_data v))\<rparr>\<rparr>, Inr ()))"

definition set_subscription_cmd :: "desk_env \<Rightarrow> bytes \<Rightarrow> u64 \<Rightarrow> uuid \<Rightarrow> subscription_input option \<Rightarrow> app_state \<Rightarrow> app_state \<times> unit app_result" where
  "set_subscription_cmd E nonce now k given s =
     and_do (s, build_subscription E given s) (\<lambda>built s1. editing E nonce (attach_subscription E now k built) s1)"

definition auto_lock_cmd :: "app_state \<Rightarrow> u64 option app_result" where
  "auto_lock_cmd = reading (\<lambda>d. Inr (auto_lock_seconds d))"

definition set_auto_lock_cmd :: "desk_env \<Rightarrow> bytes \<Rightarrow> u64 option \<Rightarrow> app_state \<Rightarrow> app_state \<times> unit app_result" where
  "set_auto_lock_cmd E nonce seconds =
     editing E nonce (on_items (\<lambda>d. (set_auto_lock_seconds (map_option (\<lambda>value. min (max value 30) (24 * 60 * 60)) seconds) d, ())))"

section \<open>Listings carry no secret\<close>

text \<open>What may be seen of an item: everything but its secrets, and which of them there are.\<close>

record visible_item =
  vi_shown :: item
  vi_has_password :: bool
  vi_has_totp :: bool
  vi_has_notes :: bool

definition visible :: "item \<Rightarrow> visible_item" where
  "visible i = \<lparr>vi_shown = hide_secrets i, vi_has_password = (item_password i \<noteq> None), vi_has_totp = (item_totp i \<noteq> None),
     vi_has_notes = has_notes i\<rparr>"

lemma hide_simps [simp]:
  "item_id (hide_secrets i) = item_id i" "item_name (hide_secrets i) = item_name i" "item_kind (hide_secrets i) = item_kind i"
  "item_username (hide_secrets i) = item_username i" "item_url (hide_secrets i) = item_url i"
  "item_folder (hide_secrets i) = item_folder i" "item_tags (hide_secrets i) = item_tags i"
  "item_updated_at (hide_secrets i) = item_updated_at i" "item_created_at (hide_secrets i) = item_created_at i"
  by (simp_all add: hide_secrets_def)

text \<open>The same answers from what may be seen.\<close>

definition visible_summary :: "uuid set \<Rightarrow> visible_item \<Rightarrow> item_summary" where
  "visible_summary ids w = (let i = vi_shown w in
     \<lparr>su_id = item_id i, su_name = item_name i, su_kind = item_kind i, su_username = item_username i,
     su_url = item_url i, su_folder = item_folder i, su_tags = item_tags i, su_has_password = vi_has_password w,
     su_has_totp = vi_has_totp w, su_reused = item_id i \<in> ids,
     su_missing_second_factor = (item_kind i = Login \<and> vi_has_password w \<and> \<not> vi_has_totp w),
     su_updated_at = item_updated_at i, su_created_at = item_created_at i\<rparr>)"

lemma summary_visible: "reused_summary ids = visible_summary ids \<circ> visible"
  by (rule ext) (auto simp: reused_summary_def summary_of_def visible_summary_def visible_def missing_second_factor_def Let_def)

lemma kind_visible:
  "of_wanted_kind kind = (\<lambda>w. case kind of Some Login \<Rightarrow> item_kind (vi_shown w) = Login \<and> vi_has_password w
     | Some wanted \<Rightarrow> item_kind (vi_shown w) = wanted | None \<Rightarrow> True) \<circ> visible"
  by (rule ext) (auto simp: of_wanted_kind_def visible_def split: option.split item_kind.split)

lemma matches_visible: "(\<lambda>i. item_matches lc i q) = (\<lambda>w. item_matches lc (vi_shown w) q) \<circ> visible"
  by (rule ext) (simp add: visible_def matches_hide)

lemma filter_comp: "map g (filter (P \<circ> g) xs) = filter P (map g xs)"
  by (induction xs) auto

lemma map_comp_filter: "map (f \<circ> g) (filter (P \<circ> g) xs) = map f (filter P (map g xs))"
  by (simp flip: filter_comp)

lemma insort_key_map: "map g (insort_key (\<lambda>x. f (g x)) x ys) = insort_key f (g x) (map g ys)"
  by (induction ys) auto

lemma sort_key_map: "map g (sort_key (f \<circ> g) xs) = sort_key f (map g xs)"
  unfolding comp_def by (induction xs) (simp_all add: insort_key_map)

lemma shown_filters:
  "(\<lambda>i. case folder of Some wanted \<Rightarrow> item_folder i = Some wanted | None \<Rightarrow> True) =
     (\<lambda>w. case folder of Some wanted \<Rightarrow> item_folder (vi_shown w) = Some wanted | None \<Rightarrow> True) \<circ> visible"
  "(\<lambda>i. with_totp \<noteq> Some True \<or> item_totp i \<noteq> None) = (\<lambda>w. with_totp \<noteq> Some True \<or> vi_has_totp w) \<circ> visible"
  by (rule ext, simp add: visible_def split: option.split)+

lemma listing_visible:
  "map (reused_summary ids)
     (filter (\<lambda>i. case folder of Some wanted \<Rightarrow> item_folder i = Some wanted | None \<Rightarrow> True)
     (filter (\<lambda>i. with_totp \<noteq> Some True \<or> item_totp i \<noteq> None)
     (filter (of_wanted_kind kind) (search lc d q)))) =
   map (visible_summary ids)
     (filter (\<lambda>w. case folder of Some wanted \<Rightarrow> item_folder (vi_shown w) = Some wanted | None \<Rightarrow> True)
     (filter (\<lambda>w. with_totp \<noteq> Some True \<or> vi_has_totp w)
     (filter (\<lambda>w. case kind of Some Login \<Rightarrow> item_kind (vi_shown w) = Login \<and> vi_has_password w
        | Some wanted \<Rightarrow> item_kind (vi_shown w) = wanted | None \<Rightarrow> True)
     (filter (\<lambda>w. item_matches lc (vi_shown w) q) (map visible (vd_items d))))))"
  unfolding search_def matches_visible kind_visible shown_filters summary_visible
  by (simp only: filter_comp flip: map_map)

lemma recent_visible:
  "map (reused_summary ids) (recent n d) =
   map (visible_summary ids) (take n (sort_key (\<lambda>w. - uint (item_updated_at (vi_shown w))) (map visible (vd_items d))))"
proof -
  have "(\<lambda>i. - uint (item_updated_at i)) = (\<lambda>w. - uint (item_updated_at (vi_shown w))) \<circ> visible"
    by (rule ext) (simp add: visible_def)
  then show ?thesis
    unfolding recent_def summary_visible by (simp only: map_map [symmetric] take_map [symmetric] sort_key_map)
qed

lemma extras_visible:
  "visible i = visible j \<Longrightarrow> has_notes i = has_notes j \<and> map field_view_of (item_fields i) = map field_view_of (item_fields j)"
proof -
  assume v: "visible i = visible j"
  have "map field_view_of (item_fields (hide_secrets k)) = map field_view_of (item_fields k)" for k
    by (simp add: hide_secrets_def field_view_of_def)
  moreover from v have "hide_secrets i = hide_secrets j" "has_notes i = has_notes j" by (simp_all add: visible_def)
  ultimately show ?thesis by metis
qed

lemma vget_visible:
  "map visible xs = map visible ys \<Longrightarrow>
    rel_option (\<lambda>i j. visible i = visible j) (find (\<lambda>i. item_id i = k) xs) (find (\<lambda>i. item_id i = k) ys)"
proof (induction xs arbitrary: ys)
  case (Cons x xs)
  then obtain y ys' where ys: "ys = y # ys'" "visible x = visible y" "map visible xs = map visible ys'" by auto
  then have "item_id x = item_id y" by (metis hide_simps(1) visible_def visible_item.select_convs(1))
  with Cons.IH [OF ys(3)] ys show ?case by simp
qed simp

text \<open>
  C25: what the interface is sent to show a list of items, the recent ones or the details of one does
  not depend on any secret: two vaults with the same items apart from the values of passwords, notes,
  authenticator seeds and secret fields give the same answers to every listing, as long as the same
  items are marked as sharing a password.
\<close>

theorem listings_hide_secrets:
  assumes "as_vault s = Some v" and "as_vault s' = Some v'"
    and "map visible (vd_items (uv_data v)) = map visible (vd_items (uv_data v'))"
    and "reused (de_sha E) salt (vd_items (uv_data v)) = reused (de_sha E) salt (vd_items (uv_data v'))"
  shows "list_items E salt query kind with_totp folder s = list_items E salt query kind with_totp folder s' \<and>
    recent_items E salt limit s = recent_items E salt limit s' \<and>
    item_extras_cmd E k s = item_extras_cmd E k s'"
proof (intro conjI)
  show "list_items E salt query kind with_totp folder s = list_items E salt query kind with_totp folder s'"
    using assms unfolding list_items_def reading_def with_vault_def Let_def listing_visible by simp
  show "recent_items E salt limit s = recent_items E salt limit s'"
    using assms unfolding recent_items_def reading_def with_vault_def Let_def recent_visible by simp
  have "rel_option (\<lambda>i j. visible i = visible j) (vget (uv_data v) k) (vget (uv_data v') k)"
    unfolding vget_def using assms(3) by (rule vget_visible)
  then show "item_extras_cmd E k s = item_extras_cmd E k s'"
  proof (cases rule: option.rel_cases)
    case None
    then show ?thesis using assms(1,2) by (simp add: item_extras_cmd_def reading_item_def reading_def with_vault_def)
  next
    case (Some i j)
    with extras_visible [OF Some(3)] assms(1,2) show ?thesis
      by (simp add: item_extras_cmd_def reading_item_def reading_def with_vault_def)
  qed
qed

definition sample_desk :: desk_env where
  "sample_desk = \<lparr>de_prims = total_prims, de_otp = sample_otp, de_lower = id, de_upper = id, de_sha = id\<rparr>"

definition holding :: "item list \<Rightarrow> app_state" where
  "holding is = sample_app (Some (sample_vault\<lparr>uv_data := vault_data_default\<lparr>vd_items := is\<rparr>\<rparr>)) (sample_disk Map.empty)"

theorem listings_hide_secrets_witness:
  "list_items sample_desk [] None None None None (holding [sample_item]) =
   list_items sample_desk [] None None None None (holding [sample_item\<lparr>item_password := Some (SecretString ''other'')\<rparr>])"
proof -
  have "visible sample_item = visible (sample_item\<lparr>item_password := Some (SecretString ''other'')\<rparr>)"
    by (simp add: visible_def hide_secrets_def has_notes_def sample_item_def item_new_def)
  moreover have "reused id [] [i] = {}" for i
    by (simp add: reused_def reused_step_def split: option.split)
  ultimately show ?thesis
    using listings_hide_secrets [of "holding [sample_item]" _ "holding [sample_item\<lparr>item_password := Some (SecretString ''other'')\<rparr>]" _ sample_desk "[]"]
    by (simp add: holding_def sample_app_def sample_desk_def)
qed

section \<open>An edit changes what was edited\<close>

lemma editing_Inr:
  assumes "editing E nonce f s = (s', Inr x)"
  obtains v v' where "as_vault s = Some v" "f v = (v', Inr x)" "as_vault s' = Some v'"
    "save_vault (de_prims E) nonce (s\<lparr>as_vault := Some v'\<rparr>) = (s', Inr ())"
proof -
  from assms obtain v v' where v: "as_vault s = Some v" "f v = (v', Inr x)"
    and sv: "save_vault (de_prims E) nonce (s\<lparr>as_vault := Some v'\<rparr>) = (s', Inr ())"
    by (auto simp: editing_def with_vault_mut_def and_do_def split: option.splits prod.splits sum.splits)
  have "as_vault s' = Some v'" using save_keeps_memory [of "de_prims E" nonce "s\<lparr>as_vault := Some v'\<rparr>"] sv by simp
  with v sv that show thesis by blast
qed

text \<open>
  C30: a successful edit of an item sets the seven fields of the form: name and kind as given, user
  name, address and notes with blank ones as nothing, the custom fields less those without a label, and
  the password only if one was typed (an empty one clears it). It leaves the authenticator,
  the folder, the tags, the subscription and the date of creation of the item, and every other item, as
  they were.
\<close>

theorem edit_changes_the_form:
  assumes "update_item_cmd E nonce now k e s = (s', Inr ())"
  shows "\<exists>v v' i i'. as_vault s = Some v \<and> as_vault s' = Some v' \<and> vget (uv_data v) k = Some i \<and> vget (uv_data v') k = Some i' \<and>
    item_name i' = ed_name e \<and> item_kind i' = ed_kind e \<and> item_username i' = blank_to_none (ed_username e) \<and>
    item_url i' = blank_to_none (ed_url e) \<and> item_notes i' = map_option SecretString (blank_to_none (ed_notes e)) \<and>
    item_fields i' = map field_of_new (filter (\<lambda>f. trim (nf_label f) \<noteq> []) (ed_fields e)) \<and> item_updated_at i' = now \<and>
    item_password i' = (case ed_password e of None \<Rightarrow> item_password i
      | Some p \<Rightarrow> if p = [] then None else Some (SecretString p)) \<and>
    item_totp i' = item_totp i \<and> item_folder i' = item_folder i \<and> item_tags i' = item_tags i \<and>
    item_subscription i' = item_subscription i \<and> item_created_at i' = item_created_at i \<and>
    (\<forall>j. j \<noteq> k \<longrightarrow> vget (uv_data v') j = vget (uv_data v) j)"
proof -
  obtain v v' where v: "as_vault s = Some v" "on_items_or (update_item now k (apply_edit e)) v = (v', Inr ())" "as_vault s' = Some v'"
    using editing_Inr [OF assms [unfolded update_item_cmd_def]] by metis
  then obtain i where i: "vget (uv_data v) k = Some i"
    and v': "uv_data v' = (uv_data v)\<lparr>vd_items := update_first (\<lambda>i. item_id i = k) (\<lambda>i. (apply_edit e i)\<lparr>item_updated_at := now\<rparr>) (vd_items (uv_data v))\<rparr>"
    by (auto simp: on_items_or_def update_item_def vget_def split: option.splits)
  have ids: "item_id (apply_edit e j) = item_id j" for j by (simp add: apply_edit_def Let_def split: option.split)
  have "item_id i = k" using i by (auto simp: vget_def dest: find_Some_set)
  then have get: "vget (uv_data v') k = Some ((apply_edit e i)\<lparr>item_updated_at := now\<rparr>)"
    using i ids by (simp add: vget_def v' find_update_first)
  have "vget (uv_data v') j = vget (uv_data v) j" if "j \<noteq> k" for j
    using that ids by (simp add: vget_def v' find_update_first_other)
  with v(1,3) i get show ?thesis
    by (rule_tac x = v in exI, rule_tac x = v' in exI, rule_tac x = i in exI,
        rule_tac x = "(apply_edit e i)\<lparr>item_updated_at := now\<rparr>" in exI)
      (simp add: apply_edit_def Let_def split: option.split)
qed

definition sample_edit :: item_edit where
  "sample_edit = \<lparr>ed_name = ''post'', ed_kind = Login, ed_username = Some '' '', ed_password = None, ed_url = None,
     ed_notes = None, ed_fields = []\<rparr>"

lemma total_seal: "\<exists>f. seal_vault total_prims nonce v = Inr f"
  by (simp add: seal_vault_def seal_def total_prims_def sample_prims_def Let_def)

lemma holding_simps [simp]:
  "as_vault (holding is) = Some (sample_vault\<lparr>uv_data := vault_data_default\<lparr>vd_items := is\<rparr>\<rparr>)"
  "healthy (as_disk (holding is))" "vault_path (holding is) = ''vault.yara''"
  by (simp_all add: holding_def sample_app_def sample_disk_def healthy_def vault_path_def selected_vault_path_def registry_default_def)

lemma editing_works:
  assumes "healthy (as_disk s)" and "as_vault s = Some v" and "f v = (v', Inr x)" and "vault_name (vault_path s)"
  obtains s' where "editing sample_desk nonce f s = (s', Inr x)"
proof -
  let ?s = "s\<lparr>as_vault := Some v'\<rparr>"
  obtain g where g: "seal_vault total_prims nonce v' = Inr g" using total_seal by blast
  have "vault_path ?s = vault_path s" by (simp add: vault_path_def selected_vault_path_def cong: option.case_cong)
  then obtain s' where "save_vault total_prims nonce ?s = (s', Inr ())"
    using healthy_save [of ?s v' total_prims nonce g] assms g by auto
  with assms that show thesis by (simp add: editing_def with_vault_mut_def sample_desk_def)
qed

theorem edit_changes_the_form_witness:
  "\<exists>(s' :: app_state) v' (i' :: item). as_vault s' = Some v' \<and> vget (uv_data v') 7 = Some i' \<and> item_name i' = ''post'' \<and>
    item_password i' = Some (SecretString ''hunter2'')"
proof -
  have got: "vget (uv_data (sample_vault\<lparr>uv_data := vault_data_default\<lparr>vd_items := [sample_item]\<rparr>\<rparr>)) 7 = Some sample_item"
    by (simp add: vget_def sample_item_def item_new_def)
  then obtain v' where v': "on_items_or (update_item 9 7 (apply_edit sample_edit))
      (sample_vault\<lparr>uv_data := vault_data_default\<lparr>vd_items := [sample_item]\<rparr>\<rparr>) = (v', Inr ())"
    by (simp add: on_items_or_def update_item_def vget_def)
  have "vault_name (vault_path (holding [sample_item]))" using sample_path(2) by simp
  from editing_works [of "holding [sample_item]" _ "on_items_or (update_item 9 7 (apply_edit sample_edit))",
      OF holding_simps(2,1) v' this] obtain s'
    where "update_item_cmd sample_desk [] 9 7 sample_edit (holding [sample_item]) = (s', Inr ())"
    unfolding update_item_cmd_def by metis
  from edit_changes_the_form [OF this] got obtain v' i' where "as_vault s' = Some v'" "vget (uv_data v') 7 = Some i'"
      "item_name i' = ''post''" "item_password i' = item_password sample_item"
    by (auto simp: sample_edit_def)
  then show ?thesis by (intro exI [of _ s'] exI [of _ v'] exI [of _ i']) (simp add: sample_item_def item_new_def)
qed

text \<open>
  A change whose save fails is reported as an error and stays in memory: the next save that succeeds
  writes it.
\<close>

theorem failed_edit_is_written_later:
  assumes "as_vault s = Some v" and "f v = (v', Inr x)" and "editing E nonce f s = (s', Inl e)" and "seal_vault (de_prims E) nonce' v' = Inr g"
    and "vault_name (vault_path s')" and "save_vault (de_prims E) nonce' s' = (s'', Inr ())"
  shows "as_vault s' = Some v' \<and> d_files (as_disk s'') (vault_path s') = Some (to_bytes (de_prims E) g)"
proof -
  let ?s = "s\<lparr>as_vault := Some v'\<rparr>"
  have "fst (save_vault (de_prims E) nonce ?s) = s'"
    using assms(1-3) by (auto simp: editing_def with_vault_mut_def and_do_def split: prod.splits sum.splits)
  then have kept: "as_vault s' = Some v'" using save_keeps_memory [of "de_prims E" nonce ?s] by simp
  then obtain d where "persist_at (de_prims E) nonce' (vault_path s') v' (as_disk s') = (d, Inr ())" "as_disk s'' = d"
    using assms(6) by (auto simp: save_vault_def persist_def lift_disk_def split: prod.splits)
  with kept persist_at_outcome [OF assms(5,4)] show ?thesis by blast
qed

end
