(* ===== verification/Vault_View.thy ===== *)
theory Vault_View
  imports App_State Listener
begin

text \<open>
  How the desktop application wires the broker to the vault and to the user
  (\<open>apps/desktop/src-tauri/src/broker.rs\<close>): the view of the vault the broker is given, the prompts
  that wait for an answer, and the answers the interface may give.
\<close>

section \<open>What an implementation of the bridge promises\<close>

text \<open>
  A locked vault shows nothing and gives nothing out; recording an access changes neither whether the
  vault is unlocked nor what it holds; an item that is found has the fields its reference says it has.
\<close>

locale vault_bridge =
  fixes B :: "'v bridge" and ok :: "'v \<Rightarrow> bool"
  assumes locked_list: "\<not> vb_unlocked B v \<Longrightarrow> vb_list B v q = []"
    and locked_resolve: "\<not> vb_unlocked B v \<Longrightarrow> vb_resolve B v n = NotFound"
    and locked_secret: "\<not> vb_unlocked B v \<Longrightarrow> vb_secret B v k f = None"
    and record_unlocked: "vb_unlocked B (vb_record B e v) = vb_unlocked B v"
    and record_secret: "vb_secret B (vb_record B e v) = vb_secret B v"
    and record_ok: "ok v \<Longrightarrow> ok (vb_record B e v)"
    and found_filled: "ok v \<Longrightarrow> vb_resolve B v n = Found r \<Longrightarrow> has_field f r \<Longrightarrow> f \<noteq> OneTimeCode \<Longrightarrow>
      vb_secret B v (ref_id r) f \<noteq> None"
begin

lemma locked_handles_nothing:
  assumes "\<not> vb_unlocked B (b_vault b)" and "q \<noteq> Status"
  shows "handle B E version q client now a g e at m1 m2 b = (b, refused VaultLocked)"
  using assms
  by (cases q) (simp_all add: handle_def handle_list_def handle_access_def begin_access_def)

lemma dispatch_reveals:
  assumes "dispatch B E item access v = Revealed x"
  shows "vb_unlocked B v \<and> vb_secret B v (ref_id item) (ar_field access) = Some (SecretString x) \<and> ar_intent access = Reveal"
  using assms
  by (auto simp: dispatch_def run_command_def refused_def
      split: if_splits option.splits intent.splits process_result.splits)

lemma approved_reveal:
  assumes "ok (b_vault b)" and "begin_access B access client now b = (b1, AskUser item)"
    and "ar_intent access = Reveal" and "ar_field access \<noteq> OneTimeCode" and "d \<noteq> Deny"
    and "handle_access B E access client now (Answered d) g e at id id b = (b', r)"
  shows "\<exists>x. r = Revealed x \<and> vb_secret B (b_vault b) (ref_id item) (ar_field access) = Some (SecretString x)"
proof -
  have u: "vb_unlocked B (b_vault b)" and f: "vb_resolve B (b_vault b) (ar_item access) = Found item"
    and h: "has_field (ar_field access) item" and v1: "b_vault b1 = b_vault b"
    using assms(2) by (auto simp: begin_access_def Let_def split: if_splits resolution.splits prod.splits option.splits)
  from found_filled [OF assms(1) f h assms(4)] obtain sec where
    sec: "vb_secret B (b_vault b) (ref_id item) (ar_field access) = Some sec" by blast
  obtain b2 where c: "conclude_approval access item client now g (Answered d) b1 = (b2, Inr (Approved (Some g)))"
    using conclude_approved [OF assms(5)] by blast
  have "b_vault b2 = b_vault b" using conclude_allowed [OF c] v1 by simp
  then have "dispatch B E item access (b_vault b2) = Revealed (expose sec)"
    using u sec assms(3) by (simp add: dispatch_def)
  with assms(2,6) c sec show ?thesis by (cases sec) (auto simp: handle_access_def Let_def)
qed

end

section \<open>The view of the vault\<close>

definition to_ref :: "item \<Rightarrow> item_ref" where
  "to_ref i = \<lparr>ref_id = item_id i, ref_name = item_name i, ref_username = item_username i,
     ref_has_password = (item_password i \<noteq> None), ref_has_totp = (item_totp i \<noteq> None),
     ref_fields = map field_label (item_fields i)\<rparr>"

definition unwrap_or :: "'a \<Rightarrow> 'a app_result \<Rightarrow> 'a" where
  "unwrap_or x r = (case r of Inl _ \<Rightarrow> x | Inr y \<Rightarrow> y)"

definition view_list :: "(string \<Rightarrow> string) \<Rightarrow> app_state \<Rightarrow> string option \<Rightarrow> item_ref list" where
  "view_list lc s query =
     unwrap_or [] (with_vault (\<lambda>v. Inr (map to_ref (search lc (uv_data v) (case query of None \<Rightarrow> [] | Some q \<Rightarrow> q)))) s)"

definition view_resolve :: "prims \<Rightarrow> app_state \<Rightarrow> string \<Rightarrow> resolution" where
  "view_resolve P s needle =
     unwrap_or NotFound (with_vault (\<lambda>v.
       case p_uuid_parse P needle of
         Some k \<Rightarrow> Inr (case vget (uv_data v) k of Some i \<Rightarrow> Found (to_ref i) | None \<Rightarrow> NotFound)
       | None \<Rightarrow>
           Inr (case filter (\<lambda>i. eq_ignore_ascii_case (item_name i) (trim needle)) (vd_items (uv_data v)) of
                  [] \<Rightarrow> NotFound
                | [only] \<Rightarrow> Found (to_ref only)
                | several \<Rightarrow> AmbiguousName (map (\<lambda>i. p_uuid_print P (item_id i)) several))) s)"

definition item_secret :: "otp_prims \<Rightarrow> u64 \<Rightarrow> item \<Rightarrow> access_field \<Rightarrow> secret_string option" where
  "item_secret H now i f =
     (case f of
        Password \<Rightarrow> item_password i
      | Username \<Rightarrow> map_option SecretString (item_username i)
      | OneTimeCode \<Rightarrow>
          (case item_totp i of
             None \<Rightarrow> None
           | Some t \<Rightarrow> (case generate_at H t now of Inl _ \<Rightarrow> None | Inr c \<Rightarrow> Some (SecretString c)))
      | Custom label \<Rightarrow> map_option field_value (find (\<lambda>g. field_label g = label) (item_fields i)))"

definition view_secret :: "otp_prims \<Rightarrow> u64 \<Rightarrow> app_state \<Rightarrow> uuid \<Rightarrow> access_field \<Rightarrow> secret_string option" where
  "view_secret H now s k f =
     unwrap_or None (with_vault (\<lambda>v.
       case vget (uv_data v) k of None \<Rightarrow> Inr None | Some i \<Rightarrow> Inr (item_secret H now i f)) s)"

definition record_payload :: "string \<Rightarrow> unlocked_vault \<Rightarrow> unlocked_vault \<times> unit app_result" where
  "record_payload payload v = (v\<lparr>uv_data := record_audit payload (uv_data v)\<rparr>, Inr ())"

definition view_record_audit :: "prims \<Rightarrow> bytes \<Rightarrow> entry \<Rightarrow> app_state \<Rightarrow> app_state" where
  "view_record_audit P nonce e s =
     fst (save_vault P nonce (fst (with_vault_mut (record_payload (p_json_print P (entry_json P e))) s)))"

definition view_load_audit :: "prims \<Rightarrow> app_state \<Rightarrow> entry list" where
  "view_load_audit P s =
     unwrap_or [] (with_vault (\<lambda>v. Inr (List.map_filter
       (\<lambda>payload. case parse_json P (of_entry P) payload of Inl _ \<Rightarrow> None | Inr e \<Rightarrow> Some e) (vd_audit (uv_data v)))) s)"

text \<open>\<open>lc\<close> is \<open>str::to_lowercase\<close>, \<open>now\<close> what the clock reads when a code is generated, \<open>nonce\<close> that of a save.\<close>

definition vault_view :: "prims \<Rightarrow> otp_prims \<Rightarrow> (string \<Rightarrow> string) \<Rightarrow> u64 \<Rightarrow> bytes \<Rightarrow> app_state bridge" where
  "vault_view P H lc now nonce = \<lparr>vb_unlocked = is_unlocked, vb_list = view_list lc, vb_resolve = view_resolve P,
     vb_secret = view_secret H now, vb_record = view_record_audit P nonce, vb_load = view_load_audit P\<rparr>"

section \<open>The prompts\<close>

record approval_prompt =
  pr_id :: uuid
  pr_program :: string
  pr_program_path :: "string option"
  pr_pid :: u32
  pr_item :: string
  pr_field :: string
  pr_mode :: string
  pr_command :: "string option"
  pr_env_var :: "string option"
  pr_reason :: string
  pr_discloses :: bool

definition approval_prompt_new :: "uuid \<Rightarrow> approval_request \<Rightarrow> approval_prompt" where
  "approval_prompt_new k q =
     (case (case ap_intent q of
              Run command args env_var _ \<Rightarrow>
                (''run'', Some (if args = [] then command else command @ '' '' @ join '' '' args), Some env_var)
            | Reveal \<Rightarrow> (''reveal'', None, None)) of
        (mode, command, env_var) \<Rightarrow>
          \<lparr>pr_id = k, pr_program = display_name (ap_client q), pr_program_path = executable (ap_client q),
           pr_pid = pid (ap_client q), pr_item = ref_name (ap_item q), pr_field = field_phrase (ap_field q),
           pr_mode = mode, pr_command = command, pr_env_var = env_var, pr_reason = ap_reason q,
           pr_discloses = ap_discloses q\<rparr>)"

text \<open>
  \<open>ui_pending\<close> are the senders kept by prompt, \<open>ui_waiting\<close> the requests whose receiver is still
  there, \<open>ui_answers\<close> what each request was told. \<open>prompt_timeout\<close> is the broker giving up.
\<close>

record ui_approver =
  ui_pending :: "uuid list"
  ui_waiting :: "uuid list"
  ui_answers :: "(uuid \<times> answer) list"

definition ui_new :: ui_approver where
  "ui_new = \<lparr>ui_pending = [], ui_waiting = [], ui_answers = []\<rparr>"

definition ui_ask :: "uuid \<Rightarrow> ui_approver \<Rightarrow> ui_approver" where
  "ui_ask fresh u = u\<lparr>ui_pending := ui_pending u @ [fresh], ui_waiting := ui_waiting u @ [fresh]\<rparr>"

definition ui_resolve :: "uuid \<Rightarrow> decision \<Rightarrow> ui_approver \<Rightarrow> ui_approver \<times> bool" where
  "ui_resolve k d u =
     (if k \<notin> set (ui_pending u) then (u, False)
      else
        let u' = u\<lparr>ui_pending := filter (\<lambda>p. p \<noteq> k) (ui_pending u)\<rparr> in
        if k \<in> set (ui_waiting u)
        then (u'\<lparr>ui_waiting := filter (\<lambda>p. p \<noteq> k) (ui_waiting u), ui_answers := ui_answers u @ [(k, Answered d)]\<rparr>, True)
        else (u', False))"

definition abandon_all :: "ui_approver \<Rightarrow> ui_approver" where
  "abandon_all u = u\<lparr>ui_pending := [],
     ui_waiting := filter (\<lambda>k. k \<notin> set (ui_pending u)) (ui_waiting u),
     ui_answers := ui_answers u @ map (\<lambda>k. (k, Dropped)) (filter (\<lambda>k. k \<in> set (ui_pending u)) (ui_waiting u))\<rparr>"

definition prompt_timeout :: "uuid \<Rightarrow> ui_approver \<Rightarrow> ui_approver" where
  "prompt_timeout k u =
     (if k \<notin> set (ui_waiting u) then u
      else u\<lparr>ui_waiting := filter (\<lambda>p. p \<noteq> k) (ui_waiting u), ui_answers := ui_answers u @ [(k, NoAnswer)]\<rparr>)"

definition on_lock :: "ui_approver \<Rightarrow> 'v broker \<Rightarrow> ui_approver \<times> 'v broker" where
  "on_lock u b = (abandon_all u, forget_grants b)"

definition decision_from :: "string \<Rightarrow> u64 option \<Rightarrow> decision option" where
  "decision_from choice minutes =
     (if choice = ''deny'' then Some Deny
      else if choice = ''once'' then Some AllowOnce
      else if choice = ''window''
      then Some (AllowFor (min (max (case minutes of None \<Rightarrow> 15 | Some m \<Rightarrow> m) 1) 60 * 60) 25)
      else None)"

section \<open>The view keeps the promises\<close>

definition view_ok :: "app_state \<Rightarrow> bool" where
  "view_ok s \<longleftrightarrow> (case as_vault s of None \<Rightarrow> True | Some v \<Rightarrow> vault_wf (uv_data v))"

lemma view_record_vault:
  "as_vault (view_record_audit P nonce e s) =
     map_option (\<lambda>v. v\<lparr>uv_data := record_audit (p_json_print P (entry_json P e)) (uv_data v)\<rparr>) (as_vault s)"
  by (simp add: view_record_audit_def save_keeps_memory with_vault_mut_def record_payload_def split: option.splits)

lemma record_audit_get [simp]: "vget (record_audit p d) = vget d"
  by (simp add: vget_def record_audit_def Let_def fun_eq_iff)

lemma item_secret_filled:
  "has_field f (to_ref i) \<Longrightarrow> f \<noteq> OneTimeCode \<Longrightarrow> item_secret H now i f \<noteq> None"
  using find_None_iff [of "\<lambda>g. field_label g = l" "item_fields i" for l]
  by (cases f) (auto simp: has_field_def to_ref_def item_secret_def list_ex_iff)

lemma view_resolve_item:
  assumes "view_resolve P s n = Found r"
  obtains v i where "as_vault s = Some v" "i \<in> set (vd_items (uv_data v))" "r = to_ref i"
proof -
  from assms obtain v where v: "as_vault s = Some v"
    by (auto simp: view_resolve_def with_vault_def unwrap_or_def split: option.splits)
  show ?thesis
  proof (cases "p_uuid_parse P n")
    case (Some k)
    with assms v obtain i where "vget (uv_data v) k = Some i" "r = to_ref i"
      by (auto simp: view_resolve_def with_vault_def unwrap_or_def split: option.splits)
    with that v show ?thesis by (auto simp: vget_def dest: find_Some_set)
  next
    case None
    let ?l = "filter (\<lambda>i. eq_ignore_ascii_case (item_name i) (trim n)) (vd_items (uv_data v))"
    from assms v None obtain i where l: "?l = [i]" and r: "r = to_ref i"
      by (auto simp: view_resolve_def with_vault_def unwrap_or_def split: list.splits)
    have "i \<in> set ?l" unfolding l by simp
    with that v r show ?thesis by auto
  qed
qed

interpretation view: vault_bridge "vault_view P H lc now nonce" view_ok
proof
  fix s q n k f e r
  let ?B = "vault_view P H lc now nonce"
  assume l: "\<not> vb_unlocked ?B s"
  then show "vb_list ?B s q = []" "vb_resolve ?B s n = NotFound" "vb_secret ?B s k f = None"
    by (simp_all add: vault_view_def is_unlocked_def view_list_def view_resolve_def view_secret_def with_vault_def
        unwrap_or_def)
next
  fix s e
  show "vb_unlocked (vault_view P H lc now nonce) (vb_record (vault_view P H lc now nonce) e s) =
      vb_unlocked (vault_view P H lc now nonce) s"
    by (simp add: vault_view_def is_unlocked_def view_record_vault)
  show "vb_secret (vault_view P H lc now nonce) (vb_record (vault_view P H lc now nonce) e s) =
      vb_secret (vault_view P H lc now nonce) s"
    by (simp add: vault_view_def view_secret_def with_vault_def view_record_vault fun_eq_iff split: option.splits)
next
  fix s e
  assume "view_ok s"
  then show "view_ok (vb_record (vault_view P H lc now nonce) e s)"
    by (auto simp: vault_view_def view_ok_def view_record_vault intro: wf_settings split: option.splits)
next
  fix s n r f
  assume ok: "view_ok s" and res: "vb_resolve (vault_view P H lc now nonce) s n = Found r"
    and h: "has_field f r" "f \<noteq> OneTimeCode"
  from res have "view_resolve P s n = Found r" by (simp add: vault_view_def)
  then obtain v i where v: "as_vault s = Some v" "i \<in> set (vd_items (uv_data v))" and r: "r = to_ref i"
    by (rule view_resolve_item)
  with ok have "vget (uv_data v) (item_id i) = Some i" by (simp add: view_ok_def vget_def vault_wf_def find_key_iff)
  with h v item_secret_filled show "vb_secret (vault_view P H lc now nonce) s (ref_id r) f \<noteq> None"
    by (simp add: vault_view_def view_secret_def with_vault_def unwrap_or_def r to_ref_def)
qed

section \<open>What the agent can get\<close>

text \<open>
  While the vault is locked an agent gets nothing: every request but a status inquiry is refused
  as locked, and neither the grants, the log nor the vault change.
\<close>

theorem locked_vault_gives_nothing:
  assumes "as_vault (b_vault b) = None" and "q \<noteq> Status"
  shows "handle (vault_view P H lc now nonce) E version q client now' a g e at m1 m2 b = (b, refused VaultLocked)"
proof -
  have "\<not> vb_unlocked (vault_view P H lc now nonce) (b_vault b)"
    using assms(1) by (simp add: vault_view_def is_unlocked_def)
  from view.locked_handles_nothing [OF this assms(2)] show ?thesis .
qed

theorem locked_vault_gives_nothing_witness:
  "handle (vault_view (sample_prims JNull JNull) sample_otp id 0 []) sample_process [] (ListItems None) sample_client
     100 NoAnswer 9 10 101 id id (broker_new (sample_app None (sample_disk Map.empty))) =
   (broker_new (sample_app None (sample_disk Map.empty)), refused VaultLocked)"
  by (rule locked_vault_gives_nothing) (simp_all add: broker_new_def sample_app_def)

text \<open>
  An approved request to reveal hands over exactly the value stored in the field that was asked
  for, of the item that was put to the user, and never comes back empty handed.
\<close>

theorem approved_reveal_exact:
  assumes "as_vault (b_vault b) = Some v" and "vault_wf (uv_data v)"
    and "begin_access (vault_view P H lc now nonce) access client now' b = (b1, AskUser item)"
    and "ar_intent access = Reveal" and "ar_field access \<noteq> OneTimeCode" and "d \<noteq> Deny"
    and "handle_access (vault_view P H lc now nonce) E access client now' (Answered d) g e at id id b = (b', r)"
  shows "\<exists>i x. vget (uv_data v) (ref_id item) = Some i \<and> item_secret H now i (ar_field access) = Some (SecretString x) \<and>
    r = Revealed x"
proof -
  have "view_ok (b_vault b)" using assms(1,2) by (simp add: view_ok_def)
  from view.approved_reveal [OF this assms(3-7)] obtain x where r: "r = Revealed x"
    and sec: "view_secret H now (b_vault b) (ref_id item) (ar_field access) = Some (SecretString x)"
    by (auto simp: vault_view_def)
  from sec assms(1) show ?thesis
    by (auto simp: r view_secret_def with_vault_def unwrap_or_def split: option.splits)
qed

definition sample_unlocked :: unlocked_vault where
  "sample_unlocked = sample_vault\<lparr>uv_data := vault_data_default\<lparr>vd_items :=
     [(item_new 7 1 ''mail'')\<lparr>item_password := Some (SecretString ''hunter22'')\<rparr>]\<rparr>\<rparr>"

lemma sample_unlocked_wf: "vault_wf (uv_data sample_unlocked)"
  by (simp add: sample_unlocked_def vault_wf_def vault_data_default_def)

theorem approved_reveal_exact_witness:
  "\<exists>b1 item b' r x. begin_access (vault_view ((sample_prims JNull JNull)\<lparr>p_uuid_parse := \<lambda>_. None\<rparr>) sample_otp id 0 [])
      (sample_access Reveal) sample_client 100 (broker_new (sample_app (Some sample_unlocked) (sample_disk Map.empty))) = (b1, AskUser item) \<and>
    handle_access (vault_view ((sample_prims JNull JNull)\<lparr>p_uuid_parse := \<lambda>_. None\<rparr>) sample_otp id 0 []) sample_process
      (sample_access Reveal) sample_client 100 (Answered AllowOnce) 9 10 101 id id
      (broker_new (sample_app (Some sample_unlocked) (sample_disk Map.empty))) = (b', r) \<and> r = Revealed x"
proof -
  let ?P = "(sample_prims JNull JNull)\<lparr>p_uuid_parse := \<lambda>_. None\<rparr>"
  let ?V = "vault_view ?P sample_otp id 0 []"
  let ?b = "broker_new (sample_app (Some sample_unlocked) (sample_disk Map.empty))"
  have "trim ''mail'' = ''mail''" by (rule trim_no_whitespace) (simp add: utf8_width_def is_whitespace_ascii)
  then have "view_resolve ?P (sample_app (Some sample_unlocked) (sample_disk Map.empty)) ''mail'' =
      Found (to_ref ((item_new 7 1 ''mail'')\<lparr>item_password := Some (SecretString ''hunter22'')\<rparr>))"
    by (simp add: view_resolve_def with_vault_def unwrap_or_def sample_app_def sample_unlocked_def item_new_def)
  then have b: "begin_access ?V (sample_access Reveal) sample_client 100 ?b =
      (?b, AskUser (to_ref ((item_new 7 1 ''mail'')\<lparr>item_password := Some (SecretString ''hunter22'')\<rparr>)))"
    by (simp add: begin_access_def vault_view_def is_unlocked_def broker_new_def sample_access_def has_field_def
        to_ref_def prune_def redeem_def Let_def) (simp add: sample_app_def)
  obtain b' r where h: "handle_access ?V sample_process (sample_access Reveal) sample_client 100 (Answered AllowOnce)
      9 10 101 id id ?b = (b', r)" by fastforce
  have v: "as_vault (b_vault ?b) = Some sample_unlocked" by (simp add: broker_new_def sample_app_def)
  from approved_reveal_exact [OF v sample_unlocked_wf b _ _ _ h] b h show ?thesis
    by (simp add: sample_access_def) blast
qed

text \<open>
  The answers the interface can give: only the three it offers are answers at all, and a standing
  permission lasts between a minute and an hour and at most 25 uses, whatever number is sent.
\<close>

theorem decision_bounded:
  "(decision_from choice minutes = None \<longleftrightarrow> choice \<notin> {''deny'', ''once'', ''window''}) \<and>
   (decision_from choice minutes = Some (AllowFor seconds uses) \<longrightarrow>
      60 \<le> seconds \<and> seconds \<le> 3600 \<and> uses = 25 \<and> choice = ''window'')"
proof -
  have "60 \<le> min (max m 1) 60 * 60 \<and> min (max m 1) 60 * 60 \<le> (3600 :: u64)" for m :: u64
  proof -
    define c where "c = min (max m 1) 60"
    have "1 \<le> c" "c \<le> 60" by (auto simp: c_def min_def max_def)
    then have "1 \<le> unat c" "unat c \<le> 60" by (simp_all add: word_le_nat_alt)
    moreover from this have "unat (c * 60) = unat c * 60" by (subst unat_mult_lem [THEN iffD1]) simp_all
    ultimately show ?thesis unfolding c_def [symmetric] by (simp add: word_le_nat_alt)
  qed
  then show ?thesis by (auto simp: decision_from_def)
qed

theorem decision_bounded_witness:
  "decision_from ''window'' (Some 9999) = Some (AllowFor 3600 25) \<and> (3600 :: u64) \<le> 3600"
proof -
  have eq: "decision_from ''window'' (Some 9999) = Some (AllowFor 3600 25)" by (simp add: decision_from_def)
  with decision_bounded [of "''window''" "Some 9999" 3600 25] show ?thesis by blast
qed

section \<open>The history survives a lock\<close>

definition readable_log :: "prims \<Rightarrow> unlocked_vault \<Rightarrow> bool" where
  "readable_log P v \<longleftrightarrow> length (vd_audit (uv_data v)) \<le> LOG_CAPACITY \<and>
     list_all (\<lambda>p. is_ok (parse_json P (of_entry P) p)) (vd_audit (uv_data v))"

definition read_entries :: "prims \<Rightarrow> string list \<Rightarrow> entry list" where
  "read_entries P ps = List.map_filter (\<lambda>p. case parse_json P (of_entry P) p of Inl _ \<Rightarrow> None | Inr e \<Rightarrow> Some e) ps"

lemma read_entries_all:
  "list_all (\<lambda>p. is_ok (parse_json P (of_entry P) p)) ps \<Longrightarrow>
    read_entries P ps = map (\<lambda>p. projr (parse_json P (of_entry P) p)) ps"
  by (induction ps) (auto simp: read_entries_def map_filter_simps is_ok_def split: sum.splits)

lemma restored_log:
  "as_vault (b_vault b) = Some v \<Longrightarrow> b_audit (restore_audit (vault_view P H lc now nonce) b) =
    keep_last LOG_CAPACITY (read_entries P (vd_audit (uv_data v)))"
  using access_log.entries_fold_push [of "[]" "read_entries P (vd_audit (uv_data v))"]
  by (simp add: restore_audit_def vault_view_def view_load_audit_def with_vault_def unwrap_or_def read_entries_def)

section \<open>Prompts fail closed\<close>

inductive ui_step :: "ui_approver \<Rightarrow> ui_approver \<Rightarrow> bool" where
  ui_step_ask: "k \<notin> set (ui_pending u) \<union> set (ui_waiting u) \<union> fst ` set (ui_answers u) \<Longrightarrow> ui_step u (ui_ask k u)"
| ui_step_resolve: "ui_step u (fst (ui_resolve k d u))"
| ui_step_abandon: "ui_step u (abandon_all u)"
| ui_step_timeout: "ui_step u (prompt_timeout k u)"

inductive ui_reachable :: "ui_approver \<Rightarrow> bool" where
  ui_start: "ui_reachable ui_new"
| ui_more: "ui_reachable u \<Longrightarrow> ui_step u u' \<Longrightarrow> ui_reachable u'"

text \<open>A request that waits has its sender, waits once, and has no answer yet; each has at most one.\<close>

definition ui_ok :: "ui_approver \<Rightarrow> bool" where
  "ui_ok u \<longleftrightarrow> set (ui_waiting u) \<subseteq> set (ui_pending u) \<and> distinct (ui_waiting u) \<and>
     distinct (map fst (ui_answers u)) \<and> set (ui_waiting u) \<inter> fst ` set (ui_answers u) = {}"

lemma ui_ok_step: "ui_step u u' \<Longrightarrow> ui_ok u \<Longrightarrow> ui_ok u'"
proof (induction rule: ui_step.induct)
  case (ui_step_abandon u)
  then show ?case
    by (auto simp: ui_ok_def abandon_all_def comp_def distinct_map inj_on_def image_iff)
qed (auto simp: ui_ok_def ui_ask_def ui_resolve_def prompt_timeout_def Let_def)

lemma reachable_ui_ok: "ui_reachable u \<Longrightarrow> ui_ok u"
  by (induction rule: ui_reachable.induct) (simp_all add: ui_ok_def [of ui_new] ui_ok_step, simp add: ui_new_def)

text \<open>
  In every reachable state no request has been answered twice, and when the vault locks every
  request that still waits is told that its prompt is gone, which is not consent; no grant survives,
  and an answer given afterwards reaches nobody.
\<close>

theorem lock_fails_closed:
  assumes "ui_reachable u" and "on_lock u b = (u', b')"
  shows "distinct (map fst (ui_answers u')) \<and> ui_waiting u' = [] \<and>
    (\<forall>k \<in> set (ui_waiting u). (k, Dropped) \<in> set (ui_answers u')) \<and>
    b_grants b' = [] \<and> b_audit b' = [] \<and> ui_resolve k d u' = (u', False)"
proof -
  have ok: "ui_ok u" using assms(1) by (rule reachable_ui_ok)
  have u': "u' = abandon_all u" and b': "b' = forget_grants b" using assms(2) by (simp_all add: on_lock_def)
  have "ui_ok u'" unfolding u' using ok by (rule ui_ok_step [OF ui_step_abandon])
  moreover have "ui_waiting u' = []" using ok by (auto simp: u' abandon_all_def ui_ok_def filter_empty_conv)
  moreover have "(k, Dropped) \<in> set (ui_answers u')" if "k \<in> set (ui_waiting u)" for k
    using that ok by (auto simp: u' abandon_all_def ui_ok_def)
  ultimately show ?thesis
    by (auto simp: ui_ok_def b' forget_grants_def clear_grants_def u' ui_resolve_def abandon_all_def)
qed

theorem lock_fails_closed_witness:
  "(7, Dropped) \<in> set (ui_answers (fst (on_lock (ui_ask 7 ui_new) (broker_new True))))"
proof -
  have "ui_reachable (ui_ask 7 ui_new)" by (rule ui_more [OF ui_start ui_step_ask]) (simp add: ui_new_def)
  from lock_fails_closed [OF this prod.collapse [symmetric], of "broker_new True"]
  show ?thesis by (simp add: ui_ask_def ui_new_def)
qed

end
