(* ===== verification/Clipboard.thy ===== *)
theory Clipboard
  imports Crypto
begin

text \<open>
  Putting a secret on the clipboard and taking it off again
  (\<open>apps/desktop/src-tauri/src/clipboard.rs\<close>). The decisions are made over a board, the trait of the
  source; the platform board is the one of the program, over a clipboard whose every system call may
  fail. A timer runs beside the commands, so the last section takes a copy and a timed clear apart into
  the steps the locks and the atomic counter leave whole.
\<close>

definition CLEAR_AFTER_SECONDS :: u64 where "CLEAR_AFTER_SECONDS = 20"

record copied =
  cp_excluded :: bool
  cp_clears_in :: u64
  cp_token :: u64

datatype cleared = Wiped | AlreadyGone | ClearFailed string

text \<open>The trait \<open>Board\<close>: what each call does to the clipboard \<open>'b\<close> and what it returns.\<close>

record 'b board_ops =
  bd_write :: "string \<Rightarrow> 'b \<Rightarrow> 'b \<times> (string + bool)"
  bd_empty_if :: "secret_string \<Rightarrow> 'b \<Rightarrow> 'b \<times> (string + bool)"

record 'b clip =
  cl_board :: 'b
  cl_ours :: "secret_string option"
  cl_token :: u64

definition clip_new :: "'b \<Rightarrow> 'b clip" where
  "clip_new b = \<lparr>cl_board = b, cl_ours = None, cl_token = 0\<rparr>"

definition clip_copy :: "'b board_ops \<Rightarrow> secret_string \<Rightarrow> 'b clip \<Rightarrow> 'b clip \<times> (string + copied)" where
  "clip_copy B s c =
     (case bd_write B (expose s) (cl_board c) of
        (b, Inl e) \<Rightarrow> (c\<lparr>cl_board := b\<rparr>, Inl e)
      | (b, Inr excluded) \<Rightarrow>
          let token = cl_token c + 1 in
          (c\<lparr>cl_board := b, cl_token := token, cl_ours := Some s\<rparr>,
           Inr \<lparr>cp_excluded = excluded, cp_clears_in = CLEAR_AFTER_SECONDS, cp_token = token\<rparr>))"

definition clip_wipe :: "'b board_ops \<Rightarrow> 'b clip \<Rightarrow> 'b clip \<times> cleared" where
  "clip_wipe B c =
     (case cl_ours c of
        None \<Rightarrow> (c, AlreadyGone)
      | Some s \<Rightarrow>
          (case bd_empty_if B s (cl_board c) of
             (b, Inr True) \<Rightarrow> (c\<lparr>cl_board := b, cl_ours := None\<rparr>, Wiped)
           | (b, Inr False) \<Rightarrow> (c\<lparr>cl_board := b, cl_ours := None\<rparr>, AlreadyGone)
           | (b, Inl e) \<Rightarrow> (c\<lparr>cl_board := b\<rparr>, ClearFailed e)))"

definition clear_copy :: "'b board_ops \<Rightarrow> u64 \<Rightarrow> 'b clip \<Rightarrow> 'b clip \<times> cleared" where
  "clear_copy B token c = (if cl_token c \<noteq> token then (c, AlreadyGone) else clip_wipe B c)"

definition clear_now :: "'b board_ops \<Rightarrow> 'b clip \<Rightarrow> 'b clip \<times> cleared" where
  "clear_now B c = clip_wipe B c"

section \<open>The platform board\<close>

text \<open>
  The clipboard of the system: the text on it, whether its monitors were told to skip it, and a script
  of the calls to come, where \<open>False\<close> is a call that fails (a call past its end succeeds), with one of
  its own for the readings of the text. The text goes on as UTF-16 up to a terminating zero, and is read
  back up to the first zero.
\<close>

record win =
  w_text :: "string option"
  w_told :: nat
  w_script :: "bool list"
  w_reads :: "bool list"

definition win_call :: "win \<Rightarrow> win \<times> bool" where
  "win_call w = (w\<lparr>w_script := tl (w_script w)\<rparr>, w_script w = [] \<or> hd (w_script w))"

definition OPEN_ATTEMPTS :: nat where "OPEN_ATTEMPTS = 10"

fun open_attempts :: "nat \<Rightarrow> win \<Rightarrow> win \<times> bool" where
  "open_attempts 0 w = (w, False)"
| "open_attempts (Suc n) w = (case win_call w of (w', ok) \<Rightarrow> if ok then (w', True) else open_attempts n w')"

definition read_back :: "string \<Rightarrow> string" where
  "read_back s = takeWhile (\<lambda>c. c \<noteq> CHR 0x00) s"

text \<open>A format is placed when it registers and its block is taken; one that fails ends the three.\<close>

fun place_formats :: "nat \<Rightarrow> win \<Rightarrow> win \<times> bool" where
  "place_formats 0 w = (w, True)"
| "place_formats (Suc n) w =
     (case win_call w of
        (w1, False) \<Rightarrow> (w1, False)
      | (w1, True) \<Rightarrow>
          (case win_call w1 of
             (w2, False) \<Rightarrow> (w2, False)
           | (w2, True) \<Rightarrow> place_formats n (w2\<lparr>w_told := w_told w2 + 1\<rparr>)))"

definition platform_write :: "string \<Rightarrow> win \<Rightarrow> win \<times> (string + bool)" where
  "platform_write secret w =
     (case open_attempts OPEN_ATTEMPTS w of
        (w1, False) \<Rightarrow> (w1, Inl ''the clipboard could not be opened'')
      | (w1, True) \<Rightarrow>
          (case win_call w1 of
             (w2, False) \<Rightarrow> (w2, Inl ''the clipboard could not be cleared for writing'')
           | (w2, True) \<Rightarrow>
               (case win_call (w2\<lparr>w_text := None, w_told := 0\<rparr>) of
                  (w3, False) \<Rightarrow> (w3, Inl ''the clipboard refused the text'')
                | (w3, True) \<Rightarrow>
                    (case place_formats 3 (w3\<lparr>w_text := Some (read_back secret)\<rparr>) of
                       (w4, excluded) \<Rightarrow> (w4, Inr excluded)))))"

definition read_text :: "win \<Rightarrow> win \<times> secret_string option" where
  "read_text w = (w\<lparr>w_reads := tl (w_reads w)\<rparr>,
     if w_reads w = [] \<or> hd (w_reads w) then map_option SecretString (w_text w) else None)"

definition platform_empty_if :: "secret_string \<Rightarrow> win \<Rightarrow> win \<times> (string + bool)" where
  "platform_empty_if expected w =
     (case open_attempts OPEN_ATTEMPTS w of
        (w1, False) \<Rightarrow> (w1, Inl ''the clipboard could not be opened'')
      | (w1, True) \<Rightarrow>
          (case read_text w1 of
             (w2, found) \<Rightarrow>
               if \<not> (case found of None \<Rightarrow> False | Some t \<Rightarrow> secret_eq t expected) then (w2, Inr False)
               else (case win_call w2 of
                 (w3, False) \<Rightarrow> (w3, Inl ''the clipboard could not be cleared'')
               | (w3, True) \<Rightarrow> (w3\<lparr>w_text := None, w_told := 0\<rparr>, Inr True))))"

definition platform_board :: "win board_ops" where
  "platform_board = \<lparr>bd_write = platform_write, bd_empty_if = platform_empty_if\<rparr>"

section \<open>What a board owes its user\<close>

text \<open>
  \<open>shown\<close> is the text on the clipboard, \<open>whole s\<close> that a text comes back from it as it went on, and
  \<open>sighted\<close> that it can be read.
\<close>

locale board =
  fixes B :: "'b board_ops"
    and shown :: "'b \<Rightarrow> string option"
    and whole :: "string \<Rightarrow> bool"
    and sighted :: "'b \<Rightarrow> bool"
  assumes write_ok: "whole s \<Longrightarrow> bd_write B s b = (b', Inr x) \<Longrightarrow> shown b' = Some s"
    and write_sighted: "sighted b \<Longrightarrow> bd_write B s b = (b', r) \<Longrightarrow> sighted b'"
    and write_failed: "bd_write B s b = (b', Inl e) \<Longrightarrow> shown b' = None \<or> shown b' = shown b"
    and empty_sighted: "sighted b \<Longrightarrow> bd_empty_if B t b = (b', r) \<Longrightarrow> sighted b'"
    and empty_yes: "bd_empty_if B t b = (b', Inr True) \<Longrightarrow> shown b = Some (expose t) \<and> shown b' = None"
    and empty_no: "bd_empty_if B t b = (b', Inr False) \<Longrightarrow> shown b' = shown b \<and> (sighted b \<longrightarrow> shown b \<noteq> Some (expose t))"
    and empty_failed: "bd_empty_if B t b = (b', Inl e) \<Longrightarrow> shown b' = shown b"
begin

lemma wipe_outcome:
  assumes "clip_wipe B c = (c', r)" "sighted (cl_board c)"
  shows "sighted (cl_board c') \<and> cl_token c' = cl_token c \<and>
    (shown (cl_board c') = shown (cl_board c) \<or> shown (cl_board c) = map_option expose (cl_ours c) \<and> shown (cl_board c') = None) \<and>
    (case r of
       Wiped \<Rightarrow> cl_ours c' = None \<and> cl_ours c \<noteq> None \<and> shown (cl_board c) = map_option expose (cl_ours c) \<and> shown (cl_board c') = None
     | AlreadyGone \<Rightarrow> cl_ours c' = None \<and> shown (cl_board c') = shown (cl_board c) \<and>
         (cl_ours c \<noteq> None \<longrightarrow> shown (cl_board c) \<noteq> map_option expose (cl_ours c))
     | ClearFailed e \<Rightarrow> cl_ours c' = cl_ours c \<and> shown (cl_board c') = shown (cl_board c))"
  using assms
  by (auto simp: clip_wipe_def split: option.splits prod.splits sum.splits bool.splits
      dest: empty_yes empty_no empty_failed empty_sighted)

end

text \<open>The platform board keeps it, for texts without a zero character.\<close>

definition zero_free :: "string \<Rightarrow> bool" where
  "zero_free s \<longleftrightarrow> CHR 0x00 \<notin> set s"

lemma read_back_whole: "zero_free s \<Longrightarrow> read_back s = s"
  by (auto simp: zero_free_def read_back_def takeWhile_eq_all_conv)

lemma win_call_keeps: "win_call w = (w', ok) \<Longrightarrow> w_text w' = w_text w \<and> w_reads w' = w_reads w"
  by (auto simp: win_call_def)

lemma open_attempts_keeps: "open_attempts n w = (w', ok) \<Longrightarrow> w_text w' = w_text w \<and> w_reads w' = w_reads w"
  by (induction n arbitrary: w) (auto split: prod.splits if_splits dest!: win_call_keeps)

lemma place_formats_keeps: "place_formats n w = (w', ok) \<Longrightarrow> w_text w' = w_text w \<and> w_reads w' = w_reads w"
proof (induction n arbitrary: w)
  case (Suc n)
  obtain w1 ok1 where one: "win_call w = (w1, ok1)" by fastforce
  obtain w2 ok2 where two: "win_call w1 = (w2, ok2)" by fastforce
  show ?case
    using Suc.prems Suc.IH [of "w2\<lparr>w_told := w_told w2 + 1\<rparr>"] win_call_keeps [OF one] win_call_keeps [OF two]
    by (auto simp: one two split: bool.splits)
qed simp

lemmas win_keeps = win_call_keeps open_attempts_keeps place_formats_keeps

lemma write_outcome:
  assumes "platform_write s w = (w', r)"
  shows "w_reads w' = w_reads w" and "r = Inr x \<Longrightarrow> w_text w' = Some (read_back s)"
    and "r = Inl e \<Longrightarrow> w_text w' = None \<or> w_text w' = w_text w"
  using assms by (auto simp: platform_write_def split: prod.splits bool.splits dest!: win_keeps)

lemma empty_if_outcome:
  assumes "platform_empty_if t w = (w', r)"
  shows "w_reads w = [] \<Longrightarrow> w_reads w' = []"
    and "r = Inr True \<Longrightarrow> w_text w = Some (expose t) \<and> w_text w' = None"
    and "r = Inr False \<Longrightarrow> w_text w' = w_text w \<and> (w_reads w = [] \<longrightarrow> w_text w \<noteq> Some (expose t))"
    and "r = Inl e \<Longrightarrow> w_text w' = w_text w"
  using assms
  by (auto simp: platform_empty_if_def read_text_def secret_eq_iff split: prod.splits bool.splits if_splits option.splits
      dest!: win_keeps)

lemma platform_ops [simp]: "bd_write platform_board = platform_write" "bd_empty_if platform_board = platform_empty_if"
  by (simp_all add: platform_board_def)

interpretation pb: board platform_board w_text zero_free "\<lambda>w. w_reads w = []"
proof (unfold_locales, unfold platform_ops)
  show "w_text b' = Some s" if "zero_free s" "platform_write s b = (b', Inr x)" for s b b' x
    using write_outcome(2) [OF that(2) refl] read_back_whole [OF that(1)] by simp
  show "w_reads b' = []" if "w_reads b = []" "platform_write s b = (b', r)" for s b b' r
    using write_outcome(1) [OF that(2)] that(1) by simp
  show "w_text b' = None \<or> w_text b' = w_text b" if "platform_write s b = (b', Inl e)" for s b b' e
    using write_outcome(3) [OF that refl] .
  show "w_reads b' = []" if "w_reads b = []" "platform_empty_if t b = (b', r)" for t b b' r
    using empty_if_outcome(1) [OF that(2,1)] .
  show "w_text b = Some (expose t) \<and> w_text b' = None" if "platform_empty_if t b = (b', Inr True)" for t b b'
    using empty_if_outcome(2) [OF that refl] .
  show "w_text b' = w_text b \<and> (w_reads b = [] \<longrightarrow> w_text b \<noteq> Some (expose t))"
    if "platform_empty_if t b = (b', Inr False)" for t b b'
    using empty_if_outcome(3) [OF that refl] .
  show "w_text b' = w_text b" if "platform_empty_if t b = (b', Inl e)" for t b b' e
    using empty_if_outcome(4) [OF that refl] .
qed

section \<open>A timer beside the commands\<close>

text \<open>
  The commands run one after another; a timer fires on another thread, between any two steps of one.
  A copy is the write, the counter and the remembering; a timed clear is the look at the counter and
  the wipe. \<open>k_mine\<close> records whose text is on the clipboard and is read by nothing.
\<close>

datatype copy_phase = Written secret_string | Numbered secret_string u64

record 'b desk =
  k_clip :: "'b clip"
  k_copying :: "copy_phase option"
  k_timers :: "u64 list"
  k_due :: nat
  k_mine :: bool

definition desk_new :: "'b \<Rightarrow> 'b desk" where
  "desk_new b = \<lparr>k_clip = clip_new b, k_copying = None, k_timers = [], k_due = 0, k_mine = False\<rparr>"

definition copy_write :: "'b board_ops \<Rightarrow> secret_string \<Rightarrow> 'b desk \<Rightarrow> 'b desk" where
  "copy_write B s k =
     (case bd_write B (expose s) (cl_board (k_clip k)) of
        (b, Inl e) \<Rightarrow> k\<lparr>k_clip := (k_clip k)\<lparr>cl_board := b\<rparr>\<rparr>
      | (b, Inr x) \<Rightarrow> k\<lparr>k_clip := (k_clip k)\<lparr>cl_board := b\<rparr>, k_copying := Some (Written s), k_mine := True\<rparr>)"

definition copy_number :: "secret_string \<Rightarrow> 'b desk \<Rightarrow> 'b desk" where
  "copy_number s k =
     (let token = cl_token (k_clip k) + 1
      in k\<lparr>k_clip := (k_clip k)\<lparr>cl_token := token\<rparr>, k_copying := Some (Numbered s token)\<rparr>)"

definition copy_remember :: "secret_string \<Rightarrow> u64 \<Rightarrow> 'b desk \<Rightarrow> 'b desk" where
  "copy_remember s token k =
     k\<lparr>k_clip := (k_clip k)\<lparr>cl_ours := Some s\<rparr>, k_copying := None, k_timers := token # k_timers k\<rparr>"

definition timer_check :: "u64 \<Rightarrow> 'b desk \<Rightarrow> 'b desk" where
  "timer_check token k =
     (let k' = k\<lparr>k_timers := remove1 token (k_timers k)\<rparr>
      in if cl_token (k_clip k) \<noteq> token then k' else k'\<lparr>k_due := k_due k + 1\<rparr>)"

definition desk_wipe :: "'b board_ops \<Rightarrow> 'b desk \<Rightarrow> 'b desk" where
  "desk_wipe B k = k\<lparr>k_clip := fst (clip_wipe B (k_clip k))\<rparr>"

inductive desk_step ::
    "'b board_ops \<Rightarrow> (string \<Rightarrow> bool) \<Rightarrow> (string option \<Rightarrow> 'b \<Rightarrow> 'b) \<Rightarrow> 'b desk \<Rightarrow> 'b desk \<Rightarrow> bool"
  for B whole replaced where
  ks_write: "k_copying k = None \<Longrightarrow> whole (expose s) \<Longrightarrow> desk_step B whole replaced k (copy_write B s k)"
| ks_number: "k_copying k = Some (Written s) \<Longrightarrow> desk_step B whole replaced k (copy_number s k)"
| ks_remember: "k_copying k = Some (Numbered s token) \<Longrightarrow> desk_step B whole replaced k (copy_remember s token k)"
| ks_timer: "token \<in> set (k_timers k) \<Longrightarrow> desk_step B whole replaced k (timer_check token k)"
| ks_wipe: "0 < k_due k \<Longrightarrow> desk_step B whole replaced k (desk_wipe B (k\<lparr>k_due := k_due k - 1\<rparr>))"
| ks_now: "k_copying k = None \<Longrightarrow> desk_step B whole replaced k (desk_wipe B k)"
| ks_other: "desk_step B whole replaced k
    (k\<lparr>k_clip := (k_clip k)\<lparr>cl_board := replaced t (cl_board (k_clip k))\<rparr>, k_mine := False\<rparr>)"

text \<open>The clipboard holds what the program put there.\<close>

definition ours_on :: "('b \<Rightarrow> string option) \<Rightarrow> 'b desk \<Rightarrow> bool" where
  "ours_on shown k \<longleftrightarrow> k_mine k \<and> shown (cl_board (k_clip k)) \<noteq> None"

locale shared_board = board B shown whole sighted
  for B :: "'b board_ops" and shown whole sighted +
  fixes replaced :: "string option \<Rightarrow> 'b \<Rightarrow> 'b"
  assumes replaced_sighted: "sighted b \<Longrightarrow> sighted (replaced t b)"
begin

definition desk_inv :: "'b desk \<Rightarrow> bool" where
  "desk_inv k \<longleftrightarrow> sighted (cl_board (k_clip k)) \<and>
     (ours_on shown k \<longrightarrow>
       (case k_copying k of
          None \<Rightarrow> shown (cl_board (k_clip k)) = map_option expose (cl_ours (k_clip k))
        | Some (Written s) \<Rightarrow> shown (cl_board (k_clip k)) = Some (expose s)
        | Some (Numbered s _) \<Rightarrow> shown (cl_board (k_clip k)) = Some (expose s)))"

lemma inv_wipe:
  assumes "desk_inv k"
  shows "desk_inv (desk_wipe B k)"
proof -
  obtain c r where w: "clip_wipe B (k_clip k) = (c, r)" by fastforce
  from assms wipe_outcome [OF w] show ?thesis
    by (cases r) (auto simp: desk_inv_def desk_wipe_def w ours_on_def split: option.splits copy_phase.splits)
qed

lemma inv_write: "desk_inv k \<Longrightarrow> k_copying k = None \<Longrightarrow> whole (expose s) \<Longrightarrow> desk_inv (copy_write B s k)"
  by (auto simp: desk_inv_def copy_write_def ours_on_def split: prod.splits sum.splits
      dest: write_ok write_sighted write_failed)

lemma inv_step: "desk_step B whole replaced k k' \<Longrightarrow> desk_inv k \<Longrightarrow> desk_inv k'"
proof (induction rule: desk_step.induct)
  case (ks_wipe k)
  then have "desk_inv (k\<lparr>k_due := k_due k - 1\<rparr>)" by (simp add: desk_inv_def ours_on_def split: option.splits copy_phase.splits)
  then show ?case by (rule inv_wipe)
next
  case (ks_write k s)
  then show ?case by (intro inv_write)
next
  case (ks_now k)
  then show ?case by (intro inv_wipe)
qed (auto simp: replaced_sighted desk_inv_def ours_on_def copy_number_def copy_remember_def timer_check_def Let_def
    split: option.splits copy_phase.splits)

lemma inv_reached:
  assumes "(desk_step B whole replaced)\<^sup>*\<^sup>* (desk_new b) k" "sighted b"
  shows "desk_inv k"
  using assms(1)
proof (induction rule: rtranclp_induct)
  case base
  with assms(2) show ?case by (simp add: desk_inv_def desk_new_def clip_new_def ours_on_def)
next
  case (step y z)
  then show ?case using inv_step [OF step.hyps(2)] by simp
qed

lemma cleared:
  assumes "(desk_step B whole replaced)\<^sup>*\<^sup>* (desk_new b) k" "sighted b" "k_copying k = None"
    and "clear_now B (k_clip k) = (c', r)"
  shows "(\<forall>e. r \<noteq> ClearFailed e) \<longrightarrow> \<not> ours_on shown (k\<lparr>k_clip := c'\<rparr>)"
    and "r = ClearFailed e \<Longrightarrow> cl_ours c' = cl_ours (k_clip k)"
    and "shown (cl_board c') \<noteq> shown (cl_board (k_clip k)) \<Longrightarrow>
      shown (cl_board (k_clip k)) = map_option expose (cl_ours (k_clip k)) \<and> shown (cl_board c') = None"
proof -
  have inv: "desk_inv k" by (rule inv_reached [OF assms(1,2)])
  then have "sighted (cl_board (k_clip k))" by (simp add: desk_inv_def)
  note out = wipe_outcome [OF assms(4) [unfolded clear_now_def] this]
  from inv assms(3) out show "(\<forall>e. r \<noteq> ClearFailed e) \<longrightarrow> \<not> ours_on shown (k\<lparr>k_clip := c'\<rparr>)"
    by (cases r) (auto simp: desk_inv_def ours_on_def)
  from out show "r = ClearFailed e \<Longrightarrow> cl_ours c' = cl_ours (k_clip k)" by simp
  from out show "shown (cl_board c') \<noteq> shown (cl_board (k_clip k)) \<Longrightarrow>
      shown (cl_board (k_clip k)) = map_option expose (cl_ours (k_clip k)) \<and> shown (cl_board c') = None" by auto
qed

end

definition win_replaced :: "string option \<Rightarrow> win \<Rightarrow> win" where
  "win_replaced t w = w\<lparr>w_text := t, w_told := 0\<rparr>"

interpretation ps: shared_board platform_board w_text zero_free "\<lambda>w. w_reads w = []" win_replaced
  by unfold_locales (simp add: win_replaced_def)

text \<open>
  C31: a lock takes the secret off. Whatever copies, timers, failed system calls and other programs'
  copies came before, in whatever order the timers ran beside the commands: when the lock or the exit
  clears the clipboard and does not report a failure, nothing the program put there is left on it; on a
  reported failure the program still remembers the secret for the next attempt; and a clear never
  removes anything but the text the program remembers having put there. (The clipboard can be read, and
  the copied texts hold no zero character.)
\<close>

theorem lock_clears_clipboard:
  assumes "(desk_step platform_board zero_free win_replaced)\<^sup>*\<^sup>* (desk_new w) k" "w_reads w = []" "k_copying k = None"
    and "clear_now platform_board (k_clip k) = (c', r)"
  shows "((\<forall>e. r \<noteq> ClearFailed e) \<longrightarrow> \<not> ours_on w_text (k\<lparr>k_clip := c'\<rparr>)) \<and>
    (\<forall>e. r = ClearFailed e \<longrightarrow> cl_ours c' = cl_ours (k_clip k)) \<and>
    (w_text (cl_board c') \<noteq> w_text (cl_board (k_clip k)) \<longrightarrow>
       w_text (cl_board (k_clip k)) = map_option expose (cl_ours (k_clip k)) \<and> w_text (cl_board c') = None)"
  using ps.cleared [OF assms] by blast

definition sample_win :: "bool list \<Rightarrow> win" where
  "sample_win reads = \<lparr>w_text = Some ''list'', w_told = 0, w_script = [], w_reads = reads\<rparr>"

lemma willing_call: "w_script w = [] \<Longrightarrow> win_call w = (w, True)"
  by (cases w) (simp add: win_call_def)

lemma willing_open: "w_script w = [] \<Longrightarrow> open_attempts OPEN_ATTEMPTS w = (w, True)"
  using open_attempts.simps(2) [of 9 w] by (simp add: OPEN_ATTEMPTS_def willing_call)

lemma willing_formats: "w_script w = [] \<Longrightarrow> place_formats n w = (w\<lparr>w_told := w_told w + n\<rparr>, True)"
  by (induction n arbitrary: w) (simp_all add: willing_call)

lemma willing_write:
  "w_script w = [] \<Longrightarrow> platform_write s w = (w\<lparr>w_text := Some (read_back s), w_told := 3\<rparr>, Inr True)"
  by (simp add: platform_write_def willing_open willing_call willing_formats)

lemma willing_empty_if:
  "w_script w = [] \<Longrightarrow> w_reads w = [] \<Longrightarrow>
   platform_empty_if t w = (if w_text w = Some (expose t) then (w\<lparr>w_text := None, w_told := 0\<rparr>, Inr True) else (w, Inr False))"
  by (cases w; cases "w_text w")
     (auto simp: platform_empty_if_def willing_open willing_call read_text_def secret_eq_iff dest: sym)

text \<open>One whole copy over a clipboard on which every call works.\<close>

lemma whole_copy:
  assumes "k_copying k = None" "w_script (cl_board (k_clip k)) = []" "zero_free (expose s)"
  obtains k' where "(desk_step platform_board zero_free win_replaced)\<^sup>*\<^sup>* k k'"
    "k_copying k' = None" "k_timers k' = (cl_token (k_clip k) + 1) # k_timers k" "k_due k' = k_due k" "k_mine k'"
    "cl_token (k_clip k') = cl_token (k_clip k) + 1" "cl_ours (k_clip k') = Some s"
    "w_text (cl_board (k_clip k')) = Some (expose s)" "w_script (cl_board (k_clip k')) = []"
    "w_reads (cl_board (k_clip k')) = w_reads (cl_board (k_clip k))"
proof -
  let ?w = "cl_board (k_clip k)" and ?w' = "(cl_board (k_clip k))\<lparr>w_text := Some (expose s), w_told := 3\<rparr>"
  have w': "platform_write (expose s) ?w = (?w', Inr True)"
    using assms(2,3) by (simp add: willing_write read_back_whole)
  let ?k1 = "copy_write platform_board s k"
  have k1: "?k1 = k\<lparr>k_clip := (k_clip k)\<lparr>cl_board := ?w'\<rparr>, k_copying := Some (Written s), k_mine := True\<rparr>"
    using w' by (simp add: copy_write_def)
  let ?k2 = "copy_number s ?k1" and ?t = "cl_token (k_clip k) + 1"
  have "desk_step platform_board zero_free win_replaced k ?k1" using assms by (intro ks_write)
  moreover have "desk_step platform_board zero_free win_replaced ?k1 ?k2" by (rule ks_number) (simp add: k1)
  moreover have "desk_step platform_board zero_free win_replaced ?k2 (copy_remember s ?t ?k2)"
    by (rule ks_remember) (simp add: k1 copy_number_def Let_def)
  ultimately have "(desk_step platform_board zero_free win_replaced)\<^sup>*\<^sup>* k (copy_remember s ?t ?k2)"
    by (meson converse_rtranclp_into_rtranclp rtranclp.rtrancl_refl)
  moreover have "copy_remember s ?t ?k2 = k\<lparr>k_clip := \<lparr>cl_board = ?w', cl_ours = Some s, cl_token = ?t\<rparr>, k_copying := None,
         k_timers := ?t # k_timers k, k_mine := True\<rparr>"
    by (simp add: k1 copy_number_def copy_remember_def Let_def)
  ultimately show thesis using that [of "copy_remember s ?t ?k2"] assms(2) by simp
qed

lemma desk_new_simps [simp]:
  "k_copying (desk_new w) = None" "cl_board (k_clip (desk_new w)) = w" "cl_token (k_clip (desk_new w)) = 0" "k_timers (desk_new w) = []"
  "k_due (desk_new w) = 0"
  by (simp_all add: desk_new_def clip_new_def)

lemma lock_clears_clipboard_witness:
  "\<exists>k c'. (desk_step platform_board zero_free win_replaced)\<^sup>*\<^sup>* (desk_new (sample_win [])) k \<and> ours_on w_text k \<and>
     clear_now platform_board (k_clip k) = (c', Wiped) \<and> \<not> ours_on w_text (k\<lparr>k_clip := c'\<rparr>)"
proof -
  obtain k where k: "(desk_step platform_board zero_free win_replaced)\<^sup>*\<^sup>* (desk_new (sample_win [])) k" "k_copying k = None" "k_mine k"
    "cl_ours (k_clip k) = Some (SecretString ''hunter2'')" "w_text (cl_board (k_clip k)) = Some (expose (SecretString ''hunter2''))"
    "w_script (cl_board (k_clip k)) = []" "w_reads (cl_board (k_clip k)) = w_reads (cl_board (k_clip (desk_new (sample_win []))))"
    by (rule whole_copy [of "desk_new (sample_win [])" "SecretString ''hunter2''"]) (auto simp: sample_win_def zero_free_def)
  then have "\<exists>c'. clear_now platform_board (k_clip k) = (c', Wiped)"
    by (simp add: clear_now_def clip_wipe_def willing_empty_if sample_win_def)
  then obtain c' where c': "clear_now platform_board (k_clip k) = (c', Wiped)" by blast
  have "w_reads (sample_win []) = []" by (simp add: sample_win_def)
  from lock_clears_clipboard [OF k(1) this k(2) c'] k c' show ?thesis
    by (intro exI [of _ k] exI [of _ c']) (simp add: ours_on_def)
qed

section \<open>What escapes it\<close>

text \<open>
  The look at the counter and the wipe are two steps. A timer that has looked when a second secret is
  copied wipes that one, however new it is.
\<close>

theorem old_timer_wipes_new_copy:
  "\<exists>k. (desk_step platform_board zero_free win_replaced)\<^sup>*\<^sup>* (desk_new (sample_win [])) k \<and>
     k_timers k = [2] \<and> cl_token (k_clip k) = 2 \<and> w_text (cl_board (k_clip k)) = Some ''second'' \<and> k_due k = 1 \<and>
     w_text (cl_board (k_clip (desk_wipe platform_board (k\<lparr>k_due := k_due k - 1\<rparr>)))) = None"
proof -
  let ?step = "(desk_step platform_board zero_free win_replaced)\<^sup>*\<^sup>*" and ?k = "desk_new (sample_win [])"
  obtain k1 where k1: "?step ?k k1" "k_copying k1 = None" "k_timers k1 = [1]" "k_due k1 = 0" "cl_token (k_clip k1) = 1"
    "w_script (cl_board (k_clip k1)) = []" "w_reads (cl_board (k_clip k1)) = []"
    by (rule whole_copy [of ?k "SecretString ''first''"]) (auto simp: sample_win_def zero_free_def)
  define k2 where "k2 = timer_check 1 k1"
  have look: "?step k1 k2" unfolding k2_def by (rule r_into_rtranclp, rule ks_timer) (simp add: k1)
  have k2: "k_due k2 = 1" "k_timers k2 = []" "k_copying k2 = None" "k_clip k2 = k_clip k1"
    by (simp_all add: k2_def timer_check_def Let_def k1)
  obtain k3 where k3: "?step k2 k3" "k_timers k3 = [2]" "k_due k3 = 1" "cl_token (k_clip k3) = 2" "cl_ours (k_clip k3) = Some (SecretString ''second'')"
    "w_text (cl_board (k_clip k3)) = Some ''second''" "w_script (cl_board (k_clip k3)) = []" "w_reads (cl_board (k_clip k3)) = []"
    by (rule whole_copy [of k2 "SecretString ''second''"]) (auto simp: k1 k2 zero_free_def)
  from k1(1) look k3(1) have "?step ?k k3" by (meson rtranclp_trans)
  with k3 show ?thesis
    by (intro exI [of _ k3]) (simp add: desk_wipe_def clip_wipe_def willing_empty_if)
qed

text \<open>A clipboard that cannot be read is taken for one that moved on: the secret stays and is forgotten.\<close>

theorem unread_clipboard_keeps_secret:
  assumes "clear_now platform_board \<lparr>cl_board = \<lparr>w_text = Some ''hunter2'', w_told = 3, w_script = [], w_reads = [False]\<rparr>,
      cl_ours = Some (SecretString ''hunter2''), cl_token = 1\<rparr> = (c', r)"
  shows "r = AlreadyGone \<and> cl_ours c' = None \<and> w_text (cl_board c') = Some ''hunter2''"
  using assms by (auto simp: clear_now_def clip_wipe_def platform_empty_if_def willing_open read_text_def)

text \<open>A secret with a zero character comes back shorter than it went on, and is left there too.\<close>

theorem zero_character_keeps_secret:
  assumes "clip_copy platform_board (SecretString [CHR ''a'', CHR 0x00, CHR ''b'']) (clip_new (sample_win [])) = (c, Inr x)"
    and "clear_now platform_board c = (c', r)"
  shows "r = AlreadyGone \<and> cl_ours c' = None \<and> w_text (cl_board c') = Some ''a''"
  using assms
  by (auto simp: clear_now_def clip_wipe_def clip_copy_def clip_new_def sample_win_def willing_write willing_empty_if read_back_def Let_def)

end
