(* ===== verification/Desktop_Session.thy ===== *)
theory Desktop_Session
  imports Desktop_Items Vault_View Clipboard Sync_Engine
begin

text \<open>
  The session of the desktop application (\<open>apps/desktop/src-tauri/src/lib.rs\<close>): opening, creating,
  locking and leaving a vault, what a reload of the interface does, changing the password, and the
  screens over the broker and the clipboard. The state joins the prompts, the broker over the
  application state, and the clipboard.
\<close>

record desktop =
  dt_ui :: ui_approver
  dt_broker :: "app_state broker"
  dt_clip :: "win clip"

definition on_app :: "(app_state \<Rightarrow> app_state \<times> 'a) \<Rightarrow> desktop \<Rightarrow> desktop \<times> 'a" where
  "on_app f d = (case f (b_vault (dt_broker d)) of (s, x) \<Rightarrow> (d\<lparr>dt_broker := (dt_broker d)\<lparr>b_vault := s\<rparr>\<rparr>, x))"

definition app_of :: "desktop \<Rightarrow> app_state" where
  "app_of d = b_vault (dt_broker d)"

definition run_unit :: "(app_state \<Rightarrow> app_state) \<Rightarrow> desktop \<Rightarrow> desktop" where
  "run_unit f d = fst (on_app (\<lambda>s. (f s, ())) d)"

text \<open>The view of the vault the broker was started with; only its lists and records matter here.\<close>

definition desk_view :: "desk_env \<Rightarrow> u64 \<Rightarrow> bytes \<Rightarrow> app_state bridge" where
  "desk_view E now nonce = vault_view (de_prims E) (de_otp E) (de_lower E) now nonce"

section \<open>Locking\<close>

definition lock_everything :: "desktop \<Rightarrow> desktop" where
  "lock_everything d =
     (let d1 = run_unit app_clear d
      in case on_lock (dt_ui d1) (dt_broker d1) of
           (u, b) \<Rightarrow> d1\<lparr>dt_ui := u, dt_broker := b, dt_clip := fst (clear_now platform_board (dt_clip d1))\<rparr>)"

definition lock_vault :: "desktop \<Rightarrow> desktop" where
  "lock_vault d = run_unit suppress_resume (lock_everything d)"

definition logout_vault :: "desk_env \<Rightarrow> desktop \<Rightarrow> desktop \<times> unit app_result" where
  "logout_vault E d =
     and_do (on_app (forget_selected_remembered (de_prims E)) (lock_vault d)) (\<lambda>_. on_app (deselect_profile (de_prims E)))"

definition lock_on_reload :: "app_state \<Rightarrow> app_state \<times> bool" where
  "lock_on_reload s = (if \<not> is_unlocked s then (s, False) else (app_clear s, True))"

definition page_load :: "desktop \<Rightarrow> desktop" where
  "page_load d = (case on_app lock_on_reload d of (d1, unlocked) \<Rightarrow> if unlocked then lock_everything d1 else d1)"

definition choose_another_vault :: "desk_env \<Rightarrow> desktop \<Rightarrow> desktop \<times> unit app_result" where
  "choose_another_vault E d = on_app (deselect_profile (de_prims E)) (lock_everything d)"

definition remove_vault :: "desk_env \<Rightarrow> uuid \<Rightarrow> string \<Rightarrow> string \<Rightarrow> desktop \<Rightarrow> desktop \<times> unit app_result" where
  "remove_vault E operation k confirmation d =
     on_app (remove_profile (de_prims E) operation k confirmation) (run_unit suppress_resume (lock_everything d))"

section \<open>Opening\<close>

definition open_selected_vault :: "desk_env \<Rightarrow> u64 \<Rightarrow> string \<Rightarrow> app_state \<Rightarrow> unlocked_vault app_result" where
  "open_selected_vault E now password s =
     (case d_files (as_disk s) (vault_path s) of
        None \<Rightarrow> Inl IoError
      | Some bs \<Rightarrow> as_app (and_then (from_bytes (de_prims E) bs) (\<lambda>f. open_vault (de_prims E) now f password)))"

definition restore :: "desk_env \<Rightarrow> desktop \<Rightarrow> desktop" where
  "restore E d = d\<lparr>dt_broker := restore_audit (desk_view E 0 []) (dt_broker d)\<rparr>"

definition vault_startup :: "desk_env \<Rightarrow> u64 \<Rightarrow> desktop \<Rightarrow> desktop \<times> startup_screen" where
  "vault_startup E now d =
     (if startup (app_of d) \<noteq> Locked \<or> as_suppressed (app_of d) then (d, startup (app_of d))
      else case on_app (remembered_password (de_prims E) now) d of
        (d1, Inr (Some password)) \<Rightarrow>
          (case open_selected_vault E now (expose password) (app_of d1) of
             Inr v \<Rightarrow> (restore E (run_unit (\<lambda>s. allow_resume (set_vault v s)) d1), Unlocked)
           | Inl _ \<Rightarrow> (fst (on_app (forget_selected_remembered (de_prims E)) d1), Locked))
      | (d1, _) \<Rightarrow> (d1, Locked))"

definition unlock_vault :: "desk_env \<Rightarrow> u64 \<Rightarrow> string \<Rightarrow> bool option \<Rightarrow> desktop \<Rightarrow> desktop \<times> unit app_result" where
  "unlock_vault E now password remember d =
     (case open_selected_vault E now password (app_of d) of
        Inl e \<Rightarrow> (d, Inl e)
      | Inr v \<Rightarrow>
          and_do (on_app (set_remembered (de_prims E) now password (remember = Some True)) d) (\<lambda>_ d1.
            (restore E (run_unit (\<lambda>s. allow_resume (set_vault v s)) d1), Inr ())))"

text \<open>\<open>salt\<close>, \<open>fresh_key\<close> and the nonces are drawn for the new vault.\<close>

definition create_vault ::
    "desk_env \<Rightarrow> bytes \<Rightarrow> bytes \<Rightarrow> bytes \<Rightarrow> bytes \<Rightarrow> uuid \<Rightarrow> u64 \<Rightarrow> string \<Rightarrow> string option \<Rightarrow> bool option \<Rightarrow> desktop \<Rightarrow> desktop \<times> unit app_result" where
  "create_vault E salt fresh_key key_nonce nonce fresh now password name remember d =
     (case as_app (create (de_prims E) salt fresh_key key_nonce password) of
        Inl e \<Rightarrow> (d, Inl e)
      | Inr v \<Rightarrow>
          and_do (on_app (add_profile (de_prims E) nonce fresh (case name of Some n \<Rightarrow> n | None \<Rightarrow> ''Personal'') v) d) (\<lambda>_ d1.
          and_do (on_app (set_remembered (de_prims E) now password (remember = Some True)) d1) (\<lambda>_ d2.
            (run_unit (\<lambda>s. allow_resume (set_vault v s)) d2, Inr ()))))"

section \<open>The password\<close>

definition verify_master_password :: "desk_env \<Rightarrow> u64 \<Rightarrow> string \<Rightarrow> app_state \<Rightarrow> unit app_result" where
  "verify_master_password E now password s =
     (case d_files (as_disk s) (vault_path s) of
        None \<Rightarrow> Inl IoError
      | Some bs \<Rightarrow> and_then (as_app (and_then (from_bytes (de_prims E) bs) (\<lambda>f. open_vault (de_prims E) now f password))) (\<lambda>_. Inr ()))"

definition rekey :: "desk_env \<Rightarrow> bytes \<Rightarrow> bytes \<Rightarrow> string \<Rightarrow> unlocked_vault \<Rightarrow> unlocked_vault \<times> unit app_result" where
  "rekey E salt key_nonce password v =
     (case change_password (de_prims E) salt key_nonce password v of
        Inl e \<Rightarrow> (v, Inl (CoreError e))
      | Inr v' \<Rightarrow> (v', Inr ()))"

definition change_master_password ::
    "desk_env \<Rightarrow> bytes \<Rightarrow> bytes \<Rightarrow> bytes \<Rightarrow> u64 \<Rightarrow> string \<Rightarrow> string \<Rightarrow> app_state \<Rightarrow> app_state \<times> unit app_result" where
  "change_master_password E salt key_nonce nonce now current_password new_password s =
     and_do (s, verify_master_password E now current_password s) (\<lambda>_ s1.
     and_do (editing E nonce (rekey E salt key_nonce new_password) s1) (\<lambda>_ s2.
       refresh_remembered (de_prims E) now new_password s2))"

section \<open>The broker's screen and the clipboard\<close>

definition scope_is_reveal :: "scope \<Rightarrow> bool" where
  "scope_is_reveal sc = (case sc of ScopeReveal \<Rightarrow> True | _ \<Rightarrow> False)"

record grant_view =
  gv_id :: uuid
  gv_item :: string
  gv_field :: string
  gv_program :: string
  gv_scope :: string
  gv_permits :: string
  gv_seconds_remaining :: u64
  gv_remaining_uses :: u32

definition grant_view_of :: "u64 \<Rightarrow> grant \<Rightarrow> grant_view" where
  "grant_view_of now g = \<lparr>gv_id = g_id g, gv_item = g_item_name g, gv_field = field_phrase (g_field g),
     gv_program = display_name (g_client g), gv_scope = (if scope_is_reveal (g_scope g) then ''reveal'' else ''run''),
     gv_permits = scope_summary (g_scope g), gv_seconds_remaining = seconds_remaining now g,
     gv_remaining_uses = remaining_uses g\<rparr>"

definition list_grants :: "u64 \<Rightarrow> u64 \<Rightarrow> desktop \<Rightarrow> grant_view list" where
  "list_grants now now' d = map (grant_view_of now') (broker_live_grants now (dt_broker d))"

record audit_view =
  av_id :: uuid
  av_at :: u64
  av_program :: string
  av_item :: string
  av_summary :: string
  av_reason :: string
  av_allowed :: bool
  av_notable :: bool

definition audit_view_of :: "entry \<Rightarrow> audit_view" where
  "audit_view_of e = \<lparr>av_id = e_id e, av_at = e_at e, av_program = display_name (e_client e), av_item = e_item e,
     av_summary = (case e_action e of
         Listed matches \<Rightarrow> ''listed '' @ show_nat matches @ '' items''
       | RanCommand command env_var \<Rightarrow> ''ran `'' @ command @ ''` with $'' @ env_var
       | RevealedValue \<Rightarrow> ''revealed the plaintext''),
     av_reason = e_reason e, av_allowed = was_allowed (e_outcome e),
     av_notable = (is_notable (e_action e) \<or> \<not> was_allowed (e_outcome e))\<rparr>"

definition audit_entries :: "nat option \<Rightarrow> desktop \<Rightarrow> audit_view list" where
  "audit_entries limit d = map audit_view_of (recent_audit (case limit of Some n \<Rightarrow> n | None \<Rightarrow> 50) (dt_broker d))"

definition revoke_grant :: "uuid \<Rightarrow> desktop \<Rightarrow> desktop \<times> bool" where
  "revoke_grant k d = (case broker_revoke k (dt_broker d) of (b, found) \<Rightarrow> (d\<lparr>dt_broker := b\<rparr>, found))"

definition resolve_approval :: "(string \<Rightarrow> string) \<Rightarrow> uuid \<Rightarrow> string \<Rightarrow> u64 option \<Rightarrow> desktop \<Rightarrow> desktop \<times> unit app_result" where
  "resolve_approval show_text k choice minutes d =
     (case decision_from choice minutes of
        None \<Rightarrow> (d, Inl (AppError (''unrecognised choice '' @ show_text choice)))
      | Some decision \<Rightarrow>
          (case ui_resolve k decision (dt_ui d) of
             (u, True) \<Rightarrow> (d\<lparr>dt_ui := u\<rparr>, Inr ())
           | (u, False) \<Rightarrow> (d\<lparr>dt_ui := u\<rparr>, Inl (AppError ''that request is no longer waiting for an answer''))))"

definition copy_secret :: "string \<Rightarrow> desktop \<Rightarrow> desktop \<times> (string + copied)" where
  "copy_secret value d =
     (case clip_copy platform_board (SecretString value) (dt_clip d) of (c, r) \<Rightarrow> (d\<lparr>dt_clip := c\<rparr>, r))"

definition copy_timer :: "u64 \<Rightarrow> desktop \<Rightarrow> desktop \<times> cleared" where
  "copy_timer token d = (case clear_copy platform_board token (dt_clip d) of (c, r) \<Rightarrow> (d\<lparr>dt_clip := c\<rparr>, r))"

definition clear_clipboard :: "desktop \<Rightarrow> desktop \<times> cleared" where
  "clear_clipboard d = (case clear_now platform_board (dt_clip d) of (c, r) \<Rightarrow> (d\<lparr>dt_clip := c\<rparr>, r))"

section \<open>The commands together\<close>

text \<open>
  What the interface may call (\<open>invoke_handler\<close>) and is done in one step: questions about the vault,
  changes to it, and the commands of the session, with a reload as one more. \<open>Locked_Session\<close> adds the
  rest of the list: what waits for a server, the icons, and the generator of passwords.
\<close>

datatype vault_query =
    ListItems "string option" "item_kind option" "bool option" "string option" | RecentItems "nat option" | VaultCounts
  | ItemExtras uuid | Folders | RevealField uuid string | RevealNotes uuid | RevealPassword uuid | TotpCodeOf uuid
  | IconsEnabled | SyncStatus | ListSubscriptions | ItemSubscription uuid | AutoLockSeconds | PreviewImport string "string option"

datatype vault_edit =
    AddItem new_item | UpdateItem uuid item_edit | DeleteItem uuid | CreateFolder string | RenameFolder string string
  | DeleteFolder string | ReorderFolders "string list" | SetItemFolder uuid "string option" | ReorderItems "uuid list"
  | ChangeMasterPassword string string | SetSubscription uuid "subscription_input option" | SetAutoLockSeconds "u64 option"
  | RunImport string "string option" string "import_edit list" | SyncForget

datatype session_command =
    VaultStartup | CreateVault string "string option" "bool option" | UnlockVault string "bool option"
  | LockVault | LogoutVault | PageLoad | SelectVault string | ChooseAnotherVault | RemoveVault string string | RecoverVault
  | ScanQrFromPath "bytes option" | ScanQrFromClipboard "(bytes \<times> u32 \<times> u32) option" | ClearScannedTotp
  | CopySecret string | ClearClipboard | RevokeGrant uuid | ResolveApproval uuid string "u64 option"

datatype status_query =
    VaultExists | ListVaults | IsUnlocked | EstimateStrength string | ListGrants | AuditEntries "nat option"

datatype desk_command = Query vault_query | Edit vault_edit | Session session_command | Ask status_query

datatype reply =
    Done | Flag bool | Screen startup_screen | Profiles "vault_profile list" | NewId uuid | Count nat | Names "string list"
  | Summaries "item_summary list" | Extras item_extras | Counted vault_counts | Value string | Code totp_code
  | Preview totp_preview | Rated strength_class | Copied copied | ClearedTo cleared | Grants "grant_view list"
  | Audit "audit_view list" | Subscriptions "subscription_view list" | OneSubscription "subscription_view option"
  | LockAfter "u64 option" | Importing import_preview | Syncing sync_status

text \<open>What a call draws and finds around it: clocks, nonces, ids, and the readers of other crates.\<close>

record 'l call_draws =
  dw_now :: u64
  dw_later :: u64
  dw_nonce :: bytes
  dw_key_nonce :: bytes
  dw_salt :: bytes
  dw_key :: bytes
  dw_fresh :: uuid
  dw_draw :: "nat \<Rightarrow> uuid \<times> u64"
  dw_image :: "'l image_prims"
  dw_import :: import_prims
  dw_show :: "string \<Rightarrow> string"

definition told :: "('a \<Rightarrow> reply) \<Rightarrow> 'a app_result \<Rightarrow> reply app_result" where
  "told g r = and_then r (\<lambda>x. Inr (g x))"

definition tell :: "('a \<Rightarrow> reply) \<Rightarrow> 's \<times> 'a app_result \<Rightarrow> 's \<times> reply app_result" where
  "tell g p = (fst p, told g (snd p))"

fun query_run :: "desk_env \<Rightarrow> 'l call_draws \<Rightarrow> vault_query \<Rightarrow> app_state \<Rightarrow> reply app_result" where
  "query_run E w (ListItems query kind with_totp folder) s = told Summaries (list_items E (dw_salt w) query kind with_totp folder s)"
| "query_run E w (RecentItems limit) s = told Summaries (recent_items E (dw_salt w) limit s)"
| "query_run E w VaultCounts s = told Counted (vault_counts_cmd s)"
| "query_run E w (ItemExtras k) s = told Extras (item_extras_cmd E k s)"
| "query_run E w Folders s = told Names (folders_cmd s)"
| "query_run E w (RevealField k label) s = told Value (reveal_field E k label s)"
| "query_run E w (RevealNotes k) s = told Value (reveal_notes E k s)"
| "query_run E w (RevealPassword k) s = told Value (reveal_password E k s)"
| "query_run E w (TotpCodeOf k) s = told Code (totp_code_cmd E (dw_now w) (dw_later w) k s)"
| "query_run E w IconsEnabled s = told Flag (reading (\<lambda>d. Inr (icons_enabled d)) s)"
| "query_run E w SyncStatus s = told Syncing (sync_status_of s)"
| "query_run E w ListSubscriptions s = told Subscriptions (list_subscriptions s)"
| "query_run E w (ItemSubscription k) s = told OneSubscription (item_subscription_cmd k s)"
| "query_run E w AutoLockSeconds s = told LockAfter (auto_lock_cmd s)"
| "query_run E w (PreviewImport path content) s =
     told Importing (preview_import (de_prims E) (dw_import w) (de_otp E) (dw_draw w) path content s)"

fun edit_run :: "desk_env \<Rightarrow> 'l call_draws \<Rightarrow> vault_edit \<Rightarrow> app_state \<Rightarrow> app_state \<times> reply app_result" where
  "edit_run E w (AddItem n) s = tell NewId (add_item_cmd E (dw_nonce w) (dw_fresh w) (dw_now w) n s)"
| "edit_run E w (UpdateItem k e) s = tell (\<lambda>_. Done) (update_item_cmd E (dw_nonce w) (dw_now w) k e s)"
| "edit_run E w (DeleteItem k) s = tell (\<lambda>_. Done) (delete_item_cmd E (dw_nonce w) (dw_now w) k s)"
| "edit_run E w (CreateFolder name) s = tell (\<lambda>_. Done) (create_folder_cmd E (dw_nonce w) name s)"
| "edit_run E w (RenameFolder old new) s = tell (\<lambda>_. Done) (rename_folder_cmd E (dw_nonce w) (dw_now w) old new s)"
| "edit_run E w (DeleteFolder name) s = tell Count (delete_folder_cmd E (dw_nonce w) (dw_now w) name s)"
| "edit_run E w (ReorderFolders names) s = tell (\<lambda>_. Done) (reorder_folders_cmd E (dw_nonce w) names s)"
| "edit_run E w (SetItemFolder k folder) s = tell (\<lambda>_. Done) (set_item_folder_cmd E (dw_nonce w) (dw_now w) k folder s)"
| "edit_run E w (ReorderItems ids) s = tell (\<lambda>_. Done) (reorder_items_cmd E (dw_nonce w) ids s)"
| "edit_run E w (ChangeMasterPassword old new) s = tell (\<lambda>_. Done)
     (change_master_password E (dw_salt w) (dw_key_nonce w) (dw_nonce w) (dw_now w) old new s)"
| "edit_run E w (SetSubscription k given) s = tell (\<lambda>_. Done) (set_subscription_cmd E (dw_nonce w) (dw_now w) k given s)"
| "edit_run E w (SetAutoLockSeconds seconds) s = tell (\<lambda>_. Done) (set_auto_lock_cmd E (dw_nonce w) seconds s)"
| "edit_run E w (RunImport path content expected es) s = tell Count
     (run_import (de_prims E) (dw_import w) (de_otp E) (dw_draw w) (dw_nonce w) path content expected es s)"
| "edit_run E w SyncForget s = tell (\<lambda>_. Done) (sync_forget (de_prims E) (dw_nonce w) s)"

fun session_run :: "desk_env \<Rightarrow> 'l call_draws \<Rightarrow> session_command \<Rightarrow> desktop \<Rightarrow> desktop \<times> reply app_result" where
  "session_run E w VaultStartup d = (case vault_startup E (dw_now w) d of (d', s) \<Rightarrow> (d', Inr (Screen s)))"
| "session_run E w (CreateVault password name remember) d = tell (\<lambda>_. Done)
     (create_vault E (dw_salt w) (dw_key w) (dw_key_nonce w) (dw_nonce w) (dw_fresh w) (dw_now w) password name remember d)"
| "session_run E w (UnlockVault password remember) d = tell (\<lambda>_. Done) (unlock_vault E (dw_now w) password remember d)"
| "session_run E w LockVault d = (lock_vault d, Inr Done)"
| "session_run E w LogoutVault d = tell (\<lambda>_. Done) (logout_vault E d)"
| "session_run E w PageLoad d = (page_load d, Inr Done)"
| "session_run E w (SelectVault k) d = tell (\<lambda>_. Done) (on_app (select_profile (de_prims E) k) d)"
| "session_run E w ChooseAnotherVault d = tell (\<lambda>_. Done) (choose_another_vault E d)"
| "session_run E w (RemoveVault k confirmation) d = tell (\<lambda>_. Done) (remove_vault E (dw_fresh w) k confirmation d)"
| "session_run E w RecoverVault d = tell (\<lambda>_. Done) (on_app (recover (de_prims E)) d)"
| "session_run E w (ScanQrFromPath content) d = tell Preview (on_app (scan_qr_from_path E (dw_image w) (dw_now w) content) d)"
| "session_run E w (ScanQrFromClipboard picture) d =
     tell Preview (on_app (scan_qr_from_clipboard E (dw_image w) (dw_now w) picture) d)"
| "session_run E w ClearScannedTotp d = (run_unit clear_pending_totp d, Inr Done)"
| "session_run E w (CopySecret value) d =
     (case copy_secret value d of (d', Inl e) \<Rightarrow> (d', Inl (AppError e)) | (d', Inr x) \<Rightarrow> (d', Inr (Copied x)))"
| "session_run E w ClearClipboard d = (case clear_clipboard d of (d', r) \<Rightarrow> (d', Inr (ClearedTo r)))"
| "session_run E w (RevokeGrant k) d = (case revoke_grant k d of (d', found) \<Rightarrow> (d', Inr (Flag found)))"
| "session_run E w (ResolveApproval k choice minutes) d = tell (\<lambda>_. Done) (resolve_approval (dw_show w) k choice minutes d)"

fun status_run :: "'l call_draws \<Rightarrow> status_query \<Rightarrow> desktop \<Rightarrow> reply" where
  "status_run w VaultExists d = Flag (d_files (as_disk (app_of d)) (vault_path (app_of d)) \<noteq> None)"
| "status_run w ListVaults d = Profiles (profiles (app_of d))"
| "status_run w IsUnlocked d = Flag (is_unlocked (app_of d))"
| "status_run w (EstimateStrength password) d = Rated (strength password)"
| "status_run w ListGrants d = Grants (list_grants (dw_now w) (dw_later w) d)"
| "status_run w (AuditEntries limit) d = Audit (audit_entries limit d)"

fun desk_run :: "desk_env \<Rightarrow> 'l call_draws \<Rightarrow> desk_command \<Rightarrow> desktop \<Rightarrow> desktop \<times> reply app_result" where
  "desk_run E w (Query q) d = (d, query_run E w q (app_of d))"
| "desk_run E w (Edit e) d = on_app (edit_run E w e) d"
| "desk_run E w (Session c) d = session_run E w c d"
| "desk_run E w (Ask q) d = (d, Inr (status_run w q d))"

section \<open>A locked vault answers nothing\<close>

lemma told_Inl [simp]: "told g (Inl e) = Inl e"
  by (simp add: told_def)

lemma reading_locked [simp]: "as_vault s = None \<Longrightarrow> reading f s = Inl (AppError ''the vault is locked'')"
  by (simp add: reading_def with_vault_def)

lemma isl_told [simp]: "isl (told g r) = isl r"
  by (cases r) (simp_all add: told_def)

lemma locked_query: "as_vault s = None \<Longrightarrow> isl (query_run E w q s)"
proof (cases q)
  case (PreviewImport path content)
  assume "as_vault s = None"
  then show ?thesis
    unfolding PreviewImport
    by (cases "read_import (de_prims E) (dw_import w) (de_otp E) (dw_draw w) path content")
      (auto simp: preview_import_def with_vault_def split: import_file.split)
qed (simp_all add: list_items_def recent_items_def vault_counts_cmd_def item_extras_cmd_def folders_cmd_def
  reveal_field_def reveal_notes_def reveal_password_def totp_code_cmd_def reading_item_def list_subscriptions_def
  item_subscription_cmd_def auto_lock_cmd_def sync_status_of_def with_vault_def)

lemma with_vault_mut_locked [simp]: "as_vault s = None \<Longrightarrow> with_vault_mut f s = (s, Inl (AppError ''the vault is locked''))"
  by (simp add: with_vault_mut_def)

lemma editing_locked [simp]: "as_vault s = None \<Longrightarrow> editing E nonce f s = (s, Inl (AppError ''the vault is locked''))"
  by (simp add: editing_def)

lemma tell_simps [simp]: "fst (tell g p) = fst p" "isl (snd (tell g p)) = isl (snd p)"
  by (simp_all add: tell_def)

lemmas edit_commands = update_item_cmd_def delete_item_cmd_def create_folder_cmd_def rename_folder_cmd_def
  delete_folder_cmd_def reorder_folders_cmd_def set_item_folder_cmd_def reorder_items_cmd_def set_auto_lock_cmd_def

lemma locked_edit:
  assumes "as_vault s = None"
  shows "isl (snd (edit_run E w e s)) \<and> as_vault (fst (edit_run E w e s)) = None"
proof (cases e)
  case (AddItem n)
  with assms show ?thesis
    by (auto simp: add_item_cmd_def take_pending_totp_def and_do_def split: prod.splits sum.splits option.splits if_splits)
next
  case (ChangeMasterPassword old new)
  with assms show ?thesis
    by (auto simp: change_master_password_def and_do_def split: sum.splits)
next
  case (SetSubscription k given)
  with assms show ?thesis by (auto simp: set_subscription_cmd_def and_do_def split: sum.splits)
next
  case SyncForget
  with assms show ?thesis by (simp add: sync_forget_def and_do_def)
next
  case (RunImport path content expected es)
  with assms show ?thesis by (auto simp: run_import_def and_do_def split: sum.splits prod.splits)
qed (use assms in \<open>simp_all add: edit_commands\<close>)

text \<open>Nothing but an opening puts a vault into memory.\<close>

lemma vault_kept [simp]:
  "as_vault (fst (lift_disk f s)) = as_vault s"
  "as_vault (fst (on_creds g s)) = as_vault s"
  by (simp_all add: lift_disk_def on_creds_def Let_def split: prod.split list.split bool.split)

lemma and_do_vault:
  "as_vault (fst p) = v \<Longrightarrow> (\<And>x s. as_vault s = v \<Longrightarrow> as_vault (fst (f x s)) = v) \<Longrightarrow> as_vault (fst (and_do p f)) = v"
  by (cases p; cases "snd p") (auto simp: and_do_def)

lemma update_registry_vault [simp]: "as_vault (fst (update_registry P f s)) = as_vault s"
  by (auto simp: update_registry_def split: sum.split intro!: and_do_vault)

lemma profile_vault [simp]:
  "as_vault (fst (select_profile P k s)) = as_vault s"
  "as_vault (fst (deselect_profile P s)) = as_vault s"
  "as_vault (fst (recover P s)) = as_vault s"
  "as_vault (fst (forget_remembered P k s)) = as_vault s"
  "as_vault (fst (forget_selected_remembered P s)) = as_vault s"
  by (auto simp: select_profile_def deselect_profile_def recover_def forget_remembered_def remembered_forget_def
      clear_remembered_expiry_def forget_selected_remembered_def allow_resume_def Let_def
      split: option.split intro!: and_do_vault)

lemma remove_vault_kept [simp]: "as_vault (fst (remove_profile P operation k confirmation s)) = as_vault s"
  unfolding remove_profile_def
  by (auto simp: remembered_forget_def Let_def split: option.split prod.split sum.split intro!: and_do_vault)
    (metis fst_conv vault_kept)+

text \<open>
  A session that is shut but for the names \<open>M\<close>: no vault in memory, and no grant and no entry of the
  broker's log that names an item outside \<open>M\<close>. With \<open>M\<close> empty there is no grant and no entry.
\<close>

definition shut :: "string set \<Rightarrow> desktop \<Rightarrow> bool" where
  "shut M d \<longleftrightarrow> as_vault (app_of d) = None \<and> g_item_name ` set (b_grants (dt_broker d)) \<subseteq> M \<and>
     e_item ` set (b_audit (dt_broker d)) \<subseteq> M"

fun opens :: "desk_command \<Rightarrow> bool" where
  "opens (Session VaultStartup) = True"
| "opens (Session (CreateVault password name remember)) = True"
| "opens (Session (UnlockVault password remember)) = True"
| "opens c = False"

text \<open>The replies that carry nothing of a vault but names of \<open>M\<close>.\<close>

fun silent :: "string set \<Rightarrow> reply \<Rightarrow> bool" where
  "silent M (Grants gs) = (gv_item ` set gs \<subseteq> M)"
| "silent M (Audit es) = (av_item ` set es \<subseteq> M)"
| "silent M r = (r \<in> {Done} \<union> range Flag \<union> range Screen \<union> range Profiles \<union> range Preview \<union> range Rated
     \<union> range Copied \<union> range ClearedTo)"

lemma on_app_simps [simp]:
  "snd (on_app f d) = snd (f (app_of d))"
  "app_of (fst (on_app f d)) = fst (f (app_of d))"
  "b_grants (dt_broker (fst (on_app f d))) = b_grants (dt_broker d)"
  "b_audit (dt_broker (fst (on_app f d))) = b_audit (dt_broker d)"
  by (simp_all add: on_app_def app_of_def split: prod.split)

lemma run_unit_shut: "as_vault (f (app_of d)) = as_vault (app_of d) \<Longrightarrow> shut M (run_unit f d) = shut M d"
  by (simp add: run_unit_def shut_def)

lemma on_app_shut: "as_vault (fst (f (app_of d))) = as_vault (app_of d) \<Longrightarrow> shut M (fst (on_app f d)) = shut M d"
  by (simp add: shut_def)

lemma lock_everything_shut [simp]: "shut M (lock_everything d)"
  by (simp add: lock_everything_def shut_def on_lock_def forget_grants_def clear_grants_def app_of_def run_unit_def
      on_app_def app_clear_def clear_pending_totp_def)

lemma lock_vault_shut [simp]: "shut M (lock_vault d)"
  by (simp add: lock_vault_def run_unit_shut suppress_resume_def)

lemma and_do_shut: "shut M (fst p) \<Longrightarrow> (\<And>x d. shut M d \<Longrightarrow> shut M (fst (f x d))) \<Longrightarrow> shut M (fst (and_do p f))"
  by (cases p; cases "snd p") (auto simp: and_do_def)

lemma scan_vault [simp]:
  "as_vault (fst (scan_qr_from_path E J now content s)) = as_vault s"
  "as_vault (fst (scan_qr_from_clipboard E J now picture s)) = as_vault s"
  by (auto simp: scan_qr_from_path_def scan_qr_from_clipboard_def scanned_def set_pending_totp_def
      split: option.splits sum.splits prod.splits)

lemma lock_on_reload_vault: "as_vault s = None \<Longrightarrow> lock_on_reload s = (s, False)"
  by (simp add: lock_on_reload_def is_unlocked_def)

lemma shut_vault: "shut M d \<Longrightarrow> as_vault (app_of d) = None"
  by (simp add: shut_def)

lemma page_load_shut: "shut M d \<Longrightarrow> shut M (page_load d)"
  using on_app_shut [of lock_on_reload d] lock_on_reload_vault [OF shut_vault [of M d]]
  by (cases "on_app lock_on_reload d"; cases "snd (on_app lock_on_reload d)") (simp_all add: page_load_def)

lemma shut_beside [simp]:
  "shut M (d\<lparr>dt_ui := u\<rparr>) = shut M d"
  "shut M (d\<lparr>dt_clip := c\<rparr>) = shut M d"
  by (simp_all add: shut_def app_of_def)

lemma revoke_shut: "shut M d \<Longrightarrow> shut M (fst (revoke_grant k d))"
  by (auto simp: revoke_grant_def broker_revoke_def revoke_def shut_def app_of_def Let_def split: prod.split)

lemma resolve_shut: "shut M (fst (resolve_approval g k choice minutes d)) = shut M d"
  by (simp add: resolve_approval_def split: option.split prod.split bool.split)

lemma clip_shut:
  "shut M (fst (copy_secret value d)) = shut M d"
  "shut M (fst (clear_clipboard d)) = shut M d"
  by (simp_all add: copy_secret_def clear_clipboard_def split: prod.split)

lemma leaving_shut:
  "shut M (fst (logout_vault E d))"
  "shut M (fst (choose_another_vault E d))"
  "shut M (fst (remove_vault E operation k confirmation d))"
  by (auto simp: logout_vault_def choose_another_vault_def remove_vault_def on_app_shut run_unit_shut
      suppress_resume_def intro!: and_do_shut)

lemma shut_session:
  assumes "shut M d" and "\<not> opens (Session c)"
  shows "shut M (fst (session_run E w c d))"
proof (cases c)
  case (CopySecret x)
  with assms(1) clip_shut(1) [of M x d] show ?thesis by (auto split: prod.split sum.split)
next
  case ClearClipboard
  with assms(1) clip_shut(2) [of M d] show ?thesis by (auto split: prod.split)
next
  case (RevokeGrant k)
  with revoke_shut [OF assms(1), of k] show ?thesis by (auto split: prod.split)
qed (use assms in \<open>simp_all add: page_load_shut resolve_shut leaving_shut on_app_shut run_unit_shut
  clear_pending_totp_def\<close>)

lemma silent_session: "shut M d \<Longrightarrow> \<not> opens (Session c) \<Longrightarrow> snd (session_run E w c d) = Inr x \<Longrightarrow> silent M x"
  by (cases c) (auto simp: tell_def told_def and_then_def split: prod.splits sum.splits)

lemma silent_status: "shut M d \<Longrightarrow> silent M (status_run w q d)"
  by (cases q) (auto simp: list_grants_def broker_live_grants_def live_grants_def audit_entries_def recent_audit_def
    log_recent_def shut_def grant_view_of_def audit_view_of_def image_subset_iff dest!: in_set_takeD)

lemma shut_run:
  assumes "shut M d" and "\<not> opens c"
  shows "shut M (fst (desk_run E w c d)) \<and> (isl (snd (desk_run E w c d)) \<or> silent M (projr (snd (desk_run E w c d))))"
proof (cases c)
  case (Query q)
  with assms(1) locked_query [OF shut_vault [OF assms(1)], of E w q] show ?thesis by simp
next
  case (Edit e)
  with assms(1) locked_edit [OF shut_vault [OF assms(1)], of E w e] show ?thesis
    by (simp add: on_app_shut shut_vault)
next
  case (Session x)
  with shut_session [OF assms(1)] silent_session [OF assms(1), of x E w] assms(2) show ?thesis
    by (cases "snd (session_run E w x d)") auto
next
  case (Ask q)
  with assms(1) silent_status [OF assms(1)] show ?thesis by simp
qed

definition sample_desktop :: "app_state \<Rightarrow> desktop" where
  "sample_desktop s = \<lparr>dt_ui = ui_new, dt_broker = broker_new s, dt_clip = clip_new (sample_win [])\<rparr>"

definition sample_draws :: "unit call_draws" where
  "sample_draws = \<lparr>dw_now = 9, dw_later = 9, dw_nonce = [], dw_key_nonce = [], dw_salt = [], dw_key = [], dw_fresh = 5,
     dw_draw = (\<lambda>_. (5, 9)), dw_image = \<lparr>im_dimensions = (\<lambda>_. None), im_decode = (\<lambda>_. None), im_from_rgba = (\<lambda>_ _ _. None), im_grids = (\<lambda>_. [])\<rparr>,
     dw_import = sample_import [], dw_show = id\<rparr>"

section \<open>Changing the password\<close>

text \<open>The vault the stored file opens to under a password, if it does.\<close>

definition stored_opens :: "desk_env \<Rightarrow> u64 \<Rightarrow> string \<Rightarrow> app_state \<Rightarrow> bool" where
  "stored_opens E now password s = is_ok (open_selected_vault E now password s)"

lemma verify_open:
  "verify_master_password E now password s = and_then (open_selected_vault E now password s) (\<lambda>_. Inr ())"
  by (simp add: verify_master_password_def open_selected_vault_def split: option.split)

lemma verify_ok: "verify_master_password E now password s = Inr () \<longleftrightarrow> stored_opens E now password s"
  by (cases "open_selected_vault E now password s") (simp_all add: verify_open stored_opens_def is_ok_def)

lemma undo_vault [simp]:
  "as_vault (fst (case p of (s2, Inl e) \<Rightarrow> (fst (remembered_forget k s2), Inl e) | (s2, Inr x) \<Rightarrow> (s2, Inr ()))) = as_vault (fst p)"
  by (cases p; cases "snd p") (auto simp: remembered_forget_def)

lemma remember_vault [simp]: "as_vault (fst (set_remembered P now password remember s)) = as_vault s"
  unfolding set_remembered_def
  by (auto simp: remembered_store_def split: option.split intro!: and_do_vault)

lemma refresh_vault [simp]: "as_vault (fst (refresh_remembered P now password s)) = as_vault s"
  by (simp add: refresh_remembered_def split: option.split)

text \<open>
  C26: changing the password changes nothing unless the stored file opens with the current one; where it
  is reported as done, the vault in memory is the one that was there, under the new password and with
  the same data, and it was saved.
\<close>

theorem password_change_needs_current:
  assumes "change_master_password E salt key_nonce nonce now current_password new_password s = (s', r)"
  shows "(\<not> stored_opens E now current_password s \<longrightarrow> s' = s \<and> isl r) \<and>
    (r = Inr () \<longrightarrow> (\<exists>v v' s1. as_vault s = Some v \<and> change_password (de_prims E) salt key_nonce new_password v = Inr v' \<and>
       uv_data v' = uv_data v \<and> as_vault s' = Some v' \<and> save_vault (de_prims E) nonce (s\<lparr>as_vault := Some v'\<rparr>) = (s1, Inr ())))"
proof (cases "stored_opens E now current_password s")
  case False
  then obtain e where "verify_master_password E now current_password s = Inl e"
    using verify_ok [of E now current_password s] by (cases "verify_master_password E now current_password s") auto
  with assms have "s' = s \<and> r = Inl e" by (simp add: change_master_password_def and_do_def)
  then show ?thesis by simp
next
  case True
  then have cmd: "and_do (editing E nonce (rekey E salt key_nonce new_password) s)
      (\<lambda>_ s2. refresh_remembered (de_prims E) now new_password s2) = (s', r)"
    using assms verify_ok [of E now current_password s] by (simp add: change_master_password_def)
  have "\<exists>v v' s1. as_vault s = Some v \<and> change_password (de_prims E) salt key_nonce new_password v = Inr v' \<and>
      uv_data v' = uv_data v \<and> as_vault s' = Some v' \<and> save_vault (de_prims E) nonce (s\<lparr>as_vault := Some v'\<rparr>) = (s1, Inr ())"
    if "r = Inr ()"
  proof -
    from cmd that obtain s1 where ed: "editing E nonce (rekey E salt key_nonce new_password) s = (s1, Inr ())"
      and rem: "fst (refresh_remembered (de_prims E) now new_password s1) = s'"
      by (auto simp: and_do_def split: prod.splits sum.splits)
    from editing_Inr [OF ed] obtain v v' where v: "as_vault s = Some v" "rekey E salt key_nonce new_password v = (v', Inr ())"
      "as_vault s1 = Some v'" "save_vault (de_prims E) nonce (s\<lparr>as_vault := Some v'\<rparr>) = (s1, Inr ())" by metis
    from v(2) have "change_password (de_prims E) salt key_nonce new_password v = Inr v'"
      by (auto simp: rekey_def split: sum.splits)
    moreover from this have "uv_data v' = uv_data v" by (auto simp: change_password_def change_password_with_params_def and_then_Inr Let_def)
    moreover have "as_vault s' = Some v'" using refresh_vault [of "de_prims E" now new_password s1] v(3) rem by simp
    ultimately show ?thesis using v by blast
  qed
  with True show ?thesis by blast
qed

section \<open>Where an error leaves something behind\<close>

text \<open>
  A password change whose save fails is answered by an error, and the next save that succeeds seals the
  file under the password that was refused.
\<close>

theorem failed_password_change_is_written_later:
  assumes "stored_opens E now current_password s" and "as_vault s = Some v"
    and "change_password (de_prims E) salt key_nonce new_password v = Inr v'"
    and "editing E nonce (rekey E salt key_nonce new_password) s = (s', Inl e)"
    and "seal_vault (de_prims E) nonce' v' = Inr g" and "vault_name (vault_path s')"
    and "save_vault (de_prims E) nonce' s' = (s'', Inr ())"
  shows "change_master_password E salt key_nonce nonce now current_password new_password s = (s', Inl e) \<and>
    d_files (as_disk s'') (vault_path s') = Some (to_bytes (de_prims E) g)"
proof -
  have "rekey E salt key_nonce new_password v = (v', Inr ())" by (simp add: rekey_def assms(3))
  from failed_edit_is_written_later [OF assms(2) this assms(4,5,6,7)] show ?thesis
    using assms(1,4) verify_ok [of E now current_password s] by (simp add: change_master_password_def and_do_def)
qed

text \<open>
  The right password does not unlock the vault where the list of vaults cannot be written, although the
  user did not ask for the password to be remembered.
\<close>

theorem unlock_fails_with_registry:
  assumes "open_selected_vault E now password (app_of d) = Inr v"
    and "set_remembered (de_prims E) now password (remember = Some True) (app_of d) = (s, Inl e)"
  shows "snd (unlock_vault E now password remember d) = Inl e \<and>
    as_vault (app_of (fst (unlock_vault E now password remember d))) = as_vault (app_of d)"
proof -
  have "as_vault s = as_vault (app_of d)"
    using remember_vault [of "de_prims E" now password "remember = Some True" "app_of d"] assms(2) by simp
  with assms show ?thesis
    by (simp add: unlock_vault_def and_do_def on_app_def app_of_def split: prod.split)
qed

text \<open>
  A vault can be created while another is open. Where the new one is to be remembered and the store of
  the system refuses, the call fails, the old vault stays in memory, and the new one is selected: what
  is saved next goes over the file of the new vault.
\<close>

theorem failed_create_redirects_saves:
  assumes "as_vault (app_of d) = Some old" and "create (de_prims E) salt fresh_key key_nonce password = Inr v"
    and "add_profile (de_prims E) nonce fresh name v (app_of d) = (s, Inr p)" and "as_cred_faults s = True # faults"
  shows "create_vault E salt fresh_key key_nonce nonce fresh now password (Some name) (Some True) d =
      (d\<lparr>dt_broker := (dt_broker d)\<lparr>b_vault := s\<lparr>as_cred_faults := faults\<rparr>\<rparr>\<rparr>, Inl IoError) \<and>
    as_vault s = Some old \<and> rg_selected (as_registry s) = Some (vp_id p)"
proof -
  have sel: "as_vault s = Some old \<and> rg_selected (as_registry s) = Some (vp_id p)"
    using assms(1,3)
    by (auto simp: add_profile_def Let_def and_do_def lift_disk_def allow_resume_def split: if_splits prod.splits sum.splits)
  then show ?thesis
    using assms(2-4)
    by (simp add: create_vault_def as_app_def and_do_def on_app_def app_of_def set_remembered_def remembered_store_def
        on_creds_def Let_def split: prod.split)
qed

end
