(* ===== verification/Desktop_History.thy ===== *)
theory Desktop_History
  imports Desktop_Session
begin

text \<open>
  The history of accesses over a lock: what the broker records while a vault is open is written into
  the vault file with the next save, dropped from memory by the lock, and read back from the file when
  the vault is opened again.
\<close>

section \<open>The file reads back\<close>

text \<open>What the code relies on of the printers: both forms of a JSON tree read back as the tree.\<close>

definition file_faithful :: "prims \<Rightarrow> bool" where
  "file_faithful P \<longleftrightarrow> aead_correct P \<and> uuid_faithful P \<and> b64_faithful P \<and>
     (\<forall>j. json_faithful P j \<and> p_json_parse P (p_json_pretty P j) = Some j)"

lemma opened_protected:
  assumes "open_vault P now f password = Inr v"
  shows "protected_by P v password"
proof -
  from assms obtain master where "vf_format f = FORMAT_VERSION" "h_algorithm (vf_kdf f) = KDF_ALGORITHM"
    and "kdf_validate (h_params (vf_kdf f)) = Inr ()" "uv_kdf v = vf_kdf f" "uv_wrapped_key v = vf_wrapped_key f"
    and "derive_key P password (h_salt (vf_kdf f)) (h_params (vf_kdf f)) = Inr master"
    and "open_sealed P master (vf_wrapped_key f) (associated_data P (vf_format f) (vf_kdf f)) = Inr (key_expose (uv_vault_key v))"
    and "length (key_expose (uv_vault_key v)) = KEY_LEN"
    by (auto simp: open_vault_def check_supported_def and_then_Inr key_from_slice_Inr Let_def split: if_splits)
  then show ?thesis by (simp add: protected_by_def)
qed

lemma opening_keeps_audit [simp]:
  "vd_audit (prune_tombstones now d) = vd_audit d" "vd_audit (migrate_tags_into_folders d) = vd_audit d"
  by (simp_all add: prune_tombstones_def migrate_tags_into_folders_def Let_def)

lemma written_opens:
  assumes P: "file_faithful P" and prot: "protected_by P v password" and nonce: "length nonce = NONCE_LEN"
    and sealed: "seal_vault P nonce v = Inr f"
  shows "\<exists>v'. and_then (from_bytes P (to_bytes P f)) (\<lambda>f. open_vault P now f password) = Inr v' \<and>
    vd_audit (uv_data v') = vd_audit (uv_data v)"
proof -
  have "of_file P (file_json P f) = Inr f" using P by (intro file_rt) (simp add: file_faithful_def)
  moreover have "check_supported f = Inr f"
    using sealed prot by (auto simp: seal_vault_def check_supported_def protected_by_def and_then_Inr Let_def)
  ultimately have "from_bytes P (to_bytes P f) = Inr f"
    using P by (simp add: from_bytes_def to_bytes_def parse_json_def file_faithful_def)
  then show ?thesis
    using open_after_seal [OF _ _ _ nonce prot sealed, of now] P by (simp add: file_faithful_def)
qed

section \<open>The log and its copy in the vault\<close>

text \<open>The log in memory is what the records of the vault read as.\<close>

definition mirrored :: "prims \<Rightarrow> unlocked_vault \<Rightarrow> entry list \<Rightarrow> bool" where
  "mirrored P v es \<longleftrightarrow> readable_log P v \<and> es = read_entries P (vd_audit (uv_data v))"

lemma read_entries_append: "read_entries P (ps @ qs) = read_entries P ps @ read_entries P qs"
  by (induction ps) (simp_all add: read_entries_def map_filter_simps split: sum.split)

lemma mirrored_length: "mirrored P v es \<Longrightarrow> length es = length (vd_audit (uv_data v)) \<and> length es \<le> LOG_CAPACITY"
  by (simp add: mirrored_def readable_log_def read_entries_all)

lemma read_entries_keep_last:
  assumes "list_all (\<lambda>p. is_ok (parse_json P (of_entry P) p)) ps"
  shows "read_entries P (keep_last n ps) = keep_last n (read_entries P ps)"
proof -
  have "list_all (\<lambda>p. is_ok (parse_json P (of_entry P) p)) (keep_last n ps)"
    using assms set_keep_last [of n ps] by (auto simp: list_all_iff)
  with assms show ?thesis by (simp add: read_entries_all keep_last_drop drop_map)
qed

lemma mirrored_record:
  assumes P: "file_faithful P" and m: "mirrored P v es" and e: "counted e"
  shows "mirrored P (v\<lparr>uv_data := record_audit (p_json_print P (entry_json P e)) (uv_data v)\<rparr>) (log_record e es)"
proof -
  let ?p = "p_json_print P (entry_json P e)" and ?a = "vd_audit (uv_data v)"
  have parse: "parse_json P (of_entry P) ?p = Inr e"
    using P e entry_rt by (simp add: parse_json_print file_faithful_def)
  have ok: "list_all (\<lambda>p. is_ok (parse_json P (of_entry P) p)) (?a @ [?p])"
    using m parse by (simp add: mirrored_def readable_log_def is_ok_def)
  have "read_entries P (?a @ [?p]) = es @ [e]"
    using m parse by (simp add: mirrored_def read_entries_append) (simp add: read_entries_def map_filter_simps)
  then have "read_entries P (keep_last LOG_CAPACITY (?a @ [?p])) = keep_last LOG_CAPACITY (es @ [e])"
    by (simp only: read_entries_keep_last [OF ok])
  moreover have "list_all (\<lambda>p. is_ok (parse_json P (of_entry P) p)) (keep_last LOG_CAPACITY (?a @ [?p]))"
    using ok set_keep_last [of LOG_CAPACITY "?a @ [?p]"] by (auto simp: list_all_iff)
  ultimately show ?thesis
    using access_log.entries_push [of e es]
    by (simp add: mirrored_def readable_log_def vd_audit_record AUDIT_CAPACITY_def LOG_CAPACITY_def length_keep_last)
qed

section \<open>A session of recordings\<close>

text \<open>The broker records an access; \<open>nonce\<close> is that of the save the view makes.\<close>

definition note_access :: "desk_env \<Rightarrow> bytes \<times> entry \<Rightarrow> desktop \<Rightarrow> desktop" where
  "note_access E p d = d\<lparr>dt_broker := record_entry (desk_view E 0 (fst p)) (snd p) (dt_broker d)\<rparr>"

text \<open>Whether that save went through: the view drops its result.\<close>

definition note_saved :: "desk_env \<Rightarrow> bytes \<times> entry \<Rightarrow> desktop \<Rightarrow> bool" where
  "note_saved E p d = is_ok (snd (save_vault (de_prims E) (fst p)
     (fst (with_vault_mut (record_payload (p_json_print (de_prims E) (entry_json (de_prims E) (snd p)))) (app_of d)))))"

lemma note_access_vault:
  "as_vault (app_of (note_access E p d)) =
    map_option (\<lambda>v. v\<lparr>uv_data := record_audit (p_json_print (de_prims E) (entry_json (de_prims E) (snd p))) (uv_data v)\<rparr>)
      (as_vault (app_of d))"
  by (simp add: note_access_def app_of_def record_entry_def desk_view_def vault_view_def view_record_vault)

lemma note_access_log: "b_audit (dt_broker (note_access E p d)) = log_record (snd p) (b_audit (dt_broker d))"
  by (simp add: note_access_def record_entry_def)

lemma protected_data [simp]: "protected_by P (v\<lparr>uv_data := x\<rparr>) password = protected_by P v password"
  by (simp add: protected_by_def)

definition session_of :: "desk_env \<Rightarrow> string \<Rightarrow> desktop \<Rightarrow> bool" where
  "session_of E password d \<longleftrightarrow> (\<exists>v. as_vault (app_of d) = Some v \<and> protected_by (de_prims E) v password \<and>
     mirrored (de_prims E) v (b_audit (dt_broker d)))"

lemma session_note:
  assumes "file_faithful (de_prims E)" and "session_of E password d" and "counted (snd p)"
  shows "session_of E password (note_access E p d)"
  using assms mirrored_record by (auto simp: session_of_def note_access_vault note_access_log)

lemma session_notes:
  "file_faithful (de_prims E) \<Longrightarrow> session_of E password d \<Longrightarrow> \<forall>p \<in> set ps. counted (snd p) \<Longrightarrow>
    session_of E password (fold (note_access E) ps d)"
  by (induction ps arbitrary: d) (simp_all add: session_note)

lemma notes_log:
  "length (b_audit (dt_broker d)) \<le> LOG_CAPACITY \<Longrightarrow>
    b_audit (dt_broker (fold (note_access E) ps d)) = keep_last LOG_CAPACITY (b_audit (dt_broker d) @ map snd ps)"
proof (induction ps arbitrary: d)
  case (Cons p ps)
  have log: "b_audit (dt_broker (note_access E p d)) = keep_last LOG_CAPACITY (b_audit (dt_broker d) @ [snd p])"
    using access_log.entries_push [of "snd p" "b_audit (dt_broker d)"] by (simp add: note_access_log)
  then have "length (b_audit (dt_broker (note_access E p d))) \<le> LOG_CAPACITY" by (simp add: length_keep_last)
  from Cons.IH [OF this] show ?case by (simp add: log keep_last_append)
qed (simp add: keep_last_id)

lemma unlocked_desktop:
  assumes "unlock_vault E now password remember d = (d', Inr ())"
  obtains v where "open_selected_vault E now password (app_of d) = Inr v" "as_vault (app_of d') = Some v"
    "b_audit (dt_broker d') = keep_last LOG_CAPACITY (read_entries (de_prims E) (vd_audit (uv_data v)))"
proof -
  obtain v where v: "open_selected_vault E now password (app_of d) = Inr v"
    using assms by (cases "open_selected_vault E now password (app_of d)") (simp_all add: unlock_vault_def)
  with assms obtain d1 where d': "d' = restore E (run_unit (\<lambda>s. allow_resume (set_vault v s)) d1)"
    by (auto simp: unlock_vault_def and_do_def split: prod.splits sum.splits)
  let ?d = "run_unit (\<lambda>s. allow_resume (set_vault v s)) d1"
  have "as_vault (b_vault (dt_broker ?d)) = Some v"
    by (simp add: run_unit_def on_app_def allow_resume_def set_vault_def)
  then have "as_vault (app_of d') = Some v"
    "b_audit (dt_broker d') = keep_last LOG_CAPACITY (read_entries (de_prims E) (vd_audit (uv_data v)))"
    using restored_log by (simp_all add: d' restore_def desk_view_def app_of_def) (simp add: restore_audit_def)
  with v that show thesis by blast
qed

lemma lock_keeps_files:
  "as_disk (app_of (lock_everything d)) = as_disk (app_of d)"
  "vault_path (app_of (lock_everything d)) = vault_path (app_of d)"
  by (simp_all add: lock_everything_def on_lock_def forget_grants_def app_of_def run_unit_def on_app_def app_clear_def
      clear_pending_totp_def vault_path_def selected_vault_path_def cong: option.case_cong)

lemma note_written:
  assumes v: "as_vault (app_of d) = Some v" and saved: "note_saved E p d" and path: "vault_name (vault_path (app_of d))"
    and v': "as_vault (app_of (note_access E p d)) = Some v'"
  shows "\<exists>f. seal_vault (de_prims E) (fst p) v' = Inr f \<and>
    d_files (as_disk (app_of (note_access E p d))) (vault_path (app_of d)) = Some (to_bytes (de_prims E) f) \<and>
    vault_path (app_of (note_access E p d)) = vault_path (app_of d)"
proof -
  let ?P = "de_prims E" and ?s = "app_of d"
  let ?s1 = "?s\<lparr>as_vault := Some v'\<rparr>"
  have mut: "fst (with_vault_mut (record_payload (p_json_print ?P (entry_json ?P (snd p)))) ?s) = ?s1"
    using v v' by (simp add: note_access_vault with_vault_mut_def record_payload_def)
  have path1: "vault_path ?s1 = vault_path ?s" by (simp add: vault_path_def selected_vault_path_def cong: option.case_cong)
  obtain s2 r where sv: "save_vault ?P (fst p) ?s1 = (s2, r)" by fastforce
  with saved have r: "r = Inr ()" by (cases r) (auto simp: note_saved_def mut is_ok_def)
  have after: "app_of (note_access E p d) = s2"
    using mut sv by (simp add: note_access_def app_of_def record_entry_def desk_view_def vault_view_def view_record_audit_def)
  from sv r obtain d' where pa: "persist_at ?P (fst p) (vault_path ?s) v' (as_disk ?s) = (d', Inr ())" "s2 = ?s1\<lparr>as_disk := d'\<rparr>"
    by (auto simp: save_vault_def persist_def lift_disk_def path1 split: prod.splits)
  then obtain f where f: "seal_vault ?P (fst p) v' = Inr f"
    by (cases "seal_vault ?P (fst p) v'") (auto simp: persist_at_def)
  have "vault_path s2 = vault_path ?s"
    using path1 pa(2) by (simp add: vault_path_def selected_vault_path_def cong: option.case_cong)
  with persist_at_outcome [OF path f pa(1)] f pa(2) after show ?thesis by auto
qed


section \<open>Witness\<close>

definition file_prims :: prims where
  "file_prims = total_prims\<lparr>p_json_pretty := p_json_print total_prims\<rparr>"

definition file_desk :: desk_env where
  "file_desk = sample_desk\<lparr>de_prims := file_prims\<rparr>"

definition one_vault :: vault_registry where
  "one_vault = \<lparr>rg_selected = Some ''default'', rg_vaults =
     [\<lparr>vr_id = ''default'', vr_name = ''Personal'', vr_file = ''vault.yara'', vr_remembered_until = None\<rparr>]\<rparr>"

definition closed_app :: "bytes \<Rightarrow> app_state" where
  "closed_app bs = (sample_app None (sample_disk [''vault.yara'' \<mapsto> bs]))\<lparr>as_registry := one_vault\<rparr>"

lemma file_prims_ok: "file_faithful file_prims" "aead_total file_prims" "argon2_len file_prims"
  using sample_prims_ok [of JNull JNull]
  by (simp_all add: file_faithful_def file_prims_def total_prims_def aead_correct_def aead_total_def argon2_len_def
      uuid_faithful_def b64_faithful_def json_faithful_def)

lemma file_protected:
  "\<exists>v. protected_by file_prims v pw \<and> uv_data v = vault_data_default \<and> uv_kdf v = fresh_header salt32 kdf_default"
proof -
  obtain master where m: "derive_key file_prims pw salt32 kdf_default = Inr master" "length (key_expose master) = KEY_LEN"
    using sample_derive [of JNull JNull pw kdf_default] by (auto simp: derive_key_def file_prims_def total_prims_def)
  let ?k = "Key (replicate 32 (CHR ''K''))" and ?h = "fresh_header salt32 kdf_default"
  obtain w where w: "seal file_prims nonce24 master (key_expose ?k) (associated_data file_prims FORMAT_VERSION ?h) = Inr w"
    using seal_total [OF file_prims_ok(2) m(2), of nonce24] by force
  have "aead_correct file_prims" using file_prims_ok(1) by (simp add: file_faithful_def)
  from protected_rewrapped [OF this file_prims_ok(3) _ kdf_default_valid _ m(1) w,
      of "\<lparr>uv_kdf = ?h, uv_wrapped_key = w, uv_vault_key = ?k, uv_data = vault_data_default\<rparr>"]
  show ?thesis by (intro exI [of _ "\<lparr>uv_kdf = ?h, uv_wrapped_key = w, uv_vault_key = ?k, uv_data = vault_data_default\<rparr>"]) simp
qed

lemma closed_app_unlocks:
  assumes "open_selected_vault file_desk 5 ''pw'' (closed_app bs) = Inr v"
  shows "\<exists>d. unlock_vault file_desk 5 ''pw'' None (sample_desktop (closed_app bs)) = (d, Inr ()) \<and>
    healthy (as_disk (app_of d)) \<and> vault_path (app_of d) = ''vault.yara''"
proof -
  let ?s = "closed_app bs" and ?g = "set_expiry ''default'' None one_vault"
  have h: "healthy (as_disk ?s)" by (simp add: closed_app_def sample_app_def sample_disk_def healthy_def)
  let ?d = "(as_disk ?s)\<lparr>d_files := (d_files (as_disk ?s))(REGISTRY_TEMP := None, REGISTRY_FILE \<mapsto> p_json_pretty file_prims (registry_json ?g))\<rparr>"
  have "write_registry file_prims ?g (as_disk ?s) = (?d, Inr ())"
    using h by (simp add: write_registry_def healthy_ops and_do_def)
  then have "fst (set_remembered file_prims 5 ''pw'' False ?s) = ?s\<lparr>as_disk := ?d, as_registry := ?g, as_creds := (as_creds ?s)(''default'' := None)\<rparr> \<and>
      snd (set_remembered file_prims 5 ''pw'' False ?s) = Inr ()"
    by (simp add: set_remembered_def forget_remembered_def clear_remembered_expiry_def update_registry_def lift_disk_def
        remembered_forget_def on_creds_def and_do_def Let_def closed_app_def sample_app_def one_vault_def)
  then obtain s1 where s1: "set_remembered file_prims 5 ''pw'' False ?s = (s1, Inr ())" "healthy (as_disk s1)" "as_registry s1 = ?g"
    using h by (cases "set_remembered file_prims 5 ''pw'' False ?s") auto
  then have "vault_path (allow_resume (set_vault v s1)) = ''vault.yara''"
    by (simp add: vault_path_def selected_vault_path_def allow_resume_def set_vault_def set_expiry_def one_vault_def find_record_def)
  with s1 assms show ?thesis
    by (simp add: unlock_vault_def sample_desktop_def app_of_def broker_new_def on_app_def file_desk_def and_do_def run_unit_def
        restore_def restore_audit_def) (simp add: allow_resume_def set_vault_def)
qed


text \<open>A change of the password that is done: the vault that is open was read from the file that is stored.\<close>

theorem password_change_needs_current_witness:
  "\<exists>s s' v'. change_master_password file_desk salt32 nonce24 nonce24 5 ''pw'' ''new'' s = (s', Inr ()) \<and>
    as_vault s' = Some v' \<and> uv_data v' = vault_data_default"
proof -
  let ?P = file_prims
  obtain v where v: "protected_by ?P v ''pw''" "uv_data v = vault_data_default" "uv_kdf v = fresh_header salt32 kdf_default"
    using file_protected by blast
  obtain f where f: "seal_vault ?P nonce24 v = Inr f" using seal_vault_total [OF file_prims_ok(2) v(1), of nonce24] by auto
  let ?s = "(closed_app (to_bytes ?P f))\<lparr>as_vault := Some v\<rparr>"
  obtain master where "derive_key ?P ''new'' salt32 kdf_default = Inr master"
    using sample_derive [of JNull JNull "''new''" kdf_default] by (auto simp: derive_key_def file_prims_def total_prims_def)
  then obtain v' where v': "change_password ?P salt32 nonce24 ''new'' v = Inr v'"
    using change_password_total [OF file_prims_ok(2,3), where v = v and new = "''new''" and salt = salt32 and n = nonce24]
    by (auto simp: v(3) fresh_header_def kdf_default_valid)
  have path: "vault_path ?s = ''vault.yara''" "vault_path (?s\<lparr>as_vault := Some v'\<rparr>) = ''vault.yara''"
    by (simp_all add: closed_app_def sample_app_def one_vault_def vault_path_def selected_vault_path_def find_record_def)
  have opened: "verify_master_password file_desk 5 ''pw'' ?s = Inr ()"
    using written_opens [OF file_prims_ok(1) v(1) _ f, of 5] path(1)
    by (auto simp: verify_open open_selected_vault_def closed_app_def sample_app_def sample_disk_def file_desk_def as_app_def)
  obtain g where g: "seal_vault ?P nonce24 v' = Inr g"
    by (simp add: seal_vault_def seal_def file_prims_def total_prims_def sample_prims_def Let_def)
  have h: "healthy (as_disk (?s\<lparr>as_vault := Some v'\<rparr>))" by (simp add: closed_app_def sample_app_def sample_disk_def healthy_def)
  obtain s1 where s1: "save_vault ?P nonce24 (?s\<lparr>as_vault := Some v'\<rparr>) = (s1, Inr ())"
    using healthy_save [OF h _ g] path(2) sample_path(2) by auto
  have reg: "as_registry s1 = one_vault"
    using s1 by (auto simp: save_vault_def persist_def lift_disk_def closed_app_def split: prod.splits)
  then have "change_master_password file_desk salt32 nonce24 nonce24 5 ''pw'' ''new'' ?s = (s1, Inr ())"
    using opened v' s1
    by (simp add: change_master_password_def editing_def with_vault_mut_def rekey_def file_desk_def refresh_remembered_def one_vault_def)
  with password_change_needs_current [OF this] v(2) show ?thesis by fastforce
qed

end
