(* ===== verification/Icons.thy ===== *)
theory Icons
  imports Sync_Api
begin

text \<open>
  The favicon proxy of the sync server (\<open>crates/yara-sync/src/icons.rs\<close>): which domains it takes,
  what it fetches, and the cache on disk with its two ceilings. The cache directory is the list of its
  files in the order it is read; times are nanoseconds. What the disk refuses and what the sites
  answer are parameters.
\<close>

section \<open>Domains\<close>

definition trim_end_dots :: "string \<Rightarrow> string" where
  "trim_end_dots s = rev (dropWhile (\<lambda>c. c = CHR ''.'') (rev s))"

definition host_char :: "char \<Rightarrow> bool" where
  "host_char c \<longleftrightarrow> is_ascii_alphanumeric c \<or> c = CHR ''-''"

definition host_label :: "string \<Rightarrow> bool" where
  "host_label l \<longleftrightarrow> l \<noteq> [] \<and> length l \<le> 63 \<and> \<not> starts_with l ''-'' \<and> \<not> ends_with l ''-'' \<and> list_all host_char l"

definition normalise :: "string \<Rightarrow> string option" where
  "normalise input =
     (let domain = to_ascii_lowercase (trim_end_dots (trim input))
      in if domain = [] \<or> 253 < length domain then None
         else if CHR ''.'' \<notin> set domain then None
         else if list_all host_label (split_char (CHR ''.'') domain) then Some domain else None)"

section \<open>Images\<close>

definition MAGIC :: "bytes list" where
  "MAGIC = [[CHR 0x00, CHR 0x00, CHR 0x01, CHR 0x00],
     [CHR 0x89, CHR ''P'', CHR ''N'', CHR ''G'', CHR 0x0D, CHR 0x0A, CHR 0x1A, CHR 0x0A],
     ''GIF8'', [CHR 0xFF, CHR 0xD8, CHR 0xFF], ''BM'']"

definition looks_like_an_image :: "bytes \<Rightarrow> bool" where
  "looks_like_an_image bs \<longleftrightarrow> list_ex (starts_with bs) MAGIC \<or>
     12 < length bs \<and> starts_with bs ''RIFF'' \<and> take 4 (drop 8 bs) = ''WEBP''"

definition MAX_BYTES :: nat where "MAX_BYTES = 256 * 1024"

text \<open>What a site answers: whether with success, the length it announces, and the body if it arrives.\<close>

record site_answer =
  ha_success :: bool
  ha_length :: "nat option"
  ha_body :: "bytes option"

definition icon_urls :: "string \<Rightarrow> string list" where
  "icon_urls domain = [''https://'' @ domain @ ''/favicon.ico'', ''https://www.'' @ domain @ ''/favicon.ico'']"

definition icon_of :: "site_answer \<Rightarrow> bytes option" where
  "icon_of a =
     (if \<not> ha_success a then None
      else if (case ha_length a of Some n \<Rightarrow> MAX_BYTES < n | None \<Rightarrow> False) then None
      else case ha_body a of
        None \<Rightarrow> None
      | Some bs \<Rightarrow> if bs = [] \<or> MAX_BYTES < length bs then None
                   else if \<not> looks_like_an_image bs then None else Some bs)"

fun first_icon :: "(string \<Rightarrow> site_answer option) \<Rightarrow> string list \<Rightarrow> bytes option" where
  "first_icon get [] = None"
| "first_icon get (u # us) =
     (case Option.bind (get u) icon_of of Some bs \<Rightarrow> Some bs | None \<Rightarrow> first_icon get us)"

definition fetch :: "(string \<Rightarrow> site_answer option) \<Rightarrow> string \<Rightarrow> bytes option" where
  "fetch get domain = first_icon get (icon_urls domain)"

section \<open>The cache\<close>

definition SECOND :: int where "SECOND = 10 ^ 9"
definition MAX_AGE :: int where "MAX_AGE = 30 * 24 * 60 * 60 * SECOND"
definition MISS_AGE :: int where "MISS_AGE = 60 * 60 * SECOND"
definition MAX_CACHE_BYTES :: nat where "MAX_CACHE_BYTES = 64 * 1024 * 1024"
definition MAX_CACHE_ENTRIES :: nat where "MAX_CACHE_ENTRIES = 4096"
definition ICON_EXT :: string where "ICON_EXT = ''ico''"
definition MISS_EXT :: string where "MISS_EXT = ''none''"

record cached_file =
  cf_bytes :: bytes
  cf_modified :: "int option"
  cf_is_file :: bool

type_synonym icon_dir = "(string \<times> cached_file) list"

text \<open>A write succeeds, stops part of the way, or is refused. What the rest of the disk refuses is by name.\<close>

datatype write_end = WriteDone | WriteTorn nat | WriteRefused

record icon_disk =
  ic_listable :: bool
  ic_statable :: "string \<Rightarrow> bool"
  ic_readable :: "string \<Rightarrow> bool"
  ic_removable :: "string \<Rightarrow> bool"
  ic_write :: write_end

definition entry_name :: "string \<Rightarrow> string \<Rightarrow> string" where
  "entry_name domain extension = domain @ ''.'' @ extension"

definition name_extension :: "string \<Rightarrow> string option" where
  "name_extension f =
     (if f = ''..'' then None
      else case rsplit_once (CHR ''.'') f of
        Some (stem, ext) \<Rightarrow> if stem = [] then None else Some ext
      | None \<Rightarrow> None)"

definition read_fresh :: "icon_disk \<Rightarrow> string \<Rightarrow> int \<Rightarrow> int \<Rightarrow> icon_dir \<Rightarrow> bytes option" where
  "read_fresh D name max_age now dir =
     (case map_of dir name of
        None \<Rightarrow> None
      | Some f \<Rightarrow>
          if \<not> ic_statable D name then None
          else case cf_modified f of
            None \<Rightarrow> None
          | Some m \<Rightarrow>
              if now < m then None
              else if max_age < now - m then None
              else if ic_readable D name \<and> cf_is_file f then Some (cf_bytes f) else None)"

definition our_file :: "icon_disk \<Rightarrow> string \<times> cached_file \<Rightarrow> bool" where
  "our_file D p \<longleftrightarrow> name_extension (fst p) \<in> {Some ICON_EXT, Some MISS_EXT} \<and> ic_statable D (fst p) \<and> cf_is_file (snd p)"

definition ours :: "icon_disk \<Rightarrow> icon_dir \<Rightarrow> icon_dir" where
  "ours D dir = filter (our_file D) dir"

definition modified_or_epoch :: "string \<times> cached_file \<Rightarrow> int" where
  "modified_or_epoch p = (case cf_modified (snd p) of Some m \<Rightarrow> m | None \<Rightarrow> 0)"

definition file_size :: "string \<times> cached_file \<Rightarrow> nat" where
  "file_size p = length (cf_bytes (snd p))"

fun evict_loop :: "icon_disk \<Rightarrow> nat \<Rightarrow> nat \<Rightarrow> icon_dir \<Rightarrow> nat \<Rightarrow> nat \<Rightarrow> icon_dir \<Rightarrow> icon_dir" where
  "evict_loop D max_bytes max_entries [] size_left count_left dir = dir"
| "evict_loop D max_bytes max_entries (p # ps) size_left count_left dir =
     (if size_left \<le> max_bytes \<and> count_left \<le> max_entries then dir
      else if ic_removable D (fst p)
        then evict_loop D max_bytes max_entries ps (size_left - file_size p) (count_left - 1) (filter (\<lambda>q. fst q \<noteq> fst p) dir)
        else evict_loop D max_bytes max_entries ps size_left count_left dir)"

definition evict :: "icon_disk \<Rightarrow> nat \<Rightarrow> nat \<Rightarrow> icon_dir \<Rightarrow> icon_dir" where
  "evict D max_bytes max_entries dir =
     (if \<not> ic_listable D then dir
      else let mine = ours D dir; size_left = sum_list (map file_size mine); count_left = length mine
           in if size_left \<le> max_bytes \<and> count_left \<le> max_entries then dir
              else evict_loop D max_bytes max_entries (sort_key modified_or_epoch mine) size_left count_left dir)"

definition put_file :: "int \<Rightarrow> string \<Rightarrow> bytes \<Rightarrow> icon_dir \<Rightarrow> icon_dir" where
  "put_file now name bs dir = AList.update name \<lparr>cf_bytes = bs, cf_modified = Some now, cf_is_file = True\<rparr> dir"

definition write_entry :: "icon_disk \<Rightarrow> int \<Rightarrow> string \<Rightarrow> bytes \<Rightarrow> icon_dir \<Rightarrow> icon_dir" where
  "write_entry D now name bs dir =
     (if (case map_of dir name of Some f \<Rightarrow> \<not> cf_is_file f | None \<Rightarrow> False) then dir
      else case ic_write D of
        WriteDone \<Rightarrow> evict D MAX_CACHE_BYTES MAX_CACHE_ENTRIES (put_file now name bs dir)
      | WriteTorn n \<Rightarrow> put_file now name (take n bs) dir
      | WriteRefused \<Rightarrow> dir)"

section \<open>One request\<close>

definition no_icon :: api_error where
  "no_icon = ApiError 404 ''no icon for that domain''"

text \<open>The answer: the bytes, and whether they came from the cache.\<close>

type_synonym icon_answer = "(bytes \<times> bool) answer"

datatype icon_lookup = Settled icon_answer | Fetch string

definition favicon_lookup ::
    "web \<Rightarrow> icon_disk \<Rightarrow> headers \<Rightarrow> string \<Rightarrow> i64 \<Rightarrow> int \<Rightarrow> icon_dir \<Rightarrow> app \<Rightarrow> app \<times> icon_lookup" where
  "favicon_lookup W D hs input now time dir s =
     (case rate_limit W hs now s of
        (s', Inl e) \<Rightarrow> (s', Settled (Inl e))
      | (s', Inr _) \<Rightarrow>
          (s', case normalise input of
             None \<Rightarrow> Settled (Inl (ApiError 400 ''not a domain''))
           | Some domain \<Rightarrow>
               (case read_fresh D (entry_name domain ICON_EXT) MAX_AGE time dir of
                  Some bs \<Rightarrow> Settled (Inr (bs, True))
                | None \<Rightarrow>
                    if read_fresh D (entry_name domain MISS_EXT) MISS_AGE time dir \<noteq> None
                    then Settled (Inl no_icon) else Fetch domain)))"

definition favicon_store ::
    "icon_disk \<Rightarrow> int \<Rightarrow> string \<Rightarrow> bytes option \<Rightarrow> icon_dir \<Rightarrow> icon_dir \<times> icon_answer" where
  "favicon_store D time domain found dir =
     (case found of
        None \<Rightarrow> (write_entry D time (entry_name domain MISS_EXT) [] dir, Inl no_icon)
      | Some bs \<Rightarrow> (write_entry D time (entry_name domain ICON_EXT) bs dir, Inr (bs, False)))"

text \<open>\<open>meanwhile\<close> is what other requests do to the cache during the fetch, \<open>time'\<close> the time of the write.\<close>

definition favicon ::
    "web \<Rightarrow> icon_disk \<Rightarrow> icon_disk \<Rightarrow> headers \<Rightarrow> string \<Rightarrow> i64 \<Rightarrow> int \<Rightarrow> int \<Rightarrow> (string \<Rightarrow> site_answer option) \<Rightarrow>
       (icon_dir \<Rightarrow> icon_dir) \<Rightarrow> icon_dir \<Rightarrow> app \<Rightarrow> app \<times> icon_dir \<times> icon_answer" where
  "favicon W D D' hs input now time time' get meanwhile dir s =
     (case favicon_lookup W D hs input now time dir s of
        (s', Settled a) \<Rightarrow> (s', dir, a)
      | (s', Fetch domain) \<Rightarrow> (s', favicon_store D' time' domain (fetch get domain) (meanwhile dir)))"

text \<open>The application checks the domain again before it becomes the name of a file there (\<open>lib.rs\<close>).\<close>

definition sanitise_domain :: "string \<Rightarrow> string option" where
  "sanitise_domain input =
     (let domain = to_ascii_lowercase (trim_end_dots (trim input))
      in if domain = [] \<or> 253 < length domain \<or> CHR ''.'' \<notin> set domain then None
         else if list_all host_label (split_char (CHR ''.'') domain) then Some domain else None)"

section \<open>Names\<close>

definition domain_char :: "char \<Rightarrow> bool" where
  "domain_char c \<longleftrightarrow> is_ascii_lowercase c \<or> is_ascii_digit c \<or> c = CHR ''-'' \<or> c = CHR ''.''"

lemma host_char_lower: "host_char c \<Longrightarrow> ascii_lower c = c \<Longrightarrow> domain_char c"
  using code_ascii_lower [of c]
  by (auto simp: host_char_def domain_char_def is_ascii_alphanumeric_def is_ascii_uppercase_def split: if_splits)

lemma domain_char_plain:
  assumes "domain_char c"
  shows "is_ascii c" "\<not> is_whitespace [c]" "c \<noteq> CHR ''/''" "c \<noteq> CHR 0x5C" "ascii_lower c = c"
proof -
  have "code c \<noteq> 32 \<and> code c \<noteq> 127 \<and> code c < 128 \<and> 32 < code c \<and> code c \<noteq> 47 \<and> code c \<noteq> 92 \<and> \<not> (65 \<le> code c \<and> code c \<le> 90)"
    using assms by (auto simp: domain_char_def is_ascii_lowercase_def is_ascii_digit_def)
  then show "is_ascii c" "\<not> is_whitespace [c]" "c \<noteq> CHR ''/''" "c \<noteq> CHR 0x5C" "ascii_lower c = c"
    by (auto simp: is_ascii_def is_whitespace_ascii ascii_lower_def is_ascii_uppercase_def)
qed

lemma trim_domain: "list_all domain_char d \<Longrightarrow> trim d = d"
  by (rule trim_no_whitespace) (auto simp: chars_ascii list_all_iff domain_char_plain)

lemma normalise_domain:
  assumes "normalise input = Some d"
  shows "list_all domain_char d" "CHR ''.'' \<in> set d" "length d \<le> 253" "hd d \<noteq> CHR ''.''" "last d \<noteq> CHR ''.''" "normalise d = Some d"
proof -
  from assms have d: "to_ascii_lowercase d = d" "d \<noteq> []" "length d \<le> 253" "CHR ''.'' \<in> set d"
    and labels: "list_all host_label (split_char (CHR ''.'') d)"
    by (auto simp: normalise_def Let_def split: if_splits)
  show chars: "list_all domain_char d"
    unfolding list_all_iff
  proof
    fix c assume c: "c \<in> set d"
    then have low: "ascii_lower c = c" using d(1) by (metis map_eq_conv map_ident to_ascii_lowercase_def)
    show "domain_char c"
    proof (cases "c = CHR ''.''")
      case False
      with c obtain l where "l \<in> set (split_char (CHR ''.'') d)" "c \<in> set l" using split_char_elem by blast
      with labels have "host_char c" by (auto simp: list_all_iff host_label_def)
      then show ?thesis using low by (rule host_char_lower)
    qed (simp add: domain_char_def)
  qed
  have "[] \<notin> set (split_char (CHR ''.'') d)" using labels by (auto simp: list_all_iff host_label_def)
  note none = this
  have "hd d \<noteq> CHR ''.''" using d(2) none by (cases d) auto
  moreover have "last d \<noteq> CHR ''.''" using d(2) none by (cases d rule: rev_cases) (auto simp: split_char_snoc)
  ultimately have ends: "hd d \<noteq> CHR ''.''" "last d \<noteq> CHR ''.''" by auto
  have "trim_end_dots d = d"
    using ends(2) d(2) by (cases d rule: rev_cases) (simp_all add: trim_end_dots_def)
  with d labels trim_domain [OF chars] show "normalise d = Some d" by (simp add: normalise_def)
  show "CHR ''.'' \<in> set d" "length d \<le> 253" "hd d \<noteq> CHR ''.''" "last d \<noteq> CHR ''.''" using d ends by auto
qed

lemma sanitise_normalise: "sanitise_domain = normalise"
  by (rule ext) (simp add: sanitise_domain_def normalise_def Let_def)

lemma entry_extension:
  assumes "d \<noteq> []" and "CHR ''.'' \<notin> set ext" and "entry_name d ext \<noteq> ''..''"
  shows "name_extension (entry_name d ext) = Some ext"
proof -
  have "rsplit_once (CHR ''.'') (d @ CHR ''.'' # ext) = Some (d, ext)" using assms(2) by (rule rsplit_once_last)
  with assms show ?thesis by (simp add: name_extension_def entry_name_def)
qed

lemma sanitised_extensions:
  assumes "d \<noteq> []"
  shows "name_extension (entry_name d ICON_EXT) = Some ICON_EXT" "name_extension (entry_name d MISS_EXT) = Some MISS_EXT"
  using assms by (auto intro!: entry_extension simp: ICON_EXT_def MISS_EXT_def) (auto simp: entry_name_def append_eq_Cons_conv)

text \<open>
  A domain that either side accepts is a plain host name: lower-case letters, digits, hyphens and
  inner dots, so that the file named after it lies in the cache directory and is one the sweep knows
  as its own; and what the application asks the server for, the server accepts as it is.
\<close>

theorem domain_is_file_name:
  assumes "sanitise_domain input = Some d"
  shows "normalise d = Some d \<and> list_all domain_char d \<and> CHR ''/'' \<notin> set d \<and> CHR 0x5C \<notin> set d \<and> hd d \<noteq> CHR ''.'' \<and>
    length d \<le> 253 \<and> name_extension (entry_name d ICON_EXT) = Some ICON_EXT \<and>
    name_extension (entry_name d MISS_EXT) = Some MISS_EXT"
proof -
  note n = normalise_domain [OF assms [unfolded sanitise_normalise]]
  have "CHR ''/'' \<notin> set d \<and> CHR 0x5C \<notin> set d" using n(1) domain_char_plain(3,4) by (auto simp: list_all_iff)
  moreover have "d \<noteq> []" using n(2) by auto
  ultimately show ?thesis using n by (simp add: sanitised_extensions)
qed

lemma sample_domain: "sanitise_domain ''A.io.'' = Some ''a.io''"
  by code_simp

theorem domain_is_file_name_witness:
  "normalise ''a.io'' = Some ''a.io'' \<and> name_extension (entry_name ''a.io'' ICON_EXT) = Some ICON_EXT"
  using domain_is_file_name [OF sample_domain] by simp

section \<open>The ceilings\<close>

definition size_of :: "icon_dir \<Rightarrow> nat" where
  "size_of ps = sum_list (map file_size ps)"

definition within :: "nat \<Rightarrow> nat \<Rightarrow> icon_dir \<Rightarrow> bool" where
  "within max_bytes max_entries ps \<longleftrightarrow> size_of ps \<le> max_bytes \<and> length ps \<le> max_entries"

definition without :: "icon_dir \<Rightarrow> icon_dir \<Rightarrow> icon_dir" where
  "without gone dir = filter (\<lambda>q. fst q \<notin> fst ` set gone) dir"

lemma without_Nil [simp]: "without [] dir = dir"
  by (simp add: without_def)

lemma without_Cons: "without (p # ps) dir = without ps (filter (\<lambda>q. fst q \<noteq> fst p) dir)"
  by (auto simp: without_def intro!: filter_cong)

lemma evict_loop_takes:
  assumes "\<forall>p \<in> set ps. ic_removable D (fst p)"
  shows "\<exists>k. evict_loop D b n ps (size_of ps) (length ps) dir = without (take k ps) dir \<and> within b n (drop k ps)"
  using assms
proof (induction ps arbitrary: dir)
  case Nil
  then show ?case by (intro exI [of _ 0]) (simp add: within_def size_of_def)
next
  case (Cons p ps)
  show ?case
  proof (cases "size_of (p # ps) \<le> b \<and> length (p # ps) \<le> n")
    case True
    then show ?thesis by (intro exI [of _ 0]) (simp add: within_def)
  next
    case False
    from Cons obtain k where "evict_loop D b n ps (size_of ps) (length ps) (filter (\<lambda>q. fst q \<noteq> fst p) dir) =
        without (take k ps) (filter (\<lambda>q. fst q \<noteq> fst p) dir)" "within b n (drop k ps)" by fastforce
    with False Cons.prems show ?thesis
      by (intro exI [of _ "Suc k"]) (auto simp: without_Cons size_of_def)
  qed
qed

lemma sorted_take_drop:
  assumes "sorted (map f xs)" and "x \<in> set (take k xs)" and "y \<in> set (drop k xs)"
  shows "f x \<le> f y"
proof -
  have "sorted (map f (take k xs) @ map f (drop k xs))"
    using assms(1) by (simp flip: map_append)
  with assms(2,3) show ?thesis by (auto simp: sorted_append)
qed

text \<open>The sweep takes a beginning of the files it owns, oldest first, and leaves a rest within the ceilings.\<close>

lemma evict_takes:
  assumes "ic_listable D" and "\<forall>p \<in> set (ours D dir). ic_removable D (fst p)"
  obtains gone kept where "evict D b n dir = without gone dir" and "mset gone + mset kept = mset (ours D dir)"
    and "within b n kept" and "\<And>p q. p \<in> set gone \<Longrightarrow> q \<in> set kept \<Longrightarrow> modified_or_epoch p \<le> modified_or_epoch q"
proof (cases "within b n (ours D dir)")
  case True
  then have "evict D b n dir = without [] dir"
    by (simp add: evict_def within_def size_of_def Let_def)
  with True show thesis by (intro that [of "[]" "ours D dir"]) simp_all
next
  case False
  let ?s = "sort_key modified_or_epoch (ours D dir)"
  have same: "size_of ?s = size_of (ours D dir)"
    unfolding size_of_def by (metis mset_map mset_sort sum_mset_sum_list)
  have "\<forall>p \<in> set ?s. ic_removable D (fst p)" using assms(2) by simp
  from evict_loop_takes [OF this, of b n dir] obtain k
    where k: "evict_loop D b n ?s (size_of ?s) (length ?s) dir = without (take k ?s) dir" "within b n (drop k ?s)" by blast
  have "evict D b n dir = without (take k ?s) dir"
    using False assms(1) k(1) same by (auto simp: evict_def within_def size_of_def Let_def)
  moreover have "mset (take k ?s) + mset (drop k ?s) = mset (ours D dir)"
    by (metis append_take_drop_id mset_append mset_sort)
  ultimately show thesis
    using k(2) sorted_take_drop [of modified_or_epoch ?s] by (intro that) auto
qed

lemma ours_without:
  assumes "distinct (map fst dir)" and "mset gone + mset kept = mset (ours D dir)"
  shows "mset (ours D (without gone dir)) = mset kept"
proof -
  have "mset (map fst (gone @ kept)) = mset (map fst (ours D dir))" using assms(2) by (metis mset_append mset_map)
  moreover have "distinct (map fst (ours D dir))" using assms(1) by (simp add: ours_def distinct_map_filter)
  ultimately have "distinct (map fst (gone @ kept))" by (metis mset_eq_imp_distinct_iff)
  then have "\<forall>q \<in> set kept. fst q \<notin> fst ` set gone" by auto
  then have "filter (\<lambda>q. fst q \<notin> fst ` set gone) (gone @ kept) = kept"
    by (simp add: filter_id_conv)
  then have "mset kept = filter_mset (\<lambda>q. fst q \<notin> fst ` set gone) (mset (ours D dir))"
    by (metis assms(2) mset_append mset_filter)
  moreover have "ours D (without gone dir) = filter (\<lambda>q. fst q \<notin> fst ` set gone) (ours D dir)"
    by (simp add: ours_def without_def conj_commute)
  ultimately show ?thesis by simp
qed

lemma within_mset: "mset ps = mset qs \<Longrightarrow> within b n ps \<longleftrightarrow> within b n qs"
  unfolding within_def size_of_def by (metis mset_map size_mset sum_mset_sum_list)

lemma evict_distinct: "distinct (map fst dir) \<Longrightarrow> evict D b n dir = without gone dir \<Longrightarrow> distinct (map fst (evict D b n dir))"
  by (simp add: without_def distinct_map_filter)

text \<open>
  C35: as long as its files can be deleted, a sweep leaves the cache within both ceilings, deletes no
  file that is not an entry of the cache, whatever else lies in the directory, and deletes an entry
  only if it is at least as old as every entry it keeps.
\<close>

theorem sweep_respects_ceilings:
  assumes "ic_listable D" and "\<forall>p \<in> set (ours D dir). ic_removable D (fst p)" and "distinct (map fst dir)"
  shows "within max_bytes max_entries (ours D (evict D max_bytes max_entries dir)) \<and>
    (\<forall>p \<in> set dir. \<not> our_file D p \<longrightarrow> p \<in> set (evict D max_bytes max_entries dir)) \<and>
    (\<forall>p \<in> set dir. \<forall>q \<in> set (ours D (evict D max_bytes max_entries dir)).
       p \<notin> set (evict D max_bytes max_entries dir) \<longrightarrow> modified_or_epoch p \<le> modified_or_epoch q)"
proof -
  obtain gone kept where e: "evict D max_bytes max_entries dir = without gone dir"
    and m: "mset gone + mset kept = mset (ours D dir)" and w: "within max_bytes max_entries kept"
    and old: "\<And>p q. p \<in> set gone \<Longrightarrow> q \<in> set kept \<Longrightarrow> modified_or_epoch p \<le> modified_or_epoch q"
    using evict_takes [OF assms(1,2)] by metis
  have kept: "mset (ours D (without gone dir)) = mset kept" using ours_without [OF assms(3) m] .
  have gone: "set gone \<subseteq> set (ours D dir)" using m by (metis mset_append set_append set_mset_mset sup_ge1)
  have same: "p = q" if "p \<in> set dir" "q \<in> set gone" "fst p = fst q" for p q
  proof -
    have "q \<in> set dir" using that(2) gone by (auto simp: ours_def)
    with that assms(3) show ?thesis by (metis distinct_map inj_onD)
  qed
  have "p \<in> set (without gone dir)" if "p \<in> set dir" "\<not> our_file D p" for p
  proof -
    have "p \<notin> set gone" using that(2) gone by (auto simp: ours_def)
    then have "fst p \<notin> fst ` set gone" using same [OF that(1)] by (metis imageE)
    with that(1) show ?thesis by (simp add: without_def)
  qed
  moreover have "modified_or_epoch p \<le> modified_or_epoch q"
    if "p \<in> set dir" "q \<in> set (ours D (without gone dir))" "p \<notin> set (without gone dir)" for p q
  proof -
    have "fst p \<in> fst ` set gone" using that(1,3) by (simp add: without_def)
    then have "p \<in> set gone" using same [OF that(1)] by (metis imageE)
    moreover have "q \<in> set kept" using that(2) kept by (metis set_mset_mset)
    ultimately show ?thesis by (rule old)
  qed
  ultimately show ?thesis using e w within_mset [OF kept] by simp
qed

definition sound_disk :: icon_disk where
  "sound_disk = \<lparr>ic_listable = True, ic_statable = (\<lambda>_. True), ic_readable = (\<lambda>_. True), ic_removable = (\<lambda>_. True),
     ic_write = WriteDone\<rparr>"

definition sample_dir :: icon_dir where
  "sample_dir = [(''sync.db'', \<lparr>cf_bytes = ''data'', cf_modified = Some 0, cf_is_file = True\<rparr>),
     (''a.io.ico'', \<lparr>cf_bytes = ''BM'', cf_modified = Some 9, cf_is_file = True\<rparr>),
     (''b.io.ico'', \<lparr>cf_bytes = ''BM'', cf_modified = Some 5, cf_is_file = True\<rparr>)]"

theorem sweep_respects_ceilings_witness:
  "within 3 9 (ours sound_disk (evict sound_disk 3 9 sample_dir)) \<and> (''sync.db'', \<lparr>cf_bytes = ''data'', cf_modified = Some 0,
     cf_is_file = True\<rparr>) \<in> set (evict sound_disk 3 9 sample_dir)"
proof -
  let ?db = "(''sync.db'', \<lparr>cf_bytes = ''data'', cf_modified = Some (0 :: int), cf_is_file = True\<rparr>)"
  have "name_extension ''sync.db'' = Some ''db''" by code_simp
  then have "\<not> our_file sound_disk ?db" by (simp add: our_file_def ICON_EXT_def MISS_EXT_def)
  moreover have "?db \<in> set sample_dir" by (simp add: sample_dir_def)
  ultimately show ?thesis
    using sweep_respects_ceilings [of sound_disk sample_dir 3 9] by (simp add: sound_disk_def sample_dir_def)
qed

section \<open>What the cache can hold\<close>

definition icon_bytes :: "bytes \<Rightarrow> bool" where
  "icon_bytes bs \<longleftrightarrow> looks_like_an_image bs \<and> length bs \<le> MAX_BYTES"

text \<open>An entry: nothing for a miss; for an icon an image, or the part of one that a failed write left.\<close>

definition cache_entry :: "string \<times> cached_file \<Rightarrow> bool" where
  "cache_entry p \<longleftrightarrow> (\<exists>d. normalise d = Some d \<and>
     (fst p = entry_name d MISS_EXT \<and> cf_bytes (snd p) = [] \<or>
      fst p = entry_name d ICON_EXT \<and> (\<exists>image n. icon_bytes image \<and> cf_bytes (snd p) = take n image)))"

lemma icon_of_image: "icon_of a = Some bs \<Longrightarrow> icon_bytes bs"
  by (auto simp: icon_of_def icon_bytes_def split: option.splits if_splits)

lemma first_icon_image: "first_icon get us = Some bs \<Longrightarrow> icon_bytes bs"
proof (induction us)
  case (Cons u us)
  then show ?case
    by (cases "Option.bind (get u) icon_of") (auto simp: Option.bind_eq_Some_conv dest: icon_of_image)
qed simp

inductive cache_reachable :: "icon_dir \<Rightarrow> icon_dir \<Rightarrow> bool" for base :: icon_dir where
  cr_start: "cache_reachable base base"
| cr_store: "cache_reachable base dir \<Longrightarrow> normalise d = Some d \<Longrightarrow>
    cache_reachable base (fst (favicon_store D time d (fetch get d) dir))"

lemma evict_loop_keeps:
  "set (evict_loop D b n ps t c dir) \<subseteq> set dir \<and>
    (\<forall>q \<in> set dir. fst q \<notin> fst ` set ps \<longrightarrow> q \<in> set (evict_loop D b n ps t c dir))"
  by (induction D b n ps t c dir rule: evict_loop.induct) auto

lemma evict_keeps:
  "set (evict D b n dir) \<subseteq> set dir \<and>
    (\<forall>q \<in> set dir. name_extension (fst q) \<notin> {Some ICON_EXT, Some MISS_EXT} \<longrightarrow> q \<in> set (evict D b n dir))"
proof -
  have "fst q \<notin> fst ` set (ours D dir)" if "name_extension (fst q) \<notin> {Some ICON_EXT, Some MISS_EXT}" for q
    using that by (auto simp: ours_def our_file_def)
  then show ?thesis
    using evict_loop_keeps [where D = D and b = b and n = n and dir = dir and ps = "sort_key modified_or_epoch (ours D dir)"]
    by (auto simp: evict_def Let_def)
qed

lemma put_file_set:
  "p \<in> set (put_file now name bs dir) \<Longrightarrow> p \<in> set dir \<or> fst p = name \<and> cf_bytes (snd p) = bs"
  "q \<in> set dir \<Longrightarrow> fst q \<noteq> name \<Longrightarrow> q \<in> set (put_file now name bs dir)"
  unfolding put_file_def by (induction dir) (auto split: if_splits)

lemma write_entry_set:
  assumes "p \<in> set (write_entry D now name bs dir)"
  shows "p \<in> set dir \<or> fst p = name \<and> (\<exists>n. cf_bytes (snd p) = take n bs)"
proof (cases "p \<in> set dir")
  case False
  then have "p \<in> set (put_file now name bs dir) \<or> (\<exists>n. p \<in> set (put_file now name (take n bs) dir))"
    using assms evict_keeps by (fastforce simp: write_entry_def split: if_splits write_end.splits)
  with False show ?thesis by (metis put_file_set(1) take_all order_refl)
qed simp

lemma write_entry_keeps:
  assumes "q \<in> set dir" and "name_extension (fst q) \<notin> {Some ICON_EXT, Some MISS_EXT}"
    and "name_extension name \<in> {Some ICON_EXT, Some MISS_EXT}"
  shows "q \<in> set (write_entry D now name bs dir)"
proof -
  have "q \<in> set (put_file now name bs' dir)" for bs' using assms by (intro put_file_set(2)) auto
  with assms evict_keeps show ?thesis by (auto simp: write_entry_def split: option.split write_end.split)
qed

lemma entry_name_ours:
  "normalise d = Some d \<Longrightarrow> name_extension (entry_name d ICON_EXT) = Some ICON_EXT \<and> name_extension (entry_name d MISS_EXT) = Some MISS_EXT"
  using sanitised_extensions [of d] normalise_domain(2) [of d d] by (cases "d = []") auto

lemma store_entry:
  assumes "normalise d = Some d" and "p \<in> set (fst (favicon_store D time d (fetch get d) dir))"
  shows "p \<in> set dir \<or> cache_entry p"
proof (cases "fetch get d")
  case None
  then have "p \<in> set (write_entry D time (entry_name d MISS_EXT) [] dir)"
    using assms(2) by (simp add: favicon_store_def)
  from write_entry_set [OF this] show ?thesis using assms(1) by (auto simp: cache_entry_def)
next
  case (Some bs)
  then have "icon_bytes bs" by (auto simp: fetch_def dest: first_icon_image)
  have "p \<in> set (write_entry D time (entry_name d ICON_EXT) bs dir)"
    using Some assms(2) by (simp add: favicon_store_def)
  from write_entry_set [OF this] show ?thesis using assms(1) \<open>icon_bytes bs\<close> by (auto simp: cache_entry_def)
qed

lemma store_keeps:
  "normalise d = Some d \<Longrightarrow> q \<in> set dir \<Longrightarrow> name_extension (fst q) \<notin> {Some ICON_EXT, Some MISS_EXT} \<Longrightarrow>
    q \<in> set (fst (favicon_store D time d found dir))"
  using entry_name_ours [of d] by (auto simp: favicon_store_def intro!: write_entry_keeps split: option.split)

lemma cache_reachable_entries: "cache_reachable base dir \<Longrightarrow> p \<in> set dir \<Longrightarrow> p \<in> set base \<or> cache_entry p"
  by (induction rule: cache_reachable.induct) (auto dest: store_entry)

lemma cache_reachable_keeps:
  "cache_reachable base dir \<Longrightarrow> q \<in> set base \<Longrightarrow> name_extension (fst q) \<notin> {Some ICON_EXT, Some MISS_EXT} \<Longrightarrow> q \<in> set dir"
  by (induction rule: cache_reachable.induct) (auto dest: store_keeps)

text \<open>
  However requests arrive and whatever the sites answer, the proxy adds to its directory only
  entries of the cache, an empty one for a miss and an image within the limit for an icon, or as much
  of one as a failed write left; the files that were there, the database among them, stay; and what a
  request is answered with is such an image, whole when it was just fetched.
\<close>

theorem icons_are_images:
  assumes "cache_reachable base dir" and "\<forall>p \<in> set base. name_extension (fst p) \<notin> {Some ICON_EXT, Some MISS_EXT}"
    and "favicon W D D' hs input now time time' get meanwhile dir s = (s', dir', a)"
  shows "set base \<subseteq> set dir \<and> (\<forall>p \<in> set dir. p \<in> set base \<or> cache_entry p) \<and>
    (\<forall>bs hit. a = Inr (bs, hit) \<longrightarrow> (\<exists>image n. icon_bytes image \<and> bs = take n image \<and> (\<not> hit \<longrightarrow> bs = image)))"
proof (intro conjI allI impI)
  show "set base \<subseteq> set dir" using assms(1,2) cache_reachable_keeps by blast
  show entries: "\<forall>p \<in> set dir. p \<in> set base \<or> cache_entry p" using assms(1) cache_reachable_entries by blast
  fix bs hit assume a: "a = Inr (bs, hit)"
  obtain s1 l where l: "favicon_lookup W D hs input now time dir s = (s1, l)" by fastforce
  show "\<exists>image n. icon_bytes image \<and> bs = take n image \<and> (\<not> hit \<longrightarrow> bs = image)"
  proof (cases l)
    case (Settled x)
    with a l assms(3) obtain d where d: "normalise input = Some d" "hit"
      and r: "read_fresh D (entry_name d ICON_EXT) MAX_AGE time dir = Some bs"
      by (auto simp: favicon_def favicon_lookup_def no_icon_def split: sum.splits prod.splits option.splits if_splits)
    then obtain f where f: "(entry_name d ICON_EXT, f) \<in> set dir" "cf_bytes f = bs"
      by (auto simp: read_fresh_def split: option.splits if_splits dest: map_of_SomeD)
    have ext: "name_extension (entry_name d ICON_EXT) = Some ICON_EXT"
      using entry_name_ours normalise_domain(6) [OF d(1)] by simp
    with f assms(2) entries have "cache_entry (entry_name d ICON_EXT, f)" by fastforce
    then obtain d' where "normalise d' = Some d'" "entry_name d ICON_EXT = entry_name d' MISS_EXT \<or>
        (\<exists>image n. icon_bytes image \<and> bs = take n image)" using f(2) by (auto simp: cache_entry_def)
    moreover have "entry_name d ICON_EXT \<noteq> entry_name d' MISS_EXT"
      using ext entry_name_ours [OF \<open>normalise d' = Some d'\<close>] by (auto simp: ICON_EXT_def MISS_EXT_def)
    ultimately show ?thesis using d(2) by blast
  next
    case (Fetch d)
    with a l assms(3) have "fetch get d = Some bs" "\<not> hit"
      by (auto simp: favicon_def favicon_store_def split: option.splits)
    then show ?thesis by (intro exI [of _ bs] exI [of _ "length bs"]) (auto simp: fetch_def dest: first_icon_image)
  qed
qed

definition database_file :: "string \<times> cached_file" where
  "database_file = (''sync.db'', \<lparr>cf_bytes = ''data'', cf_modified = Some 0, cf_is_file = True\<rparr>)"

definition sample_site :: "string \<Rightarrow> site_answer option" where
  "sample_site u = Some \<lparr>ha_success = True, ha_length = None, ha_body = Some ''BMP''\<rparr>"

theorem icons_are_images_witness:
  "\<exists>dir. cache_reachable [database_file] dir \<and> database_file \<in> set dir \<and> (\<forall>p \<in> set dir. p = database_file \<or> cache_entry p)"
proof -
  let ?dir = "fst (favicon_store sound_disk 5 ''a.io'' (fetch sample_site ''a.io'') [database_file])"
  have "normalise ''a.io'' = Some ''a.io''" using sample_domain sanitise_normalise normalise_domain(6) by metis
  then have r: "cache_reachable [database_file] ?dir" by (intro cr_store cr_start)
  have "name_extension ''sync.db'' = Some ''db''" by code_simp
  then have "\<forall>p \<in> set [database_file]. name_extension (fst p) \<notin> {Some ICON_EXT, Some MISS_EXT}"
    by (simp add: database_file_def ICON_EXT_def MISS_EXT_def)
  note base = this
  obtain s' d' a where "favicon (undefined :: web) sound_disk sound_disk (\<lambda>_. None) [] 0 0 0 sample_site id ?dir (undefined :: app) = (s', d', a)"
    by (cases "favicon (undefined :: web) sound_disk sound_disk (\<lambda>_. None) [] 0 0 0 sample_site id ?dir (undefined :: app)") auto
  from icons_are_images [OF r base this] r show ?thesis by auto
qed

text \<open>
  The error of a write is dropped: an icon cut off by a full disk stays, and is served as the icon
  for thirty days.
\<close>

theorem torn_icon_is_served:
  "let D = sound_disk\<lparr>ic_write := WriteTorn 0\<rparr>;
       dir = fst (favicon_store D 0 ''a.io'' (Some ''BMP'') [])
   in read_fresh sound_disk (entry_name ''a.io'' ICON_EXT) MAX_AGE MAX_AGE dir = Some []"
  by (simp add: favicon_store_def write_entry_def put_file_def read_fresh_def sound_disk_def Let_def MAX_AGE_def SECOND_def)

end
