(* ===== verification/Desktop_Icons.thy ===== *)
theory Desktop_Icons
  imports Icons Sync_Client Desktop_Items
begin

text \<open>
  Icons in the desktop application (\<open>icon_for\<close> and \<open>set_icons_enabled\<close> in
  \<open>apps/desktop/src-tauri/src/lib.rs\<close>): what is asked of which server, and the cache on disk. A call
  waits for the server in the middle, so it is two steps, with other commands between them. The cache
  maps the names of its files to what they hold.
\<close>

type_synonym icon_cache = "string \<rightharpoonup> bytes"

definition DEFAULT_ICON_ORIGIN :: string where
  "DEFAULT_ICON_ORIGIN = ''https://yara.lat''"

definition as_data_url :: "prims \<Rightarrow> bytes \<Rightarrow> string option" where
  "as_data_url P bs = (if bs = [] then None else Some (''data:image/x-icon;base64,'' @ p_b64_encode P bs))"

definition icon_file :: "string \<Rightarrow> string" where
  "icon_file domain = domain @ ''.ico''"

definition icon_origin :: "app_state \<Rightarrow> string" where
  "icon_origin s =
     (case reading (\<lambda>d. Inr (case vd_sync d of Some y \<Rightarrow> ss_base_url y | None \<Rightarrow> DEFAULT_ICON_ORIGIN)) s of
        Inr origin \<Rightarrow> origin
      | Inl _ \<Rightarrow> DEFAULT_ICON_ORIGIN)"

datatype icon_call = Reply "string option" | Request string string

text \<open>Up to the request; \<open>Request\<close> carries the address and the file the answer goes to.\<close>

definition icon_begin :: "prims \<Rightarrow> icon_cache \<Rightarrow> string \<Rightarrow> app_state \<Rightarrow> icon_call app_result" where
  "icon_begin P cache domain s =
     and_then (reading (\<lambda>d. Inr (icons_enabled d)) s) (\<lambda>on.
       if \<not> on then Inr (Reply None)
       else case sanitise_domain domain of
         None \<Rightarrow> Inr (Reply None)
       | Some host \<Rightarrow>
           (case cache (icon_file host) of
              Some bs \<Rightarrow> Inr (Reply (as_data_url P bs))
            | None \<Rightarrow> Inr (Request (trim_end_slash (icon_origin s) @ ''/api/v1/icons/'' @ host) (icon_file host))))"

text \<open>
  What the request came back with: nothing, or a status and the body if it could be read; and how much
  of the file the disk takes, if it can be made at all.
\<close>

definition icon_end :: "prims \<Rightarrow> (bool \<times> bytes option) option \<Rightarrow> nat option \<Rightarrow> string \<Rightarrow> icon_cache \<Rightarrow> icon_cache \<times> string option" where
  "icon_end P response room f cache =
     (case response of
        None \<Rightarrow> (cache, None)
      | Some (ok, body) \<Rightarrow>
          let bs = (if ok then (case body of Some b \<Rightarrow> b | None \<Rightarrow> []) else [])
          in (case room of None \<Rightarrow> cache | Some n \<Rightarrow> cache(f \<mapsto> take n bs), as_data_url P bs))"

text \<open>\<open>left\<close> is what the removal of the directory does not get to.\<close>

definition set_icons_cmd :: "desk_env \<Rightarrow> bytes \<Rightarrow> string set \<Rightarrow> bool \<Rightarrow> icon_cache \<times> app_state \<Rightarrow> (icon_cache \<times> app_state) \<times> unit app_result" where
  "set_icons_cmd E nonce left enabled st =
     (case with_vault_mut (\<lambda>v. (v\<lparr>uv_data := set_icons_enabled enabled (uv_data v)\<rparr>, Inr ())) (snd st) of
        (s1, Inl e) \<Rightarrow> ((fst st, s1), Inl e)
      | (s1, Inr _) \<Rightarrow>
          let cache = (if enabled then fst st else fst st |` left) in
          (case save_vault (de_prims E) nonce s1 of (s2, r) \<Rightarrow> ((cache, s2), r)))"

section \<open>What the requests tell\<close>

text \<open>
  The application asks for an icon only while a vault that has icons on is open, only the server that
  vault syncs with (the public one otherwise), only for what is not in the cache, and what it puts in
  the address and names the file after is a plain host name.
\<close>

theorem icon_requests_contained:
  assumes "icon_begin P cache domain s = Inr (Request url f)"
  shows "\<exists>v host. as_vault s = Some v \<and> icons_enabled (uv_data v) \<and> sanitise_domain domain = Some host \<and>
    url = trim_end_slash (case vd_sync (uv_data v) of Some y \<Rightarrow> ss_base_url y | None \<Rightarrow> DEFAULT_ICON_ORIGIN) @ ''/api/v1/icons/'' @ host \<and>
    f = host @ ''.ico'' \<and> cache f = None \<and> list_all domain_char host \<and> normalise host = Some host"
proof -
  obtain v where v: "as_vault s = Some v"
    using assms by (cases "as_vault s") (auto simp: icon_begin_def reading_def with_vault_def)
  then obtain host where "icons_enabled (uv_data v)" and host: "sanitise_domain domain = Some host"
    and "cache (icon_file host) = None" "f = icon_file host" "url = trim_end_slash (icon_origin s) @ ''/api/v1/icons/'' @ host"
    using assms by (auto simp: icon_begin_def reading_def with_vault_def split: if_splits option.splits)
  moreover note normalise_domain(1,6) [OF host [unfolded sanitise_normalise]]
  ultimately show ?thesis using v by (auto simp: icon_origin_def reading_def with_vault_def icon_file_def)
qed

theorem icon_requests_contained_witness:
  "list_all domain_char ''a.io'' \<and> icon_begin total_prims Map.empty ''A.io.'' (holding []) =
     Inr (Request ''https://yara.lat/api/v1/icons/a.io'' ''a.io.ico'')"
proof -
  have run: "icon_begin total_prims Map.empty ''A.io.'' (holding []) =
      Inr (Request ''https://yara.lat/api/v1/icons/a.io'' ''a.io.ico'')"
    by (simp add: icon_begin_def reading_def with_vault_def icons_enabled_def vault_data_default_def sample_domain
        icon_file_def icon_origin_def DEFAULT_ICON_ORIGIN_def trim_end_slash_def)
  from icon_requests_contained [OF run] run show ?thesis by (auto simp: sample_domain)
qed

section \<open>What the cache keeps\<close>

lemma icons_off:
  assumes "set_icons_cmd E nonce {} False (cache, s) = ((cache', s'), Inr ())"
  shows "cache' = Map.empty \<and> icon_begin P cache'' domain s' = Inr (Reply None)"
proof -
  obtain v where v: "as_vault s = Some v" using assms by (cases "as_vault s") (auto simp: set_icons_cmd_def with_vault_mut_def)
  let ?s = "s\<lparr>as_vault := Some (v\<lparr>uv_data := set_icons_enabled False (uv_data v)\<rparr>)\<rparr>"
  have "save_vault (de_prims E) nonce ?s = (s', Inr ())" and "cache' = Map.empty"
    using assms v by (auto simp: set_icons_cmd_def with_vault_mut_def split: prod.splits)
  moreover from this(1) have "as_vault s' = as_vault ?s" using save_keeps_memory [of "de_prims E" nonce ?s] by simp
  ultimately show ?thesis
    by (simp add: icon_begin_def reading_def with_vault_def icons_enabled_def set_icons_enabled_def)
qed

text \<open>
  A request that was under way when icons were turned off puts its file back: after the setting is off
  and the cache was emptied, the domain is on the disk again.
\<close>

theorem late_icon_fills_the_cache:
  assumes "icon_begin P cache domain s = Inr (Request url f)"
    and "set_icons_cmd E nonce {} False (cache, s) = ((cache', s'), Inr ())"
  shows "cache' f = None \<and> fst (icon_end P (Some (True, Some bs)) (Some (length bs)) f cache') f = Some bs"
  using icons_off [OF assms(2)] by (simp add: icon_end_def)

text \<open>
  Any answer but a success is kept as a miss, trouble of the server too: no later call asks again.
\<close>

theorem trouble_is_a_miss_for_ever:
  assumes "icon_begin P cache domain s = Inr (Request url f)"
  shows "icon_begin P (fst (icon_end P (Some (False, body)) (Some n) f cache)) domain s = Inr (Reply None)"
proof -
  obtain v where v: "as_vault s = Some v"
    using assms by (cases "as_vault s") (auto simp: icon_begin_def reading_def with_vault_def)
  with assms show ?thesis
    by (auto simp: icon_begin_def icon_end_def reading_def with_vault_def as_data_url_def split: if_splits option.splits)
qed

end
