(* ===== verification/Sync_Join.thy ===== *)
theory Sync_Join
  imports Sync_Outgoing
begin

text \<open>
  Enrolling a first machine and joining a later one (\<open>enrol\<close> and \<open>join\<close> of
  \<open>apps/desktop/src-tauri/src/sync.rs\<close>): what the first wraps and uploads, and what the second makes of it
  with the password and the recovery kit. The server's answers, the random values and what happens to
  the state while a request is out are arguments.
\<close>

section \<open>Enrolling\<close>

record enrol_random =
  er_secret :: bytes
  er_salt :: bytes
  er_account_seed :: bytes
  er_device_seed :: bytes
  er_account_nonce :: bytes
  er_vault_nonce :: bytes
  er_account_id :: uuid
  er_device_id :: uuid

text \<open>\<open>pub\<close> is the public half of an Ed25519 seed.\<close>

definition enrol_request ::
    "prims \<Rightarrow> (bytes \<Rightarrow> bytes) \<Rightarrow> enrol_random \<Rightarrow> string \<Rightarrow> string option \<Rightarrow> string \<Rightarrow> unlocked_vault \<Rightarrow> enrolment result" where
  "enrol_request P pub rnd invite label password v =
     and_then (account_derive P password (SecretKey (er_secret rnd)) (er_salt rnd) kdf_default) (\<lambda>keys.
     and_then (wrap P (er_account_nonce rnd) keys (er_account_seed rnd)) (\<lambda>wrapped_account.
     and_then (wrap P (er_vault_nonce rnd) keys (key_expose (uv_vault_key v))) (\<lambda>wrapped_vault.
       Inr \<lparr>eb_account_id = p_uuid_print P (er_account_id rnd), eb_salt = p_b64_encode P (er_salt rnd),
            eb_kdf = p_json_print P (params_json kdf_default),
            eb_wrapped_vault_key = p_json_print P (sealed_json P wrapped_vault),
            eb_wrapped_account_key = p_json_print P (sealed_json P wrapped_account),
            eb_account_public_key = pub (er_account_seed rnd), eb_device_id = p_uuid_print P (er_device_id rnd),
            eb_public_key = pub (er_device_seed rnd), eb_label = label, eb_invite = invite\<rparr>)))"

record recovery_kit =
  rk_account_id :: string
  rk_kit :: string

definition not_syncing :: "unlocked_vault \<Rightarrow> unit app_result" where
  "not_syncing v = (if vd_sync (uv_data v) \<noteq> None then Inl (AppError ''this vault is already syncing'') else Inr ())"

definition core_error :: "'a result \<Rightarrow> 'a app_result" where
  "core_error m = (case m of Inl e \<Rightarrow> Inl (CoreError e) | Inr x \<Rightarrow> Inr x)"

definition start_syncing :: "prims \<Rightarrow> string \<Rightarrow> string \<Rightarrow> uuid \<Rightarrow> bytes \<Rightarrow> unlocked_vault \<Rightarrow> unlocked_vault" where
  "start_syncing P base account device seed v =
     v\<lparr>uv_data := set_sync_state (Some \<lparr>ss_base_url = base, ss_account_id = account, ss_device_id = p_uuid_print P device,
       ss_device_seed = p_b64_encode P seed, ss_last_revision = 0, ss_last_synced_at = 0\<rparr>) (uv_data v)\<rparr>"

definition sync_enrol ::
    "prims \<Rightarrow> (bytes \<Rightarrow> bytes) \<Rightarrow> enrol_random \<Rightarrow> string \<Rightarrow> string \<Rightarrow> string \<Rightarrow> string option \<Rightarrow>
     (app_state \<Rightarrow> app_state) \<Rightarrow> client_error + unit \<Rightarrow> bytes \<Rightarrow> app_state \<Rightarrow> app_state \<times> recovery_kit app_result" where
  "sync_enrol P pub rnd base_url invite password label waiting answer save_nonce s =
     and_do (s, with_vault not_syncing s) (\<lambda>_ s.
     and_do (s, with_vault (\<lambda>v. core_error (enrol_request P pub rnd invite label password v)) s) (\<lambda>request s.
     and_do (waiting s, from_client answer) (\<lambda>_ s.
     and_do (with_vault_mut (\<lambda>v. (start_syncing P (trim_end_slash base_url) (eb_account_id request) (er_device_id rnd)
               (er_device_seed rnd) v, Inr ())) s) (\<lambda>_ s.
     and_do (save_vault P save_nonce s) (\<lambda>_ s.
       (s, Inr \<lparr>rk_account_id = eb_account_id request, rk_kit = to_kit (SecretKey (er_secret rnd))\<rparr>))))))"

section \<open>Joining\<close>

definition opaque_error :: app_error where
  "opaque_error = AppError ''that account, password and recovery kit do not go together''"

definition opaquely :: "'e + 'a \<Rightarrow> 'a app_result" where
  "opaquely m = (case m of Inl _ \<Rightarrow> Inl opaque_error | Inr x \<Rightarrow> Inr x)"

definition read_sealed :: "prims \<Rightarrow> string \<Rightarrow> sealed result" where
  "read_sealed P t = and_then (ok_or Serde (p_json_parse P t)) (of_sealed P)"

definition join_keys :: "prims \<Rightarrow> string \<Rightarrow> secret_key \<Rightarrow> client_account \<Rightarrow> (bytes \<times> bytes) app_result" where
  "join_keys P password secret a =
     and_then (opaquely (ok_or Serde (p_b64_decode P (cl_salt a)))) (\<lambda>salt.
     and_then (opaquely (and_then (ok_or Serde (p_json_parse P (cl_kdf a))) of_params)) (\<lambda>params.
     and_then (opaquely (account_derive P password secret salt params)) (\<lambda>keys.
     and_then (opaquely (read_sealed P (cl_wrapped_account_key a))) (\<lambda>wrapped_account.
     and_then (opaquely (unwrap P keys wrapped_account)) (\<lambda>seed.
     and_then (opaquely (keypair_from_seed seed)) (\<lambda>account_key.
     and_then (opaquely (read_sealed P (cl_wrapped_vault_key a))) (\<lambda>wrapped_vault.
     and_then (opaquely (unwrap P keys wrapped_vault)) (\<lambda>vault_key.
       Inr (account_key, vault_key)))))))))"

definition adopt_and_sync ::
    "prims \<Rightarrow> bytes \<Rightarrow> string \<Rightarrow> bytes \<Rightarrow> string \<Rightarrow> string \<Rightarrow> uuid \<Rightarrow> bytes \<Rightarrow> unlocked_vault \<Rightarrow> unlocked_vault \<times> unit app_result" where
  "adopt_and_sync P nonce password vault_key base account device seed v =
     (case adopt_vault_key P nonce password vault_key v of
        Inl _ \<Rightarrow> (v, Inl opaque_error)
      | Inr v' \<Rightarrow> (start_syncing P base account device seed v', Inr ()))"

record join_env =
  je_account :: "client_error + client_account"
  je_register :: "client_error + unit"
  je_fetching :: "app_state \<Rightarrow> app_state"
  je_registering :: "app_state \<Rightarrow> app_state"
  je_device_seed :: bytes
  je_device_id :: uuid
  je_adopt_nonce :: bytes
  je_save_nonce :: bytes
  je_sync :: sync_env

definition sync_join ::
    "prims \<Rightarrow> join_env \<Rightarrow> string \<Rightarrow> string \<Rightarrow> string \<Rightarrow> string \<Rightarrow> app_state \<Rightarrow> app_state \<times> sync_report app_result" where
  "sync_join P env base_url account_id password kit s =
     and_do (s, with_vault not_syncing s) (\<lambda>_ s.
     and_do (s, opaquely (from_kit kit)) (\<lambda>secret s.
     and_do (je_fetching env s, from_client (je_account env)) (\<lambda>account s.
     and_do (s, join_keys P password secret account) (\<lambda>ks s.
     and_do (je_registering env s, from_client (je_register env)) (\<lambda>_ s.
     and_do (with_vault_mut (adopt_and_sync P (je_adopt_nonce env) password (snd ks) (trim_end_slash base_url)
               (trim account_id) (je_device_id env) (je_device_seed env)) s) (\<lambda>_ s.
     and_do (save_vault P (je_save_nonce env) s) (\<lambda>_ s.
       sync_now P (je_sync env) s)))))))"

section \<open>A second machine\<close>

text \<open>What the server hands to a machine that asks for the account: the blobs of the enrolment.\<close>

definition handed_back :: "enrolment \<Rightarrow> i64 \<Rightarrow> client_account" where
  "handed_back e r = \<lparr>cl_salt = eb_salt e, cl_kdf = eb_kdf e, cl_wrapped_vault_key = eb_wrapped_vault_key e,
     cl_wrapped_account_key = eb_wrapped_account_key e, cl_revision = r\<rparr>"

lemma opaquely_simps [simp]: "opaquely (Inr x) = Inr x" "opaquely (Inl e) = Inl opaque_error"
  by (simp_all add: opaquely_def)

text \<open>
  C18: with the password and the printed kit of the enrolment, what the server was given brings a second
  machine the account key and the vault key of the first; with a password and a kit that derive
  anything else it brings nothing, and the refusal does not say which of them was wrong.
\<close>

theorem join_follows_enrol:
  assumes "enrol_request P pub rnd invite label password v = Inr e" and "length (er_secret rnd) = SECRET_KEY_LEN"
    and "aead_correct P" "aead_binding P" "hkdf_len P" "b64_faithful P" "\<forall>j. json_faithful P j"
    and "length (er_account_nonce rnd) = NONCE_LEN" "length (er_vault_nonce rnd) = NONCE_LEN"
    and "length (er_account_seed rnd) = 32"
  shows "from_kit (to_kit (SecretKey (er_secret rnd))) = Inr (SecretKey (er_secret rnd)) \<and>
    join_keys P password' secret (handed_back e r) =
    (if account_derive P password' secret (er_salt rnd) kdf_default =
        account_derive P password (SecretKey (er_secret rnd)) (er_salt rnd) kdf_default
     then Inr (er_account_seed rnd, key_expose (uv_vault_key v)) else Inl opaque_error)"
proof -
  from assms(1) obtain keys wa wv where keys: "account_derive P password (SecretKey (er_secret rnd)) (er_salt rnd) kdf_default = Inr keys"
    and wa: "wrap P (er_account_nonce rnd) keys (er_account_seed rnd) = Inr wa"
    and wv: "wrap P (er_vault_nonce rnd) keys (key_expose (uv_vault_key v)) = Inr wv"
    and e: "eb_salt e = p_b64_encode P (er_salt rnd)" "eb_kdf e = p_json_print P (params_json kdf_default)"
      "eb_wrapped_account_key e = p_json_print P (sealed_json P wa)" "eb_wrapped_vault_key e = p_json_print P (sealed_json P wv)"
    by (auto simp: enrol_request_def and_then_Inr)
  have len: "length (key_expose (enc_key keys)) = KEY_LEN" using account_derive_len [OF assms(5) keys] .
  have read: "read_sealed P (p_json_print P (sealed_json P s)) = Inr s" for s
    using assms(6,7) by (simp add: read_sealed_def json_faithful_def sealed_rt)
  have params: "and_then (ok_or Serde (p_json_parse P (eb_kdf e))) of_params = Inr kdf_default"
    using assms(7) by (simp add: e json_faithful_def of_params_def params_json_def json_rt)
  have salt: "p_b64_decode P (eb_salt e) = Some (er_salt rnd)" using assms(6) by (simp add: e b64_faithful_def)
  have kit: "from_kit (to_kit (SecretKey (er_secret rnd))) = Inr (SecretKey (er_secret rnd))"
    using assms(2) by (intro from_kit_cleaned kit_cleaned_to_kit) simp_all
  show ?thesis
  proof (cases "account_derive P password' secret (er_salt rnd) kdf_default")
    case (Inl err)
    then show ?thesis by (simp add: kit join_keys_def handed_back_def salt params keys)
  next
    case (Inr other)
    show ?thesis
    proof (cases "other = keys")
      case True
      have "unwrap P keys wa = Inr (er_account_seed rnd)" "unwrap P keys wv = Inr (key_expose (uv_vault_key v))"
        using unwrap_wrap [OF assms(3) len] assms(8,9) wa wv by blast+
      with True Inr show ?thesis
        using assms(10) by (simp add: kit join_keys_def handed_back_def salt params keys e(3,4) read keypair_from_seed_def)
    next
      case False
      have "unwrap P other wa = Inl Decrypt"
        using unwrap_other_account [OF assms(4) len account_derive_len [OF assms(5) Inr] assms(8) wa False] .
      with False Inr show ?thesis by (simp add: kit join_keys_def handed_back_def salt params keys e(3,4) read)
    qed
  qed
qed

section \<open>Witness\<close>

definition sample_random :: enrol_random where
  "sample_random = \<lparr>er_secret = replicate 16 (CHR ''s''), er_salt = replicate 32 (CHR ''t''), er_account_seed = replicate 32 (CHR ''a''),
     er_device_seed = replicate 32 (CHR ''d''), er_account_nonce = replicate NONCE_LEN (CHR ''n''),
     er_vault_nonce = replicate NONCE_LEN (CHR ''m''), er_account_id = 1, er_device_id = 2\<rparr>"

lemma join_follows_enrol_witness:
  "\<exists>e. enrol_request total_prims id sample_random ''c'' None ''pw'' syncing_vault = Inr e \<and>
    join_keys total_prims ''pw'' (SecretKey (replicate 16 (CHR ''s''))) (handed_back e 0) =
      Inr (replicate 32 (CHR ''a''), replicate 32 (CHR ''k''))"
proof -
  let ?P = total_prims
  have seals: "\<exists>s. wrap ?P n ks p = Inr s" for n ks p
    by (simp add: wrap_def seal_def total_prims_def sample_prims_def)
  have "\<exists>ks. account_derive ?P ''pw'' (SecretKey (er_secret sample_random)) (er_salt sample_random) kdf_default = Inr ks"
    by (simp add: account_derive_def kdf_default_valid derive_key_def total_prims_def sample_prims_def sample_random_def)
  then obtain ks wa wv where
    "account_derive ?P ''pw'' (SecretKey (er_secret sample_random)) (er_salt sample_random) kdf_default = Inr ks"
    "wrap ?P (er_account_nonce sample_random) ks (er_account_seed sample_random) = Inr wa"
    "wrap ?P (er_vault_nonce sample_random) ks (key_expose (uv_vault_key syncing_vault)) = Inr wv"
    using seals by metis
  then obtain e where e: "enrol_request ?P id sample_random ''c'' None ''pw'' syncing_vault = Inr e"
    by (simp add: enrol_request_def)
  have "aead_binding ?P" "hkdf_len ?P" "aead_correct ?P" "b64_faithful ?P" "\<forall>j. json_faithful ?P j"
    using sample_prims_ok(1,4,5) [of JNull JNull] sample_binding [of JNull JNull]
    by (simp_all add: total_prims_def aead_binding_def hkdf_len_def aead_correct_def b64_faithful_def json_faithful_def)
  with join_follows_enrol [OF e, of "''pw''" "SecretKey (replicate 16 (CHR ''s''))" 0] e show ?thesis
    by (simp add: sample_random_def syncing_vault_def sample_vault_def)
qed

section \<open>What can go wrong after the server agreed\<close>

text \<open>
  The kit is handed over only after the save. Where that fails, the account exists, the vault counts as
  syncing, every further attempt is refused, and the kit, which nothing keeps, is lost: no second machine
  can ever join.
\<close>

theorem enrol_can_lose_the_kit:
  assumes "as_vault s = Some v" and "vd_sync (uv_data v) = None"
    and "enrol_request P pub rnd invite label password v = Inr request"
    and "save_vault P nonce (s\<lparr>as_vault := Some (start_syncing P (trim_end_slash base) (eb_account_id request)
           (er_device_id rnd) (er_device_seed rnd) v)\<rparr>) = (s1, Inl e)"
  shows "sync_enrol P pub rnd base invite password label id (Inr ()) nonce s = (s1, Inl e) \<and>
    sync_enrol P pub rnd' base' invite' password' label' waiting answer nonce' s1 =
      (s1, Inl (AppError ''this vault is already syncing''))"
proof -
  let ?v = "start_syncing P (trim_end_slash base) (eb_account_id request) (er_device_id rnd) (er_device_seed rnd) v"
  have "as_vault s1 = Some ?v"
    using save_keeps_memory [of P nonce "s\<lparr>as_vault := Some ?v\<rparr>"] assms(4) by simp
  then have "with_vault not_syncing s1 = Inl (AppError ''this vault is already syncing'')"
    by (simp add: with_vault_def not_syncing_def start_syncing_def set_sync_state_def)
  with assms show ?thesis
    by (simp add: sync_enrol_def and_do_def with_vault_def not_syncing_def core_error_def from_client_def with_vault_mut_def)
qed

text \<open>
  The request is out while other commands run. Where another vault is opened meanwhile, that one is
  marked as syncing with the account, which holds the key of the first.
\<close>

theorem enrol_lands_in_another_vault:
  assumes "as_vault s = Some v" and "vd_sync (uv_data v) = None"
    and "enrol_request P pub rnd invite label password v = Inr request" and "as_vault (waiting s) = Some other"
    and "save_vault P nonce ((waiting s)\<lparr>as_vault := Some (start_syncing P (trim_end_slash base) (eb_account_id request)
           (er_device_id rnd) (er_device_seed rnd) other)\<rparr>) = (s1, Inr ())"
  shows "\<exists>kit v1. sync_enrol P pub rnd base invite password label waiting (Inr ()) nonce s = (s1, Inr kit) \<and>
    as_vault s1 = Some v1 \<and> uv_vault_key v1 = uv_vault_key other \<and>
    map_option ss_account_id (vd_sync (uv_data v1)) = Some (eb_account_id request)"
proof -
  let ?v = "start_syncing P (trim_end_slash base) (eb_account_id request) (er_device_id rnd) (er_device_seed rnd) other"
  have "as_vault s1 = Some ?v"
    using save_keeps_memory [of P nonce "(waiting s)\<lparr>as_vault := Some ?v\<rparr>"] assms(5) by simp
  with assms show ?thesis
    by (simp add: sync_enrol_def and_do_def with_vault_def not_syncing_def core_error_def from_client_def with_vault_mut_def
        start_syncing_def set_sync_state_def)
qed

end
