(* ===== verification/Locked_Session.thy ===== *)
theory Locked_Session
  imports Desktop_Session Desktop_Icons Sync_Join Generate
begin

text \<open>
  The desktop application as a whole, one event at a time: every command of \<open>generate_handler!\<close>, the
  calls of the interface that wait for a server (\<open>apps/desktop/src-tauri/src/sync.rs\<close> and \<open>icon_for\<close>), the
  timers of copied secrets, and the requests of agents with their waits for the user and for a command
  (\<open>crates/yara-broker/src/transport.rs\<close>), in any order. What has begun and waits is part of the
  state, so a lock can fall between any two steps. The theorem is what a lock leaves to be seen.
\<close>

section \<open>Calls that wait for a server, step by step\<close>

text \<open>
  \<open>sync_now\<close>, \<open>sync_enrol\<close> and \<open>sync_join\<close> are one function each in \<open>Sync_Engine\<close> and \<open>Sync_Join\<close>; here
  they are cut where they wait, and the lemmas put the pieces together again.
\<close>

definition sync_begun :: "prims \<Rightarrow> app_state \<Rightarrow> sync_state app_result" where
  "sync_begun P s =
     and_then (with_vault (\<lambda>v. ok_or (AppError ''this vault is not syncing'') (vd_sync (uv_data v))) s) (\<lambda>sync.
     and_then (device_seed P sync) (\<lambda>_. Inr sync))"

definition sync_pulled ::
    "prims \<Rightarrow> sync_env \<Rightarrow> sync_state \<Rightarrow> app_state \<Rightarrow> app_state \<times> (sync_item list \<times> i64 \<times> sync_report) app_result" where
  "sync_pulled P env sync s =
     and_do (s, from_client (se_pull env)) (\<lambda>page s.
     and_do (apply_records P env (ss_last_synced_at sync) (pg_items page) (0, fresh_report (pg_revision page)) s) (\<lambda>nr s.
     and_do (s, with_vault (outgoing P (se_nonces env) (ss_last_synced_at sync)) s) (\<lambda>records s.
       (s, Inr (records, pg_revision page, snd nr)))))"

definition sync_pushed ::
    "prims \<Rightarrow> sync_env \<Rightarrow> sync_item list \<Rightarrow> sync_report \<Rightarrow> i64 app_result \<Rightarrow> app_state \<Rightarrow> app_state \<times> sync_report app_result" where
  "sync_pushed P env records rep answer s =
     and_do (s, answer) (\<lambda>revision s.
     and_do (with_vault_mut (\<lambda>v. (remember_round revision (se_end env) v, Inr ())) s) (\<lambda>_ s.
     and_do (save_vault P (se_save_nonce env) s) (\<lambda>_ s.
       (s, Inr (rep\<lparr>rp_pushed := length records, rp_revision := revision\<rparr>)))))"

lemma sync_now_steps:
  "sync_now P env s =
     and_do (s, sync_begun P s) (\<lambda>sync s.
     and_do (sync_pulled P env sync (se_pulling env s)) (\<lambda>(records, pulled, rep) s.
       if records = [] then sync_pushed P env records rep (Inr pulled) s
       else sync_pushed P env records rep (from_client (se_push env)) (se_pushing env s)))"
  by (auto simp: sync_now_def sync_begun_def sync_pulled_def sync_pushed_def push_round_def and_do_def and_then_def
      split: sum.split prod.split)

definition enrol_begun ::
    "prims \<Rightarrow> (bytes \<Rightarrow> bytes) \<Rightarrow> enrol_random \<Rightarrow> string \<Rightarrow> string option \<Rightarrow> string \<Rightarrow> app_state \<Rightarrow> enrolment app_result" where
  "enrol_begun P pub rnd invite label password s =
     and_then (with_vault not_syncing s) (\<lambda>_. with_vault (\<lambda>v. core_error (enrol_request P pub rnd invite label password v)) s)"

definition enrol_answered ::
    "prims \<Rightarrow> enrol_random \<Rightarrow> string \<Rightarrow> enrolment \<Rightarrow> client_error + unit \<Rightarrow> bytes \<Rightarrow> app_state \<Rightarrow> app_state \<times> recovery_kit app_result" where
  "enrol_answered P rnd base_url request answer save_nonce s =
     and_do (s, from_client answer) (\<lambda>_ s.
     and_do (with_vault_mut (\<lambda>v. (start_syncing P (trim_end_slash base_url) (eb_account_id request) (er_device_id rnd)
               (er_device_seed rnd) v, Inr ())) s) (\<lambda>_ s.
     and_do (save_vault P save_nonce s) (\<lambda>_ s.
       (s, Inr \<lparr>rk_account_id = eb_account_id request, rk_kit = to_kit (SecretKey (er_secret rnd))\<rparr>))))"

lemma sync_enrol_steps:
  "sync_enrol P pub rnd base_url invite password label waiting answer save_nonce s =
     and_do (s, enrol_begun P pub rnd invite label password s)
       (\<lambda>request s. enrol_answered P rnd base_url request answer save_nonce (waiting s))"
  by (auto simp: sync_enrol_def enrol_begun_def enrol_answered_def and_do_def and_then_def split: sum.split prod.split)

definition join_begun :: "string \<Rightarrow> app_state \<Rightarrow> secret_key app_result" where
  "join_begun kit s = and_then (with_vault not_syncing s) (\<lambda>_. opaquely (from_kit kit))"

definition join_answered :: "prims \<Rightarrow> join_env \<Rightarrow> string \<Rightarrow> secret_key \<Rightarrow> (bytes \<times> bytes) app_result" where
  "join_answered P env password secret = and_then (from_client (je_account env)) (join_keys P password secret)"

definition join_registered ::
    "prims \<Rightarrow> join_env \<Rightarrow> string \<Rightarrow> string \<Rightarrow> string \<Rightarrow> bytes \<times> bytes \<Rightarrow> app_state \<Rightarrow> app_state \<times> unit app_result" where
  "join_registered P env base_url account_id password ks s =
     and_do (s, from_client (je_register env)) (\<lambda>_ s.
     and_do (with_vault_mut (adopt_and_sync P (je_adopt_nonce env) password (snd ks) (trim_end_slash base_url)
               (trim account_id) (je_device_id env) (je_device_seed env)) s) (\<lambda>_ s.
       save_vault P (je_save_nonce env) s))"

lemma sync_join_steps:
  "sync_join P env base_url account_id password kit s =
     and_do (s, join_begun kit s) (\<lambda>secret s.
     and_do (je_fetching env s, join_answered P env password secret) (\<lambda>ks s.
     and_do (join_registered P env base_url account_id password ks (je_registering env s)) (\<lambda>_. sync_now P (je_sync env))))"
  by (auto simp: sync_join_def join_begun_def join_answered_def join_registered_def and_do_def and_then_def
      split: sum.split prod.split)

section \<open>Requests of agents, step by step\<close>

text \<open>A request that waits for the user, with its prompt, and one whose action has begun, with its answer.\<close>

datatype flight =
    Asked uuid access_request client_id u64 item_ref
  | Acting access_request client_id item_ref outcome response

fun flight_item :: "flight \<Rightarrow> item_ref" where
  "flight_item (Asked k access client now item) = item"
| "flight_item (Acting access client item allowed r) = item"

definition acting :: "'v bridge \<Rightarrow> process_env \<Rightarrow> access_request \<Rightarrow> client_id \<Rightarrow> item_ref \<Rightarrow> outcome \<Rightarrow> 'v broker \<Rightarrow> flight" where
  "acting B PE access client item allowed b = Acting access client item allowed (dispatch B PE item access (b_vault b))"

definition access_starts ::
    "'v bridge \<Rightarrow> process_env \<Rightarrow> uuid \<Rightarrow> access_request \<Rightarrow> client_id \<Rightarrow> u64 \<Rightarrow> 'v broker \<Rightarrow> 'v broker \<times> (response + flight)" where
  "access_starts B PE k access client now b =
     (case begin_access B access client now b of
        (b1, Finished r) \<Rightarrow> (b1, Inl r)
      | (b1, Proceed item allowed) \<Rightarrow> (b1, Inr (acting B PE access client item allowed b1))
      | (b1, AskUser item) \<Rightarrow> (b1, Inr (Asked k access client now item)))"

fun access_answered ::
    "'v bridge \<Rightarrow> process_env \<Rightarrow> Broker.answer \<Rightarrow> uuid \<Rightarrow> uuid \<Rightarrow> u64 \<Rightarrow> flight \<Rightarrow> 'v broker \<Rightarrow> 'v broker \<times> (response + flight)" where
  "access_answered B PE a g e at (Asked k access client now item) b =
     (case conclude_approval access item client now g a b of
        (b1, Inl refusal) \<Rightarrow>
          (record_access B e at client item access (OutcomeRefused refusal) b1, Inl (refused refusal))
      | (b1, Inr allowed) \<Rightarrow> (b1, Inr (acting B PE access client item allowed b1)))"
| "access_answered B PE a g e at (Acting access client item allowed r) b = (b, Inr (Acting access client item allowed r))"

fun access_ends :: "'v bridge \<Rightarrow> uuid \<Rightarrow> u64 \<Rightarrow> flight \<Rightarrow> 'v broker \<Rightarrow> 'v broker \<times> (response + flight)" where
  "access_ends B e at (Acting access client item allowed r) b = (finish_access B access client item allowed r e at b, Inl r)"
| "access_ends B e at (Asked k access client now item) b = (b, Inr (Asked k access client now item))"

text \<open>The steps in a row are the handler of \<open>Broker\<close>.\<close>

lemma handle_access_steps:
  "handle_access B PE access client now a g e at m1 m2 b =
     (let end = (\<lambda>(b, x). case x of Inl r \<Rightarrow> (b, r) | Inr f \<Rightarrow> (case access_ends B e at f (m2 b) of (b', y) \<Rightarrow> (b', projl y)))
      in case access_starts B PE k access client now b of
           (b1, Inr (Asked k' access' client' now' item)) \<Rightarrow>
             end (access_answered B PE a g e at (Asked k' access' client' now' item) (m1 b1))
         | started \<Rightarrow> end started)"
  by (auto simp: handle_access_def access_starts_def acting_def Let_def split: phase.split prod.split sum.split)

section \<open>The application, one event at a time\<close>

text \<open>
  What a call waits with. The answers that will come are in it from the start, as in \<open>sync_env\<close>: the
  icon server's and how much of the file the disk takes, or the sync server's.
\<close>

datatype waiting =
    WaitIcon "(bool \<times> bytes option) option" "nat option" string
  | WaitPull sync_env sync_state
  | WaitPush sync_env "sync_item list" sync_report
  | WaitEnrol enrol_random string enrolment "client_error + unit" bytes
  | WaitAccount join_env string string string secret_key
  | WaitRegister join_env string string string "bytes \<times> bytes"

datatype server_call =
    IconFor string "(bool \<times> bytes option) option" "nat option"
  | SyncNow sync_env
  | SyncEnrol "bytes \<Rightarrow> bytes" enrol_random string string string "string option" "client_error + unit" bytes
  | SyncJoin join_env string string string string

datatype shown = Shown reply | Icon "string option" | Generated string | Kit recovery_kit | Synced sync_report

datatype emitted = ToInterface "shown app_result" | Prompt approval_prompt | ToAgent response

record world =
  wd_desk :: desktop
  wd_cache :: icon_cache
  wd_agents :: "flight list"
  wd_waiting :: "waiting list"

definition showing :: "('a \<Rightarrow> shown) \<Rightarrow> 'a app_result \<Rightarrow> shown app_result" where
  "showing g r = and_then r (\<lambda>x. Inr (g x))"

definition waits_or_fails :: "('a \<Rightarrow> waiting) \<Rightarrow> 'a app_result \<Rightarrow> waiting + shown app_result" where
  "waits_or_fails g r = (case r of Inl e \<Rightarrow> Inr (Inl e) | Inr x \<Rightarrow> Inl (g x))"

fun call_begins :: "prims \<Rightarrow> server_call \<Rightarrow> icon_cache \<Rightarrow> app_state \<Rightarrow> waiting + shown app_result" where
  "call_begins P (IconFor domain response room) cache s =
     (case icon_begin P cache domain s of
        Inl e \<Rightarrow> Inr (Inl e)
      | Inr (Reply x) \<Rightarrow> Inr (Inr (Icon x))
      | Inr (Request url f) \<Rightarrow> Inl (WaitIcon response room f))"
| "call_begins P (SyncNow env) cache s = waits_or_fails (WaitPull env) (sync_begun P s)"
| "call_begins P (SyncEnrol pub rnd base_url invite password label answer save_nonce) cache s =
     waits_or_fails (\<lambda>request. WaitEnrol rnd base_url request answer save_nonce) (enrol_begun P pub rnd invite label password s)"
| "call_begins P (SyncJoin env base_url account_id password kit) cache s =
     waits_or_fails (WaitAccount env base_url account_id password) (join_begun kit s)"

definition ended :: "('a \<Rightarrow> shown) \<Rightarrow> icon_cache \<Rightarrow> app_state \<times> 'a app_result \<Rightarrow> (icon_cache \<times> app_state) \<times> (waiting + shown app_result)" where
  "ended g cache p = ((cache, fst p), Inr (showing g (snd p)))"

text \<open>The server answers a call that waits, which ends it or makes it wait again.\<close>

fun call_resumes :: "prims \<Rightarrow> waiting \<Rightarrow> icon_cache \<Rightarrow> app_state \<Rightarrow> (icon_cache \<times> app_state) \<times> (waiting + shown app_result)" where
  "call_resumes P (WaitIcon response room f) cache s =
     (case icon_end P response room f cache of (cache', x) \<Rightarrow> ((cache', s), Inr (Inr (Icon x))))"
| "call_resumes P (WaitPull env sync) cache s =
     (case sync_pulled P env sync s of
        (s1, Inl e) \<Rightarrow> ((cache, s1), Inr (Inl e))
      | (s1, Inr (records, pulled, rep)) \<Rightarrow>
          if records = [] then ended Synced cache (sync_pushed P env records rep (Inr pulled) s1)
          else ((cache, s1), Inl (WaitPush env records rep)))"
| "call_resumes P (WaitPush env records rep) cache s =
     ended Synced cache (sync_pushed P env records rep (from_client (se_push env)) s)"
| "call_resumes P (WaitEnrol rnd base_url request answer save_nonce) cache s =
     ended Kit cache (enrol_answered P rnd base_url request answer save_nonce s)"
| "call_resumes P (WaitAccount env base_url account_id password secret) cache s =
     ((cache, s), waits_or_fails (WaitRegister env base_url account_id password) (join_answered P env password secret))"
| "call_resumes P (WaitRegister env base_url account_id password ks) cache s =
     (case join_registered P env base_url account_id password ks s of
        (s1, Inl e) \<Rightarrow> ((cache, s1), Inr (Inl e))
      | (s1, Inr _) \<Rightarrow> ((cache, s1), waits_or_fails (WaitPull (je_sync env)) (sync_begun P s1)))"

definition keep_app :: "app_state \<Rightarrow> desktop \<Rightarrow> desktop" where
  "keep_app s = run_unit (\<lambda>_. s)"

definition call_moves :: "(icon_cache \<times> app_state) \<times> (waiting + shown app_result) \<Rightarrow> waiting list \<Rightarrow> world \<Rightarrow> world \<times> emitted list" where
  "call_moves p others w =
     (case p of ((cache, s), x) \<Rightarrow>
        let w1 = w\<lparr>wd_desk := keep_app s (wd_desk w), wd_cache := cache\<rparr> in
        (case x of
           Inl wait \<Rightarrow> (w1\<lparr>wd_waiting := others @ [wait]\<rparr>, [])
         | Inr r \<Rightarrow> (w1\<lparr>wd_waiting := others\<rparr>, [ToInterface r])))"

definition access_moves :: "app_state broker \<times> (response + flight) \<Rightarrow> flight list \<Rightarrow> world \<Rightarrow> world \<times> emitted list" where
  "access_moves p others w =
     (case p of (b, x) \<Rightarrow>
        let w1 = w\<lparr>wd_desk := (wd_desk w)\<lparr>dt_broker := b\<rparr>\<rparr> in
        (case x of
           Inl r \<Rightarrow> (w1\<lparr>wd_agents := others\<rparr>, [ToAgent r])
         | Inr f \<Rightarrow> (w1\<lparr>wd_agents := others @ [f]\<rparr>, [])))"

definition without :: "nat \<Rightarrow> 'a list \<Rightarrow> 'a list" where
  "without i xs = take i xs @ drop (Suc i) xs"

text \<open>A request that is to be put to the user raises a prompt, whose window shows what is asked for.\<close>

definition prompted :: "world \<times> emitted list \<Rightarrow> (response + flight) \<Rightarrow> world \<times> emitted list" where
  "prompted p x =
     (case x of
        Inr (Asked k access client now item) \<Rightarrow>
          (let d = wd_desk (fst p) in
           ((fst p)\<lparr>wd_desk := d\<lparr>dt_ui := ui_ask k (dt_ui d)\<rparr>\<rparr>,
            Prompt (approval_prompt_new k (approval_request_for access item client)) # snd p))
      | _ \<Rightarrow> p)"

datatype 'l event =
    Interface "'l call_draws" desk_command
  | SetIconsEnabled bytes "string set" bool
  | GeneratePassword recipe "char list"
  | CallServer server_call
  | ServerAnswers nat
  | CopyTimer u64
  | Exits
  | AgentAsks string request client_id u64 uuid uuid bytes
  | PromptEnds uuid
  | AgentWakes nat uuid uuid u64 bytes
  | ActionEnds nat uuid u64 bytes

fun world_step :: "desk_env \<Rightarrow> process_env \<Rightarrow> 'l event \<Rightarrow> world \<Rightarrow> world \<times> emitted list" where
  "world_step E PE (Interface draws c) w =
     (case desk_run E draws c (wd_desk w) of (d, r) \<Rightarrow> (w\<lparr>wd_desk := d\<rparr>, [ToInterface (showing Shown r)]))"
| "world_step E PE (SetIconsEnabled nonce left enabled) w =
     (case set_icons_cmd E nonce left enabled (wd_cache w, app_of (wd_desk w)) of
        ((cache, s), r) \<Rightarrow>
          (w\<lparr>wd_desk := keep_app s (wd_desk w), wd_cache := cache\<rparr>, [ToInterface (showing (\<lambda>_. Shown Done) r)]))"
| "world_step E PE (GeneratePassword recipe random) w =
     (case generate_password recipe random of
        None \<Rightarrow> (w, [])
      | Some r \<Rightarrow> (w, [ToInterface (showing (\<lambda>p. Generated (expose p)) (core_error r))]))"
| "world_step E PE (CallServer c) w =
     call_moves ((wd_cache w, app_of (wd_desk w)), call_begins (de_prims E) c (wd_cache w) (app_of (wd_desk w))) (wd_waiting w) w"
| "world_step E PE (ServerAnswers i) w =
     (if i < length (wd_waiting w)
      then call_moves (call_resumes (de_prims E) (wd_waiting w ! i) (wd_cache w) (app_of (wd_desk w))) (without i (wd_waiting w)) w
      else (w, []))"
| "world_step E PE (CopyTimer token) w = (w\<lparr>wd_desk := fst (copy_timer token (wd_desk w))\<rparr>, [])"
| "world_step E PE Exits w = (w\<lparr>wd_desk := lock_everything (wd_desk w)\<rparr>, [])"
| "world_step E PE (AgentAsks version q client now k e nonce) w =
     (let B = desk_view E now nonce; b = dt_broker (wd_desk w) in
      (case q of
         Access access \<Rightarrow>
           (case access_starts B PE k access client now b of
              (b1, x) \<Rightarrow> prompted (access_moves (b1, x) (wd_agents w) w) x)
       | _ \<Rightarrow>
           (case handle B PE version q client now NoAnswer k e now id id b of
              (b1, r) \<Rightarrow> access_moves (b1, Inl r) (wd_agents w) w)))"
| "world_step E PE (PromptEnds k) w =
     (let d = wd_desk w in (w\<lparr>wd_desk := d\<lparr>dt_ui := prompt_timeout k (dt_ui d)\<rparr>\<rparr>, []))"
| "world_step E PE (AgentWakes i g e at nonce) w =
     (if i < length (wd_agents w) then
        (case wd_agents w ! i of
           Asked k access client now item \<Rightarrow>
             (case map_of (ui_answers (dt_ui (wd_desk w))) k of
                None \<Rightarrow> (w, [])
              | Some a \<Rightarrow>
                  access_moves (access_answered (desk_view E at nonce) PE a g e at (Asked k access client now item) (dt_broker (wd_desk w)))
                    (without i (wd_agents w)) w)
         | Acting access client item allowed r \<Rightarrow> (w, []))
      else (w, []))"
| "world_step E PE (ActionEnds i e at nonce) w =
     (if i < length (wd_agents w) then
        (case wd_agents w ! i of
           Asked k access client now item \<Rightarrow> (w, [])
         | Acting access client item allowed r \<Rightarrow>
             access_moves (access_ends (desk_view E at nonce) e at (Acting access client item allowed r) (dt_broker (wd_desk w)))
               (without i (wd_agents w)) w)
      else (w, []))"

fun world_run :: "desk_env \<Rightarrow> process_env \<Rightarrow> 'l event list \<Rightarrow> world \<Rightarrow> world \<times> emitted list" where
  "world_run E PE [] w = (w, [])"
| "world_run E PE (x # xs) w =
     (case world_step E PE x w of (w1, out) \<Rightarrow> (case world_run E PE xs w1 of (w2, outs) \<Rightarrow> (w2, out @ outs)))"

section \<open>What a locked application does\<close>

lemma locked_calls [simp]:
  assumes "as_vault s = None"
  shows "sync_begun P s = Inl (AppError ''the vault is locked'')" "join_begun kit s = Inl (AppError ''the vault is locked'')"
    "enrol_begun P pub rnd invite label password s = Inl (AppError ''the vault is locked'')"
    "icon_begin P cache domain s = Inl (AppError ''the vault is locked'')"
  using assms by (simp_all add: sync_begun_def join_begun_def enrol_begun_def icon_begin_def with_vault_def)

lemma apply_records_locked:
  "as_vault s = None \<Longrightarrow> apply_records P env since rs nr s = (s', r) \<Longrightarrow> s' = s"
  by (induction rs arbitrary: nr) (auto simp: and_do_def split: if_splits)

lemma locked_resumes:
  assumes "as_vault s = None"
  shows "isl (snd (sync_pulled P env sync s)) \<and> fst (sync_pulled P env sync s) = s"
    and "isl (snd (sync_pushed P env records rep x s)) \<and> fst (sync_pushed P env records rep x s) = s"
    and "isl (snd (enrol_answered P rnd base_url request y nonce s)) \<and> fst (enrol_answered P rnd base_url request y nonce s) = s"
    and "isl (snd (join_registered P jenv base_url account_id password ks s)) \<and>
      fst (join_registered P jenv base_url account_id password ks s) = s"
proof -
  show "isl (snd (sync_pulled P env sync s)) \<and> fst (sync_pulled P env sync s) = s"
    using assms
    by (auto simp: sync_pulled_def and_do_def with_vault_def split: sum.split prod.split dest!: apply_records_locked [OF assms])
qed (use assms in \<open>auto simp: sync_pushed_def enrol_answered_def join_registered_def and_do_def split: sum.split\<close>)

text \<open>A call that waits for a server over a lock ends in an error, the icons apart.\<close>

definition is_icon :: "waiting \<Rightarrow> bool" where
  "is_icon x = (case x of WaitIcon response room f \<Rightarrow> True | _ \<Rightarrow> False)"

definition icons_left :: "world \<Rightarrow> bool" where
  "icons_left w = list_ex is_icon (wd_waiting w)"

lemma call_resumes_locked:
  assumes "as_vault s = None" and "call_resumes P x cache s = ((cache', s'), y)"
  shows "s' = s \<and> (case y of Inl x' \<Rightarrow> \<not> is_icon x' | Inr (Inl e) \<Rightarrow> True | Inr (Inr z) \<Rightarrow> is_icon x \<and> z \<in> range Icon)"
proof (cases x)
  case (WaitPull env sync)
  with assms locked_resumes(1) [OF assms(1), of P env sync] show ?thesis
    by (auto split: prod.splits sum.splits)
next
  case (WaitPush env records rep)
  with assms locked_resumes(2) [OF assms(1), of P env records rep "from_client (se_push env)"] show ?thesis
    by (cases "snd (sync_pushed P env records rep (from_client (se_push env)) s)") (auto simp: ended_def showing_def and_then_def)
next
  case (WaitEnrol rnd base_url request answer save_nonce)
  with assms locked_resumes(3) [OF assms(1), of P rnd base_url request answer save_nonce] show ?thesis
    by (cases "snd (enrol_answered P rnd base_url request answer save_nonce s)") (auto simp: ended_def showing_def and_then_def)
next
  case (WaitRegister env base_url account_id password ks)
  with assms locked_resumes(4) [OF assms(1), of P env base_url account_id password ks] show ?thesis
    by (auto split: prod.splits sum.splits)
qed (use assms in \<open>auto simp: is_icon_def waits_or_fails_def split: prod.splits sum.splits\<close>)

section \<open>Agents over a lock\<close>

lemma redeem_names:
  "redeem item f i client now store = (store', r) \<Longrightarrow> g_item_name ` set store' \<subseteq> g_item_name ` set store"
  using set_redeem by (fastforce simp: charge_def)

lemma conclude_names:
  assumes "conclude_approval access item client now g a b = (b', r)"
  shows "g_item_name ` set (b_grants b') \<subseteq> insert (ref_name item) (g_item_name ` set (b_grants b))"
    and "b_audit b' = b_audit b" and "b_vault b' = b_vault b"
proof -
  have keep: "g_item_name ` set (prune now store) \<subseteq> insert (ref_name item) (g_item_name ` set (b_grants b))"
    if "redeem (ref_id item) (ar_field access) (ar_intent access) client now (b_grants b @ [gr]) = (store, x)"
      and "g_item_name gr = ref_name item" for gr store x
    using redeem_names [OF that(1)] that(2) by (auto simp: prune_def)
  show "g_item_name ` set (b_grants b') \<subseteq> insert (ref_name item) (g_item_name ` set (b_grants b))"
    using assms unfolding image_subset_iff
    by (auto simp: conclude_approval_def issue_def Let_def grant_once_def grant_new_def image_subset_iff
        split: answer.splits decision.splits prod.splits dest!: keep)
  show "b_audit b' = b_audit b" "b_vault b' = b_vault b"
    using assms by (auto simp: conclude_approval_def issue_def Let_def split: answer.splits decision.splits prod.splits)
qed

lemma recorded_shut:
  assumes "shut M (d\<lparr>dt_broker := b\<rparr>)" and "ref_name item \<in> M"
  shows "shut M (d\<lparr>dt_broker := record_access (desk_view E now nonce) e at client item access out b\<rparr>)"
  using assms
  by (auto simp: shut_def app_of_def record_access_def record_entry_def desk_view_def vault_view_def view_record_vault
      log_record_def Let_def image_subset_iff split: if_splits dest: in_set_dropD)

section \<open>What a lock leaves\<close>

text \<open>What is under way: the items that requests were about, and the answers of actions that have begun.\<close>

definition names_left :: "world \<Rightarrow> string set" where
  "names_left w = (\<lambda>f. ref_name (flight_item f)) ` set (wd_agents w)"

definition answers_left :: "world \<Rightarrow> response set" where
  "answers_left w = (\<Union>f \<in> set (wd_agents w). case f of Acting access client item allowed r \<Rightarrow> {r} | _ \<Rightarrow> {})"

text \<open>
  What the application may emit while it is locked: to the interface an error, or a reply without
  anything of a vault but names of \<open>M\<close>, or an icon if one was being fetched; no prompt; to an agent a
  refusal, or an answer of \<open>R\<close>.
\<close>

fun hushed :: "string set \<Rightarrow> response set \<Rightarrow> bool \<Rightarrow> emitted \<Rightarrow> bool" where
  "hushed M R icons (ToInterface (Inl e)) = True"
| "hushed M R icons (ToInterface (Inr (Shown x))) = silent M x"
| "hushed M R icons (ToInterface (Inr (Icon x))) = icons"
| "hushed M R icons (ToInterface (Inr (Generated p))) = True"
| "hushed M R icons (ToInterface (Inr (Kit k))) = False"
| "hushed M R icons (ToInterface (Inr (Synced rep))) = False"
| "hushed M R icons (Prompt p) = False"
| "hushed M R icons (ToAgent r) =
     (r \<in> {refused VaultLocked, refused Denied, refused TimedOut} \<union> range (StatusIs False) \<union> R)"

definition flight_left :: "string set \<Rightarrow> response set \<Rightarrow> flight \<Rightarrow> bool" where
  "flight_left M R f \<longleftrightarrow> ref_name (flight_item f) \<in> M \<and>
     (case f of Asked k access client now item \<Rightarrow> True
      | Acting access client item allowed r \<Rightarrow> r \<in> insert (refused VaultLocked) R)"

definition locked_world :: "string set \<Rightarrow> response set \<Rightarrow> bool \<Rightarrow> world \<Rightarrow> bool" where
  "locked_world M R icons w \<longleftrightarrow> shut M (wd_desk w) \<and> (\<forall>f \<in> set (wd_agents w). flight_left M R f) \<and> (icons_left w \<longrightarrow> icons)"

fun reopens :: "'l event \<Rightarrow> bool" where
  "reopens (Interface draws c) = opens c"
| "reopens x = False"

lemma set_without: "set (without i xs) \<subseteq> set xs"
  by (auto simp: without_def dest: in_set_takeD in_set_dropD)

lemma keep_app_shut: "shut M d \<Longrightarrow> as_vault s = None \<Longrightarrow> shut M (keep_app s d)"
  by (simp add: keep_app_def run_unit_def on_app_def shut_def app_of_def)

lemma not_unlocked: "as_vault (app_of d) = None \<Longrightarrow> \<not> vb_unlocked (desk_view E now nonce) (b_vault (dt_broker d))"
  by (simp add: desk_view_def vault_view_def is_unlocked_def app_of_def)

lemma call_moves_locked:
  assumes "locked_world M R icons w" and "list_ex is_icon others \<Longrightarrow> icons" and "as_vault s = None"
    and "case y of Inl x \<Rightarrow> \<not> is_icon x | Inr r \<Rightarrow> hushed M R icons (ToInterface r)"
    and "call_moves ((cache, s), y) others w = (w', out)"
  shows "locked_world M R icons w' \<and> list_all (hushed M R icons) out"
  using assms keep_app_shut [of M "wd_desk w" s]
  by (auto simp: locked_world_def call_moves_def icons_left_def Let_def split: sum.splits)

lemma access_moves_locked:
  assumes "locked_world M R icons w" and "set others \<subseteq> set (wd_agents w)" and "shut M ((wd_desk w)\<lparr>dt_broker := b\<rparr>)"
    and "case x of Inl r \<Rightarrow> hushed M R icons (ToAgent r) | Inr f \<Rightarrow> flight_left M R f"
    and "access_moves (b, x) others w = (w', out)"
  shows "locked_world M R icons w' \<and> list_all (hushed M R icons) out"
  using assms by (auto simp: locked_world_def access_moves_def icons_left_def Let_def split: sum.splits)

lemma same_broker [simp]: "d\<lparr>dt_broker := dt_broker d\<rparr> = d"
  by simp

lemma agent_asks_locked:
  assumes w: "locked_world M R icons w" and step: "world_step E PE (AgentAsks version q client now k e nonce) w = (w', out)"
  shows "locked_world M R icons w' \<and> list_all (hushed M R icons) out"
proof -
  let ?B = "desk_view E now nonce" and ?b = "dt_broker (wd_desk w)"
  have shut: "shut M (wd_desk w)" and locked: "\<not> vb_unlocked ?B (b_vault ?b)"
    using w not_unlocked [OF shut_vault] by (auto simp: locked_world_def)
  show ?thesis
  proof (cases q)
    case Status
    have "handle ?B PE version Status client now NoAnswer k e now id id ?b = (?b, StatusIs False version)"
      using locked by (simp add: handle_def)
    with step Status have "access_moves (?b, Inl (StatusIs False version)) (wd_agents w) w = (w', out)"
      by (simp add: Let_def)
    from access_moves_locked [OF w _ _ _ this] shut show ?thesis by simp
  next
    case (ListItems query)
    have "handle ?B PE version q client now NoAnswer k e now id id ?b = (?b, refused VaultLocked)"
      using locked ListItems by (simp add: handle_def handle_list_def)
    with step ListItems have "access_moves (?b, Inl (refused VaultLocked)) (wd_agents w) w = (w', out)"
      by (simp add: Let_def)
    from access_moves_locked [OF w _ _ _ this] shut show ?thesis by simp
  next
    case (Access access)
    have "access_starts ?B PE k access client now ?b = (?b, Inl (refused VaultLocked))"
      using locked by (simp add: access_starts_def begin_access_def)
    with step Access have "access_moves (?b, Inl (refused VaultLocked)) (wd_agents w) w = (w', out)"
      by (simp add: Let_def prompted_def)
    from access_moves_locked [OF w _ _ _ this] shut show ?thesis by simp
  qed
qed

lemma agent_wakes_locked:
  assumes w: "locked_world M R icons w" and step: "world_step E PE (AgentWakes i g e at nonce) w = (w', out)"
  shows "locked_world M R icons w' \<and> list_all (hushed M R icons) out"
proof (cases "w' = w \<and> out = []")
  case False
  let ?B = "desk_view E at nonce" and ?d = "wd_desk w"
  obtain k access client now item a where f: "wd_agents w ! i = Asked k access client now item" and i: "i < length (wd_agents w)"
    and mv: "access_moves (access_answered ?B PE a g e at (Asked k access client now item) (dt_broker ?d)) (without i (wd_agents w)) w = (w', out)"
    using False step by (auto split: if_splits flight.splits option.splits)
  have name: "ref_name item \<in> M" using w i f nth_mem [OF i] by (auto simp: locked_world_def flight_left_def)
  have shut: "shut M ?d" using w by (simp add: locked_world_def)
  obtain b1 x where c: "conclude_approval access item client now g a (dt_broker ?d) = (b1, x)" by fastforce
  have shut1: "shut M (?d\<lparr>dt_broker := b1\<rparr>)"
    using conclude_names [OF c] shut name by (auto simp: shut_def app_of_def image_subset_iff)
  show ?thesis
  proof (cases x)
    case (Inl refusal)
    have "refusal \<in> {Denied, TimedOut}"
      using c Inl by (auto simp: conclude_approval_def Let_def split: answer.splits decision.splits prod.splits)
    with access_moves_locked [OF w set_without recorded_shut [OF shut1 name] _ mv [simplified c Inl access_answered.simps prod.case sum.case]]
    show ?thesis by auto
  next
    case (Inr allowed)
    have "dispatch ?B PE item access (b_vault b1) = refused VaultLocked"
      using not_unlocked [OF shut_vault [OF shut1]] by (simp add: dispatch_def)
    then have "flight_left M R (acting ?B PE access client item allowed b1)"
      using name by (simp add: acting_def flight_left_def)
    with access_moves_locked [OF w set_without shut1 _ mv [simplified c Inr access_answered.simps prod.case sum.case]]
    show ?thesis by simp
  qed
qed (use w in simp)

lemma action_ends_locked:
  assumes w: "locked_world M R icons w" and step: "world_step E PE (ActionEnds i e at nonce) w = (w', out)"
  shows "locked_world M R icons w' \<and> list_all (hushed M R icons) out"
proof (cases "w' = w \<and> out = []")
  case False
  let ?B = "desk_view E at nonce" and ?d = "wd_desk w"
  obtain access client item allowed r where f: "wd_agents w ! i = Acting access client item allowed r" and i: "i < length (wd_agents w)"
    and mv: "access_moves (access_ends ?B e at (Acting access client item allowed r) (dt_broker ?d)) (without i (wd_agents w)) w = (w', out)"
    using False step by (auto split: if_splits flight.splits)
  have name: "ref_name item \<in> M" and r: "r \<in> insert (refused VaultLocked) R"
    using w i f nth_mem [OF i] by (auto simp: locked_world_def flight_left_def)
  have shut: "shut M ?d" using w by (simp add: locked_world_def)
  have "shut M (?d\<lparr>dt_broker := fst (broker_revoke k (dt_broker ?d))\<rparr>)" for k
    using revoke_shut [OF shut, of k] by (cases "broker_revoke k (dt_broker ?d)") (simp add: revoke_grant_def)
  then have "shut M (?d\<lparr>dt_broker := finish_access ?B access client item allowed r e at (dt_broker ?d)\<rparr>)"
    using shut unfolding finish_access_def Let_def
    by (intro recorded_shut [OF _ name]) (auto split: response.split refusal.split option.split)
  with access_moves_locked [OF w set_without _ _ mv [simplified access_ends.simps]] r show ?thesis by auto
qed (use w in simp)

lemma call_begins_locked:
  assumes "as_vault s = None"
  shows "\<exists>e. call_begins P c cache s = Inr (Inl e)"
  using assms by (cases c) (simp_all add: waits_or_fails_def)

lemma locked_step:
  assumes w: "locked_world M R icons w" and "\<not> reopens x" and step: "world_step E PE x w = (w', out)"
  shows "locked_world M R icons w' \<and> list_all (hushed M R icons) out"
proof -
  have shut: "shut M (wd_desk w)" using w by (simp add: locked_world_def)
  note none = shut_vault [OF shut]
  show ?thesis
  proof (cases x)
    case (Interface draws c)
    with assms(2) have c: "\<not> opens c" by simp
    obtain d r where d: "desk_run E draws c (wd_desk w) = (d, r)" by fastforce
    from shut_run [OF shut c, of E draws] d have "shut M d \<and> (isl r \<or> silent M (projr r))" by simp
    then show ?thesis using step w d Interface
      by (cases r) (auto simp: locked_world_def icons_left_def showing_def)
  next
    case (SetIconsEnabled nonce left enabled)
    then show ?thesis using step w none keep_app_shut [OF shut none]
      by (auto simp: set_icons_cmd_def showing_def locked_world_def icons_left_def)
  next
    case (GeneratePassword recipe random)
    then show ?thesis using step w
      by (auto simp: showing_def core_error_def and_then_def split: option.splits sum.splits)
  next
    case (CallServer c)
    obtain e where e: "call_begins (de_prims E) c (wd_cache w) (app_of (wd_desk w)) = Inr (Inl e)"
      using call_begins_locked [OF none] by blast
    from step CallServer e have "call_moves ((wd_cache w, app_of (wd_desk w)), Inr (Inl e)) (wd_waiting w) w = (w', out)" by simp
    from call_moves_locked [OF w _ none _ this] w show ?thesis by (simp add: locked_world_def icons_left_def)
  next
    case (ServerAnswers i)
    show ?thesis
    proof (cases "i < length (wd_waiting w)")
      case True
      obtain cache s y where r: "call_resumes (de_prims E) (wd_waiting w ! i) (wd_cache w) (app_of (wd_desk w)) = ((cache, s), y)"
        by (metis prod.collapse)
      note l = call_resumes_locked [OF none r]
      have icons: "is_icon (wd_waiting w ! i) \<Longrightarrow> icons" "list_ex is_icon (without i (wd_waiting w)) \<Longrightarrow> icons"
        using w nth_mem [OF True] set_without [of i "wd_waiting w"] by (auto simp: locked_world_def icons_left_def list_ex_iff)
      from step ServerAnswers True r have "call_moves ((cache, s), y) (without i (wd_waiting w)) w = (w', out)" by simp
      from call_moves_locked [OF w icons(2) _ _ this] l none icons(1) show ?thesis by (auto split: sum.splits)
    qed (use step w ServerAnswers in simp)
  next
    case (CopyTimer token)
    have "shut M (fst (copy_timer token (wd_desk w)))" using shut by (simp add: copy_timer_def split: prod.split)
    then show ?thesis using step w CopyTimer by (auto simp: locked_world_def icons_left_def)
  next
    case Exits
    then show ?thesis using step w by (auto simp: locked_world_def icons_left_def)
  next
    case (PromptEnds k)
    then show ?thesis using step w by (auto simp: locked_world_def icons_left_def Let_def)
  next
    case (AgentAsks version q client now k e nonce)
    with step agent_asks_locked [OF w] show ?thesis by blast
  next
    case (AgentWakes i g e at nonce)
    with step agent_wakes_locked [OF w] show ?thesis by blast
  next
    case (ActionEnds i e at nonce)
    with step action_ends_locked [OF w] show ?thesis by blast
  qed
qed

lemma locked_run:
  "locked_world M R icons w \<Longrightarrow> \<forall>x \<in> set xs. \<not> reopens x \<Longrightarrow> world_run E PE xs w = (w', out) \<Longrightarrow>
    locked_world M R icons w' \<and> list_all (hushed M R icons) out"
proof (induction xs arbitrary: w w' out)
  case (Cons x xs)
  obtain w1 out1 where w1: "world_step E PE x w = (w1, out1)" by fastforce
  obtain w2 out2 where w2: "world_run E PE xs w1 = (w2, out2)" by fastforce
  have l: "locked_world M R icons w1 \<and> list_all (hushed M R icons) out1"
    using locked_step [OF Cons.prems(1) _ w1] Cons.prems(2) by simp
  from Cons.IH [OF conjunct1 [OF l] _ w2] Cons.prems(2,3) l w1 w2 show ?case by auto
qed simp

text \<open>
  C12: after a lock, and until a command opens a vault, nothing of the vault comes out of the
  application but what was on its way. Every command of the interface, the calls of the interface that
  wait for a server, the timers, and the requests of agents may follow in any order, and calls and
  requests may be under way when the lock falls. No vault comes back into memory; every grant and entry
  left in the broker names an item that a request under way at the lock was about, and the interface is
  answered by errors, by replies that carry nothing else of a vault, or by an icon if one was being
  fetched; no prompt is raised; and an agent is refused, or given the answer of an action that had
  begun before the lock. With no request under way that is no grant, no entry and no answer at all.
  (The list of vaults, which is kept beside the files in the clear, and the preview of a scanned picture
  are not of a vault.)
\<close>

theorem locked_session_is_silent:
  assumes "\<forall>x \<in> set xs. \<not> reopens x"
    and "world_run E PE xs (w\<lparr>wd_desk := lock_everything (wd_desk w)\<rparr>) = (w', out)"
  shows "as_vault (app_of (wd_desk w')) = None \<and>
    g_item_name ` set (b_grants (dt_broker (wd_desk w'))) \<union> e_item ` set (b_audit (dt_broker (wd_desk w'))) \<subseteq> names_left w \<and>
    (\<forall>x \<in> set out. hushed (names_left w) (answers_left w) (icons_left w) x)"
proof -
  have "locked_world (names_left w) (answers_left w) (icons_left w) (w\<lparr>wd_desk := lock_everything (wd_desk w)\<rparr>)"
    by (auto simp: locked_world_def flight_left_def names_left_def answers_left_def icons_left_def split: flight.splits
        intro!: bexI)
  from locked_run [OF this assms] show ?thesis
    by (auto simp: locked_world_def shut_def list_all_iff)
qed

text \<open>
  What is on its way is not nothing: a request that waits for the user when the lock falls is told it
  was denied, and puts the name of its item back into the log that the lock has emptied, where the
  interface reads it while the vault is locked.
\<close>

theorem dropped_request_is_shown_while_locked:
  assumes "wd_agents w = [Asked k access client now item]" and d: "d = wd_desk w"
    and "k \<in> set (ui_pending (dt_ui d))" "k \<in> set (ui_waiting (dt_ui d))" and "map_of (ui_answers (dt_ui d)) k = None"
  shows "\<exists>row. snd (world_run E PE [AgentWakes 0 g e at nonce, Interface draws (Ask (AuditEntries None))]
        (w\<lparr>wd_desk := lock_everything d\<rparr>)) =
      [ToAgent (refused Denied), ToInterface (Inr (Shown (Audit [row])))] \<and> av_item row = ref_name item"
proof -
  have "map_of (map (\<lambda>k. (k, Dropped)) (filter (\<lambda>j. j \<in> set (ui_pending (dt_ui d))) (ui_waiting (dt_ui d)))) k = Some Dropped"
    using assms(3,4) by (simp add: d map_of_map_restrict o_def restrict_map_def)
  then have ui: "map_of (ui_answers (dt_ui (lock_everything d))) k = Some Dropped"
    using assms(5) by (simp add: lock_everything_def on_lock_def abandon_all_def run_unit_def on_app_def map_add_def
        split: prod.split)
  have empty: "b_audit (dt_broker (lock_everything d)) = []"
    using lock_everything_shut [of "{}" d] by (simp add: shut_def)
  show ?thesis
    using ui empty assms(1)
    by (simp add: access_moves_def conclude_approval_def showing_def audit_entries_def recent_audit_def log_recent_def
        record_access_def record_entry_def log_record_def LOG_CAPACITY_def audit_view_of_def without_def)
qed

section \<open>Witness\<close>

text \<open>A vault with one item, and a request for its password that the user is being asked about.\<close>

definition sample_world :: world where
  "sample_world = \<lparr>wd_desk = (sample_desktop (holding [sample_item]))\<lparr>dt_ui := ui_ask 3 ui_new\<rparr>, wd_cache = Map.empty,
     wd_agents = [Asked 3 (sample_access Reveal) sample_client 5 (to_ref sample_item)], wd_waiting = []\<rparr>"

theorem locked_session_is_silent_witness:
  "\<exists>w' out. world_run sample_desk sample_process
        [Interface sample_draws (Query (RevealPassword 7)), AgentWakes 0 8 9 10 [],
         AgentAsks [] (Access (sample_access Reveal)) sample_client 11 12 13 []]
        (sample_world\<lparr>wd_desk := lock_everything (wd_desk sample_world)\<rparr>) = (w', out) \<and>
     as_vault (app_of (wd_desk w')) = None \<and> list_all (hushed {item_name sample_item} {} False) out"
proof -
  let ?xs = "[Interface sample_draws (Query (RevealPassword 7)), AgentWakes 0 8 9 10 [],
    AgentAsks [] (Access (sample_access Reveal)) sample_client 11 12 13 []]"
  obtain w' out where run: "world_run sample_desk sample_process ?xs
      (sample_world\<lparr>wd_desk := lock_everything (wd_desk sample_world)\<rparr>) = (w', out)" by fastforce
  have left: "names_left sample_world = {item_name sample_item}" "answers_left sample_world = {}" "\<not> icons_left sample_world"
    by (simp_all add: sample_world_def names_left_def answers_left_def icons_left_def to_ref_def)
  have "\<forall>x \<in> set ?xs. \<not> reopens x" by simp
  from locked_session_is_silent [OF this run] left run show ?thesis by (auto simp: list_all_iff)
qed

end
