(* ===== verification/Spec2Isabelle.thy ===== *)
theory Spec2Isabelle
  imports Recovery_Kit Vault_Registry Server_Pull Sync_Between Sync_Schema Sync_Admin Peer Agent_Front Desktop_History
    Locked_Session
begin

text \<open>
  yara is a password manager that runs on the user's own machine: a vault file, a desktop
  application over it, a broker through which programs (agents) ask for credentials, and a server that
  carries encrypted items between the user's machines. This development models the Rust crates under
  \<open>crates/\<close> and the Rust half of the desktop application under \<open>apps/desktop/src-tauri/\<close>. The
  interface in TypeScript is not part of it.

  \<^bold>\<open>The program and how its parts meet.\<close>
  The vault file holds a random vault key, wrapped under a key derived from the master password, and
  the items sealed under the vault key (\<open>yara-core\<close>). The application keeps at most one vault open
  in its state, saves it after every change, and keeps a list of vaults beside the files
  (\<open>state.rs\<close>). The commands of the interface (\<open>lib.rs\<close>) and the broker read and change that state.
  An agent talks to the command line or to the MCP server; both turn what it asks into one request on a
  pipe; the broker (\<open>yara-broker\<close>) asks the user, charges or issues a grant, runs the command or
  reveals the value, and records what it did in the vault. A sync round (\<open>sync.rs\<close>,
  \<open>yara-sync-client\<close>) pulls sealed items from the server, settles conflicts, and pushes what
  changed here; the server (\<open>yara-sync\<close>) checks signatures and stores rows it cannot read.

  \<^bold>\<open>Theories and sources\<close>, in the order they build on each other.

  \<^item> Foundations: \<open>Prelude\<close> (saturating words, lists updated at the first match, digits, the interface
    \<open>bounded_log\<close>), \<open>Rust_Text\<close> (\<open>str\<close> as UTF-8 bytes: trimming, case, splitting, parsing numbers),
    \<open>Errors\<close> (\<open>error.rs\<close>, \<open>Result\<close> as a sum), \<open>Crypto\<close> (\<open>crypto.rs\<close>, \<open>secret.rs\<close>), \<open>Item_Store\<close>
    (the interface \<open>item_store\<close>), \<open>Sample_Prims\<close> (an instance of the parameters, for witnesses).
  \<^item> The core: \<open>Totp\<close> (\<open>totp.rs\<close>), \<open>Qr\<close> (\<open>qr.rs\<close>), \<open>Recovery_Kit\<close> (\<open>account.rs\<close>), \<open>Vault_Data\<close>,
    \<open>Vault_Json\<close> and \<open>Vault_File\<close> (\<open>vault.rs\<close>: contents, serialisation, envelope), \<open>Generate\<close>
    (\<open>health.rs\<close>, \<open>generate.rs\<close>), \<open>Importer\<close> (\<open>import.rs\<close>).
  \<^item> The application: \<open>Disk\<close> and \<open>App_State\<close> (\<open>state.rs\<close>, \<open>remembered.rs\<close>), \<open>Vault_Registry\<close> (its list
    of vaults over a session), \<open>Clipboard\<close> (\<open>clipboard.rs\<close>), \<open>Import_Flow\<close>, \<open>Desktop_Items\<close>,
    \<open>Desktop_Session\<close> and \<open>Desktop_Icons\<close> (the commands of \<open>lib.rs\<close>), \<open>Desktop_History\<close> (the history of
    accesses over a lock and the file) and \<open>Locked_Session\<close> (every command, timer, waiting call and agent
    request as events in any order).
  \<^item> The broker: \<open>Access_Protocol\<close> and \<open>Access_Wire\<close> (\<open>protocol.rs\<close>, \<open>exposure.rs\<close>), \<open>Grants\<close>
    (\<open>grant.rs\<close>), \<open>Audit_Log\<close> (\<open>audit.rs\<close>), \<open>Broker\<close> and \<open>Listener\<close> (\<open>transport.rs\<close>), \<open>Vault_View\<close>
    (\<open>apps/desktop/src-tauri/src/broker.rs\<close>), \<open>Peer\<close> (\<open>platform.rs\<close>), \<open>Mcp_Server\<close> (\<open>yara-mcp\<close>) and
    \<open>Agent_Front\<close> (\<open>client.rs\<close>, \<open>yara-cli\<close>, and both joined to the broker).
  \<^item> Sync: \<open>Sync_Auth\<close> (\<open>signing.rs\<close>, \<open>auth.rs\<close>), \<open>Sync_Schema\<close> and \<open>Sync_Store\<close> (\<open>store.rs\<close>),
    \<open>Sync_Api\<close> (\<open>api.rs\<close>), \<open>Server_Safety\<close> (what requests can change),
    \<open>Server_Pull\<close> (what pulls bring), \<open>Sync_Admin\<close> (\<open>main.rs\<close>),
    \<open>Icons\<close> (\<open>icons.rs\<close>), \<open>Sync_Client\<close> (\<open>merge.rs\<close>, \<open>deletes.rs\<close>, \<open>client.rs\<close>), \<open>Sync_Wire\<close> (client
    against server), \<open>Sync_Engine\<close>, \<open>Sync_Safety\<close>, \<open>Sync_Outgoing\<close> and \<open>Sync_Join\<close> (\<open>sync.rs\<close>),
    \<open>Sync_Between\<close> (two machines and the server).

  \<^bold>\<open>How code becomes definitions.\<close>
  A struct is a record, an enum a datatype with the same constructors, a function a definition of the
  same name where HOL leaves it free. \<open>u32\<close>, \<open>u64\<close>, \<open>i64\<close> and UUIDs are words that wrap; what
  saturates or checks in the source does so here. Strings are their UTF-8 bytes. A method on
  \<open>&mut self\<close> returns the changed record; an error is the left of a sum, and \<open>and_do\<close> is the question
  mark on a state. What a call draws or finds around it (clock, randomness, new ids) is an argument.
  Where the source lets other code run in the middle (a prompt that waits, a request that is out, a
  timer beside the commands), the operation is cut into its steps and what happens between them is an
  arbitrary function of the state, a step of an inductive relation, or an event of \<open>Locked_Session\<close>, whose
  lemmas put the pieces together again.

  \<^bold>\<open>What is a parameter\<close>, because its code is not in the repository: Argon2, the authenticated
  cipher, HKDF, SHA-256, HMAC, Ed25519, base64, the text of JSON and of UUIDs (records \<open>prims\<close>,
  \<open>otp_prims\<close>, \<open>web\<close>); the readers of CSV, pictures and QR codes (\<open>import_prims\<close>, \<open>image_prims\<close>);
  the pipe, the process that is run, HTTP and its answers. What is assumed of them is documented
  behaviour with a name of its own: sealing opens again (\<open>aead_correct\<close>), what opens was sealed that
  way (\<open>aead_binding\<close>), lengths, encodings that read back (\<open>b64_faithful\<close>, \<open>uuid_faithful\<close>,
  \<open>json_faithful\<close>), signatures that bind. \<open>Sample_Prims\<close> and the witnesses show that the assumptions
  can hold together. The file system, the credential store and the clipboard are part of the model,
  with a script of the calls that fail, so every failure and every crash between two calls is covered.

  \<^bold>\<open>What the theorems show.\<close>

  \<^item> The vault file: what is sealed opens under the password that sealed it and with the same
    contents; an edited header never opens; the cost a file asks for is bounded before it is paid;
    a new password opens the same vault. A record sealed for one item or for a deletion opens as
    nothing else.
  \<^item> The vault: every reachable vault has unique ids, a bounded audit trail and bounded tombstones;
    it refines a finite map; its JSON reads back (but for one setting, see the findings).
  \<^item> The application: whatever calls fail and wherever the process stops, a save leaves the old or the
    new vault readable; the list of vaults stays well formed; after a lock the interface and every
    agent are answered without anything of a vault, but for what was under way when it fell: the item
    names of waiting requests, the answers of actions that had begun, an icon being fetched; listings do not
    depend on secrets, the marks of shared passwords apart; an edit
    changes what was edited; the password changes only for who knows it; the clipboard is emptied of
    what the program put there; an import adds what its preview said, and nothing the second time; the
    cache of icons keeps to its ceilings, and a request names a plain host.
  \<^item> The broker: a disclosure needs an answer of the user at that moment; a grant fits the program,
    item, field and command it was given for; a lock during a prompt voids the answer; what is done is
    recorded once, and the record is read back from the file after a lock; the listener survives failed connections and reopening it
    ends; each message of an agent is answered once and asks the vault at most once; the two front ends
    send the same requests, with different refusals and two spellings apart; an agent sees what the user approved, from end to end.
  \<^item> Sync: nothing changes on the server but by a signed request of the account; a request counts
    once; an invite is spent once; the database keeps its keys and references, whatever was asked of it
    and however old the file it started from; whatever the server answers, a round keeps the edits made
    here, deletes nothing without a proof and brings back nothing deleted; a change pushed by one machine
    is on another after the round that pulls it, through sealing, wire and database; a machine that joins gets the vault the first one enrolled; a device that
    pulls again is given every change, unless a push falls between the two reads of a pull.

  The findings of the manifest name the theorems that show where the code does something else than it
  says. Those theorems stand beside the properties they qualify.

  \<^bold>\<open>Interfaces.\<close>
  \<open>bounded_log\<close> is interpreted by the vault's audit trail and by the broker's log, \<open>item_store\<close> by the
  vault's items, \<open>vault_bridge\<close> (the trait the broker sees a vault through) by the desktop's view of its
  state, \<open>board\<close> and \<open>shared_board\<close> (the trait of the clipboard) by the Windows clipboard.

  \<^bold>\<open>Bounds and fuel.\<close>
  Loops of the source end by structure or by a measure with its proof: reopening the pipe by the attempts
  left, trimming by length. Only rejection sampling (\<open>index_loop\<close>) may run for as long as the random
  bytes are rejected; it runs over the bytes drawn and is \<open>None\<close> when they are used up, and the
  properties of a generated password say what holds of the result it has. Opening the clipboard tries ten
  times, as the source does.

  \<^bold>\<open>Not modelled.\<close>
  Starting the window toolkit and its events (\<open>run\<close> of \<open>lib.rs\<close>, \<open>main.rs\<close>), sending over HTTP, opening the
  database file, parsing of arguments by clap, memory wiping and redacted printing, poisoned mutexes, and
  the Windows calls themselves. Numbers of JSON are integers and a record is read from a JSON object only
  (serde would read one from an array too). SQL is the meaning of the statements, not an interpreter.
  Entropy is compared exactly instead of in floating point.
\<close>

end
